(* ===== verification/Lars_Prelude.thy ===== *)
theory Lars_Prelude
  imports Main "HOL-Library.Word" "HOL-Library.AList"
begin

text \<open>
  The vocabulary shared by every theory of the development: the machine integers of the C++
  sources, the ways an operation can go wrong, the packing of two 32-bit numbers into the 64-bit
  keys of the routing tables, hash maps as association lists, and the invariant method for
  components that are driven by a sequence of operations.
\<close>

unbundle bit_operations_syntax

named_theorems lars_defs \<open>the one-line definitions the simplifier may always unfold\<close>

subsection \<open>Machine integers and results\<close>

text \<open>
  \<open>int\<close> and \<open>int32\<close> are read with \<open>sint\<close>, \<open>unsigned\<close> and \<open>uint32_t\<close> with \<open>uint\<close>; both are
  32 bits wide, so a conversion between them keeps the bits.
\<close>

type_synonym int32 = "32 word"
type_synonym uint32 = "32 word"
type_synonym uint64 = "64 word"
type_synonym byte = "8 word"
type_synonym addr = nat

text \<open>
  How an operation ends when it does not return: a failed \<open>assert\<close>, \<open>exit(1)\<close>, a dereferenced
  null pointer, a dereferenced pointer to a deleted object, \<open>front()\<close> of an empty list, or an
  access outside an array. The last four are undefined behaviour in C++; the model stops there.
\<close>

datatype fault =
    Assert_Failed
  | Exited
  | Null_Deref
  | Dangling
  | Empty_Front
  | Out_Of_Bounds

type_synonym 'a res = "fault + 'a"

definition res_bind :: "'a res \<Rightarrow> ('a \<Rightarrow> 'b res) \<Rightarrow> 'b res" where
  "res_bind r f = (case r of Inl e \<Rightarrow> Inl e | Inr x \<Rightarrow> f x)"

lemma res_bind_simps [simp]:
  "res_bind (Inl e) f = Inl e"
  "res_bind (Inr x) f = f x"
  by (simp_all add: res_bind_def)

lemma res_bind_eq_Inr:
  "res_bind r f = Inr y \<longleftrightarrow> (\<exists>x. r = Inr x \<and> f x = Inr y)"
  by (cases r) simp_all

lemma res_bind_eq_Inl:
  "res_bind r f = Inl e \<longleftrightarrow> r = Inl e \<or> (\<exists>x. r = Inr x \<and> f x = Inl e)"
  by (cases r) simp_all

lemma res_bind_cong [fundef_cong]:
  "r = r' \<Longrightarrow> (\<And>x. r' = Inr x \<Longrightarrow> f x = g x) \<Longrightarrow> res_bind r f = res_bind r' g"
  by (cases r') simp_all

text \<open>A loop over a list whose body can fail: the first failure ends it.\<close>

fun res_fold :: "('a \<Rightarrow> 's \<Rightarrow> 's res) \<Rightarrow> 'a list \<Rightarrow> 's \<Rightarrow> 's res" where
  "res_fold f [] s = Inr s"
| "res_fold f (x # xs) s = res_bind (f x s) (res_fold f xs)"

lemma res_fold_append:
  "res_fold f (xs @ ys) s = res_bind (res_fold f xs s) (res_fold f ys)"
proof (induction xs arbitrary: s)
  case (Cons x xs)
  then show ?case by (cases "f x s") simp_all
qed simp

lemma res_fold_invariant:
  assumes "P s" and "\<And>x s s'. x \<in> set xs \<Longrightarrow> P s \<Longrightarrow> f x s = Inr s' \<Longrightarrow> P s'"
    and "res_fold f xs s = Inr s'"
  shows "P s'"
  using assms
proof (induction xs arbitrary: s)
  case (Cons x xs)
  from Cons.prems(3) obtain t where t: "f x s = Inr t" and rest: "res_fold f xs t = Inr s'"
    by (auto simp: res_bind_eq_Inr)
  have "P t" using Cons.prems(1,2) t by (meson list.set_intros(1))
  then show ?case
    by (rule Cons.IH [OF _ _ rest]) (meson Cons.prems(2) list.set_intros(2))
qed simp

lemma res_fold_total:
  assumes "P s"
    and "\<And>x s. x \<in> set xs \<Longrightarrow> P s \<Longrightarrow> \<exists>s'. f x s = Inr s' \<and> P s'"
  shows "\<exists>s'. res_fold f xs s = Inr s' \<and> P s'"
  using assms
proof (induction xs arbitrary: s)
  case (Cons x xs)
  obtain t where "f x s = Inr t" "P t"
    using Cons.prems by (meson list.set_intros(1))
  moreover have "\<exists>s'. res_fold f xs t = Inr s' \<and> P s'"
    by (rule Cons.IH [OF \<open>P t\<close>]) (meson Cons.prems(2) list.set_intros(2))
  ultimately show ?case by simp
qed simp

subsection \<open>Packing two 32-bit numbers into a 64-bit key\<close>

text \<open>
  \<open>((uint64_t)hi << 32) + lo\<close> with \<open>lo\<close> of type \<open>int\<close>: \<open>lo\<close> is sign-extended before the
  addition, and the bits \<open>hi\<close> is extended with are shifted out.
\<close>

definition pack64 :: "int32 \<Rightarrow> int32 \<Rightarrow> uint64" where
  "pack64 hi lo = push_bit 32 (scast hi) + scast lo"

definition hi32 :: "uint64 \<Rightarrow> int32" where
  "hi32 k = ucast (drop_bit 32 k)"

definition lo32 :: "uint64 \<Rightarrow> int32" where
  "lo32 k = ucast k"

lemma pack64_unsigned: "push_bit 32 (ucast hi) + scast lo = pack64 hi lo"
proof -
  have "push_bit 32 (ucast hi :: uint64) = push_bit 32 (scast hi)"
  proof (rule bit_word_eqI)
    fix n :: nat
    assume "n < LENGTH(64)"
    then have "min 31 (n - 32) = n - 32" by simp
    then show "bit (push_bit 32 (ucast hi :: uint64)) n = bit (push_bit 32 (scast hi :: uint64)) n"
      using \<open>n < LENGTH(64)\<close>
      by (simp add: bit_push_bit_iff bit_ucast_iff bit_signed_iff)
  qed
  then show ?thesis by (simp add: pack64_def)
qed

lemma uint32_bounds: "0 \<le> uint (w :: uint32)" "uint (w :: uint32) < 2 ^ 32"
  using uint_lt2p [of w] by simp_all

lemma sint_int32_bounds: "- (2 ^ 31) \<le> sint (w :: int32)" "sint (w :: int32) < 2 ^ 31"
  using sint_greater_eq [of w] sint_less [of w] by simp_all

lemma uint_eq_sint_mod: "uint (w :: int32) = sint w mod 2 ^ 32"
  using uint_sint [of w] by (simp add: take_bit_eq_mod)

lemma uint_pack64: "uint (pack64 hi lo) = (uint hi * 2 ^ 32 + sint lo) mod 2 ^ 64"
proof -
  have "uint (push_bit 32 (ucast hi :: uint64)) = uint hi * 2 ^ 32"
    using uint32_bounds [of hi]
    by (simp add: push_bit_eq_mult uint_word_ariths unsigned_ucast_eq take_bit_eq_mod)
  moreover have "uint (scast lo :: uint64) = sint lo mod 2 ^ 64"
    by (subst scast_eq) (simp only: uint_word_of_int, simp)
  ultimately show ?thesis
    by (simp only: pack64_unsigned [symmetric] uint_word_ariths) (simp add: mod_simps)
qed

lemma lo32_pack64 [simp]: "lo32 (pack64 hi lo) = lo"
proof (rule word_uint_eqI)
  have "uint (lo32 (pack64 hi lo)) = (uint hi * 2 ^ 32 + sint lo) mod 2 ^ 64 mod 2 ^ 32"
    by (simp add: lo32_def unsigned_ucast_eq uint_pack64 take_bit_eq_mod)
  also have "\<dots> = (uint hi * 2 ^ 32 + sint lo) mod 2 ^ 32"
    by (rule mod_mod_cancel) simp
  finally show "uint (lo32 (pack64 hi lo)) = uint lo"
    by (simp add: uint_eq_sint_mod)
qed

lemma hi32_pack64_uint:
  "uint (hi32 (pack64 hi lo)) = (uint hi + sint lo div 2 ^ 32) mod 2 ^ 32"
proof -
  have "uint (hi32 (pack64 hi lo)) = uint (pack64 hi lo) div 2 ^ 32 mod 2 ^ 32"
    by (simp only: hi32_def unsigned_ucast_eq unsigned_drop_bit_eq take_bit_eq_mod
      drop_bit_eq_div) (simp add: uint_div)
  also have "uint (pack64 hi lo) div 2 ^ 32 = (uint hi * 2 ^ 32 + sint lo) div 2 ^ 32 mod 2 ^ 32"
    using mod_mult2_eq' [of "uint hi * 2 ^ 32 + sint lo" "2 ^ 32" "2 ^ 32"]
    by (simp add: uint_pack64)
  also have "\<dots> mod 2 ^ 32 = (uint hi + sint lo div 2 ^ 32) mod 2 ^ 32"
    by simp
  finally show ?thesis .
qed

lemma hi32_pack64:
  "hi32 (pack64 hi lo) = (if sint lo < 0 then hi - 1 else hi)"
proof (rule word_uint_eqI)
  have "sint lo div 2 ^ 32 = (if sint lo < 0 then -1 else 0)"
    using sint_int32_bounds [of lo] by auto
  then show "uint (hi32 (pack64 hi lo)) = uint (if sint lo < 0 then hi - 1 else hi)"
    using uint32_bounds [of hi]
    by (auto simp: hi32_pack64_uint uint_word_ariths)
qed

text \<open>Different pairs have different keys, negative numbers included.\<close>

lemma pack64_inject [simp]: "pack64 hi lo = pack64 hi' lo' \<longleftrightarrow> hi = hi' \<and> lo = lo'"
proof
  assume eq: "pack64 hi lo = pack64 hi' lo'"
  then have "lo = lo'" by (metis lo32_pack64)
  moreover from eq this have "hi = hi'"
    by (metis hi32_pack64 diff_add_cancel)
  ultimately show "hi = hi' \<and> lo = lo'" by simp
qed simp

text \<open>The bits a negative low half borrows: what unpacking returns.\<close>

lemma unpack_pack64_nonneg: "0 \<le> sint lo \<Longrightarrow> (hi32 (pack64 hi lo), lo32 (pack64 hi lo)) = (hi, lo)"
  by (simp add: hi32_pack64)

subsection \<open>Hash maps as association lists\<close>

text \<open>
  A \<open>hash_map\<close> whose entries are stored by value or walked by an iterator is an association list:
  \<open>find\<close> is \<open>map_of\<close>, \<open>m[k] = v\<close> is \<open>AList.update\<close>, \<open>erase\<close> is \<open>AList.delete\<close>.
\<close>

type_synonym ('k, 'v) hmap = "('k \<times> 'v) list"

abbreviation hm_keys :: "('k, 'v) hmap \<Rightarrow> 'k list" where
  "hm_keys m \<equiv> map fst m"

abbreviation hm_wf :: "('k, 'v) hmap \<Rightarrow> bool" where
  "hm_wf m \<equiv> distinct (hm_keys m)"

lemma map_of_update [simp]: "map_of (AList.update k v m) = (map_of m)(k \<mapsto> v)"
  by (simp add: update_conv')

lemma map_of_delete [simp]: "map_of (AList.delete k m) = (map_of m)(k := None)"
  by (simp add: delete_conv')

lemma hm_wf_update [simp]: "hm_wf (AList.update k v m) \<longleftrightarrow> hm_wf m"
  by (induction m) (auto simp: update_keys)

lemma hm_wf_delete [simp]: "hm_wf m \<Longrightarrow> hm_wf (AList.delete k m)"
  by (simp add: distinct_delete)

lemma set_hm_keys: "set (hm_keys m) = dom (map_of m)"
  by (simp add: dom_map_of_conv_image_fst)

lemma hm_update_new: "map_of m k = None \<Longrightarrow> AList.update k v m = m @ [(k, v)]"
  by (induction m) (auto split: if_splits)

lemma hm_update_neq_Nil [simp]: "AList.update k v m \<noteq> []"
  by (cases m) (auto split: if_splits)

subsection \<open>Lists as queues\<close>

text \<open>\<open>std::list::remove\<close> is \<open>removeAll\<close>; \<open>pop_front\<close> then \<open>push_back\<close> is \<open>rotate1\<close>.\<close>

lemma distinct_removeAll_snoc:
  "distinct xs \<Longrightarrow> distinct ys \<Longrightarrow> x \<notin> set ys \<Longrightarrow> set xs \<inter> set ys = {} \<Longrightarrow>
   distinct (removeAll x xs @ ys @ [x])"
  by (auto simp: distinct_removeAll)

lemma rotate_snoc: "rotate (Suc n) xs = rotate1 (rotate n xs)"
  by simp

subsection \<open>Components driven by operations\<close>

text \<open>
  A component is its initial states and one step per operation. What every operation keeps holds
  in every state a sequence of operations can lead to.
\<close>

locale op_machine =
  fixes initial :: "'s \<Rightarrow> bool" and op_step :: "'s \<Rightarrow> 's \<Rightarrow> bool" and op_inv :: "'s \<Rightarrow> bool"
  assumes inv_initial: "initial s \<Longrightarrow> op_inv s"
    and inv_step: "op_inv s \<Longrightarrow> op_step s t \<Longrightarrow> op_inv t"
begin

lemma inv_run: "rtranclp op_step s t \<Longrightarrow> op_inv s \<Longrightarrow> op_inv t"
  by (induction rule: rtranclp_induct) (auto intro: inv_step)

lemma inv_reachable: "initial s \<Longrightarrow> rtranclp op_step s t \<Longrightarrow> op_inv t"
  using inv_initial inv_run by blast

end

subsection \<open>Work dealt out in turn\<close>

text \<open>What place \<open>i\<close> of \<open>n\<close> gets of a sequence when place \<open>t\<close> has the first turn.\<close>

fun share :: "nat \<Rightarrow> nat \<Rightarrow> nat \<Rightarrow> 'a list \<Rightarrow> 'a list" where
  "share n t i [] = []"
| "share n t i (x # xs) = (if t = i then [x] else []) @ share n (Suc t mod n) i xs"

lemma share_sublist: "set (share n t i xs) \<subseteq> set xs"
  by (induction xs arbitrary: t) auto

text \<open>
  An operation that appends its argument, as \<open>mark x\<close>, to the queue whose turn it is and passes the
  turn on; the server's workers and the reporter's storage threads are fed this way.
\<close>

locale dealer =
  fixes deal :: "'a \<Rightarrow> 's \<Rightarrow> 's res" and mark :: "'a \<Rightarrow> 'b" and hand :: "'s \<Rightarrow> nat \<Rightarrow> 'b list"
    and next_turn :: "'s \<Rightarrow> nat" and places :: "'s \<Rightarrow> nat" and dealing :: "'s \<Rightarrow> bool"
  assumes deal_one: "dealing s \<Longrightarrow> \<exists>s'. deal x s = Inr s' \<and> dealing s' \<and> places s' = places s \<and>
    next_turn s' = Suc (next_turn s) mod places s \<and>
    (\<forall>j < places s. hand s' j = hand s j @ (if j = next_turn s then [mark x] else []))"
begin

lemma deal_all:
  "dealing s \<Longrightarrow> \<exists>s'. res_fold deal xs s = Inr s' \<and> dealing s' \<and> places s' = places s \<and>
    (\<forall>j < places s. hand s' j = hand s j @ map mark (share (places s) (next_turn s) j xs))"
proof (induction xs arbitrary: s)
  case (Cons x xs)
  obtain t where t: "deal x s = Inr t" "dealing t" "places t = places s"
      "next_turn t = Suc (next_turn s) mod places s"
      "\<forall>j < places s. hand t j = hand s j @ (if j = next_turn s then [mark x] else [])"
    using deal_one [OF Cons.prems] by blast
  obtain s' where "res_fold deal xs t = Inr s'" "dealing s'" "places s' = places t"
      "\<forall>j < places t. hand s' j = hand t j @ map mark (share (places t) (next_turn t) j xs)"
    using Cons.IH [OF t(2)] by blast
  then show ?case using t by (intro exI [of _ s']) auto
qed simp

end

end
