(* ===== verification/Event_Loop.thy ===== *)
theory Event_Loop
  imports Lars_Prelude
begin

text \<open>
  \<open>event_loop\<close> (\<open>lars_reactor/src/event_loop.cpp\<close>, \<open>include/event_loop.h\<close>, \<open>event_base.h\<close>): the table
  of registered descriptors with their callbacks, the set of descriptors handed out by
  \<open>get_listen_fds\<close>, the kernel's epoll set behind \<open>_epfd\<close>, and the list of ready tasks. Callbacks,
  their arguments and task functions are values of abstract types; what calling one does is a
  parameter of the functions that call it.
\<close>

subsection \<open>State\<close>

definition EPOLLIN :: int32 where [lars_defs]: "EPOLLIN = 1"
definition EPOLLOUT :: int32 where [lars_defs]: "EPOLLOUT = 4"
definition EPOLLERR :: int32 where [lars_defs]: "EPOLLERR = 8"
definition EPOLLHUP :: int32 where [lars_defs]: "EPOLLHUP = 16"

record ('cb, 'arg) io_event =
  ev_mask :: int32
  read_callback :: "'cb option"
  write_callback :: "'cb option"
  rcb_args :: "'arg option"
  wcb_args :: "'arg option"

text \<open>
  The constructor clears the four pointers and leaves \<open>mask\<close> unset; \<open>add_io_event\<close> assigns it
  before anything reads it.
\<close>

definition new_io_event :: "('cb, 'arg) io_event" where
  "new_io_event = \<lparr>ev_mask = 0, read_callback = None, write_callback = None,
     rcb_args = None, wcb_args = None\<rparr>"

record ('cb, 'arg, 'task) event_loop =
  io_evs :: "int32 \<rightharpoonup> ('cb, 'arg) io_event"
  listen_fds :: "int32 set"
  epoll_set :: "int32 \<rightharpoonup> int32"
  ready_tasks :: "('task \<times> 'arg option) list"

definition new_event_loop :: "('cb, 'arg, 'task) event_loop" where
  "new_event_loop = \<lparr>io_evs = Map.empty, listen_fds = {}, epoll_set = Map.empty, ready_tasks = []\<rparr>"

text \<open>
  \<open>epoll_ctl\<close>: adding a registered descriptor, changing or deleting an unregistered one fails, and
  so does any descriptor the kernel refuses (\<open>pollable\<close> is false, e.g. it is closed).
\<close>

datatype ctl_op = CTL_ADD | CTL_MOD | CTL_DEL

fun epoll_ctl :: "(int32 \<Rightarrow> bool) \<Rightarrow> ctl_op \<Rightarrow> int32 \<Rightarrow> int32 \<Rightarrow> (int32 \<rightharpoonup> int32) \<Rightarrow> (int32 \<rightharpoonup> int32) option" where
  "epoll_ctl pollable CTL_ADD fd evs k =
     (if pollable fd \<and> k fd = None then Some (k(fd \<mapsto> evs)) else None)"
| "epoll_ctl pollable CTL_MOD fd evs k =
     (if pollable fd \<and> k fd \<noteq> None then Some (k(fd \<mapsto> evs)) else None)"
| "epoll_ctl pollable CTL_DEL fd evs k =
     (if pollable fd \<and> k fd \<noteq> None then Some (k(fd := None)) else None)"

subsection \<open>Registering and removing events\<close>

definition set_io_callback ::
  "'cb \<Rightarrow> int32 \<Rightarrow> 'arg option \<Rightarrow> ('cb, 'arg) io_event \<Rightarrow> ('cb, 'arg) io_event" where
  "set_io_callback proc msk args ev =
     (if msk AND EPOLLIN \<noteq> 0 then ev\<lparr>read_callback := Some proc, rcb_args := args\<rparr>
      else if msk AND EPOLLOUT \<noteq> 0 then ev\<lparr>write_callback := Some proc, wcb_args := args\<rparr>
      else ev)"

definition add_io_event :: "(int32 \<Rightarrow> bool) \<Rightarrow> int32 \<Rightarrow> 'cb \<Rightarrow> int32 \<Rightarrow> 'arg option \<Rightarrow>
    ('cb, 'arg, 'task) event_loop \<Rightarrow> ('cb, 'arg, 'task) event_loop" where
  "add_io_event pollable fd proc msk args el =
     (let it = io_evs el fd;
          final_mask = (case it of None \<Rightarrow> msk | Some ev \<Rightarrow> ev_mask ev OR msk);
          ctl = (case it of None \<Rightarrow> CTL_ADD | Some _ \<Rightarrow> CTL_MOD);
          ev = (case it of None \<Rightarrow> new_io_event | Some ev \<Rightarrow> ev);
          ev = (set_io_callback proc msk args ev)\<lparr>ev_mask := final_mask\<rparr>;
          el = el\<lparr>io_evs := (io_evs el)(fd \<mapsto> ev)\<rparr>
      in case epoll_ctl pollable ctl fd final_mask (epoll_set el) of
           None \<Rightarrow> el
         | Some k \<Rightarrow> el\<lparr>epoll_set := k, listen_fds := insert fd (listen_fds el)\<rparr>)"

definition del_io_event :: "(int32 \<Rightarrow> bool) \<Rightarrow> int32 \<Rightarrow>
    ('cb, 'arg, 'task) event_loop \<Rightarrow> ('cb, 'arg, 'task) event_loop" where
  "del_io_event pollable fd el =
     (let el = el\<lparr>io_evs := (io_evs el)(fd := None), listen_fds := listen_fds el - {fd}\<rparr>
      in case epoll_ctl pollable CTL_DEL fd 0 (epoll_set el) of
           None \<Rightarrow> el
         | Some k \<Rightarrow> el\<lparr>epoll_set := k\<rparr>)"

definition del_io_mask :: "(int32 \<Rightarrow> bool) \<Rightarrow> int32 \<Rightarrow> int32 \<Rightarrow>
    ('cb, 'arg, 'task) event_loop \<Rightarrow> ('cb, 'arg, 'task) event_loop" where
  "del_io_mask pollable fd msk el =
     (case io_evs el fd of
        None \<Rightarrow> el
      | Some ev \<Rightarrow>
          (let o_mask = ev_mask ev AND NOT msk;
               el = el\<lparr>io_evs := (io_evs el)(fd \<mapsto> ev\<lparr>ev_mask := o_mask\<rparr>)\<rparr>
           in if o_mask = 0 then del_io_event pollable fd el
              else (case epoll_ctl pollable CTL_MOD fd o_mask (epoll_set el) of
                      None \<Rightarrow> el
                    | Some k \<Rightarrow> el\<lparr>epoll_set := k\<rparr>)))"

definition add_task :: "'task \<Rightarrow> 'arg option \<Rightarrow>
    ('cb, 'arg, 'task) event_loop \<Rightarrow> ('cb, 'arg, 'task) event_loop" where
  "add_task func args el = el\<lparr>ready_tasks := ready_tasks el @ [(func, args)]\<rparr>"

definition get_listen_fds :: "('cb, 'arg, 'task) event_loop \<Rightarrow> int32 set" where
  "get_listen_fds el = listen_fds el"

subsection \<open>One round of \<open>event_process\<close>\<close>

text \<open>
  \<open>run cb fd args\<close> is what calling a callback does to the loop and to the rest of the program's
  state. A fired descriptor must still be registered (\<open>assert\<close>); only one of its callbacks runs.
\<close>

type_synonym ('cb, 'arg, 'task, 'w) loop_state = "'w \<times> ('cb, 'arg, 'task) event_loop"

fun call_callback :: "('cb \<Rightarrow> int32 \<Rightarrow> 'arg option \<Rightarrow> 's \<Rightarrow> 's res) \<Rightarrow>
    'cb option \<Rightarrow> int32 \<Rightarrow> 'arg option \<Rightarrow> 's \<Rightarrow> 's res" where
  "call_callback run None fd args s = Inl Null_Deref"
| "call_callback run (Some cb) fd args s = run cb fd args s"

definition dispatch_event ::
  "(int32 \<Rightarrow> bool) \<Rightarrow>
   ('cb \<Rightarrow> int32 \<Rightarrow> 'arg option \<Rightarrow> ('cb, 'arg, 'task, 'w) loop_state \<Rightarrow> ('cb, 'arg, 'task, 'w) loop_state res) \<Rightarrow>
   int32 \<times> int32 \<Rightarrow> ('cb, 'arg, 'task, 'w) loop_state \<Rightarrow> ('cb, 'arg, 'task, 'w) loop_state res" where
  "dispatch_event pollable run fired s =
     (case (fired, s) of ((fd, events), (w, el)) \<Rightarrow>
       (case io_evs el fd of
          None \<Rightarrow> Inl Assert_Failed
        | Some ev \<Rightarrow>
            if events AND EPOLLIN \<noteq> 0 then call_callback run (read_callback ev) fd (rcb_args ev) s
            else if events AND EPOLLOUT \<noteq> 0 then call_callback run (write_callback ev) fd (wcb_args ev) s
            else if events AND (EPOLLHUP OR EPOLLERR) \<noteq> 0 then
              (if read_callback ev \<noteq> None then call_callback run (read_callback ev) fd (rcb_args ev) s
               else if write_callback ev \<noteq> None then call_callback run (write_callback ev) fd (wcb_args ev) s
               else Inr (w, del_io_event pollable fd el))
            else Inr s))"

text \<open>
  \<open>execute_ready_tasks\<close> walks the vector and then clears it. A task that pushes another task while
  the walk is on may move the vector under the iterator, so the model stops there.
\<close>

fun run_tasks ::
  "('task \<Rightarrow> 'arg option \<Rightarrow> ('cb, 'arg, 'task, 'w) loop_state \<Rightarrow> ('cb, 'arg, 'task, 'w) loop_state res) \<Rightarrow>
   ('task \<times> 'arg option) list \<Rightarrow> ('cb, 'arg, 'task, 'w) loop_state \<Rightarrow> ('cb, 'arg, 'task, 'w) loop_state res" where
  "run_tasks run_task [] s = Inr s"
| "run_tasks run_task ((func, args) # ts) s =
     res_bind (run_task func args s) (\<lambda>s'.
       if ready_tasks (snd s') = ready_tasks (snd s) then run_tasks run_task ts s' else Inl Dangling)"

definition execute_ready_tasks ::
  "('task \<Rightarrow> 'arg option \<Rightarrow> ('cb, 'arg, 'task, 'w) loop_state \<Rightarrow> ('cb, 'arg, 'task, 'w) loop_state res) \<Rightarrow>
   ('cb, 'arg, 'task, 'w) loop_state \<Rightarrow> ('cb, 'arg, 'task, 'w) loop_state res" where
  "execute_ready_tasks run_task s =
     res_bind (run_tasks run_task (ready_tasks (snd s)) s)
       (\<lambda>(w, el). Inr (w, el\<lparr>ready_tasks := []\<rparr>))"

text \<open>One iteration of the \<open>while (true)\<close>: the batch \<open>epoll_wait\<close> returned, then the tasks.\<close>

definition event_process_round where
  "event_process_round pollable run run_task fired s =
     res_bind (res_fold (dispatch_event pollable run) fired s) (execute_ready_tasks run_task)"

subsection \<open>The registration invariant\<close>

text \<open>
  The three tables agree: a descriptor is in \<open>listen_fds\<close> exactly when it has an entry, the kernel
  watches it with exactly the recorded mask, and every event asked for has its callback.
\<close>

definition event_ok :: "('cb, 'arg) io_event \<Rightarrow> bool" where
  "event_ok ev \<longleftrightarrow> ev_mask ev \<in> {1, 4, 5} \<and>
     (ev_mask ev AND EPOLLIN \<noteq> 0 \<longrightarrow> read_callback ev \<noteq> None) \<and>
     (ev_mask ev AND EPOLLOUT \<noteq> 0 \<longrightarrow> write_callback ev \<noteq> None)"

definition loop_ok :: "('cb, 'arg, 'task) event_loop \<Rightarrow> bool" where
  "loop_ok el \<longleftrightarrow> listen_fds el = dom (io_evs el) \<and>
     (\<forall>fd. epoll_set el fd = map_option ev_mask (io_evs el fd)) \<and>
     (\<forall>fd ev. io_evs el fd = Some ev \<longrightarrow> event_ok ev)"

lemma loop_okD:
  assumes "loop_ok el"
  shows "listen_fds el = dom (io_evs el)"
    and "epoll_set el fd = map_option ev_mask (io_evs el fd)"
    and "io_evs el fd = Some ev \<Longrightarrow> event_ok ev"
  using assms by (auto simp: loop_ok_def)

lemma loop_ok_new [simp]: "loop_ok new_event_loop"
  by (simp add: loop_ok_def new_event_loop_def)

definition registered :: "int32 \<Rightarrow> 'cb \<Rightarrow> int32 \<Rightarrow> 'arg option \<Rightarrow> ('cb, 'arg) io_event option \<Rightarrow> ('cb, 'arg) io_event" where
  "registered fd proc msk args it =
     (let ev = (case it of None \<Rightarrow> new_io_event | Some ev \<Rightarrow> ev)
      in (set_io_callback proc msk args ev)
           \<lparr>ev_mask := (case it of None \<Rightarrow> msk | Some ev \<Rightarrow> ev_mask ev OR msk)\<rparr>)"

lemma event_ok_registered:
  assumes "msk = EPOLLIN \<or> msk = EPOLLOUT" and "\<And>ev. it = Some ev \<Longrightarrow> event_ok ev"
  shows "event_ok (registered fd proc msk args it)"
  using assms
  by (cases it)
    (auto simp: registered_def event_ok_def set_io_callback_def new_io_event_def lars_defs)

lemma io_evs_add: "io_evs (add_io_event pollable fd proc msk args el) fd = Some (registered fd proc msk args (io_evs el fd))"
  by (simp add: add_io_event_def registered_def Let_def split: option.splits)

lemma add_io_event_ok_eq:
  assumes "loop_ok el" and "pollable fd"
  shows "add_io_event pollable fd proc msk args el =
    el\<lparr>io_evs := (io_evs el)(fd \<mapsto> registered fd proc msk args (io_evs el fd)),
       epoll_set := (epoll_set el)(fd \<mapsto> ev_mask (registered fd proc msk args (io_evs el fd))),
       listen_fds := insert fd (listen_fds el)\<rparr>"
  using assms(2) loop_okD(2) [OF assms(1), of fd]
  by (cases "io_evs el fd") (simp_all add: add_io_event_def registered_def Let_def)

lemma loop_ok_add:
  assumes "loop_ok el" and "pollable fd" and "msk = EPOLLIN \<or> msk = EPOLLOUT"
  shows "loop_ok (add_io_event pollable fd proc msk args el)"
  using assms loop_okD [OF assms(1)] event_ok_registered [OF assms(3), of "io_evs el fd"]
  unfolding add_io_event_ok_eq [where pollable = pollable, OF assms(1,2)]
  by (auto simp: loop_ok_def)

lemma del_io_event_ok_eq:
  assumes "loop_ok el" and "pollable fd"
  shows "del_io_event pollable fd el =
    el\<lparr>io_evs := (io_evs el)(fd := None), listen_fds := listen_fds el - {fd},
       epoll_set := (epoll_set el)(fd := None)\<rparr>"
proof (cases "io_evs el fd")
  case None
  with loop_okD(2) [OF assms(1), of fd] have "epoll_set el fd = None" by simp
  then show ?thesis using assms(2)
    by (simp add: del_io_event_def fun_upd_idem)
next
  case (Some ev)
  with loop_okD(2) [OF assms(1), of fd] assms(2) show ?thesis
    by (simp add: del_io_event_def)
qed

lemma loop_ok_del:
  assumes "loop_ok el" and "pollable fd"
  shows "loop_ok (del_io_event pollable fd el)"
  using loop_okD [OF assms(1)]
  unfolding del_io_event_ok_eq [where pollable = pollable, OF assms]
  by (auto simp: loop_ok_def)

lemma loop_ok_del_mask:
  assumes "loop_ok el" and "pollable fd" and "msk = EPOLLIN \<or> msk = EPOLLOUT"
  shows "loop_ok (del_io_mask pollable fd msk el)"
proof (cases "io_evs el fd")
  case None
  then show ?thesis using assms(1) by (simp add: del_io_mask_def)
next
  case (Some ev)
  note ok = loop_okD(3) [OF assms(1) Some]
  note agree = loop_okD(2) [OF assms(1), of fd]
  let ?m = "ev_mask ev AND NOT msk"
  show ?thesis
  proof (cases "?m = 0")
    case True
    let ?el = "el\<lparr>io_evs := (io_evs el)(fd \<mapsto> ev\<lparr>ev_mask := ?m\<rparr>)\<rparr>"
    have "del_io_event pollable fd ?el = del_io_event pollable fd el"
      using assms(2) Some agree by (simp add: del_io_event_def)
    then show ?thesis
      using True Some loop_ok_del [where pollable = pollable, OF assms(1,2)] by (simp add: del_io_mask_def Let_def)
  next
    case False
    have "event_ok (ev\<lparr>ev_mask := ?m\<rparr>)"
      using ok assms(3) False by (auto simp: event_ok_def lars_defs)
    then show ?thesis
      using False Some agree assms(2) loop_okD [OF assms(1)]
      by (auto simp: del_io_mask_def Let_def loop_ok_def)
  qed
qed

text \<open>
  The loop as a machine: whoever holds it adds or removes events, with a mask of one bit as the
  comment before \<open>add_io_event\<close> asks, on descriptors the kernel accepts.
\<close>

inductive loop_step :: "(int32 \<Rightarrow> bool) \<Rightarrow>
    ('cb, 'arg, 'task) event_loop \<Rightarrow> ('cb, 'arg, 'task) event_loop \<Rightarrow> bool"
  for pollable :: "int32 \<Rightarrow> bool" where
  step_add: "pollable fd \<Longrightarrow> msk = EPOLLIN \<or> msk = EPOLLOUT \<Longrightarrow>
    loop_step pollable el (add_io_event pollable fd proc msk args el)"
| step_del: "pollable fd \<Longrightarrow> loop_step pollable el (del_io_event pollable fd el)"
| step_del_mask: "pollable fd \<Longrightarrow> msk = EPOLLIN \<or> msk = EPOLLOUT \<Longrightarrow>
    loop_step pollable el (del_io_mask pollable fd msk el)"
| step_task: "loop_step pollable el (add_task func args el)"

lemma loop_ok_add_task [simp]: "loop_ok (add_task func args el) = loop_ok el"
  by (simp add: loop_ok_def add_task_def)

interpretation loop_machine: op_machine "\<lambda>el. el = new_event_loop" "loop_step pollable" loop_ok
  by unfold_locales
    (auto elim!: loop_step.cases intro: loop_ok_add loop_ok_del loop_ok_del_mask)

subsection \<open>A batch of events\<close>

text \<open>
  The kernel reports input or output only where it was asked for. A callback is local when it
  leaves the entries of the other descriptors alone and returns in a state that still agrees.
\<close>

definition fired_ok :: "('cb, 'arg, 'task) event_loop \<Rightarrow> int32 \<times> int32 \<Rightarrow> bool" where
  "fired_ok el f = (case io_evs el (fst f) of
     None \<Rightarrow> False
   | Some ev \<Rightarrow> (snd f AND EPOLLIN \<noteq> 0 \<longrightarrow> ev_mask ev AND EPOLLIN \<noteq> 0) \<and>
       (snd f AND EPOLLOUT \<noteq> 0 \<longrightarrow> ev_mask ev AND EPOLLOUT \<noteq> 0))"

definition callback_local ::
  "('cb \<Rightarrow> int32 \<Rightarrow> 'arg option \<Rightarrow> ('cb, 'arg, 'task, 'w) loop_state \<Rightarrow> ('cb, 'arg, 'task, 'w) loop_state res) \<Rightarrow> bool" where
  "callback_local run \<longleftrightarrow> (\<forall>cb fd args w el. loop_ok el \<longrightarrow>
     (\<exists>w' el'. run cb fd args (w, el) = Inr (w', el') \<and> loop_ok el' \<and>
        (\<forall>fd'. fd' \<noteq> fd \<longrightarrow> io_evs el' fd' = io_evs el fd')))"

lemma callback_localD:
  assumes "callback_local run" and "loop_ok el"
  obtains w' el' where "run cb fd args (w, el) = Inr (w', el')" and "loop_ok el'"
    and "\<And>fd'. fd' \<noteq> fd \<Longrightarrow> io_evs el' fd' = io_evs el fd'"
  using assms unfolding callback_local_def by blast

lemma dispatch_event_local:
  assumes "callback_local run" and "loop_ok el" and "fired_ok el f" and "pollable (fst f)"
  shows "\<exists>w' el'. dispatch_event pollable run f (w, el) = Inr (w', el') \<and> loop_ok el' \<and>
    (\<forall>fd'. fd' \<noteq> fst f \<longrightarrow> io_evs el' fd' = io_evs el fd')"
proof -
  obtain fd events where f: "f = (fd, events)" by (cases f)
  from assms(3) f obtain ev where ev: "io_evs el fd = Some ev"
    and rd: "events AND EPOLLIN \<noteq> 0 \<longrightarrow> ev_mask ev AND EPOLLIN \<noteq> 0"
    and wr: "events AND EPOLLOUT \<noteq> 0 \<longrightarrow> ev_mask ev AND EPOLLOUT \<noteq> 0"
    by (auto simp: fired_ok_def split: option.splits)
  have "event_ok ev" using loop_okD(3) [OF assms(2) ev] .
  then have cbs: "events AND EPOLLIN \<noteq> 0 \<longrightarrow> (\<exists>cb. read_callback ev = Some cb)"
      "events AND EPOLLOUT \<noteq> 0 \<longrightarrow> (\<exists>cb. write_callback ev = Some cb)"
    using rd wr by (auto simp: event_ok_def)
  have call: "\<exists>w' el'. run cb fd args (w, el) = Inr (w', el') \<and> loop_ok el' \<and>
      (\<forall>fd'. fd' \<noteq> fd \<longrightarrow> io_evs el' fd' = io_evs el fd')" for cb args
    using callback_localD [OF assms(1,2)] by metis
  have del: "loop_ok (del_io_event pollable fd el) \<and>
      (\<forall>fd'. fd' \<noteq> fd \<longrightarrow> io_evs (del_io_event pollable fd el) fd' = io_evs el fd')"
    using assms(2,4) f loop_ok_del [of el pollable fd] del_io_event_ok_eq [of el pollable fd]
    by simp
  show ?thesis
    using cbs call del assms(2) ev f
    by (cases "read_callback ev"; cases "write_callback ev") (auto simp: dispatch_event_def)
qed

lemma fired_ok_frame:
  "io_evs el' (fst f) = io_evs el (fst f) \<Longrightarrow> fired_ok el' f = fired_ok el f"
  by (simp add: fired_ok_def)

lemma batch_local:
  assumes "callback_local run" and "loop_ok el" and "distinct (map fst fired)"
    and "\<And>f. f \<in> set fired \<Longrightarrow> fired_ok el f \<and> pollable (fst f)"
  shows "\<exists>w' el'. res_fold (dispatch_event pollable run) fired (w, el) = Inr (w', el') \<and> loop_ok el'"
  using assms(2-)
proof (induction fired arbitrary: w el)
  case (Cons f fired)
  from Cons.prems(3) [of f] have f: "fired_ok el f" "pollable (fst f)" by simp_all
  obtain w1 el1 where step: "dispatch_event pollable run f (w, el) = Inr (w1, el1)"
    and ok: "loop_ok el1"
    and frame: "\<And>fd'. fd' \<noteq> fst f \<Longrightarrow> io_evs el1 fd' = io_evs el fd'"
    using dispatch_event_local [where pollable = pollable, OF assms(1) Cons.prems(1) f] by blast
  have "fired_ok el1 g \<and> pollable (fst g)" if "g \<in> set fired" for g
  proof -
    have "fst f \<notin> fst ` set fired" using Cons.prems(2) by simp
    then have "fst g \<noteq> fst f" using that by (metis image_eqI)
    then show ?thesis
      using Cons.prems(3) [of g] that fired_ok_frame [of el1 g el] frame [of "fst g"] by simp
  qed
  then have "\<exists>w' el'. res_fold (dispatch_event pollable run) fired (w1, el1) = Inr (w', el') \<and> loop_ok el'"
    using Cons.IH ok Cons.prems(2) by simp
  then show ?case using step by simp
qed simp

text \<open>
  C30: Whatever events are added and removed, with one-bit masks on descriptors the kernel accepts, the
  loop's tables agree: the listening set is the set of descriptors with an entry, the kernel watches
  each with exactly the recorded mask, and every event asked for has its callback.
\<close>

theorem loop_tables_agree:
  assumes "rtranclp (loop_step pollable) new_event_loop el"
  shows "get_listen_fds el = dom (io_evs el) \<and> epoll_set el = map_option ev_mask \<circ> io_evs el \<and>
    (\<forall>fd ev. io_evs el fd = Some ev \<longrightarrow> event_ok ev)"
  using loop_machine.inv_reachable [OF refl assms]
  by (auto simp: loop_ok_def get_listen_fds_def fun_eq_iff)

text \<open>
  A batch of fired events is worked off to the end when the callbacks touch the entries of their
  own descriptor only: the assertion that a fired descriptor is still registered holds, no missing
  callback is called, and the tables agree afterwards.
\<close>

theorem event_batch_completes:
  assumes "rtranclp (loop_step pollable) new_event_loop el" and "callback_local run"
    and "distinct (map fst fired)" and "\<forall>f \<in> set fired. fired_ok el f \<and> pollable (fst f)"
  shows "\<exists>w' el'. res_fold (dispatch_event pollable run) fired (w, el) = Inr (w', el') \<and> loop_ok el'"
proof -
  have "loop_ok el" by (rule loop_machine.inv_reachable [OF refl assms(1)])
  then show ?thesis
    using batch_local [where pollable = pollable, OF assms(2) _ assms(3)] assms(4) by blast
qed

theorem loop_tables_agree_witness:
  "get_listen_fds (add_io_event (\<lambda>_. True) 7 () EPOLLIN None
    (new_event_loop :: (unit, unit, unit) event_loop)) = {7}"
proof -
  let ?el = "add_io_event (\<lambda>_. True) 7 () EPOLLIN None (new_event_loop :: (unit, unit, unit) event_loop)"
  have "loop_step (\<lambda>_. True) new_event_loop ?el" by (rule step_add) simp_all
  from loop_tables_agree [OF r_into_rtranclp [of "loop_step (\<lambda>_. True)", OF this]]
  show ?thesis by (simp add: add_io_event_def new_event_loop_def)
qed

theorem event_batch_completes_witness:
  "\<exists>w' el'. res_fold (dispatch_event (\<lambda>_. True) (\<lambda>_ _ _. Inr)) [(7, EPOLLIN)]
    ((), add_io_event (\<lambda>_. True) 7 () EPOLLIN None (new_event_loop :: (unit, unit, unit) event_loop)) =
      Inr (w', el') \<and> loop_ok el'"
proof (rule event_batch_completes [where run = "\<lambda>_ _ _. Inr"])
  show "rtranclp (loop_step (\<lambda>_. True)) new_event_loop
      (add_io_event (\<lambda>_. True) 7 () EPOLLIN None (new_event_loop :: (unit, unit, unit) event_loop))"
    by (rule r_into_rtranclp, rule step_add) simp_all
qed (simp_all add: callback_local_def fired_ok_def add_io_event_def new_event_loop_def set_io_callback_def
      new_io_event_def lars_defs)

end
