(* ===== verification/Thread_Queue.thy ===== *)
theory Thread_Queue
  imports Event_Loop
begin

text \<open>
  \<open>thread_queue\<close> (\<open>lars_reactor/include/thread_queue.h\<close>): a queue of tasks behind a mutex, with an
  eventfd that wakes the loop of the receiving thread. Each operation holds the mutex, so a run of
  several threads is a sequence of whole operations. The queue is the channel between the agent's
  threads, the worker pool and the reporter's storage threads.
\<close>

subsection \<open>The eventfd\<close>

text \<open>
  The kernel's counter of a non-blocking eventfd: writing adds and fails when the sum would pass
  \<open>2^64 - 2\<close>; reading returns the counter and resets it, and fails when it is 0. The descriptor is
  readable exactly when the counter is positive.
\<close>

definition eventfd_max :: nat where
  "eventfd_max = 2 ^ 64 - 2"

definition eventfd_write :: "nat \<Rightarrow> nat \<Rightarrow> nat option" where
  "eventfd_write n c = (if c + n \<le> eventfd_max then Some (c + n) else None)"

definition eventfd_read :: "nat \<Rightarrow> (nat \<times> nat) option" where
  "eventfd_read c = (if c = 0 then None else Some (c, 0))"

definition eventfd_readable :: "nat \<Rightarrow> bool" where
  "eventfd_readable c \<longleftrightarrow> c > 0"

subsection \<open>The queue\<close>

record 'a thread_queue =
  tq_evfd :: int32
  tq_count :: nat
  tq_loop :: "addr option"
  tq_queue :: "'a list"

text \<open>The constructor: \<open>eventfd\<close> returns a descriptor, or fails and the process exits.\<close>

definition new_thread_queue :: "int32 option \<Rightarrow> 'a thread_queue res" where
  "new_thread_queue evfd = (case evfd of
     None \<Rightarrow> Inl Exited
   | Some fd \<Rightarrow> Inr \<lparr>tq_evfd = fd, tq_count = 0, tq_loop = None, tq_queue = []\<rparr>)"

text \<open>\<open>send\<close>: push, then write 1 to the eventfd; a failed write is only logged.\<close>

definition tq_send :: "'a \<Rightarrow> 'a thread_queue \<Rightarrow> 'a thread_queue" where
  "tq_send task q =
     (let q = q\<lparr>tq_queue := tq_queue q @ [task]\<rparr>
      in case eventfd_write 1 (tq_count q) of None \<Rightarrow> q | Some c \<Rightarrow> q\<lparr>tq_count := c\<rparr>)"

text \<open>\<open>recv\<close>: read the eventfd (a failure is only logged), then swap the caller's queue in.\<close>

definition tq_recv :: "'a list \<Rightarrow> 'a thread_queue \<Rightarrow> 'a list \<times> 'a thread_queue" where
  "tq_recv new_queue q =
     (let q = (case eventfd_read (tq_count q) of None \<Rightarrow> q | Some (_, c) \<Rightarrow> q\<lparr>tq_count := c\<rparr>)
      in (tq_queue q, q\<lparr>tq_queue := new_queue\<rparr>))"

definition tq_set_loop :: "addr option \<Rightarrow> 'a thread_queue \<Rightarrow> 'a thread_queue" where
  "tq_set_loop loop q = q\<lparr>tq_loop := loop\<rparr>"

text \<open>\<open>set_callback\<close> registers the eventfd for input with the loop the queue was given.\<close>

definition tq_set_callback :: "(int32 \<Rightarrow> bool) \<Rightarrow> 'cb \<Rightarrow> 'arg option \<Rightarrow> 'a thread_queue \<Rightarrow>
    ('cb, 'arg, 'task) event_loop \<Rightarrow> ('cb, 'arg, 'task) event_loop" where
  "tq_set_callback pollable cb args q el =
     (case tq_loop q of None \<Rightarrow> el | Some _ \<Rightarrow> add_io_event pollable (tq_evfd q) cb EPOLLIN args el)"

definition tq_get_loop :: "'a thread_queue \<Rightarrow> addr option" where
  "tq_get_loop q = tq_loop q"

subsection \<open>No lost wake-up\<close>

text \<open>A waiting task keeps the eventfd readable, so the receiving loop will be woken for it.\<close>

definition tq_ok :: "'a thread_queue \<Rightarrow> bool" where
  "tq_ok q \<longleftrightarrow> tq_count q \<le> eventfd_max \<and> (tq_queue q \<noteq> [] \<longrightarrow> eventfd_readable (tq_count q))"

lemma tq_ok_new: "new_thread_queue evfd = Inr q \<Longrightarrow> tq_ok q"
  by (auto simp: new_thread_queue_def tq_ok_def split: option.splits)

lemma tq_ok_send: "tq_ok q \<Longrightarrow> tq_ok (tq_send task q)"
  by (auto simp: tq_ok_def tq_send_def Let_def eventfd_write_def eventfd_readable_def
    eventfd_max_def)

lemma tq_ok_recv: "tq_ok q \<Longrightarrow> tq_ok (snd (tq_recv [] q))"
  by (auto simp: tq_ok_def tq_recv_def Let_def eventfd_read_def)

lemma tq_queue_send [simp]: "tq_queue (tq_send task q) = tq_queue q @ [task]"
  by (simp add: tq_send_def Let_def split: option.splits)

lemma fst_tq_recv [simp]: "fst (tq_recv xs q) = tq_queue q"
  by (simp add: tq_recv_def Let_def split: option.splits)

lemma tq_queue_recv [simp]: "tq_queue (snd (tq_recv xs q)) = xs"
  by (simp add: tq_recv_def Let_def)

text \<open>After a receive the eventfd is drained: the loop is not woken again for nothing.\<close>

lemma tq_recv_drained: "\<not> eventfd_readable (tq_count (snd (tq_recv xs q)))"
  by (auto simp: tq_recv_def Let_def eventfd_read_def eventfd_readable_def)

subsection \<open>The interface other components use\<close>

text \<open>
  A task channel as its users see it: \<open>pending\<close> is what was sent and not yet received, in order.
\<close>

locale task_channel =
  fixes channel_ok :: "'q \<Rightarrow> bool" and pending :: "'q \<Rightarrow> 'a list"
    and send_task :: "'a \<Rightarrow> 'q \<Rightarrow> 'q" and recv_all :: "'q \<Rightarrow> 'a list \<times> 'q"
    and woken :: "'q \<Rightarrow> bool"
  assumes ok_send: "channel_ok q \<Longrightarrow> channel_ok (send_task x q)"
    and ok_recv: "channel_ok q \<Longrightarrow> channel_ok (snd (recv_all q))"
    and pending_send: "pending (send_task x q) = pending q @ [x]"
    and recv_pending: "fst (recv_all q) = pending q"
    and pending_recv: "pending (snd (recv_all q)) = []"
    and wake: "channel_ok q \<Longrightarrow> pending q \<noteq> [] \<Longrightarrow> woken q"
begin

lemma pending_fold: "pending (fold send_task xs q) = pending q @ xs"
  by (induction xs arbitrary: q) (simp_all add: pending_send)

lemma ok_fold: "channel_ok q \<Longrightarrow> channel_ok (fold send_task xs q)"
  by (induction xs arbitrary: q) (simp_all add: ok_send)

lemma fifo_delivery: "pending q = [] \<Longrightarrow> fst (recv_all (fold send_task xs q)) = xs"
  by (simp add: recv_pending pending_fold)

end

interpretation tq: task_channel tq_ok tq_queue tq_send "tq_recv []" "\<lambda>q. eventfd_readable (tq_count q)"
  by unfold_locales (auto simp: tq_ok_send tq_ok_recv, auto simp: tq_ok_def)

subsection \<open>Any interleaving of senders and the receiver\<close>

datatype 'a tq_op = Send 'a | Recv

fun tq_run :: "'a tq_op list \<Rightarrow> 'a thread_queue \<Rightarrow> 'a list list \<times> 'a thread_queue" where
  "tq_run [] q = ([], q)"
| "tq_run (Send x # ops) q = tq_run ops (tq_send x q)"
| "tq_run (Recv # ops) q =
     (let (xs, q) = tq_recv [] q; (rs, q) = tq_run ops q in (xs # rs, q))"

fun sent :: "'a tq_op list \<Rightarrow> 'a list" where
  "sent [] = []"
| "sent (Send x # ops) = x # sent ops"
| "sent (Recv # ops) = sent ops"

lemma tq_run_conserve:
  "tq_queue q @ sent ops = concat (fst (tq_run ops q)) @ tq_queue (snd (tq_run ops q))"
proof (induction ops q rule: tq_run.induct)
  case (3 ops q)
  then show ?case
    by (simp add: tq_recv_def Let_def split: prod.splits option.splits)
qed simp_all

lemma tq_run_ok: "tq_ok q \<Longrightarrow> tq_ok (snd (tq_run ops q))"
proof (induction ops q rule: tq_run.induct)
  case (3 ops q)
  then show ?case using tq_ok_recv [of q] by (cases "tq_recv [] q") (simp add: split_beta)
qed (simp_all add: tq_ok_send)

text \<open>
  C29: Whatever the order in which threads send and the owner receives, every task is received
  exactly once and in the order it was sent (what is not received yet is still queued), and as long
  as something is queued the eventfd is readable, so no wake-up is lost.
\<close>

theorem thread_queue_delivery:
  assumes "new_thread_queue evfd = Inr q" and "tq_run ops q = (received, q')"
  shows "concat received @ tq_queue q' = sent ops \<and>
    (tq_queue q' \<noteq> [] \<longrightarrow> eventfd_readable (tq_count q'))"
proof -
  have "tq_queue q = []" using assms(1) by (auto simp: new_thread_queue_def split: option.splits)
  then have "concat received @ tq_queue q' = sent ops"
    using tq_run_conserve [of q ops] assms(2) by simp
  moreover have "tq_ok q'"
    using tq_run_ok [OF tq_ok_new [OF assms(1)], of ops] assms(2) by simp
  ultimately show ?thesis by (simp add: tq_ok_def)
qed

theorem thread_queue_delivery_witness:
  "\<exists>q received q'. new_thread_queue (Some 7) = Inr q \<and>
    tq_run [Send 1, Send 2, Recv, Send 3, Recv, Send (4 :: nat)] q = (received, q') \<and>
    received = [[1, 2], [3]] \<and> concat received @ tq_queue q' = [1, 2, 3, 4] \<and> tq_queue q' = [4] \<and>
    eventfd_readable (tq_count q')"
proof -
  let ?q = "\<lparr>tq_evfd = 7, tq_count = 0, tq_loop = None, tq_queue = []\<rparr> :: nat thread_queue"
  have new: "new_thread_queue (Some 7) = Inr ?q"
    by (simp add: new_thread_queue_def)
  have run: "tq_run [Send 1, Send 2, Recv, Send 3, Recv, Send 4] ?q =
      ([[1, 2], [3]], \<lparr>tq_evfd = 7, tq_count = 1, tq_loop = None, tq_queue = [4]\<rparr>)"
    by (simp add: tq_send_def tq_recv_def Let_def eventfd_write_def eventfd_read_def
      eventfd_max_def)
  show ?thesis
    using new run thread_queue_delivery [OF new run] by (intro exI conjI) (assumption | simp)+
qed

end
