(* ===== verification/Message.thy ===== *)
theory Message
  imports Lars_Prelude
begin

text \<open>
  Messages on a byte stream (\<open>lars_reactor/include/message.h\<close>): the eight bytes of \<open>msg_head\<close> before
  every body, the router that finds the callback of a message number, and \<open>decode\<close>, the reference
  definition of how a receiver cuts a stream into messages, with its laws: it inverts the framing and
  does not depend on how the stream is cut into pieces.
\<close>

subsection \<open>Heads\<close>

record msg_head =
  head_msgid :: int32
  head_msglen :: int32

definition MESSAGE_HEAD_LEN :: int where [lars_defs]: "MESSAGE_HEAD_LEN = 8"

definition MESSAGE_LENGTH_LIMIT :: int where [lars_defs]: "MESSAGE_LENGTH_LIMIT = 65535 - MESSAGE_HEAD_LEN"

text \<open>An \<open>int\<close> in memory on the little-endian machines the system runs on.\<close>

definition le32 :: "int32 \<Rightarrow> byte list" where
  "le32 w = [ucast w, ucast (drop_bit 8 w), ucast (drop_bit 16 w), ucast (drop_bit 24 w)]"

definition byte_at :: "byte list \<Rightarrow> nat \<Rightarrow> byte" where
  "byte_at bs i = (if i < length bs then bs ! i else 0)"

definition of_le32 :: "byte list \<Rightarrow> int32" where
  "of_le32 bs = ucast (byte_at bs 0) OR push_bit 8 (ucast (byte_at bs 1)) OR
     push_bit 16 (ucast (byte_at bs 2)) OR push_bit 24 (ucast (byte_at bs 3))"

lemma length_le32 [simp]: "length (le32 w) = 4"
  by (simp add: le32_def)

lemma of_le32_le32: "of_le32 (le32 w @ bs) = w"
proof (rule bit_word_eqI)
  fix n :: nat
  assume "n < LENGTH(32)"
  then consider "n < 8" | "8 \<le> n \<and> n < 16" | "16 \<le> n \<and> n < 24" | "24 \<le> n \<and> n < 32" by force
  then show "bit (of_le32 (le32 w @ bs)) n = bit w n"
    by cases (auto simp: of_le32_def le32_def byte_at_def bit_or_iff bit_push_bit_iff bit_ucast_iff bit_drop_bit_eq
        nth_append)
qed

text \<open>\<open>memcpy\<close> from and to a \<open>msg_head\<close>.\<close>

definition head_bytes :: "msg_head \<Rightarrow> byte list" where
  "head_bytes h = le32 (head_msgid h) @ le32 (head_msglen h)"

definition read_head :: "byte list \<Rightarrow> msg_head" where
  "read_head bs = \<lparr>head_msgid = of_le32 bs, head_msglen = of_le32 (drop 4 bs)\<rparr>"

lemma length_head_bytes [simp]: "length (head_bytes h) = 8"
  by (simp add: head_bytes_def)

lemma read_head_bytes [simp]: "read_head (head_bytes h @ bs) = h"
  by (simp add: read_head_def head_bytes_def of_le32_le32)

lemma read_head_take [simp]: "8 \<le> n \<Longrightarrow> read_head (take n bs) = read_head bs"
  by (simp add: read_head_def of_le32_def byte_at_def)

lemma read_head_append: "8 \<le> length bs \<Longrightarrow> read_head (bs @ cs) = read_head bs"
  using read_head_take [of "length bs" "bs @ cs"] by simp

subsection \<open>The router\<close>

text \<open>
  \<open>_router\<close> and \<open>_args\<close>; an argument may be null. What calling a callback does is the parameter
  \<open>run\<close>.
\<close>

record ('cb, 'a) msg_router =
  router_cbs :: "int32 \<rightharpoonup> 'cb"
  router_args :: "int32 \<rightharpoonup> 'a option"

definition new_msg_router :: "('cb, 'a) msg_router" where
  "new_msg_router = \<lparr>router_cbs = Map.empty, router_args = Map.empty\<rparr>"

definition regist_msg_router :: "int32 \<Rightarrow> 'cb \<Rightarrow> 'a option \<Rightarrow> ('cb, 'a) msg_router \<Rightarrow> int \<times> ('cb, 'a) msg_router" where
  "regist_msg_router msgid msg_cb user_data r =
     (if router_cbs r msgid \<noteq> None then (- 1, r)
      else (0, r\<lparr>router_cbs := (router_cbs r)(msgid \<mapsto> msg_cb), router_args := (router_args r)(msgid \<mapsto> user_data)\<rparr>))"

definition router_call :: "('cb \<Rightarrow> byte list \<Rightarrow> int32 \<Rightarrow> 'a option \<Rightarrow> 's \<Rightarrow> 's res) \<Rightarrow> ('cb, 'a) msg_router \<Rightarrow>
    int32 \<Rightarrow> byte list \<Rightarrow> 's \<Rightarrow> 's res" where
  "router_call run r msgid body s =
     (case router_cbs r msgid of
        None \<Rightarrow> Inr s
      | Some cb \<Rightarrow> run cb body msgid (case router_args r msgid of None \<Rightarrow> None | Some a \<Rightarrow> a) s)"

text \<open>The first registration of a number wins, and only that number's messages reach it.\<close>

lemma router_call_regist:
  assumes "regist_msg_router msgid cb arg r = (ret, r')"
  shows "router_call run r' i body s =
    (if ret = 0 \<and> i = msgid then run cb body msgid arg s else router_call run r i body s)"
  using assms by (auto simp: regist_msg_router_def router_call_def split: if_splits option.splits)

subsection \<open>Framing\<close>

type_synonym msg = "int32 \<times> byte list"

definition frame :: "msg \<Rightarrow> byte list" where
  "frame m = head_bytes \<lparr>head_msgid = fst m, head_msglen = of_nat (length (snd m))\<rparr> @ snd m"

definition body_len :: "byte list \<Rightarrow> int" where
  "body_len bs = sint (head_msglen (read_head bs))"

text \<open>
  The messages complete in a stream, the bytes that are left, and whether these start with a head
  whose length is refused.
\<close>

function decode :: "byte list \<Rightarrow> msg list \<times> byte list \<times> bool" where
  "decode bs =
     (if length bs < 8 then ([], bs, False)
      else if body_len bs > MESSAGE_LENGTH_LIMIT \<or> body_len bs < 0 then ([], bs, True)
      else if int (length bs) < 8 + body_len bs then ([], bs, False)
      else (case decode (drop (8 + nat (body_len bs)) bs) of
              (ms, rest, bad) \<Rightarrow>
                ((head_msgid (read_head bs), take (nat (body_len bs)) (drop 8 bs)) # ms, rest, bad)))"
  by pat_completeness auto
termination by (relation "measure length") auto

declare decode.simps [simp del]

lemma decode_short: "length bs < 8 \<Longrightarrow> decode bs = ([], bs, False)"
  by (subst decode.simps) simp

lemma sint_of_nat: "n < 2 ^ 31 \<Longrightarrow> sint (of_nat n :: int32) = int n"
proof -
  assume "n < 2 ^ 31"
  then have "signed_take_bit 31 (int n) = int n"
    by (intro signed_take_bit_int_eq_self) auto
  then show ?thesis by (simp add: signed_of_nat)
qed

lemma length_frame [simp]: "length (frame m) = 8 + length (snd m)"
  by (simp add: frame_def)

lemma frame_not_Nil [simp]: "frame m \<noteq> []" "head_bytes h \<noteq> []"
  by (simp_all add: frame_def head_bytes_def le32_def)

lemma body_len_frame:
  assumes "int (length (snd m)) \<le> MESSAGE_LENGTH_LIMIT"
  shows "body_len (frame m @ bs) = int (length (snd m))"
  using assms sint_of_nat [of "length (snd m)"]
  by (simp add: body_len_def frame_def lars_defs)

lemma decode_frame:
  assumes "int (length (snd m)) \<le> MESSAGE_LENGTH_LIMIT"
  shows "decode (frame m @ bs) = (case decode bs of (ms, rest, bad) \<Rightarrow> (m # ms, rest, bad))"
proof -
  have "head_msgid (read_head (frame m @ bs)) = fst m" by (simp add: frame_def)
  moreover have "take (length (snd m)) (drop 8 (frame m @ bs)) = snd m" by (simp add: frame_def)
  ultimately show ?thesis
    using assms by (subst decode.simps) (simp add: body_len_frame not_less)
qed

lemma decode_frames:
  assumes "\<forall>m \<in> set ms. int (length (snd m)) \<le> MESSAGE_LENGTH_LIMIT"
  shows "decode (concat (map frame ms) @ bs) = (case decode bs of (ms', rest, bad) \<Rightarrow> (ms @ ms', rest, bad))"
  using assms by (induction ms) (simp_all add: decode_frame split: prod.splits)

lemma body_len_append: "8 \<le> length bs \<Longrightarrow> body_len (bs @ cs) = body_len bs"
  by (simp add: body_len_def read_head_append)

text \<open>What is left is a short piece of a message, and more bytes complete it.\<close>

lemma decode_rest:
  "decode bs = (ms, rest, False) \<Longrightarrow> decode rest = ([], rest, False) \<and> int (length rest) < 8 + MESSAGE_LENGTH_LIMIT"
proof (induction bs arbitrary: ms rule: decode.induct)
  case (1 bs)
  show ?case
  proof (cases "length bs < 8 \<or> int (length bs) < 8 + body_len bs")
    case True
    then have "rest = bs" "ms = []" "int (length bs) < 8 + MESSAGE_LENGTH_LIMIT"
      using "1.prems" by (subst (asm) decode.simps, auto simp: lars_defs split: if_splits)+
    then show ?thesis using "1.prems" by simp
  next
    case False
    then show ?thesis
      using "1.prems" "1.IH" by (subst (asm) decode.simps) (auto split: if_splits prod.splits)
  qed
qed

lemma decode_append:
  "decode bs = (ms, rest, False) \<Longrightarrow>
   decode (bs @ cs) = (case decode (rest @ cs) of (ms', rest', bad) \<Rightarrow> (ms @ ms', rest', bad))"
proof (induction bs arbitrary: ms rule: decode.induct)
  case (1 bs)
  show ?case
  proof (cases "length bs < 8 \<or> int (length bs) < 8 + body_len bs")
    case True
    then show ?thesis
      using "1.prems" by (subst (asm) decode.simps) (auto split: if_splits)
  next
    case False
    let ?k = "8 + nat (body_len bs)"
    obtain ms' bad where rec: "decode (drop ?k bs) = (ms', rest, False)"
        "ms = (head_msgid (read_head bs), take (nat (body_len bs)) (drop 8 bs)) # ms'"
        and len: "0 \<le> body_len bs" "body_len bs \<le> MESSAGE_LENGTH_LIMIT"
      using "1.prems" False by (subst (asm) decode.simps) (auto split: if_splits prod.splits)
    have "decode (drop ?k bs @ cs) = (case decode (rest @ cs) of (ms'', rest', bad) \<Rightarrow> (ms' @ ms'', rest', bad))"
      using "1.IH" False len rec(1) by auto
    moreover have "nat (body_len bs) \<le> length bs - 8" "8 \<le> length bs" using False len by auto
    ultimately show ?thesis
      using False len rec(2)
      by (subst decode.simps) (auto simp: body_len_append read_head_append split: prod.splits)
  qed
qed

text \<open>A refused head stays at the front of what is left.\<close>

lemma decode_bad_append:
  "decode bs = (ms, rest, True) \<Longrightarrow> decode (bs @ cs) = (ms, rest @ cs, True)"
proof (induction bs arbitrary: ms rule: decode.induct)
  case (1 bs)
  consider (bad) "8 \<le> length bs" "body_len bs > MESSAGE_LENGTH_LIMIT \<or> body_len bs < 0"
    | (msg) "8 \<le> length bs" "0 \<le> body_len bs" "body_len bs \<le> MESSAGE_LENGTH_LIMIT" "8 + body_len bs \<le> int (length bs)"
    using "1.prems" by (subst (asm) decode.simps) (auto split: if_splits)
  then show ?case
  proof cases
    case bad
    have "ms = []" "rest = bs" using "1.prems" bad by (subst (asm) decode.simps, auto split: if_splits)+
    then show ?thesis using bad by (subst decode.simps) (auto simp: body_len_append)
  next
    case msg
    obtain ms' where rec: "decode (drop (8 + nat (body_len bs)) bs) = (ms', rest, True)"
        "ms = (head_msgid (read_head bs), take (nat (body_len bs)) (drop 8 bs)) # ms'"
      using "1.prems" msg by (subst (asm) decode.simps) (auto split: if_splits prod.splits)
    have "decode (drop (8 + nat (body_len bs)) bs @ cs) = (ms', rest @ cs, True)"
      using "1.IH" msg rec(1) by auto
    moreover have "nat (body_len bs) \<le> length bs - 8" using msg by auto
    ultimately show ?thesis
      using msg rec(2) by (subst decode.simps) (auto simp: body_len_append read_head_append)
  qed
qed

lemma decode_prefix:
  assumes "decode (bs @ cs) = (ms, rest, False)"
  obtains ms1 r1 ms2 where "decode bs = (ms1, r1, False)" "decode (r1 @ cs) = (ms2, rest, False)" "ms = ms1 @ ms2"
proof -
  obtain ms1 r1 bad where d: "decode bs = (ms1, r1, bad)" by (metis prod_cases3)
  have "\<not> bad" using assms d decode_bad_append [of bs ms1 r1 cs] by auto
  moreover obtain ms2 r2 bad2 where "decode (r1 @ cs) = (ms2, r2, bad2)" by (metis prod_cases3)
  ultimately show ?thesis using that assms d decode_append [of bs ms1 r1 cs] by auto
qed

end
