(* ===== verification/Buf_Pool.thy ===== *)
theory Buf_Pool
  imports Lars_Prelude
begin

text \<open>
  \<open>io_buf\<close> and \<open>buf_pool\<close> (\<open>lars_reactor/src/io_buf.cpp\<close>, \<open>buf_pool.cpp\<close>): byte buffers of seven sizes,
  the free ones linked through their \<open>next\<close> pointers. Buffers live in a heap; the pool's mutex makes
  its operations atomic. Sizes are integers: all of them are far below the range of \<open>int\<close>. The bytes
  of a new buffer are zero here; nothing reads a byte before it is written.
\<close>

subsection \<open>Buffers\<close>

record io_buf =
  buf_data :: "byte list"
  buf_head :: int
  buf_length :: int
  capacity :: int
  next_buf :: "addr option"

definition new_io_buf :: "int \<Rightarrow> io_buf" where
  "new_io_buf n = \<lparr>buf_data = replicate (nat n) 0, buf_head = 0, buf_length = 0, capacity = n, next_buf = None\<rparr>"

definition buf_clear :: "io_buf \<Rightarrow> io_buf" where
  "buf_clear b = b\<lparr>buf_length := 0, buf_head := 0\<rparr>"

definition mem_write :: "int \<Rightarrow> byte list \<Rightarrow> byte list \<Rightarrow> byte list res" where
  "mem_write off bs mem =
     (if off < 0 \<or> off + int (length bs) > int (length mem) then Inl Out_Of_Bounds
      else Inr (take (nat off) mem @ bs @ drop (nat off + length bs) mem))"

definition mem_read :: "int \<Rightarrow> int \<Rightarrow> byte list \<Rightarrow> byte list res" where
  "mem_read off n mem =
     (if off < 0 \<or> n < 0 \<or> off + n > int (length mem) then Inl Out_Of_Bounds
      else Inr (take (nat n) (drop (nat off) mem)))"

definition buf_adjust :: "io_buf \<Rightarrow> io_buf res" where
  "buf_adjust b =
     (if buf_head b \<noteq> 0 then
        (if buf_length b \<noteq> 0 then
           res_bind (mem_read (buf_head b) (buf_length b) (buf_data b)) (\<lambda>bs.
             res_bind (mem_write 0 bs (buf_data b)) (\<lambda>d. Inr (b\<lparr>buf_data := d, buf_head := 0\<rparr>)))
         else Inr (b\<lparr>buf_head := 0\<rparr>))
      else Inr b)"

definition buf_copy :: "io_buf \<Rightarrow> io_buf \<Rightarrow> io_buf res" where
  "buf_copy other b =
     res_bind (mem_read (buf_head other) (buf_length other) (buf_data other)) (\<lambda>bs.
       res_bind (mem_write 0 bs (buf_data b)) (\<lambda>d.
         Inr (b\<lparr>buf_data := d, buf_head := 0, buf_length := buf_length other\<rparr>)))"

definition buf_pop :: "int \<Rightarrow> io_buf \<Rightarrow> io_buf" where
  "buf_pop n b = b\<lparr>buf_length := buf_length b - n, buf_head := buf_head b + n\<rparr>"

text \<open>The bytes a buffer holds, and when its numbers make sense.\<close>

definition content :: "io_buf \<Rightarrow> byte list" where
  "content b = take (nat (buf_length b)) (drop (nat (buf_head b)) (buf_data b))"

definition buf_ok :: "io_buf \<Rightarrow> bool" where
  "buf_ok b \<longleftrightarrow> 0 \<le> buf_head b \<and> 0 \<le> buf_length b \<and> buf_head b + buf_length b \<le> capacity b \<and>
     int (length (buf_data b)) = capacity b"

lemma buf_ok_new: "0 \<le> n \<Longrightarrow> buf_ok (new_io_buf n)" and content_new [simp]: "content (new_io_buf n) = []"
  by (simp_all add: buf_ok_def new_io_buf_def content_def)

lemma length_content: "buf_ok b \<Longrightarrow> int (length (content b)) = buf_length b"
  by (auto simp: buf_ok_def content_def min_def)

lemma mem_write_ok:
  assumes "0 \<le> off" and "off + int (length bs) \<le> int (length mem)"
  shows "\<exists>mem'. mem_write off bs mem = Inr mem' \<and> length mem' = length mem \<and>
    take (nat off) mem' = take (nat off) mem \<and> take (length bs) (drop (nat off) mem') = bs"
proof -
  have "nat off + length bs \<le> length mem" using assms by linarith
  then show ?thesis using assms by (auto simp: mem_write_def)
qed

lemma buf_adjust_ok:
  assumes "buf_ok b"
  shows "\<exists>b'. buf_adjust b = Inr b' \<and> buf_ok b' \<and> buf_head b' = 0 \<and> content b' = content b \<and>
    capacity b' = capacity b \<and> next_buf b' = next_buf b \<and> buf_length b' = buf_length b"
proof (cases "buf_head b = 0 \<or> buf_length b = 0")
  case True
  then show ?thesis using assms by (auto simp: buf_adjust_def buf_ok_def content_def)
next
  case False
  have len: "int (length (content b)) = buf_length b" by (rule length_content [OF assms])
  have rd: "mem_read (buf_head b) (buf_length b) (buf_data b) = Inr (content b)"
    using assms by (simp add: mem_read_def buf_ok_def content_def)
  obtain d where d: "mem_write 0 (content b) (buf_data b) = Inr d" "length d = length (buf_data b)"
      "take (length (content b)) d = content b"
    using mem_write_ok [of 0 "content b" "buf_data b"] assms len by (auto simp: buf_ok_def)
  have "nat (buf_length b) = length (content b)" using len by simp
  then show ?thesis
    using False assms rd d by (simp add: buf_adjust_def buf_ok_def) (simp add: content_def [of "b\<lparr>buf_data := d, buf_head := 0\<rparr>"])
qed

lemma buf_copy_ok:
  assumes "buf_ok b" and "buf_ok other" and "buf_length other \<le> capacity b"
  shows "\<exists>b'. buf_copy other b = Inr b' \<and> buf_ok b' \<and> buf_head b' = 0 \<and> content b' = content other \<and>
    capacity b' = capacity b \<and> next_buf b' = next_buf b"
proof -
  have len: "int (length (content other)) = buf_length other" by (rule length_content [OF assms(2)])
  have rd: "mem_read (buf_head other) (buf_length other) (buf_data other) = Inr (content other)"
    using assms(2) by (simp add: mem_read_def buf_ok_def content_def)
  obtain d where d: "mem_write 0 (content other) (buf_data b) = Inr d" "length d = length (buf_data b)"
      "take (length (content other)) d = content other"
    using mem_write_ok [of 0 "content other" "buf_data b"] assms len by (auto simp: buf_ok_def)
  have n: "nat (buf_length other) = length (content other)" using len by simp
  show ?thesis
    using assms rd d len
    by (simp add: buf_copy_def buf_ok_def) (simp add: content_def [of "b\<lparr>buf_data := d, buf_head := 0, buf_length := _\<rparr>"] n)
qed

lemma buf_pop_ok:
  assumes "buf_ok b" and "0 \<le> n" and "n \<le> buf_length b"
  shows "buf_ok (buf_pop n b)" and "content (buf_pop n b) = drop (nat n) (content b)"
    and "capacity (buf_pop n b) = capacity b" and "next_buf (buf_pop n b) = next_buf b"
  using assms by (auto simp: buf_ok_def buf_pop_def content_def drop_take nat_diff_distrib nat_add_distrib add.commute)

subsection \<open>The pool\<close>

definition m4K :: int where "m4K = 4096"
definition m16K :: int where "m16K = 16384"
definition m64K :: int where "m64K = 65536"
definition m256K :: int where "m256K = 262144"
definition m1M :: int where "m1M = 1048576"
definition m4M :: int where "m4M = 4194304"
definition m8M :: int where "m8M = 8388608"

lemmas mem_caps = m4K_def m16K_def m64K_def m256K_def m1M_def m4M_def m8M_def

definition EXTRA_MEM_LIMIT :: int where "EXTRA_MEM_LIMIT = 5 * 1024 * 1024"

record buf_pool =
  bufs :: "addr \<rightharpoonup> io_buf"
  pool :: "int \<rightharpoonup> addr option"
  total_mem :: int
  next_addr :: addr

definition new_buf :: "int \<Rightarrow> buf_pool \<Rightarrow> addr \<times> buf_pool" where
  "new_buf cap p = (next_addr p, p\<lparr>bufs := (bufs p)(next_addr p \<mapsto> new_io_buf cap), next_addr := Suc (next_addr p)\<rparr>)"

definition set_next :: "addr \<Rightarrow> addr option \<Rightarrow> buf_pool \<Rightarrow> buf_pool res" where
  "set_next a n p = (case bufs p a of None \<Rightarrow> Inl Dangling | Some b \<Rightarrow> Inr (p\<lparr>bufs := (bufs p)(a \<mapsto> b\<lparr>next_buf := n\<rparr>)\<rparr>))"

fun append_bufs :: "int \<Rightarrow> nat \<Rightarrow> addr \<Rightarrow> buf_pool \<Rightarrow> buf_pool res" where
  "append_bufs cap 0 prev p = Inr p"
| "append_bufs cap (Suc n) prev p =
     (let (a, p) = new_buf cap p
      in res_bind (set_next prev (Some a) p) (append_bufs cap n a))"

definition make_io_buf_list :: "int \<Rightarrow> nat \<Rightarrow> buf_pool \<Rightarrow> buf_pool res" where
  "make_io_buf_list cap num p =
     (let (a, p) = new_buf cap p; p = p\<lparr>pool := (pool p)(cap \<mapsto> Some a)\<rparr>
      in res_bind (append_bufs cap num a p) (\<lambda>p.
           Inr (p\<lparr>total_mem := total_mem p + cap div 1024 * int num\<rparr>)))"

definition init_sizes :: "(int \<times> nat) list" where
  "init_sizes = [(m4K, 5000), (m16K, 1000), (m64K, 500), (m256K, 200), (m1M, 50), (m4M, 20), (m8M, 10)]"

definition new_buf_pool :: "buf_pool res" where
  "new_buf_pool = res_fold (\<lambda>(cap, num). make_io_buf_list cap num) init_sizes
     \<lparr>bufs = Map.empty, pool = Map.empty, total_mem = 0, next_addr = 0\<rparr>"

definition size_class :: "int \<Rightarrow> int option" where
  "size_class N =
     (if N \<le> m4K then Some m4K else if N \<le> m16K then Some m16K else if N \<le> m64K then Some m64K
      else if N \<le> m256K then Some m256K else if N \<le> m1M then Some m1M else if N \<le> m4M then Some m4M
      else if N \<le> m8M then Some m8M else None)"

definition alloc_buf :: "int \<Rightarrow> buf_pool \<Rightarrow> (addr option \<times> buf_pool) res" where
  "alloc_buf N p =
     (case size_class N of
        None \<Rightarrow> Inr (None, p)
      | Some index \<Rightarrow>
          (case (case pool p index of None \<Rightarrow> None | Some ptr \<Rightarrow> ptr) of
             None \<Rightarrow>
               if total_mem p + index div 1024 \<ge> EXTRA_MEM_LIMIT then Inl Exited
               else
                 (let (a, p) = new_buf index (p\<lparr>pool := (pool p)(index \<mapsto> None)\<rparr>)
                  in Inr (Some a, p\<lparr>total_mem := total_mem p + index div 1024\<rparr>))
           | Some target \<Rightarrow>
               (case bufs p target of
                  None \<Rightarrow> Inl Dangling
                | Some b \<Rightarrow>
                    res_bind (set_next target None (p\<lparr>pool := (pool p)(index \<mapsto> next_buf b)\<rparr>))
                      (\<lambda>p. Inr (Some target, p)))))"

definition revert :: "addr \<Rightarrow> buf_pool \<Rightarrow> buf_pool res" where
  "revert buffer p =
     (case bufs p buffer of
        None \<Rightarrow> Inl Dangling
      | Some b \<Rightarrow>
          (let index = capacity b; b = buf_clear b
           in case pool p index of
                None \<Rightarrow> Inl Assert_Failed
              | Some ptr \<Rightarrow>
                  Inr (p\<lparr>bufs := (bufs p)(buffer \<mapsto> b\<lparr>next_buf := ptr\<rparr>),
                         pool := (pool p)(index \<mapsto> Some buffer)\<rparr>)))"

definition set_buf :: "addr \<Rightarrow> io_buf \<Rightarrow> buf_pool \<Rightarrow> buf_pool" where
  "set_buf a b p = p\<lparr>bufs := (bufs p)(a \<mapsto> b)\<rparr>"

subsection \<open>The free lists\<close>

text \<open>The buffers reached from a pointer through \<open>next\<close>.\<close>

fun chain :: "(addr \<rightharpoonup> io_buf) \<Rightarrow> addr option \<Rightarrow> addr list \<Rightarrow> bool" where
  "chain h ptr [] \<longleftrightarrow> ptr = None"
| "chain h ptr (a # as) \<longleftrightarrow> ptr = Some a \<and> (\<exists>b. h a = Some b \<and> chain h (next_buf b) as)"

lemma chain_frame: "(\<And>a. a \<in> set as \<Longrightarrow> h' a = h a) \<Longrightarrow> chain h' ptr as = chain h ptr as"
  by (induction h ptr as rule: chain.induct) auto

definition caps :: "int set" where
  "caps = {m4K, m16K, m64K, m256K, m1M, m4M, m8M}"

text \<open>
  \<open>free c\<close> lists the free buffers of capacity \<open>c\<close>, \<open>held\<close> is the set of buffers the pool handed out:
  together they are all buffers, each exactly once.
\<close>

definition pool_free :: "int set \<Rightarrow> (int \<Rightarrow> addr list) \<Rightarrow> addr set \<Rightarrow> buf_pool \<Rightarrow> bool" where
  "pool_free cs free held p \<longleftrightarrow>
     (\<forall>c \<in> cs. \<exists>ptr. pool p c = Some ptr \<and> chain (bufs p) ptr (free c)) \<and>
     (\<forall>c \<in> cs. distinct (free c) \<and> set (free c) \<inter> held = {}) \<and>
     (\<forall>c \<in> cs. \<forall>c' \<in> cs. c \<noteq> c' \<longrightarrow> set (free c) \<inter> set (free c') = {}) \<and>
     (\<forall>c \<in> cs. \<forall>a \<in> set (free c). \<exists>b. bufs p a = Some b \<and> buf_ok b \<and> capacity b = c \<and>
        buf_head b = 0 \<and> buf_length b = 0) \<and>
     (\<forall>a \<in> held. \<exists>b. bufs p a = Some b \<and> buf_ok b \<and> capacity b \<in> cs) \<and>
     (\<forall>a. bufs p a \<noteq> None \<longrightarrow> a < next_addr p)"

definition pool_ok :: "addr set \<Rightarrow> buf_pool \<Rightarrow> bool" where
  "pool_ok held p \<longleftrightarrow> (\<exists>free. pool_free caps free held p)"

lemma pool_freeD:
  assumes "pool_free cs free held p"
  shows "c \<in> cs \<Longrightarrow> \<exists>ptr. pool p c = Some ptr \<and> chain (bufs p) ptr (free c)"
    and "c \<in> cs \<Longrightarrow> distinct (free c)"
    and "c \<in> cs \<Longrightarrow> a \<in> set (free c) \<Longrightarrow> a \<notin> held"
    and "c \<in> cs \<Longrightarrow> c' \<in> cs \<Longrightarrow> c \<noteq> c' \<Longrightarrow> a \<in> set (free c) \<Longrightarrow> a \<notin> set (free c')"
    and "c \<in> cs \<Longrightarrow> a \<in> set (free c) \<Longrightarrow> \<exists>b. bufs p a = Some b \<and> buf_ok b \<and> capacity b = c \<and>
        buf_head b = 0 \<and> buf_length b = 0"
    and "a \<in> held \<Longrightarrow> \<exists>b. bufs p a = Some b \<and> buf_ok b \<and> capacity b \<in> cs"
    and "bufs p a \<noteq> None \<Longrightarrow> a < next_addr p"
  using assms unfolding pool_free_def by blast+

lemma pool_freeI:
  assumes "\<And>c. c \<in> cs \<Longrightarrow> \<exists>ptr. pool p c = Some ptr \<and> chain (bufs p) ptr (free c)"
    and "\<And>c. c \<in> cs \<Longrightarrow> distinct (free c)"
    and "\<And>c a. c \<in> cs \<Longrightarrow> a \<in> set (free c) \<Longrightarrow> a \<notin> held"
    and "\<And>c c' a. c \<in> cs \<Longrightarrow> c' \<in> cs \<Longrightarrow> c \<noteq> c' \<Longrightarrow> a \<in> set (free c) \<Longrightarrow> a \<notin> set (free c')"
    and "\<And>c a. c \<in> cs \<Longrightarrow> a \<in> set (free c) \<Longrightarrow> \<exists>b. bufs p a = Some b \<and> buf_ok b \<and> capacity b = c \<and>
        buf_head b = 0 \<and> buf_length b = 0"
    and "\<And>a. a \<in> held \<Longrightarrow> \<exists>b. bufs p a = Some b \<and> buf_ok b \<and> capacity b \<in> cs"
    and "\<And>a. bufs p a \<noteq> None \<Longrightarrow> a < next_addr p"
  shows "pool_free cs free held p"
  unfolding pool_free_def using assms by (intro conjI ballI allI impI) blast+

lemma size_class_caps:
  "size_class N = Some c \<Longrightarrow> c \<in> caps \<and> N \<le> c"
  "N \<le> m8M \<Longrightarrow> \<exists>c. size_class N = Some c"
  "m8M < N \<Longrightarrow> size_class N = None"
  by (auto simp: size_class_def caps_def mem_caps split: if_splits)

lemma caps_nonneg: "c \<in> caps \<Longrightarrow> 0 \<le> c"
  by (auto simp: caps_def mem_caps)

lemma pool_free_new_buf:
  assumes "pool_free caps free held p" and "c \<in> caps" and "free c = []"
  shows "pool_free caps free (insert (next_addr p) held) (snd (new_buf c (p\<lparr>pool := (pool p)(c \<mapsto> None)\<rparr>)))"
proof -
  let ?a = "next_addr p" and ?p = "snd (new_buf c (p\<lparr>pool := (pool p)(c \<mapsto> None)\<rparr>))"
  have none: "bufs p ?a = None" using pool_freeD(7) [OF assms(1), of ?a] by blast
  have sel: "bufs ?p = (bufs p)(?a \<mapsto> new_io_buf c)" "pool ?p = (pool p)(c \<mapsto> None)" "next_addr ?p = Suc ?a"
    by (simp_all add: new_buf_def)
  have fresh: "?a \<notin> set (free c')" if "c' \<in> caps" for c'
    using pool_freeD(5) [OF assms(1) that] none by fastforce
  have ptrs: "\<exists>ptr. pool ?p c' = Some ptr \<and> chain (bufs ?p) ptr (free c')" if c': "c' \<in> caps" for c'
  proof (cases "c' = c")
    case True
    then show ?thesis using assms(3) by (simp add: sel)
  next
    case False
    obtain ptr where "pool p c' = Some ptr" "chain (bufs p) ptr (free c')"
      using pool_freeD(1) [OF assms(1) c'] by blast
    moreover have "chain (bufs ?p) ptr (free c') = chain (bufs p) ptr (free c')"
      by (rule chain_frame) (use fresh [OF c'] in \<open>auto simp: sel\<close>)
    ultimately show ?thesis using False by (simp add: sel)
  qed
  have new: "buf_ok (new_io_buf c)" "capacity (new_io_buf c) = c"
    using buf_ok_new [OF caps_nonneg [OF assms(2)]] by (simp_all add: new_io_buf_def)
  show ?thesis
  proof (rule pool_freeI)
    fix a assume "bufs ?p a \<noteq> None"
    then show "a < next_addr ?p" using pool_freeD(7) [OF assms(1), of a] by (auto simp: sel split: if_splits)
  next
    fix a assume "a \<in> insert ?a held"
    then show "\<exists>b. bufs ?p a = Some b \<and> buf_ok b \<and> capacity b \<in> caps"
      using pool_freeD(6) [OF assms(1), of a] new assms(2) by (auto simp: sel)
  next
    fix c' a assume c': "c' \<in> caps" "a \<in> set (free c')"
    show "a \<notin> insert ?a held" using pool_freeD(3) [OF assms(1) c'] fresh [OF c'(1)] c'(2) by auto
    have "a \<noteq> ?a" using fresh [OF c'(1)] c'(2) by auto
    then show "\<exists>b. bufs ?p a = Some b \<and> buf_ok b \<and> capacity b = c' \<and> buf_head b = 0 \<and> buf_length b = 0"
      using pool_freeD(5) [OF assms(1) c'] by (simp add: sel)
  qed (use ptrs pool_freeD(2,4) [OF assms(1)] in blast)+
qed

text \<open>Taking the first buffer of a free list.\<close>

lemma pool_free_take:
  assumes "pool_free caps free held p" and "c \<in> caps" and "free c = a # as" and "bufs p a = Some b"
  shows "pool_free caps (free(c := as)) (insert a held)
    (p\<lparr>pool := (pool p)(c \<mapsto> next_buf b), bufs := (bufs p)(a \<mapsto> b\<lparr>next_buf := None\<rparr>)\<rparr>)"
proof -
  let ?p = "p\<lparr>pool := (pool p)(c \<mapsto> next_buf b), bufs := (bufs p)(a \<mapsto> b\<lparr>next_buf := None\<rparr>)\<rparr>"
  let ?free = "free(c := as)"
  have a: "a \<notin> set as" "a \<in> set (free c)" using pool_freeD(2) [OF assms(1,2)] assms(3) by auto
  have sub: "x \<in> set (free c')" if "x \<in> set (?free c')" for x c'
    using that assms(3) by (auto split: if_splits)
  have notin: "a \<notin> set (?free c')" if "c' \<in> caps" for c'
    using a pool_freeD(4) [OF assms(1,2) that] by (cases "c' = c") auto
  have b: "buf_ok b" "capacity b = c" using pool_freeD(5) [OF assms(1,2) a(2)] assms(4) by auto
  show ?thesis
  proof (rule pool_freeI)
    fix c' assume c': "c' \<in> caps"
    obtain ptr where ptr: "pool p c' = Some ptr" "chain (bufs p) ptr (free c')"
      using pool_freeD(1) [OF assms(1) c'] by blast
    have frame: "chain (bufs ?p) q (?free c') = chain (bufs p) q (?free c')" for q
      by (rule chain_frame) (use notin [OF c'] in auto)
    show "\<exists>ptr. pool ?p c' = Some ptr \<and> chain (bufs ?p) ptr (?free c')"
    proof (cases "c' = c")
      case True
      then show ?thesis using ptr frame assms(3,4) by auto
    next
      case False
      then show ?thesis using ptr frame by simp
    qed
    show "distinct (?free c')" using pool_freeD(2) [OF assms(1) c'] assms(3) by (cases "c' = c") auto
  next
    fix c' x assume c': "c' \<in> caps" and x: "x \<in> set (?free c')"
    have "x \<noteq> a" using notin [OF c'] x by auto
    then show "x \<notin> insert a held" using pool_freeD(3) [OF assms(1) c' sub [OF x]] by simp
    show "\<exists>b. bufs ?p x = Some b \<and> buf_ok b \<and> capacity b = c' \<and> buf_head b = 0 \<and> buf_length b = 0"
      using pool_freeD(5) [OF assms(1) c' sub [OF x]] \<open>x \<noteq> a\<close> by simp
  next
    fix c1 c2 x assume "c1 \<in> caps" "c2 \<in> caps" "c1 \<noteq> c2" "x \<in> set (?free c1)"
    then show "x \<notin> set (?free c2)" using pool_freeD(4) [OF assms(1)] sub by blast
  next
    fix x assume "x \<in> insert a held"
    then show "\<exists>b. bufs ?p x = Some b \<and> buf_ok b \<and> capacity b \<in> caps"
      using pool_freeD(6) [OF assms(1), of x] b assms(2) by (auto simp: buf_ok_def)
  next
    fix x assume "bufs ?p x \<noteq> None"
    then show "x < next_addr ?p"
      using pool_freeD(7) [OF assms(1), of x] assms(4) by (auto split: if_splits)
  qed
qed

text \<open>Putting a held buffer in front of its free list.\<close>

lemma pool_free_put:
  assumes "pool_free caps free held p" and "a \<in> held" and "bufs p a = Some b" and "pool p (capacity b) = Some ptr"
  shows "pool_free caps (free(capacity b := a # free (capacity b))) (held - {a})
    (p\<lparr>bufs := (bufs p)(a \<mapsto> (buf_clear b)\<lparr>next_buf := ptr\<rparr>), pool := (pool p)(capacity b \<mapsto> Some a)\<rparr>)"
proof -
  let ?c = "capacity b"
  let ?p = "p\<lparr>bufs := (bufs p)(a \<mapsto> (buf_clear b)\<lparr>next_buf := ptr\<rparr>), pool := (pool p)(?c \<mapsto> Some a)\<rparr>"
  let ?free = "free(?c := a # free ?c)"
  have b: "buf_ok b" "?c \<in> caps" using pool_freeD(6) [OF assms(1,2)] assms(3) by auto
  have notin: "a \<notin> set (free c')" if "c' \<in> caps" for c'
    using pool_freeD(3) [OF assms(1) that] assms(2) by blast
  have mem: "x \<in> set (?free c') \<longleftrightarrow> x \<in> set (free c') \<or> (c' = ?c \<and> x = a)" for x c' by auto
  have new: "buf_ok ((buf_clear b)\<lparr>next_buf := ptr\<rparr>)" using b by (simp add: buf_ok_def buf_clear_def)
  show ?thesis
  proof (rule pool_freeI)
    fix c' assume c': "c' \<in> caps"
    obtain ptr' where ptr': "pool p c' = Some ptr'" "chain (bufs p) ptr' (free c')"
      using pool_freeD(1) [OF assms(1) c'] by blast
    have "chain (bufs ?p) q (free c') = chain (bufs p) q (free c')" for q
      by (rule chain_frame) (use notin [OF c'] in auto)
    then show "\<exists>ptr. pool ?p c' = Some ptr \<and> chain (bufs ?p) ptr (?free c')"
      using ptr' assms(4) by (cases "c' = ?c") auto
    show "distinct (?free c')"
      using pool_freeD(2) [OF assms(1) c'] notin [OF c'] by (cases "c' = ?c") auto
  next
    fix c' x assume c': "c' \<in> caps" and x: "x \<in> set (?free c')"
    then show "x \<notin> held - {a}" using pool_freeD(3) [OF assms(1) c', of x] unfolding mem by blast
    show "\<exists>b. bufs ?p x = Some b \<and> buf_ok b \<and> capacity b = c' \<and> buf_head b = 0 \<and> buf_length b = 0"
    proof (cases "x = a")
      case True
      then have "c' = ?c" using x notin [OF c'] unfolding mem by blast
      then show ?thesis using True new by (simp add: buf_clear_def)
    next
      case False
      then have "x \<in> set (free c')" using x unfolding mem by blast
      then show ?thesis using False pool_freeD(5) [OF assms(1) c', of x] by simp
    qed
  next
    fix c1 c2 x assume "c1 \<in> caps" "c2 \<in> caps" "c1 \<noteq> c2" "x \<in> set (?free c1)"
    then show "x \<notin> set (?free c2)" using pool_freeD(4) [OF assms(1)] notin mem by metis
  next
    fix x assume "x \<in> held - {a}"
    then show "\<exists>b. bufs ?p x = Some b \<and> buf_ok b \<and> capacity b \<in> caps"
      using pool_freeD(6) [OF assms(1), of x] by simp
  next
    fix x assume "bufs ?p x \<noteq> None"
    then show "x < next_addr ?p"
      using pool_freeD(7) [OF assms(1), of x] assms(3) by (auto split: if_splits)
  qed
qed

subsection \<open>What the pool promises its users\<close>

lemma alloc_buf_ok:
  assumes "pool_ok held p" and "N \<le> m8M"
  shows "alloc_buf N p = Inl Exited \<and> (\<exists>c. size_class N = Some c \<and> EXTRA_MEM_LIMIT \<le> total_mem p + c div 1024) \<or>
    (\<exists>a p' b. alloc_buf N p = Inr (Some a, p') \<and> pool_ok (insert a held) p' \<and> a \<notin> held \<and>
       bufs p' a = Some b \<and> content b = [] \<and> buf_head b = 0 \<and> N \<le> capacity b \<and> next_buf b = None \<and>
       (\<forall>x \<in> held. bufs p' x = bufs p x))"
proof -
  obtain free where free: "pool_free caps free held p" using assms(1) by (auto simp: pool_ok_def)
  obtain c where c: "size_class N = Some c" "c \<in> caps" "N \<le> c"
    using size_class_caps(1,2) assms(2) by blast
  obtain ptr where ptr: "pool p c = Some ptr" "chain (bufs p) ptr (free c)"
    using pool_freeD(1) [OF free c(2)] by blast
  show ?thesis
  proof (cases "free c")
    case Nil
    let ?p = "snd (new_buf c (p\<lparr>pool := (pool p)(c \<mapsto> None)\<rparr>))"
    let ?p' = "?p\<lparr>total_mem := total_mem ?p + c div 1024\<rparr>"
    have "ptr = None" using ptr(2) Nil by simp
    then have run: "alloc_buf N p = (if total_mem p + c div 1024 \<ge> EXTRA_MEM_LIMIT then Inl Exited
        else Inr (Some (next_addr p), ?p'))"
      using c(1) ptr(1) by (simp add: alloc_buf_def new_buf_def)
    have "pool_free caps free (insert (next_addr p) held) ?p'"
      using pool_free_new_buf [OF free c(2) Nil] by (simp add: pool_free_def)
    moreover have "bufs p (next_addr p) = None" using pool_freeD(7) [OF free, of "next_addr p"] by blast
    then have "next_addr p \<notin> held" "\<forall>x \<in> held. bufs ?p' x = bufs p x" "bufs ?p' (next_addr p) = Some (new_io_buf c)"
      using pool_freeD(6) [OF free] by (fastforce simp: new_buf_def)+
    moreover have "buf_head (new_io_buf c) = 0 \<and> N \<le> capacity (new_io_buf c) \<and> next_buf (new_io_buf c) = None"
      using c(3) by (simp add: new_io_buf_def)
    ultimately show ?thesis using run c(1) by (auto simp: pool_ok_def)
  next
    case (Cons a as)
    obtain b where b: "bufs p a = Some b" "capacity b = c" "buf_head b = 0" "buf_length b = 0"
      using pool_freeD(5) [OF free c(2), of a] Cons by auto
    let ?p = "p\<lparr>pool := (pool p)(c \<mapsto> next_buf b), bufs := (bufs p)(a \<mapsto> b\<lparr>next_buf := None\<rparr>)\<rparr>"
    have "ptr = Some a" using ptr(2) Cons by simp
    then have run: "alloc_buf N p = Inr (Some a, ?p)"
      using c(1) ptr(1) b(1) by (simp add: alloc_buf_def set_next_def)
    have "pool_ok (insert a held) ?p"
      using pool_free_take [OF free c(2) Cons b(1)] by (auto simp: pool_ok_def)
    moreover have "a \<notin> held" using pool_freeD(3) [OF free c(2), of a] Cons by simp
    moreover have "content (b\<lparr>next_buf := None\<rparr>) = []" using b(4) by (simp add: content_def)
    ultimately show ?thesis using run b c(3) by auto
  qed
qed

lemma revert_ok:
  assumes "pool_ok held p" and "a \<in> held"
  shows "\<exists>p'. revert a p = Inr p' \<and> pool_ok (held - {a}) p' \<and> (\<forall>x \<in> held - {a}. bufs p' x = bufs p x)"
proof -
  obtain free where free: "pool_free caps free held p" using assms(1) by (auto simp: pool_ok_def)
  obtain b where b: "bufs p a = Some b" "capacity b \<in> caps" using pool_freeD(6) [OF free assms(2)] by blast
  obtain ptr where "pool p (capacity b) = Some ptr" using pool_freeD(1) [OF free b(2)] by blast
  then show ?thesis
    using pool_free_put [OF free assms(2) b(1)] b(1) by (auto simp: revert_def pool_ok_def Let_def)
qed

lemma set_buf_ok:
  assumes "pool_ok held p" and "a \<in> held" and "bufs p a = Some b" and "buf_ok b'" and "capacity b' = capacity b"
  shows "pool_ok held (set_buf a b' p)"
proof -
  obtain free where free: "pool_free caps free held p" using assms(1) by (auto simp: pool_ok_def)
  have notin: "a \<notin> set (free c)" if "c \<in> caps" for c using pool_freeD(3) [OF free that] assms(2) by blast
  have "pool_free caps free held (set_buf a b' p)"
  proof (rule pool_freeI)
    fix c assume c: "c \<in> caps"
    have "chain (bufs (set_buf a b' p)) q (free c) = chain (bufs p) q (free c)" for q
      by (rule chain_frame) (use notin [OF c] in \<open>auto simp: set_buf_def\<close>)
    then show "\<exists>ptr. pool (set_buf a b' p) c = Some ptr \<and> chain (bufs (set_buf a b' p)) ptr (free c)"
      using pool_freeD(1) [OF free c] by (simp add: set_buf_def)
  next
    fix c x assume c: "c \<in> caps" "x \<in> set (free c)"
    then have "x \<noteq> a" using notin by blast
    then show "\<exists>b. bufs (set_buf a b' p) x = Some b \<and> buf_ok b \<and> capacity b = c \<and> buf_head b = 0 \<and> buf_length b = 0"
      using pool_freeD(5) [OF free c] by (simp add: set_buf_def)
  next
    fix x assume "x \<in> held"
    then show "\<exists>b. bufs (set_buf a b' p) x = Some b \<and> buf_ok b \<and> capacity b \<in> caps"
      using pool_freeD(6) [OF free, of x] assms(3-) by (auto simp: set_buf_def)
  next
    fix x assume "bufs (set_buf a b' p) x \<noteq> None"
    then show "x < next_addr (set_buf a b' p)"
      using pool_freeD(7) [OF free, of x] assms(3) by (auto simp: set_buf_def split: if_splits)
  qed (use pool_freeD(2-4) [OF free] in blast)+
  then show ?thesis by (auto simp: pool_ok_def)
qed

subsection \<open>The pool at the start\<close>

lemma append_bufs_ok:
  assumes "bufs p prev = Some b" and "next_buf b = None" and "prev < next_addr p"
  shows "\<exists>p' b'. append_bufs cap n prev p = Inr p' \<and> pool p' = pool p \<and> total_mem p' = total_mem p \<and>
    next_addr p' = next_addr p + n \<and> bufs p' prev = Some (b\<lparr>next_buf := b'\<rparr>) \<and>
    chain (bufs p') b' [next_addr p..<next_addr p + n] \<and>
    (\<forall>x < next_addr p. x \<noteq> prev \<longrightarrow> bufs p' x = bufs p x) \<and>
    (\<forall>x. next_addr p + n \<le> x \<longrightarrow> bufs p' x = bufs p x) \<and>
    (\<forall>x \<in> {next_addr p..<next_addr p + n}. \<exists>q. bufs p' x = Some ((new_io_buf cap)\<lparr>next_buf := q\<rparr>))"
  using assms
proof (induction n arbitrary: prev p b)
  case 0
  have "bufs p prev = Some (b\<lparr>next_buf := None\<rparr>)" using 0 by simp
  then show ?case by auto
next
  case (Suc n)
  let ?a = "next_addr p"
  let ?p = "p\<lparr>next_addr := Suc ?a, bufs := (bufs p)(?a \<mapsto> new_io_buf cap, prev \<mapsto> b\<lparr>next_buf := Some ?a\<rparr>)\<rparr>"
  have ne: "prev \<noteq> ?a" using Suc.prems(3) by simp
  have run: "append_bufs cap (Suc n) prev p = append_bufs cap n ?a ?p"
    using Suc.prems ne by (simp add: new_buf_def set_next_def)
  have "bufs ?p ?a = Some (new_io_buf cap)" "next_buf (new_io_buf cap) = None" "?a < next_addr ?p"
    using ne by (simp_all add: new_io_buf_def)
  from Suc.IH [OF this] obtain p' b' where ih: "append_bufs cap n ?a ?p = Inr p'" "pool p' = pool p"
    "total_mem p' = total_mem p" "next_addr p' = Suc ?a + n" "bufs p' ?a = Some ((new_io_buf cap)\<lparr>next_buf := b'\<rparr>)"
    "chain (bufs p') b' [Suc ?a..<Suc ?a + n]"
    "\<And>x. x < Suc ?a \<Longrightarrow> x \<noteq> ?a \<Longrightarrow> bufs p' x = bufs ?p x"
    "\<And>x. Suc ?a + n \<le> x \<Longrightarrow> bufs p' x = bufs ?p x"
    "\<And>x. x \<in> {Suc ?a..<Suc ?a + n} \<Longrightarrow> \<exists>q. bufs p' x = Some ((new_io_buf cap)\<lparr>next_buf := q\<rparr>)"
    by auto
  have prev: "bufs p' prev = Some (b\<lparr>next_buf := Some ?a\<rparr>)" using ih(7) [of prev] Suc.prems(3) ne by simp
  have up: "[?a..<?a + Suc n] = ?a # [Suc ?a..<Suc ?a + n]" by (simp add: upt_conv_Cons)
  have new: "\<exists>q. bufs p' x = Some ((new_io_buf cap)\<lparr>next_buf := q\<rparr>)" if "x \<in> {?a..<?a + Suc n}" for x
    using that ih(5) ih(9) [of x] by (cases "x = ?a") auto
  have old: "bufs p' x = bufs p x" if "x < ?a" "x \<noteq> prev" for x using that ih(7) [of x] by simp
  have later: "bufs p' x = bufs p x" if "?a + Suc n \<le> x" for x
    using that ih(8) [of x] Suc.prems(3) by simp
  show ?case
    unfolding run using ih(1-6) prev up new old later
    by (intro exI [of _ p'] exI [of _ "Some ?a"]) simp
qed

lemma make_io_buf_list_ok:
  assumes "pool_free cs free {} p" and "cap \<notin> cs" and "0 \<le> cap"
  shows "\<exists>p' as. make_io_buf_list cap num p = Inr p' \<and> pool_free (insert cap cs) (free(cap := as)) {} p' \<and>
    length as = num + 1 \<and> total_mem p' = total_mem p + cap div 1024 * int num"
proof -
  let ?a = "next_addr p" and ?as = "[next_addr p..<next_addr p + Suc num]"
  let ?p = "p\<lparr>bufs := (bufs p)(?a \<mapsto> new_io_buf cap), next_addr := Suc ?a, pool := (pool p)(cap \<mapsto> Some ?a)\<rparr>"
  have "bufs ?p ?a = Some (new_io_buf cap)" "next_buf (new_io_buf cap) = None" "?a < next_addr ?p"
    by (simp_all add: new_io_buf_def)
  from append_bufs_ok [OF this, of cap num] obtain p' b' where p': "append_bufs cap num ?a ?p = Inr p'"
    "pool p' = (pool p)(cap \<mapsto> Some ?a)" "total_mem p' = total_mem p" "next_addr p' = Suc ?a + num"
    "bufs p' ?a = Some ((new_io_buf cap)\<lparr>next_buf := b'\<rparr>)" "chain (bufs p') b' [Suc ?a..<Suc ?a + num]"
    "\<And>x. x < Suc ?a \<Longrightarrow> x \<noteq> ?a \<Longrightarrow> bufs p' x = bufs p x"
    "\<And>x. Suc ?a + num \<le> x \<Longrightarrow> bufs p' x = bufs p x"
    "\<And>x. x \<in> {Suc ?a..<Suc ?a + num} \<Longrightarrow> \<exists>q. bufs p' x = Some ((new_io_buf cap)\<lparr>next_buf := q\<rparr>)"
    by auto
  let ?p' = "p'\<lparr>total_mem := total_mem p' + cap div 1024 * int num\<rparr>"
  have run: "make_io_buf_list cap num p = Inr ?p'"
    using p'(1) by (simp add: make_io_buf_list_def new_buf_def)
  have as: "?as = ?a # [Suc ?a..<Suc ?a + num]" by (simp add: upt_conv_Cons)
  have low: "x < ?a" if "c \<in> cs" "x \<in> set (free c)" for c x
    using pool_freeD(5) [OF assms(1) that] pool_freeD(7) [OF assms(1), of x] by auto
  have new: "\<exists>b. bufs p' x = Some b \<and> buf_ok b \<and> capacity b = cap \<and> buf_head b = 0 \<and> buf_length b = 0"
    if "x \<in> set ?as" for x
  proof -
    have "\<exists>q. bufs p' x = Some ((new_io_buf cap)\<lparr>next_buf := q\<rparr>)"
      using that p'(5) p'(9) [of x] by (cases "x = ?a") auto
    then show ?thesis using buf_ok_new [OF assms(3)] by (auto simp: buf_ok_def new_io_buf_def)
  qed
  have "pool_free (insert cap cs) (free(cap := ?as)) {} ?p'"
  proof (rule pool_freeI)
    fix c assume c: "c \<in> insert cap cs"
    show "\<exists>ptr. pool ?p' c = Some ptr \<and> chain (bufs ?p') ptr ((free(cap := ?as)) c)"
    proof (cases "c = cap")
      case True
      then show ?thesis using p'(2,5,6) as by simp
    next
      case False
      then have cs: "c \<in> cs" using c by simp
      have "chain (bufs p') q (free c) = chain (bufs p) q (free c)" for q
        by (rule chain_frame) (use low [OF cs] p'(7) in \<open>metis less_SucI nat_neq_iff\<close>)
      then show ?thesis using pool_freeD(1) [OF assms(1) cs] False p'(2) by simp
    qed
    show "distinct ((free(cap := ?as)) c)"
      using pool_freeD(2) [OF assms(1), of c] c by (cases "c = cap") simp_all
  next
    fix c1 c2 x assume c: "c1 \<in> insert cap cs" "c2 \<in> insert cap cs" "c1 \<noteq> c2" and x: "x \<in> set ((free(cap := ?as)) c1)"
    note cases = c
    consider (a) "c1 = cap" "c2 \<in> cs" "c2 \<noteq> cap" | (b) "c2 = cap" "c1 \<in> cs" "c1 \<noteq> cap"
      | (both) "c1 \<in> cs" "c2 \<in> cs" "c1 \<noteq> cap" "c2 \<noteq> cap"
      using cases by blast
    then show "x \<notin> set ((free(cap := ?as)) c2)"
    proof cases
      case a
      then have "?a \<le> x" using x by auto
      then show ?thesis using a low [of c2 x] by auto
    next
      case b
      then have "x < ?a" using x low by simp
      then show ?thesis using b by simp
    next
      case both
      then show ?thesis using x pool_freeD(4) [OF assms(1) both(1,2)] cases(3) by simp
    qed
  next
    fix c x assume c: "c \<in> insert cap cs" and x: "x \<in> set ((free(cap := ?as)) c)"
    show "\<exists>b. bufs ?p' x = Some b \<and> buf_ok b \<and> capacity b = c \<and> buf_head b = 0 \<and> buf_length b = 0"
    proof (cases "c = cap")
      case True
      then show ?thesis using new x by simp
    next
      case False
      then have "c \<in> cs" "x \<in> set (free c)" using c x by simp_all
      then show ?thesis using pool_freeD(5) [OF assms(1), of c x] low [of c x] p'(7) [of x] by simp
    qed
  next
    fix x assume "bufs ?p' x \<noteq> None"
    then show "x < next_addr ?p'"
      using p'(4) p'(8) [of x] pool_freeD(7) [OF assms(1), of x] by (cases "Suc ?a + num \<le> x") auto
  qed simp_all
  then show ?thesis using run p'(3) by (intro exI [of _ ?p'] exI [of _ ?as]) simp
qed

lemma make_lists_ok:
  assumes "pool_free cs free {} p" and "distinct (map fst xs)" and "set (map fst xs) \<inter> cs = {}"
    and "\<forall>x \<in> set xs. 0 \<le> fst x"
  shows "\<exists>p' free'. res_fold (\<lambda>(cap, num). make_io_buf_list cap num) xs p = Inr p' \<and>
    pool_free (cs \<union> set (map fst xs)) free' {} p' \<and> (\<forall>x \<in> set xs. length (free' (fst x)) = snd x + 1) \<and>
    (\<forall>c \<in> cs. free' c = free c) \<and>
    total_mem p' = total_mem p + (\<Sum>x\<leftarrow>xs. fst x div 1024 * int (snd x))"
  using assms
proof (induction xs arbitrary: cs free p)
  case (Cons x xs)
  obtain cap num where x: "x = (cap, num)" by (cases x)
  have cap: "cap \<notin> cs" "0 \<le> cap" using Cons.prems(3,4) x by auto
  obtain p1 as where p1: "make_io_buf_list cap num p = Inr p1" "pool_free (insert cap cs) (free(cap := as)) {} p1"
      "length as = num + 1" "total_mem p1 = total_mem p + cap div 1024 * int num"
    using make_io_buf_list_ok [OF Cons.prems(1) cap, of num] by blast
  have "distinct (map fst xs)" "set (map fst xs) \<inter> insert cap cs = {}" "\<forall>x \<in> set xs. 0 \<le> fst x"
    using Cons.prems(2-4) x by auto
  from Cons.IH [OF p1(2) this] obtain p' free' where ih:
    "res_fold (\<lambda>(cap, num). make_io_buf_list cap num) xs p1 = Inr p'"
    "pool_free (insert cap cs \<union> set (map fst xs)) free' {} p'"
    "\<forall>x \<in> set xs. length (free' (fst x)) = snd x + 1" "\<forall>c \<in> insert cap cs. free' c = (free(cap := as)) c"
    "total_mem p' = total_mem p1 + (\<Sum>x\<leftarrow>xs. fst x div 1024 * int (snd x))"
    by blast
  have "\<forall>c \<in> cs. free' c = free c" using ih(4) cap(1) by auto
  moreover have "length (free' cap) = num + 1" using ih(4) p1(3) by simp
  moreover have "cs \<union> set (map fst (x # xs)) = insert cap cs \<union> set (map fst xs)" by (auto simp: x)
  ultimately show ?case using ih(1-3,5) p1(1,4) x by auto
qed auto

lemma new_buf_pool_lists:
  "\<exists>p free. new_buf_pool = Inr p \<and> pool_free caps free {} p \<and>
    (\<forall>(cap, num) \<in> set init_sizes. length (free cap) = num + 1) \<and> total_mem p = 334240"
proof -
  let ?p = "\<lparr>bufs = Map.empty, pool = Map.empty, total_mem = 0, next_addr = 0\<rparr> :: buf_pool"
  have "pool_free {} (\<lambda>_. []) {} ?p" by (simp add: pool_free_def)
  moreover have "distinct (map fst init_sizes)" "\<forall>x \<in> set init_sizes. 0 \<le> fst x"
    by (simp_all add: init_sizes_def mem_caps)
  ultimately obtain p free where p: "new_buf_pool = Inr p" "pool_free (set (map fst init_sizes)) free {} p"
      "\<forall>x \<in> set init_sizes. length (free (fst x)) = snd x + 1"
      "total_mem p = (\<Sum>x\<leftarrow>init_sizes. fst x div 1024 * int (snd x))"
    using make_lists_ok [of "{}" "\<lambda>_. []" ?p init_sizes] by (auto simp: new_buf_pool_def)
  have "set (map fst init_sizes) = caps" "(\<Sum>x\<leftarrow>init_sizes. fst x div 1024 * int (snd x)) = 334240"
    by (simp_all add: init_sizes_def caps_def mem_caps)
  moreover have "\<forall>(cap, num) \<in> set init_sizes. length (free cap) = num + 1" using p(3) by auto
  ultimately show ?thesis using p(1,2,4) by (intro exI conjI) auto
qed

subsection \<open>The pool as its users see it\<close>

text \<open>A user who takes buffers and gives back the \<open>i\<close>-th one it holds.\<close>

fun pool_run :: "(int \<Rightarrow> 'p \<Rightarrow> (addr option \<times> 'p) res) \<Rightarrow> (addr \<Rightarrow> 'p \<Rightarrow> 'p res) \<Rightarrow> (int + nat) list \<Rightarrow>
    addr list \<times> 'p \<Rightarrow> (addr list \<times> 'p) res" where
  "pool_run get give [] s = Inr s"
| "pool_run get give (Inl N # ops) (held, p) = res_bind (get N p) (\<lambda>(r, p).
     pool_run get give ops ((case r of None \<Rightarrow> held | Some a \<Rightarrow> a # held), p))"
| "pool_run get give (Inr i # ops) (held, p) =
     (if i < length held
      then res_bind (give (held ! i) p) (\<lambda>p. pool_run get give ops (take i held @ drop (Suc i) held, p))
      else pool_run get give ops (held, p))"

locale buffer_pool =
  fixes pool_inv :: "addr set \<Rightarrow> 'p \<Rightarrow> bool" and buf_at :: "'p \<Rightarrow> addr \<Rightarrow> io_buf option"
    and get_buf :: "int \<Rightarrow> 'p \<Rightarrow> (addr option \<times> 'p) res" and give_back :: "addr \<Rightarrow> 'p \<Rightarrow> 'p res"
  assumes get_small: "pool_inv held p \<Longrightarrow> N \<le> m8M \<Longrightarrow> get_buf N p = Inl Exited \<or>
      (\<exists>a p' b. get_buf N p = Inr (Some a, p') \<and> pool_inv (insert a held) p' \<and> a \<notin> held \<and>
        buf_at p' a = Some b \<and> content b = [] \<and> N \<le> capacity b \<and> (\<forall>x \<in> held. buf_at p' x = buf_at p x))"
    and get_large: "m8M < N \<Longrightarrow> get_buf N p = Inr (None, p)"
    and give: "pool_inv held p \<Longrightarrow> a \<in> held \<Longrightarrow> \<exists>p'. give_back a p = Inr p' \<and> pool_inv (held - {a}) p' \<and>
      (\<forall>x \<in> held - {a}. buf_at p' x = buf_at p x)"
begin

lemma run_keeps_apart:
  assumes "pool_inv (set held) p" and "distinct held"
  shows "pool_run get_buf give_back ops (held, p) = Inl Exited \<or>
    (\<exists>held' p'. pool_run get_buf give_back ops (held, p) = Inr (held', p') \<and> pool_inv (set held') p' \<and> distinct held')"
  using assms
proof (induction ops arbitrary: held p)
  case (Cons opn ops)
  show ?case
  proof (cases opn)
    case (Inl N)
    show ?thesis
    proof (cases "N \<le> m8M")
      case True
      from get_small [OF Cons.prems(1) True] show ?thesis
      proof (elim disjE exE conjE)
        fix a p' b
        assume "get_buf N p = Inr (Some a, p')" "pool_inv (insert a (set held)) p'" "a \<notin> set held"
        then show ?thesis using Cons.IH [of "a # held" p'] Cons.prems(2) Inl by simp
      qed (simp add: Inl)
    next
      case False
      then show ?thesis using get_large [of N p] Cons.IH [OF Cons.prems] Inl by simp
    qed
  next
    case (Inr i)
    show ?thesis
    proof (cases "i < length held")
      case True
      let ?rest = "take i held @ drop (Suc i) held"
      have parts: "held = take i held @ held ! i # drop (Suc i) held" using True by (rule id_take_nth_drop)
      then have "distinct (take i held @ held ! i # drop (Suc i) held)" using Cons.prems(2) by simp
      moreover have "set held = set (take i held @ held ! i # drop (Suc i) held)" using parts by simp
      ultimately have "distinct ?rest" "set ?rest = set held - {held ! i}" by auto
      moreover obtain p' where "give_back (held ! i) p = Inr p'" "pool_inv (set held - {held ! i}) p'"
        using give [OF Cons.prems(1), of "held ! i"] True by auto
      ultimately show ?thesis using Cons.IH [of ?rest p'] True Inr by simp
    next
      case False
      then show ?thesis using Cons.IH [OF Cons.prems] Inr by simp
    qed
  qed
qed simp

end

interpretation bp: buffer_pool pool_ok bufs alloc_buf revert
proof (unfold_locales, goal_cases)
  case (1 held p N)
  then show ?case using alloc_buf_ok [of held p N] by blast
next
  case (2 N p)
  then show ?case by (simp add: alloc_buf_def size_class_caps(3))
next
  case (3 held p a)
  then show ?case by (rule revert_ok)
qed

text \<open>
  C26: The buffer pool hands every buffer to one user at a time. After any sequence of allocations and
  returns of held buffers the buffers in use are different from each other and none is in a free list;
  nothing fails, unless the memory limit ends the process.
\<close>

theorem pool_never_shares:
  assumes "new_buf_pool = Inr p"
  shows "pool_run alloc_buf revert ops ([], p) = Inl Exited \<or>
    (\<exists>held p'. pool_run alloc_buf revert ops ([], p) = Inr (held, p') \<and> distinct held \<and> pool_ok (set held) p')"
proof -
  have "pool_ok {} p" using new_buf_pool_lists assms unfolding pool_ok_def by (metis sum.inject(2))
  then show ?thesis using bp.run_keeps_apart [of "[]" p ops] by auto
qed

text \<open>
  The pool starts with one buffer more in each size class than it accounts for: \<open>num + 1\<close> are
  linked and \<open>num\<close> are counted.
\<close>

theorem pool_starts_with_one_more:
  "\<exists>p free. new_buf_pool = Inr p \<and> pool_free caps free {} p \<and> total_mem p = 334240 \<and>
    map (\<lambda>c. length (free c)) [m4K, m16K, m64K, m256K, m1M, m4M, m8M] = [5001, 1001, 501, 201, 51, 21, 11]"
  using new_buf_pool_lists by (fastforce simp: init_sizes_def)

theorem pool_never_shares_witness:
  "\<exists>p. new_buf_pool = Inr p \<and> (pool_run alloc_buf revert [Inl 10, Inl 5000, Inr 0, Inl 20] ([], p) = Inl Exited \<or>
    (\<exists>held p'. pool_run alloc_buf revert [Inl 10, Inl 5000, Inr 0, Inl 20] ([], p) = Inr (held, p') \<and> distinct held))"
proof -
  obtain p where p: "new_buf_pool = Inr p" using new_buf_pool_lists by blast
  show ?thesis using pool_never_shares [OF p, of "[Inl 10, Inl 5000, Inr 0, Inl 20]"] p by blast
qed

end
