(* ===== verification/Reactor_Buf.thy ===== *)
theory Reactor_Buf
  imports Buf_Pool
begin

text \<open>
  \<open>reactor_buf\<close>, \<open>input_buf\<close> and \<open>output_buf\<close> (\<open>lars_reactor/src/reactor_buf.cpp\<close>): a pointer to a
  pool buffer, filled from and emptied into a socket. What the system calls return is an argument:
  the loops that repeat a call while it is interrupted end with a result that is not.
\<close>

type_synonym reactor_buf = "addr option"

datatype io_result =
    Io_Error             \<comment> \<open>-1 with an error other than an interruption\<close>
  | Io_Again             \<comment> \<open>-1 with \<open>EAGAIN\<close>\<close>
  | Io_Bytes "byte list" \<comment> \<open>the bytes read; none at the end of the stream\<close>
  | Io_Written nat

definition deref :: "addr \<Rightarrow> buf_pool \<Rightarrow> io_buf res" where
  "deref a p = (case bufs p a of None \<Rightarrow> Inl Dangling | Some b \<Rightarrow> Inr b)"

definition rb_length :: "reactor_buf \<Rightarrow> buf_pool \<Rightarrow> int res" where
  "rb_length rb p = (case rb of None \<Rightarrow> Inr 0 | Some a \<Rightarrow> res_bind (deref a p) (\<lambda>b. Inr (buf_length b)))"

definition rb_pop :: "int \<Rightarrow> reactor_buf \<times> buf_pool \<Rightarrow> (reactor_buf \<times> buf_pool) res" where
  "rb_pop n s =
     (case s of (rb, p) \<Rightarrow>
        (case rb of
           None \<Rightarrow> Inl Assert_Failed
         | Some a \<Rightarrow> res_bind (deref a p) (\<lambda>b.
             if \<not> n \<le> buf_length b then Inl Assert_Failed
             else
               (let b = buf_pop n b; p = set_buf a b p
                in if buf_length b = 0 then res_bind (revert a p) (\<lambda>p. Inr (None, p))
                   else Inr (Some a, p)))))"

definition rb_clear :: "reactor_buf \<times> buf_pool \<Rightarrow> (reactor_buf \<times> buf_pool) res" where
  "rb_clear s =
     (case s of (rb, p) \<Rightarrow>
        (case rb of None \<Rightarrow> Inr (None, p) | Some a \<Rightarrow> res_bind (revert a p) (\<lambda>p. Inr (None, p))))"

text \<open>\<open>data\<close> with the \<open>n\<close> bytes its caller reads there; it is null when there is no buffer.\<close>

definition rb_data :: "int \<Rightarrow> reactor_buf \<Rightarrow> buf_pool \<Rightarrow> byte list res" where
  "rb_data n rb p =
     (case rb of
        None \<Rightarrow> if n = 0 then Inr [] else Inl Null_Deref
      | Some a \<Rightarrow> res_bind (deref a p) (\<lambda>b. mem_read (buf_head b) n (buf_data b)))"

definition rb_adjust :: "reactor_buf \<times> buf_pool \<Rightarrow> (reactor_buf \<times> buf_pool) res" where
  "rb_adjust s =
     (case s of (rb, p) \<Rightarrow>
        (case rb of
           None \<Rightarrow> Inr (None, p)
         | Some a \<Rightarrow> res_bind (deref a p) (\<lambda>b. res_bind (buf_adjust b) (\<lambda>b. Inr (Some a, set_buf a b p)))))"

text \<open>
  The start of \<open>read_data\<close> and of \<open>send_data\<close>: a buffer with room for \<open>n\<close> more bytes, a new one when
  there is none or the old one is too small. The first component tells whether there is one.
\<close>

definition make_room :: "int \<Rightarrow> reactor_buf \<times> buf_pool \<Rightarrow> (bool \<times> reactor_buf \<times> buf_pool) res" where
  "make_room n s =
     (case s of (rb, p) \<Rightarrow>
        (case rb of
           None \<Rightarrow> res_bind (alloc_buf n p) (\<lambda>(r, p). Inr (r \<noteq> None, r, p))
         | Some a \<Rightarrow> res_bind (deref a p) (\<lambda>b.
             if buf_head b \<noteq> 0 then Inl Assert_Failed
             else if capacity b - buf_length b < n then
               res_bind (alloc_buf (buf_length b + n) p) (\<lambda>(r, p).
                 case r of
                   None \<Rightarrow> Inr (False, rb, p)
                 | Some a' \<Rightarrow>
                     res_bind (deref a' p) (\<lambda>b'. res_bind (deref a p) (\<lambda>b.
                     res_bind (buf_copy b b') (\<lambda>b'.
                     res_bind (revert a (set_buf a' b' p)) (\<lambda>p. Inr (True, Some a', p))))))
             else Inr (True, rb, p))))"

text \<open>Bytes put behind the ones a buffer holds, at \<open>data + length\<close>.\<close>

definition put_bytes :: "byte list \<Rightarrow> reactor_buf \<times> buf_pool \<Rightarrow> (reactor_buf \<times> buf_pool) res" where
  "put_bytes bs s =
     (case s of (rb, p) \<Rightarrow>
        (case rb of
           None \<Rightarrow> Inl Null_Deref
         | Some a \<Rightarrow> res_bind (deref a p) (\<lambda>b.
             res_bind (mem_write (buf_length b) bs (buf_data b)) (\<lambda>d.
               Inr (rb, set_buf a (b\<lparr>buf_data := d, buf_length := buf_length b + int (length bs)\<rparr>) p)))))"

text \<open>
  \<open>read_data\<close>: \<open>fionread\<close> is what \<open>ioctl\<close> stores, or nothing when it fails, \<open>got\<close> what \<open>read\<close> returns.
  With nothing announced it still asks for 4096 bytes. Lengths are \<open>int\<close>s without a width here: no sum of the
  code leaves 32 bits as long as less than \<open>2^31 - 8 MB\<close> bytes are announced, and the theorems about reads
  assume at most \<open>read_limit\<close>.
\<close>

definition read_data :: "int option \<Rightarrow> io_result \<Rightarrow> reactor_buf \<times> buf_pool \<Rightarrow> (int \<times> reactor_buf \<times> buf_pool) res" where
  "read_data fionread got s =
     (case fionread of
        None \<Rightarrow> Inr (- 1, s)
      | Some need_read \<Rightarrow>
          res_bind (make_room need_read s) (\<lambda>(room, s).
            if \<not> room then Inr (- 1, s)
            else (case got of
                    Io_Bytes bs \<Rightarrow>
                      if bs = [] then Inr (0, s)
                      else if need_read \<noteq> 0 \<and> int (length bs) \<noteq> need_read then Inl Assert_Failed
                      else res_bind (put_bytes bs s) (\<lambda>s. Inr (int (length bs), s))
                  | _ \<Rightarrow> Inr (- 1, s))))"

definition send_data :: "byte list \<Rightarrow> reactor_buf \<times> buf_pool \<Rightarrow> (int \<times> reactor_buf \<times> buf_pool) res" where
  "send_data data s =
     res_bind (make_room (int (length data)) s) (\<lambda>(room, s).
       if \<not> room then Inr (- 1, s) else res_bind (put_bytes data s) (\<lambda>s. Inr (0, s)))"

definition write2fd :: "io_result \<Rightarrow> reactor_buf \<times> buf_pool \<Rightarrow> (int \<times> reactor_buf \<times> buf_pool) res" where
  "write2fd res s =
     (case s of (rb, p) \<Rightarrow>
        (case rb of
           None \<Rightarrow> Inl Assert_Failed
         | Some a \<Rightarrow> res_bind (deref a p) (\<lambda>b.
             if buf_head b \<noteq> 0 then Inl Assert_Failed
             else (case res of
                     Io_Written n \<Rightarrow>
                       if n = 0 then Inr (0, s)
                       else res_bind (buf_adjust (buf_pop (int n) b)) (\<lambda>b. Inr (int n, Some a, set_buf a b p))
                   | Io_Again \<Rightarrow> Inr (0, s)
                   | _ \<Rightarrow> Inr (- 1, s)))))"

subsection \<open>What a buffer holds\<close>

definition rb_content :: "reactor_buf \<Rightarrow> buf_pool \<Rightarrow> byte list" where
  "rb_content rb p = (case rb of None \<Rightarrow> [] | Some a \<Rightarrow> (case bufs p a of None \<Rightarrow> [] | Some b \<Rightarrow> content b))"

text \<open>
  The pointer is to a buffer this object holds, \<open>others\<close> are the buffers of the other users, and the
  bytes start at the front unless \<open>moved\<close>.
\<close>

definition rb_ok :: "addr set \<Rightarrow> reactor_buf \<Rightarrow> buf_pool \<Rightarrow> bool" where
  "rb_ok others rb p \<longleftrightarrow>
     (case rb of None \<Rightarrow> pool_ok others p | Some a \<Rightarrow> a \<notin> others \<and> pool_ok (insert a others) p)"

definition at_front :: "reactor_buf \<Rightarrow> buf_pool \<Rightarrow> bool" where
  "at_front rb p \<longleftrightarrow> (\<forall>a b. rb = Some a \<longrightarrow> bufs p a = Some b \<longrightarrow> buf_head b = 0)"

definition same_others :: "addr set \<Rightarrow> buf_pool \<Rightarrow> buf_pool \<Rightarrow> bool" where
  "same_others others p p' \<longleftrightarrow> (\<forall>x \<in> others. bufs p' x = bufs p x)"

lemma same_others_refl [simp]: "same_others others p p"
  by (simp add: same_others_def)

lemma same_others_trans: "same_others H p q \<Longrightarrow> same_others H q r \<Longrightarrow> same_others H p r"
  by (simp add: same_others_def)

lemma rb_ok_Some:
  assumes "rb_ok others (Some a) p"
  shows "\<exists>b. bufs p a = Some b \<and> buf_ok b \<and> rb_content (Some a) p = content b \<and>
    buf_length b = int (length (rb_content (Some a) p)) \<and> capacity b \<in> caps"
proof -
  have "pool_ok (insert a others) p" using assms by (simp add: rb_ok_def)
  then obtain b where "bufs p a = Some b" "buf_ok b" "capacity b \<in> caps"
    unfolding pool_ok_def by (metis insertI1 pool_freeD(6))
  then show ?thesis using length_content by (auto simp: rb_content_def)
qed

lemma rb_length_ok: "rb_ok others rb p \<Longrightarrow> rb_length rb p = Inr (int (length (rb_content rb p)))"
  using rb_ok_Some [of others _ p]
  by (cases rb) (fastforce simp: rb_length_def rb_content_def deref_def)+

lemma rb_data_ok:
  assumes "rb_ok others rb p" and "0 \<le> n" and "n \<le> int (length (rb_content rb p))"
  shows "rb_data n rb p = Inr (take (nat n) (rb_content rb p))"
proof (cases rb)
  case None
  then show ?thesis using assms(2,3) by (simp add: rb_data_def rb_content_def)
next
  case (Some a)
  obtain b where b: "bufs p a = Some b" "buf_ok b" "rb_content rb p = content b"
      "buf_length b = int (length (rb_content rb p))"
    using rb_ok_Some [of others a p] assms(1) Some by auto
  then have "take (nat n) (content b) = take (nat n) (drop (nat (buf_head b)) (buf_data b))"
    using assms(3) b(4) unfolding content_def take_take by (simp add: min_absorb1 nat_le_iff)
  then show ?thesis
    using Some b assms(2,3) by (simp add: rb_data_def deref_def mem_read_def buf_ok_def)
qed

lemma rb_set:
  assumes "rb_ok others (Some a) p" and "bufs p a = Some b" and "buf_ok b'" and "capacity b' = capacity b"
  shows "rb_ok others (Some a) (set_buf a b' p)" and "rb_content (Some a) (set_buf a b' p) = content b'"
    and "same_others others p (set_buf a b' p)" and "bufs (set_buf a b' p) a = Some b'"
  using assms set_buf_ok [of "insert a others" p a b b']
  by (auto simp: rb_ok_def rb_content_def set_buf_def same_others_def)

lemma rb_revert:
  assumes "rb_ok others (Some a) p"
  shows "\<exists>p'. revert a p = Inr p' \<and> rb_ok others None p' \<and> same_others others p p'"
proof -
  have a: "a \<notin> others" "pool_ok (insert a others) p" using assms by (simp_all add: rb_ok_def)
  then have "insert a others - {a} = others" by simp
  then show ?thesis
    using revert_ok [OF a(2), of a] by (auto simp: rb_ok_def same_others_def)
qed

lemma rb_pop_ok:
  assumes "rb_ok others rb p" and "0 \<le> n" and "n \<le> int (length (rb_content rb p))" and "rb \<noteq> None"
  shows "\<exists>rb' p'. rb_pop n (rb, p) = Inr (rb', p') \<and> rb_ok others rb' p' \<and> same_others others p p' \<and>
    rb_content rb' p' = drop (nat n) (rb_content rb p) \<and>
    (rb' = None \<longleftrightarrow> n = int (length (rb_content rb p)))"
proof -
  obtain a where rb: "rb = Some a" using assms(4) by blast
  obtain b where b: "bufs p a = Some b" "buf_ok b" "rb_content rb p = content b"
      "buf_length b = int (length (content b))"
    using rb_ok_Some [of others a p] assms(1) rb by auto
  let ?b = "buf_pop n b"
  have n: "n \<le> buf_length b" using assms(3) b(3,4) by simp
  note pop = buf_pop_ok [OF b(2) assms(2) n]
  note set = rb_set [OF assms(1) [unfolded rb] b(1) pop(1,3)]
  have len: "buf_length ?b = buf_length b - n" by (simp add: buf_pop_def)
  show ?thesis
  proof (cases "buf_length ?b = 0")
    case True
    obtain p' where "revert a (set_buf a ?b p) = Inr p'" "rb_ok others None p'"
        "same_others others (set_buf a ?b p) p'"
      using rb_revert [OF set(1)] by blast
    moreover have "drop (nat n) (content b) = []" using True len b(4) by simp
    ultimately show ?thesis
      using True n rb b set(3) len by (auto simp: rb_pop_def deref_def Let_def rb_content_def
          intro: same_others_trans)
  next
    case False
    then show ?thesis
      using n rb b set pop(2) len by (auto simp: rb_pop_def deref_def Let_def)
  qed
qed

lemma rb_clear_ok:
  assumes "rb_ok others rb p"
  shows "\<exists>p'. rb_clear (rb, p) = Inr (None, p') \<and> rb_ok others None p' \<and> same_others others p p'"
  using assms rb_revert [of others _ p] by (cases rb) (fastforce simp: rb_clear_def)+

lemma rb_adjust_ok:
  assumes "rb_ok others rb p"
  shows "\<exists>p'. rb_adjust (rb, p) = Inr (rb, p') \<and> rb_ok others rb p' \<and> same_others others p p' \<and>
    rb_content rb p' = rb_content rb p \<and> at_front rb p'"
proof (cases rb)
  case None
  then show ?thesis using assms by (simp add: rb_adjust_def at_front_def)
next
  case (Some a)
  obtain b where b: "bufs p a = Some b" "buf_ok b" "rb_content rb p = content b"
    using rb_ok_Some [of others a p] assms Some by auto
  obtain b' where b': "buf_adjust b = Inr b'" "buf_ok b'" "buf_head b' = 0" "content b' = content b"
      "capacity b' = capacity b"
    using buf_adjust_ok [OF b(2)] by blast
  note set = rb_set [OF assms [unfolded Some] b(1) b'(2,5)]
  show ?thesis using Some b b' set by (simp add: rb_adjust_def deref_def at_front_def)
qed

subsection \<open>Making room and adding bytes\<close>

lemma alloc_fresh:
  assumes "pool_ok held p" and "N \<le> m8M"
  shows "alloc_buf N p = Inl Exited \<or>
    (\<exists>a p' b. alloc_buf N p = Inr (Some a, p') \<and> pool_ok (insert a held) p' \<and> a \<notin> held \<and>
       bufs p' a = Some b \<and> content b = [] \<and> buf_head b = 0 \<and> N \<le> capacity b \<and> (\<forall>x \<in> held. bufs p' x = bufs p x))"
  using alloc_buf_ok [OF assms] by blast

lemma make_room_ok:
  assumes "rb_ok others rb p" and "at_front rb p" and "0 \<le> n"
    and "int (length (rb_content rb p)) + n \<le> m8M"
  shows "make_room n (rb, p) = Inl Exited \<or>
    (\<exists>a p' b. make_room n (rb, p) = Inr (True, Some a, p') \<and> rb_ok others (Some a) p' \<and> same_others others p p' \<and>
       rb_content (Some a) p' = rb_content rb p \<and> at_front (Some a) p' \<and>
       bufs p' a = Some b \<and> int (length (rb_content rb p)) + n \<le> capacity b)"
proof (cases rb)
  case None
  have "pool_ok others p" using assms(1) None by (simp add: rb_ok_def)
  from alloc_fresh [OF this, of n] assms(4) None show ?thesis
    by (auto simp: make_room_def rb_content_def rb_ok_def same_others_def at_front_def)
next
  case (Some a)
  obtain b where b: "bufs p a = Some b" "buf_ok b" "rb_content rb p = content b"
      "buf_length b = int (length (content b))"
    using rb_ok_Some [of others a p] assms(1) Some by auto
  have front: "buf_head b = 0" using assms(2) Some b(1) by (simp add: at_front_def)
  show ?thesis
  proof (cases "capacity b - buf_length b < n")
    case False
    then have "make_room n (rb, p) = Inr (True, rb, p)"
      using Some b(1) front by (simp add: make_room_def deref_def)
    then show ?thesis using assms Some b False by simp
  next
    case True
    have held: "pool_ok (insert a others) p" "a \<notin> others" using assms(1) Some by (simp_all add: rb_ok_def)
    have "buf_length b + n \<le> m8M" using assms(4) b by simp
    from alloc_fresh [OF held(1) this] show ?thesis
    proof (elim disjE exE conjE)
      assume "alloc_buf (buf_length b + n) p = Inl Exited"
      then show ?thesis using Some b(1) front True by (simp add: make_room_def deref_def)
    next
      fix a' p1 b1
      assume al: "alloc_buf (buf_length b + n) p = Inr (Some a', p1)" "pool_ok (insert a' (insert a others)) p1"
        "a' \<notin> insert a others" "bufs p1 a' = Some b1" "buf_length b + n \<le> capacity b1"
        "\<forall>x \<in> insert a others. bufs p1 x = bufs p x"
      have ok1: "rb_ok (insert a others) (Some a') p1" using al(2,3) by (simp add: rb_ok_def)
      have b1: "buf_ok b1" using rb_ok_Some [OF ok1] al(4) by auto
      have "buf_length b \<le> capacity b1" using al(5) assms(3) by linarith
      then obtain b2 where b2: "buf_copy b b1 = Inr b2" "buf_ok b2" "buf_head b2 = 0" "content b2 = content b"
          "capacity b2 = capacity b1"
        using buf_copy_ok [OF b1 b(2)] by blast
      note set = rb_set [OF ok1 al(4) b2(2,5)]
      let ?p2 = "set_buf a' b2 p1"
      have "rb_ok (insert a' others) (Some a) ?p2"
        using set(1) held(2) al(3) by (simp add: rb_ok_def insert_commute)
      then obtain p3 where p3: "revert a ?p2 = Inr p3" "rb_ok (insert a' others) None p3"
          "same_others (insert a' others) ?p2 p3"
        using rb_revert by blast
      have a': "bufs p3 a' = Some b2" using p3(3) set(4) by (simp add: same_others_def)
      have "rb_ok others (Some a') p3" using p3(2) al(3) by (simp add: rb_ok_def)
      moreover have "same_others others p p3"
        using p3(3) set(3) al(6) by (simp add: same_others_def)
      moreover have "make_room n (rb, p) = Inr (True, Some a', p3)"
        using Some b(1) front True al(1,4,6) b2(1) p3(1) by (simp add: make_room_def deref_def)
      ultimately show ?thesis
        using a' b2 b(3,4) al(5) by (auto simp: rb_content_def at_front_def)
    qed
  qed
qed

lemma put_bytes_ok:
  assumes "rb_ok others (Some a) p" and "at_front (Some a) p" and "bufs p a = Some b"
    and "int (length (rb_content (Some a) p)) + int (length bs) \<le> capacity b"
  shows "\<exists>p'. put_bytes bs (Some a, p) = Inr (Some a, p') \<and> rb_ok others (Some a) p' \<and> same_others others p p' \<and>
    at_front (Some a) p' \<and> rb_content (Some a) p' = rb_content (Some a) p @ bs"
proof -
  have b: "buf_ok b" "rb_content (Some a) p = content b" "buf_length b = int (length (content b))"
    using rb_ok_Some [OF assms(1)] assms(3) by auto
  have front: "buf_head b = 0" using assms(2,3) by (simp add: at_front_def)
  obtain d where d: "mem_write (buf_length b) bs (buf_data b) = Inr d" "length d = length (buf_data b)"
      "take (nat (buf_length b)) d = take (nat (buf_length b)) (buf_data b)"
      "take (length bs) (drop (nat (buf_length b)) d) = bs"
    using mem_write_ok [of "buf_length b" bs "buf_data b"] assms(4) b by (auto simp: buf_ok_def)
  let ?b = "b\<lparr>buf_data := d, buf_length := buf_length b + int (length bs)\<rparr>"
  have ok: "buf_ok ?b" using b(1,2) assms(4) d(2) front b(3) by (simp add: buf_ok_def)
  have "nat (buf_length b + int (length bs)) = nat (buf_length b) + length bs" using b(3) by simp
  then have "content ?b = take (nat (buf_length b)) d @ take (length bs) (drop (nat (buf_length b)) d)"
    using front by (simp add: content_def take_add)
  then have cont: "content ?b = content b @ bs" using d(3,4) front by (simp add: content_def)
  have "capacity ?b = capacity b" by simp
  note set = rb_set [OF assms(1,3) ok this]
  show ?thesis
    using assms(3) d(1) set cont b(2) front by (simp add: put_bytes_def deref_def at_front_def)
qed

lemma send_data_ok:
  assumes "rb_ok others rb p" and "at_front rb p" and "int (length (rb_content rb p)) + int (length bs) \<le> m8M"
  shows "send_data bs (rb, p) = Inl Exited \<or>
    (\<exists>rb' p'. send_data bs (rb, p) = Inr (0, rb', p') \<and> rb_ok others rb' p' \<and> same_others others p p' \<and>
       at_front rb' p' \<and> rb_content rb' p' = rb_content rb p @ bs)"
  using make_room_ok [OF assms(1,2) of_nat_0_le_iff assms(3)]
proof (elim disjE exE conjE)
  fix a p1 b
  assume room: "make_room (int (length bs)) (rb, p) = Inr (True, Some a, p1)" "rb_ok others (Some a) p1"
    "same_others others p p1" "rb_content (Some a) p1 = rb_content rb p" "at_front (Some a) p1" "bufs p1 a = Some b"
    "int (length (rb_content rb p)) + int (length bs) \<le> capacity b"
  then obtain p2 where "put_bytes bs (Some a, p1) = Inr (Some a, p2)" "rb_ok others (Some a) p2"
      "same_others others p1 p2" "at_front (Some a) p2" "rb_content (Some a) p2 = rb_content (Some a) p1 @ bs"
    using put_bytes_ok [OF room(2,5,6), of bs] by auto
  then show ?thesis using room(1,3,4) same_others_trans by (auto simp: send_data_def)
qed (simp_all add: send_data_def)

lemma write2fd_ok:
  assumes "rb_ok others (Some a) p" and "at_front (Some a) p" and "n \<le> length (rb_content (Some a) p)"
  shows "\<exists>p'. write2fd (Io_Written n) (Some a, p) = Inr (int n, Some a, p') \<and> rb_ok others (Some a) p' \<and>
    same_others others p p' \<and> at_front (Some a) p' \<and> rb_content (Some a) p' = drop n (rb_content (Some a) p)"
proof -
  obtain b where b: "bufs p a = Some b" "buf_ok b" "rb_content (Some a) p = content b"
      "buf_length b = int (length (content b))"
    using rb_ok_Some [OF assms(1)] by auto
  have front: "buf_head b = 0" using assms(2) b(1) by (simp add: at_front_def)
  show ?thesis
  proof (cases "n = 0")
    case True
    then show ?thesis using assms b front by (simp add: write2fd_def deref_def)
  next
    case False
    have "int n \<le> buf_length b" using assms(3) b by simp
    note pop = buf_pop_ok [OF b(2) _ this]
    then obtain b' where b': "buf_adjust (buf_pop (int n) b) = Inr b'" "buf_ok b'" "buf_head b' = 0"
        "content b' = drop n (content b)" "capacity b' = capacity b"
      using buf_adjust_ok [of "buf_pop (int n) b"] by auto
    note set = rb_set [OF assms(1) b(1) b'(2,5)]
    show ?thesis
      using False b front b' set by (simp add: write2fd_def deref_def at_front_def)
  qed
qed

subsection \<open>The stream through an output buffer\<close>

text \<open>
  What a connection does with its output buffer: it puts bytes in and, when some are there, has the
  kernel take up to \<open>k\<close> of them.
\<close>

datatype out_op = Put "byte list" | Flush nat

definition do_flush :: "nat \<Rightarrow> byte list \<times> reactor_buf \<times> buf_pool \<Rightarrow> (byte list \<times> reactor_buf \<times> buf_pool) res" where
  "do_flush k s =
     (case s of (wire, rb, p) \<Rightarrow>
        (let bytes = rb_content rb p; n = min k (length bytes)
         in if bytes = [] then Inr s
            else res_bind (write2fd (Io_Written n) (rb, p)) (\<lambda>(_, rb, p). Inr (wire @ take n bytes, rb, p))))"

fun out_run :: "out_op list \<Rightarrow> byte list \<times> reactor_buf \<times> buf_pool \<Rightarrow> (byte list \<times> reactor_buf \<times> buf_pool) res" where
  "out_run [] s = Inr s"
| "out_run (Put bs # ops) (wire, s) = res_bind (send_data bs s) (\<lambda>(_, s). out_run ops (wire, s))"
| "out_run (Flush k # ops) s = res_bind (do_flush k s) (out_run ops)"

fun put_in :: "out_op list \<Rightarrow> byte list" where
  "put_in [] = []"
| "put_in (Put bs # ops) = bs @ put_in ops"
| "put_in (Flush k # ops) = put_in ops"

lemma do_flush_ok:
  assumes "rb_ok others rb p" and "at_front rb p"
  shows "\<exists>wire' rb' p'. do_flush k (wire, rb, p) = Inr (wire', rb', p') \<and> rb_ok others rb' p' \<and> at_front rb' p' \<and>
    same_others others p p' \<and> wire' @ rb_content rb' p' = wire @ rb_content rb p \<and>
    length (rb_content rb' p') \<le> length (rb_content rb p)"
proof (cases "rb_content rb p = []")
  case True
  then show ?thesis using assms by (auto simp: do_flush_def)
next
  case False
  then obtain a where rb: "rb = Some a" by (cases rb) (auto simp: rb_content_def)
  let ?n = "min k (length (rb_content rb p))"
  obtain p' where "write2fd (Io_Written ?n) (rb, p) = Inr (int ?n, Some a, p')" "rb_ok others (Some a) p'"
      "same_others others p p'" "at_front (Some a) p'" "rb_content (Some a) p' = drop ?n (rb_content rb p)"
    using write2fd_ok [of others a p ?n] assms rb by auto
  then show ?thesis using False by (auto simp: do_flush_def Let_def)
qed

lemma out_run_stream:
  assumes "rb_ok others rb p" and "at_front rb p"
    and "int (length (rb_content rb p)) + int (length (put_in ops)) \<le> m8M"
  shows "out_run ops (wire, rb, p) = Inl Exited \<or>
    (\<exists>wire' rb' p'. out_run ops (wire, rb, p) = Inr (wire', rb', p') \<and> rb_ok others rb' p' \<and>
       same_others others p p' \<and> wire' @ rb_content rb' p' = wire @ rb_content rb p @ put_in ops)"
  using assms
proof (induction ops arbitrary: wire rb p)
  case (Cons opn ops)
  show ?case
  proof (cases opn)
    case (Put bs)
    have "int (length (rb_content rb p)) + int (length bs) \<le> m8M" using Cons.prems(3) Put by simp
    from send_data_ok [OF Cons.prems(1,2) this] show ?thesis
    proof (elim disjE exE conjE)
      fix rb1 p1
      assume one: "send_data bs (rb, p) = Inr (0, rb1, p1)" "rb_ok others rb1 p1" "same_others others p p1"
        "at_front rb1 p1" "rb_content rb1 p1 = rb_content rb p @ bs"
      then have "int (length (rb_content rb1 p1)) + int (length (put_in ops)) \<le> m8M"
        using Cons.prems(3) Put by simp
      from Cons.IH [OF one(2,4) this, of wire] show ?thesis
        using one Put same_others_trans by fastforce
    qed (simp add: Put)
  next
    case (Flush k)
    obtain wire1 rb1 p1 where one: "do_flush k (wire, rb, p) = Inr (wire1, rb1, p1)" "rb_ok others rb1 p1"
        "at_front rb1 p1" "same_others others p p1" "wire1 @ rb_content rb1 p1 = wire @ rb_content rb p"
        "length (rb_content rb1 p1) \<le> length (rb_content rb p)"
      using do_flush_ok [OF Cons.prems(1,2), of k wire] by blast
    then have "int (length (rb_content rb1 p1)) + int (length (put_in ops)) \<le> m8M"
      using Cons.prems(3) Flush by simp
    from Cons.IH [OF one(2,3) this, of wire1] show ?thesis
      using one(1,4,5) Flush same_others_trans by (fastforce simp flip: append_assoc)
  qed
qed (simp add: same_others_def)

text \<open>
  An output buffer is a faithful stream: whatever pieces are put in and however few bytes the
  kernel takes at a time, the bytes on the wire followed by the ones still buffered are the bytes put
  in, in order, across moves to larger buffers; the buffers of other users are not touched.
\<close>

theorem output_stream_intact:
  assumes "pool_ok others p" and "int (length (put_in ops)) \<le> m8M"
  shows "out_run ops ([], None, p) = Inl Exited \<or>
    (\<exists>wire rb p'. out_run ops ([], None, p) = Inr (wire, rb, p') \<and> wire @ rb_content rb p' = put_in ops \<and>
       same_others others p p')"
  using out_run_stream [of others None p ops "[]"] assms
  by (auto simp: rb_ok_def at_front_def rb_content_def)

text \<open>
  A read for which nothing was announced asks the kernel for 4096 bytes without looking at the
  room left: when they arrive in a buffer with less room, they are written past its end.
\<close>

theorem unannounced_read_overflows:
  assumes "bufs p a = Some b" and "buf_ok b" and "buf_head b = 0"
    and "capacity b - buf_length b < int (length bs)" and "bs \<noteq> []"
  shows "read_data (Some 0) (Io_Bytes bs) (Some a, p) = Inl Out_Of_Bounds"
  using assms
  by (simp add: read_data_def make_room_def deref_def put_bytes_def mem_write_def buf_ok_def)

lemma read_data_ok:
  assumes "rb_ok others rb p" and "at_front rb p" and "0 < n" and "int (length (rb_content rb p)) + n \<le> m8M"
    and "int (length bs) = n"
  shows "read_data (Some n) (Io_Bytes bs) (rb, p) = Inl Exited \<or>
    (\<exists>rb' p'. read_data (Some n) (Io_Bytes bs) (rb, p) = Inr (n, rb', p') \<and> rb_ok others rb' p' \<and>
       same_others others p p' \<and> at_front rb' p' \<and> rb_content rb' p' = rb_content rb p @ bs)"
proof -
  have "0 \<le> n" using assms(3) by simp
  from make_room_ok [OF assms(1,2) this assms(4)] show ?thesis
  proof (elim disjE exE conjE)
    fix a p1 b
    assume room: "make_room n (rb, p) = Inr (True, Some a, p1)" "rb_ok others (Some a) p1"
      "same_others others p p1" "rb_content (Some a) p1 = rb_content rb p" "at_front (Some a) p1" "bufs p1 a = Some b"
      "int (length (rb_content rb p)) + n \<le> capacity b"
    then obtain p2 where "put_bytes bs (Some a, p1) = Inr (Some a, p2)" "rb_ok others (Some a) p2"
        "same_others others p1 p2" "at_front (Some a) p2" "rb_content (Some a) p2 = rb_content (Some a) p1 @ bs"
      using put_bytes_ok [OF room(2,5,6), of bs] assms(5) by auto
    moreover have "bs \<noteq> []" using assms(3,5) by auto
    ultimately show ?thesis using room(1,3,4) assms(5) same_others_trans by (auto simp: read_data_def)
  qed (simp_all add: read_data_def)
qed

theorem output_stream_intact_witness:
  "\<exists>p. pool_ok {} p \<and> (out_run [Put [1, 2, 3], Flush 2, Put [4], Flush 9] ([], None, p) = Inl Exited \<or>
    (\<exists>wire rb p'. out_run [Put [1, 2, 3], Flush 2, Put [4], Flush 9] ([], None, p) = Inr (wire, rb, p') \<and>
      wire @ rb_content rb p' = [1, 2, 3, 4]))"
proof -
  obtain p where p: "pool_ok {} p" using new_buf_pool_lists by (auto simp: pool_ok_def)
  show ?thesis
    using output_stream_intact [OF p, of "[Put [1, 2, 3], Flush 2, Put [4], Flush 9]"] p
    by (auto simp: m8M_def)
qed

theorem unannounced_read_overflows_witness:
  "\<exists>p. read_data (Some 0) (Io_Bytes (replicate 4096 7)) (Some 0, p) = Inl Out_Of_Bounds"
proof -
  let ?b = "(new_io_buf 4096)\<lparr>buf_length := 1\<rparr>"
  let ?p = "\<lparr>bufs = [0 \<mapsto> ?b], pool = Map.empty, total_mem = 0, next_addr = 1\<rparr>"
  have "buf_ok ?b" by (simp add: buf_ok_def new_io_buf_def)
  then show ?thesis
    using unannounced_read_overflows [of ?p 0 ?b "replicate 4096 7"] by (auto simp: new_io_buf_def)
qed

end
