(* ===== verification/Tcp_Conn.thy ===== *)
theory Tcp_Conn
  imports Message Event_Loop Reactor_Buf
begin

text \<open>
  \<open>tcp_conn\<close> (\<open>lars_reactor/src/tcp_conn.cpp\<close>) and the connection table of \<open>tcp_server\<close>. A connection
  reads what its socket has, cuts it into messages, calls the router for each, and queues what the
  callbacks send. The buffers are the part it shares with \<open>tcp_client\<close>, which reads and queues in the
  same way. What the kernel returns is an argument.
\<close>

subsection \<open>Buffers of a connection\<close>

record conn_bufs =
  ibuf :: reactor_buf
  obuf :: reactor_buf
  bpool :: buf_pool

definition put_in_buf :: "reactor_buf \<times> buf_pool \<Rightarrow> 'x conn_bufs_scheme \<Rightarrow> 'x conn_bufs_scheme" where
  "put_in_buf rp s = s\<lparr>ibuf := fst rp, bpool := snd rp\<rparr>"

definition put_out_buf :: "reactor_buf \<times> buf_pool \<Rightarrow> 'x conn_bufs_scheme \<Rightarrow> 'x conn_bufs_scheme" where
  "put_out_buf rp s = s\<lparr>obuf := fst rp, bpool := snd rp\<rparr>"

text \<open>
  One turn of the loop of \<open>do_read\<close>, and whether to go on. \<open>call\<close> is \<open>router.call\<close> on this
  connection, \<open>clean\<close> its \<open>clean_conn\<close>.
\<close>

definition read_frame :: "(int32 \<Rightarrow> byte list \<Rightarrow> 'x conn_bufs_scheme \<Rightarrow> 'x conn_bufs_scheme res) \<Rightarrow>
    ('x conn_bufs_scheme \<Rightarrow> 'x conn_bufs_scheme res) \<Rightarrow> 'x conn_bufs_scheme \<Rightarrow> (bool \<times> 'x conn_bufs_scheme) res" where
  "read_frame call clean s =
     res_bind (rb_length (ibuf s) (bpool s)) (\<lambda>n.
       if n < MESSAGE_HEAD_LEN then Inr (False, s)
       else res_bind (rb_data MESSAGE_HEAD_LEN (ibuf s) (bpool s)) (\<lambda>bytes.
         (let head = read_head bytes; msglen = sint (head_msglen head)
          in if msglen > MESSAGE_LENGTH_LIMIT \<or> msglen < 0 then res_bind (clean s) (\<lambda>s. Inr (False, s))
             else if n < MESSAGE_HEAD_LEN + msglen then Inr (False, s)
             else
               res_bind (rb_pop MESSAGE_HEAD_LEN (ibuf s, bpool s)) (\<lambda>rp.
               (let s = put_in_buf rp s
                in res_bind (rb_data msglen (ibuf s) (bpool s)) (\<lambda>body.
                   res_bind (call (head_msgid head) body s) (\<lambda>s.
                   res_bind (rb_pop msglen (ibuf s, bpool s)) (\<lambda>rp.
                   Inr (True, put_in_buf rp s)))))))))"

partial_function (option) read_frames :: "(int32 \<Rightarrow> byte list \<Rightarrow> 'x conn_bufs_scheme \<Rightarrow> 'x conn_bufs_scheme res) \<Rightarrow>
    ('x conn_bufs_scheme \<Rightarrow> 'x conn_bufs_scheme res) \<Rightarrow> 'x conn_bufs_scheme \<Rightarrow> 'x conn_bufs_scheme res option" where
  "read_frames call clean s =
     (case read_frame call clean s of
        Inl e \<Rightarrow> Some (Inl e)
      | Inr (again, s') \<Rightarrow> if again then read_frames call clean s' else Some (Inr s'))"

text \<open>\<open>do_read\<close>: \<open>fionread\<close> and \<open>got\<close> are what the kernel answers to \<open>read_data\<close>.\<close>

definition do_read :: "(int32 \<Rightarrow> byte list \<Rightarrow> 'x conn_bufs_scheme \<Rightarrow> 'x conn_bufs_scheme res) \<Rightarrow>
    ('x conn_bufs_scheme \<Rightarrow> 'x conn_bufs_scheme res) \<Rightarrow> int option \<Rightarrow> io_result \<Rightarrow>
    'x conn_bufs_scheme \<Rightarrow> 'x conn_bufs_scheme res option" where
  "do_read call clean fionread got s =
     (case read_data fionread got (ibuf s, bpool s) of
        Inl e \<Rightarrow> Some (Inl e)
      | Inr (ret, rp) \<Rightarrow>
          (let s = put_in_buf rp s
           in if ret = - 1 \<or> ret = 0 then Some (clean s)
              else map_option (\<lambda>r. res_bind r (\<lambda>s. res_bind (rb_adjust (ibuf s, bpool s)) (\<lambda>rp. Inr (put_in_buf rp s))))
                     (read_frames call clean s)))"

text \<open>
  The common part of \<open>send_message\<close>: head, then body; when there is no room for the body the head is
  taken back. The first component is what \<open>send_message\<close> returns.
\<close>

definition queue_message :: "byte list \<Rightarrow> int32 \<Rightarrow> 'x conn_bufs_scheme \<Rightarrow> (int \<times> 'x conn_bufs_scheme) res" where
  "queue_message data msgid s =
     res_bind (send_data (head_bytes \<lparr>head_msgid = msgid, head_msglen = of_nat (length data)\<rparr>) (obuf s, bpool s))
       (\<lambda>(ret, rp).
         (let s = put_out_buf rp s
          in if ret \<noteq> 0 then Inr (- 1, s)
             else res_bind (send_data data (obuf s, bpool s)) (\<lambda>(ret, rp).
               (let s = put_out_buf rp s
                in if ret \<noteq> 0
                   then res_bind (rb_pop MESSAGE_HEAD_LEN (obuf s, bpool s)) (\<lambda>rp. Inr (- 1, put_out_buf rp s))
                   else Inr (0, s)))))"

text \<open>
  The loop of \<open>do_write\<close>: \<open>ws\<close> is what the calls of \<open>write\<close> return, after which the socket is full
  (\<open>EAGAIN\<close>). The first component is false when a write failed.
\<close>

fun write_out :: "io_result list \<Rightarrow> 'x conn_bufs_scheme \<Rightarrow> (bool \<times> 'x conn_bufs_scheme) res" where
  "write_out ws s =
     res_bind (rb_length (obuf s) (bpool s)) (\<lambda>n.
       if n = 0 then Inr (True, s)
       else (case ws of
               [] \<Rightarrow> res_bind (write2fd Io_Again (obuf s, bpool s)) (\<lambda>(_, rp). Inr (True, put_out_buf rp s))
             | w # ws \<Rightarrow> res_bind (write2fd w (obuf s, bpool s)) (\<lambda>(ret, rp).
                 (let s = put_out_buf rp s
                  in if ret = - 1 then Inr (False, s) else if ret = 0 then Inr (True, s) else write_out ws s))))"

subsection \<open>The connection table of \<open>tcp_server\<close>\<close>

text \<open>\<open>conns\<close> is an array indexed by descriptors; the mutex makes each operation atomic.\<close>

record conn_table =
  conns :: "addr option list"
  cur_conns :: int
  max_conns :: int

definition set_conn :: "int32 \<Rightarrow> addr option \<Rightarrow> conn_table \<Rightarrow> conn_table res" where
  "set_conn fd conn t =
     (if 0 \<le> sint fd \<and> sint fd < int (length (conns t)) then Inr (t\<lparr>conns := (conns t)[nat (sint fd) := conn]\<rparr>)
      else Inl Out_Of_Bounds)"

definition increase_conn :: "int32 \<Rightarrow> addr \<Rightarrow> conn_table \<Rightarrow> conn_table res" where
  "increase_conn connfd conn t =
     res_bind (set_conn connfd (Some conn) t) (\<lambda>t. Inr (t\<lparr>cur_conns := cur_conns t + 1\<rparr>))"

definition decrease_conn :: "int32 \<Rightarrow> conn_table \<Rightarrow> conn_table res" where
  "decrease_conn connfd t = res_bind (set_conn connfd None t) (\<lambda>t. Inr (t\<lparr>cur_conns := cur_conns t - 1\<rparr>))"

definition get_conn_num :: "conn_table \<Rightarrow> int" where
  "get_conn_num t = cur_conns t"

subsection \<open>\<open>tcp_conn\<close>\<close>

text \<open>The callbacks the reactor registers with its loops; their argument is the object's address.\<close>

datatype io_cb =
    Conn_Rd | Conn_Wt                        \<comment> \<open>\<open>conn_rd_callback\<close>, \<open>conn_wt_callback\<close>\<close>
  | Client_Rd | Client_Wr | Connection_Succ  \<comment> \<open>of \<open>tcp_client\<close>\<close>
  | Accept_Cb                                \<comment> \<open>\<open>accept_callback\<close>\<close>
  | Deal_Task                                \<comment> \<open>\<open>deal_task_message\<close>\<close>
  | Udp_Server_Rd | Udp_Client_Rd

type_synonym 'task io_loop = "(io_cb, addr, 'task) event_loop"

record ('task, 'u) tcp_conn = conn_bufs +
  connfd :: int32
  conn_loop :: "'task io_loop"
  conn_tab :: conn_table
  app :: 'u

type_synonym ('task, 'u) conn_hook = "(('task, 'u) tcp_conn \<Rightarrow> ('task, 'u) tcp_conn res) option"

fun call_hook :: "('task, 'u) conn_hook \<Rightarrow> ('task, 'u) tcp_conn \<Rightarrow> ('task, 'u) tcp_conn res" where
  "call_hook None c = Inr c"
| "call_hook (Some cb) c = cb c"

text \<open>
  The constructor, for an object at address \<open>self\<close>; the pool, the loop, the table and the application
  are those of \<open>c\<close>. \<open>fcntl\<close> and \<open>setsockopt\<close> only change the socket's mode.
\<close>

definition new_tcp_conn :: "(int32 \<Rightarrow> bool) \<Rightarrow> ('task, 'u) conn_hook \<Rightarrow> addr \<Rightarrow> int32 \<Rightarrow>
    ('task, 'u) tcp_conn \<Rightarrow> ('task, 'u) tcp_conn res" where
  "new_tcp_conn pollable conn_start_cb self fd c =
     res_bind (call_hook conn_start_cb (c\<lparr>connfd := fd, ibuf := None, obuf := None\<rparr>)) (\<lambda>c.
       (let c = c\<lparr>conn_loop := add_io_event pollable (connfd c) Conn_Rd EPOLLIN (Some self) (conn_loop c)\<rparr>
        in res_bind (increase_conn (connfd c) self (conn_tab c)) (\<lambda>t. Inr (c\<lparr>conn_tab := t\<rparr>))))"

definition clean_conn :: "(int32 \<Rightarrow> bool) \<Rightarrow> ('task, 'u) conn_hook \<Rightarrow> ('task, 'u) tcp_conn \<Rightarrow> ('task, 'u) tcp_conn res" where
  "clean_conn pollable conn_close_cb c =
     res_bind (call_hook conn_close_cb c) (\<lambda>c.
     res_bind (decrease_conn (connfd c) (conn_tab c)) (\<lambda>t.
       (let c = c\<lparr>conn_tab := t, conn_loop := del_io_event pollable (connfd c) (conn_loop c)\<rparr>
        in res_bind (rb_clear (ibuf c, bpool c)) (\<lambda>rp.
           (let c = put_in_buf rp c
            in res_bind (rb_clear (obuf c, bpool c)) (\<lambda>rp. Inr ((put_out_buf rp c)\<lparr>connfd := - 1\<rparr>)))))))"

definition conn_do_read where
  "conn_do_read pollable conn_close_cb call fionread got c =
     do_read call (clean_conn pollable conn_close_cb) fionread got c"

definition conn_do_write :: "(int32 \<Rightarrow> bool) \<Rightarrow> ('task, 'u) conn_hook \<Rightarrow> io_result list \<Rightarrow>
    ('task, 'u) tcp_conn \<Rightarrow> ('task, 'u) tcp_conn res" where
  "conn_do_write pollable conn_close_cb ws c =
     res_bind (write_out ws c) (\<lambda>(fine, c).
       if \<not> fine then clean_conn pollable conn_close_cb c
       else res_bind (rb_length (obuf c) (bpool c)) (\<lambda>n.
         if n = 0 then Inr (c\<lparr>conn_loop := del_io_mask pollable (connfd c) EPOLLOUT (conn_loop c)\<rparr>) else Inr c))"

definition conn_send_message :: "(int32 \<Rightarrow> bool) \<Rightarrow> addr \<Rightarrow> byte list \<Rightarrow> int32 \<Rightarrow>
    ('task, 'u) tcp_conn \<Rightarrow> (int \<times> ('task, 'u) tcp_conn) res" where
  "conn_send_message pollable self data msgid c =
     res_bind (rb_length (obuf c) (bpool c)) (\<lambda>n.
     res_bind (queue_message data msgid c) (\<lambda>(ret, c).
       if ret \<noteq> 0 then Inr (- 1, c)
       else if n = 0 then
         Inr (0, c\<lparr>conn_loop := add_io_event pollable (connfd c) Conn_Wt EPOLLOUT (Some self) (conn_loop c)\<rparr>)
       else Inr (0, c)))"

text \<open>The echo callback at the top of the file.\<close>

definition callback_busi :: "(int32 \<Rightarrow> bool) \<Rightarrow> addr \<Rightarrow> byte list \<Rightarrow> int32 \<Rightarrow>
    ('task, 'u) tcp_conn \<Rightarrow> ('task, 'u) tcp_conn res" where
  "callback_busi pollable self data msgid c =
     res_bind (conn_send_message pollable self data msgid c) (\<lambda>(_, c). Inr c)"

end
