(* ===== verification/Tcp_Stream.thy ===== *)
theory Tcp_Stream
  imports Tcp_Conn
begin

text \<open>
  What connections do with their streams: the messages a receiver hands to its callbacks are the ones
  \<open>decode\<close> finds, however the stream arrives; what callbacks send is queued behind what is waiting; and
  the write event is armed exactly while there is something to write.
\<close>

subsection \<open>Both buffers of a connection\<close>

definition in_bytes :: "'x conn_bufs_scheme \<Rightarrow> byte list" where
  "in_bytes s = rb_content (ibuf s) (bpool s)"

definition out_bytes :: "'x conn_bufs_scheme \<Rightarrow> byte list" where
  "out_bytes s = rb_content (obuf s) (bpool s)"

definition others_in :: "addr set \<Rightarrow> 'x conn_bufs_scheme \<Rightarrow> addr set" where
  "others_in others s = others \<union> set_option (obuf s)"

definition others_out :: "addr set \<Rightarrow> 'x conn_bufs_scheme \<Rightarrow> addr set" where
  "others_out others s = others \<union> set_option (ibuf s)"

text \<open>The two buffers are the connection's own, and different; output starts at the front.\<close>

definition conn_ok :: "addr set \<Rightarrow> 'x conn_bufs_scheme \<Rightarrow> bool" where
  "conn_ok others s \<longleftrightarrow> rb_ok (others_in others s) (ibuf s) (bpool s) \<and>
     rb_ok (others_out others s) (obuf s) (bpool s) \<and> at_front (obuf s) (bpool s)"

definition front_in :: "'x conn_bufs_scheme \<Rightarrow> bool" where
  "front_in s \<longleftrightarrow> at_front (ibuf s) (bpool s)"

text \<open>The buffer of a pointer, to say that it was not touched.\<close>

definition buf_of :: "reactor_buf \<Rightarrow> buf_pool \<Rightarrow> io_buf option" where
  "buf_of rb p = (case rb of None \<Rightarrow> None | Some a \<Rightarrow> bufs p a)"

lemma content_cong: "buf_of rb p' = buf_of rb p \<Longrightarrow> rb_content rb p' = rb_content rb p"
  by (auto simp: buf_of_def rb_content_def split: option.splits)

lemma front_cong: "buf_of rb p' = buf_of rb p \<Longrightarrow> at_front rb p' = at_front rb p"
  by (auto simp: buf_of_def at_front_def split: option.splits)

lemma rb_ok_pool:
  "rb_ok others rb p \<longleftrightarrow> pool_ok (others \<union> set_option rb) p \<and> others \<inter> set_option rb = {}"
  by (cases rb) (auto simp: rb_ok_def)

lemma same_others_buf_of:
  "same_others H p p' \<Longrightarrow> set_option rb \<subseteq> H \<Longrightarrow> buf_of rb p' = buf_of rb p"
  by (cases rb) (auto simp: same_others_def buf_of_def)

lemma same_others_mono: "same_others H p p' \<Longrightarrow> G \<subseteq> H \<Longrightarrow> same_others G p p'"
  by (auto simp: same_others_def)

lemma put_buf_simps [simp]:
  "ibuf (put_in_buf rp s) = fst rp" "bpool (put_in_buf rp s) = snd rp" "obuf (put_in_buf rp s) = obuf s"
  "obuf (put_out_buf rp s) = fst rp" "bpool (put_out_buf rp s) = snd rp" "ibuf (put_out_buf rp s) = ibuf s"
  by (simp_all add: put_in_buf_def put_out_buf_def)

lemma conn_fields_put [simp]:
  "connfd (put_in_buf rp c) = connfd c" "conn_loop (put_in_buf rp c) = conn_loop c"
  "conn_tab (put_in_buf rp c) = conn_tab c" "app (put_in_buf rp c) = app c"
  "connfd (put_out_buf rp c) = connfd c" "conn_loop (put_out_buf rp c) = conn_loop c"
  "conn_tab (put_out_buf rp c) = conn_tab c" "app (put_out_buf rp c) = app c"
  by (simp_all add: put_in_buf_def put_out_buf_def)

lemma bytes_put [simp]:
  "in_bytes (put_in_buf rp s) = rb_content (fst rp) (snd rp)"
  "out_bytes (put_out_buf rp s) = rb_content (fst rp) (snd rp)"
  by (simp_all add: in_bytes_def out_bytes_def)

text \<open>An operation on one buffer leaves the other, and everyone else's, alone.\<close>

lemma conn_ok_input:
  assumes "conn_ok others s" and "rb_ok (others_in others s) rb p" and "same_others (others_in others s) (bpool s) p"
  shows "conn_ok others (put_in_buf (rb, p) s)" and "out_bytes (put_in_buf (rb, p) s) = out_bytes s"
    and "same_others others (bpool s) p"
proof -
  have "buf_of (obuf s) p = buf_of (obuf s) (bpool s)"
    by (rule same_others_buf_of [OF assms(3)]) (simp add: others_in_def)
  note c = content_cong [OF this] front_cong [OF this]
  have "rb_ok (others \<union> set_option rb) (obuf s) p"
    using assms(1,2) by (auto simp: rb_ok_pool conn_ok_def others_in_def others_out_def ac_simps)
  then show "conn_ok others (put_in_buf (rb, p) s)" "out_bytes (put_in_buf (rb, p) s) = out_bytes s"
    using assms(1,2) c by (simp_all add: conn_ok_def others_in_def others_out_def out_bytes_def)
  show "same_others others (bpool s) p"
    by (rule same_others_mono [OF assms(3)]) (simp add: others_in_def)
qed

lemma conn_ok_output:
  assumes "conn_ok others s" and "rb_ok (others_out others s) rb p" and "at_front rb p"
    and "same_others (others_out others s) (bpool s) p"
  shows "conn_ok others (put_out_buf (rb, p) s)" and "buf_of (ibuf s) p = buf_of (ibuf s) (bpool s)"
    and "in_bytes (put_out_buf (rb, p) s) = in_bytes s" and "same_others others (bpool s) p"
proof -
  show i: "buf_of (ibuf s) p = buf_of (ibuf s) (bpool s)"
    by (rule same_others_buf_of [OF assms(4)]) (simp add: others_out_def)
  have "rb_ok (others \<union> set_option rb) (ibuf s) p"
    using assms(1,2) by (auto simp: rb_ok_pool conn_ok_def others_in_def others_out_def ac_simps)
  then show "conn_ok others (put_out_buf (rb, p) s)" "in_bytes (put_out_buf (rb, p) s) = in_bytes s"
    using assms(1-3) content_cong [OF i] by (simp_all add: conn_ok_def others_in_def others_out_def in_bytes_def)
  show "same_others others (bpool s) p"
    by (rule same_others_mono [OF assms(4)]) (simp add: others_out_def)
qed

subsection \<open>Queueing a message\<close>

lemma queue_message_ok:
  assumes "conn_ok others s" and "int (length (out_bytes s)) + 8 + int (length data) \<le> m8M"
  shows "queue_message data msgid s = Inl Exited \<or>
    (\<exists>rp. queue_message data msgid s = Inr (0, put_out_buf rp s) \<and> conn_ok others (put_out_buf rp s) \<and>
       out_bytes (put_out_buf rp s) = out_bytes s @ frame (msgid, data) \<and>
       buf_of (ibuf s) (snd rp) = buf_of (ibuf s) (bpool s) \<and> same_others others (bpool s) (snd rp))"
proof -
  let ?h = "head_bytes \<lparr>head_msgid = msgid, head_msglen = of_nat (length data)\<rparr>"
  have ok: "rb_ok (others_out others s) (obuf s) (bpool s)" "at_front (obuf s) (bpool s)"
    using assms(1) by (simp_all add: conn_ok_def)
  have "int (length (rb_content (obuf s) (bpool s))) + int (length ?h) \<le> m8M"
    using assms(2) by (simp add: out_bytes_def)
  from send_data_ok [OF ok this] show ?thesis
  proof (elim disjE exE conjE)
    fix rb1 p1
    assume one: "send_data ?h (obuf s, bpool s) = Inr (0, rb1, p1)" "rb_ok (others_out others s) rb1 p1"
      "same_others (others_out others s) (bpool s) p1" "at_front rb1 p1"
      "rb_content rb1 p1 = rb_content (obuf s) (bpool s) @ ?h"
    have "int (length (rb_content rb1 p1)) + int (length data) \<le> m8M"
      using one(5) assms(2) by (simp add: out_bytes_def)
    from send_data_ok [OF one(2,4) this] show ?thesis
    proof (elim disjE exE conjE)
      fix rb2 p2
      assume two: "send_data data (rb1, p1) = Inr (0, rb2, p2)" "rb_ok (others_out others s) rb2 p2"
        "same_others (others_out others s) p1 p2" "at_front rb2 p2" "rb_content rb2 p2 = rb_content rb1 p1 @ data"
      note out = conn_ok_output [OF assms(1) two(2,4) same_others_trans [OF one(3) two(3)]]
      have "queue_message data msgid s = Inr (0, put_out_buf (rb2, p2) s)"
        using one(1) two(1) by (simp add: queue_message_def put_out_buf_def)
      then show ?thesis
        using out one(5) two(5) by (intro disjI2 exI [of _ "(rb2, p2)"]) (simp add: out_bytes_def frame_def)
    qed (use one(1) in \<open>simp add: queue_message_def put_out_buf_def\<close>)
  qed (simp add: queue_message_def)
qed

subsection \<open>The contract of callbacks, and what reading then does\<close>

text \<open>
  A callback may send on its connection and change the application's state; it cannot reach the input
  buffer. \<open>reply\<close> is what it sends, \<open>upd\<close> what it makes of the application's state, \<open>inv\<close> what it keeps.
\<close>

locale stream_handler =
  fixes call :: "int32 \<Rightarrow> byte list \<Rightarrow> 'x conn_bufs_scheme \<Rightarrow> 'x conn_bufs_scheme res"
    and inv :: "'x conn_bufs_scheme \<Rightarrow> bool"
    and app_of :: "'x conn_bufs_scheme \<Rightarrow> 'a"
    and reply :: "int32 \<Rightarrow> byte list \<Rightarrow> 'a \<Rightarrow> byte list"
    and upd :: "int32 \<Rightarrow> byte list \<Rightarrow> 'a \<Rightarrow> 'a"
  assumes call_ok: "conn_ok others s \<Longrightarrow> inv s \<Longrightarrow>
      int (length (out_bytes s)) + int (length (reply i b (app_of s))) \<le> m8M \<Longrightarrow>
      call i b s = Inl Exited \<or>
      (\<exists>s'. call i b s = Inr s' \<and> conn_ok others s' \<and> inv s' \<and> ibuf s' = ibuf s \<and>
         buf_of (ibuf s) (bpool s') = buf_of (ibuf s) (bpool s) \<and> same_others others (bpool s) (bpool s') \<and>
         out_bytes s' = out_bytes s @ reply i b (app_of s) \<and> app_of s' = upd i b (app_of s))"
    and app_input: "app_of (put_in_buf rp s) = app_of s"
    and inv_input: "inv s \<Longrightarrow> out_bytes (put_in_buf rp s) = out_bytes s \<Longrightarrow> inv (put_in_buf rp s)"

fun replies :: "(int32 \<Rightarrow> byte list \<Rightarrow> 'a \<Rightarrow> byte list) \<Rightarrow> (int32 \<Rightarrow> byte list \<Rightarrow> 'a \<Rightarrow> 'a) \<Rightarrow> msg list \<Rightarrow> 'a \<Rightarrow> byte list" where
  "replies reply upd [] a = []"
| "replies reply upd ((i, b) # ms) a = reply i b a @ replies reply upd ms (upd i b a)"

definition updates :: "(int32 \<Rightarrow> byte list \<Rightarrow> 'a \<Rightarrow> 'a) \<Rightarrow> msg list \<Rightarrow> 'a \<Rightarrow> 'a" where
  "updates upd ms a = fold (\<lambda>(i, b). upd i b) ms a"

lemma updates_simps [simp]:
  "updates upd [] a = a" "updates upd ((i, b) # ms) a = updates upd ms (upd i b a)"
  "updates upd (ms @ ms') a = updates upd ms' (updates upd ms a)"
  by (simp_all add: updates_def)

lemma replies_append: "replies reply upd (ms @ ms') a = replies reply upd ms a @ replies reply upd ms' (updates upd ms a)"
  by (induction reply upd ms a rule: replies.induct) simp_all

text \<open>No message, or only a part of one, or a length that is refused.\<close>

lemma read_frame_stop:
  assumes "conn_ok others s" and "length (in_bytes s) < 8 \<or>
    0 \<le> body_len (in_bytes s) \<and> body_len (in_bytes s) \<le> MESSAGE_LENGTH_LIMIT \<and>
    int (length (in_bytes s)) < 8 + body_len (in_bytes s)"
  shows "read_frame call clean s = Inr (False, s)"
proof -
  have ok: "rb_ok (others_in others s) (ibuf s) (bpool s)" using assms(1) by (simp add: conn_ok_def)
  show ?thesis
  proof (cases "length (in_bytes s) < 8")
    case True
    then show ?thesis using rb_length_ok [OF ok] by (simp add: read_frame_def in_bytes_def lars_defs)
  next
    case False
    then show ?thesis
      using rb_length_ok [OF ok] rb_data_ok [OF ok, of 8] assms(2)
      by (simp add: read_frame_def in_bytes_def body_len_def lars_defs Let_def)
  qed
qed

lemma read_frame_bad:
  assumes "conn_ok others s" and "8 \<le> length (in_bytes s)"
    and "body_len (in_bytes s) > MESSAGE_LENGTH_LIMIT \<or> body_len (in_bytes s) < 0"
  shows "read_frame call clean s = res_bind (clean s) (\<lambda>s. Inr (False, s))"
proof -
  have ok: "rb_ok (others_in others s) (ibuf s) (bpool s)" using assms(1) by (simp add: conn_ok_def)
  show ?thesis
    using rb_length_ok [OF ok] rb_data_ok [OF ok, of 8] assms(2,3)
    by (auto simp add: read_frame_def in_bytes_def body_len_def lars_defs Let_def)
qed

lemma content_not_None: "rb_content rb p \<noteq> [] \<Longrightarrow> rb \<noteq> None"
  by (cases rb) (simp_all add: rb_content_def)

context stream_handler
begin

lemma read_frame_message:
  assumes ok: "conn_ok others s" and inv: "inv s" and "8 < length (in_bytes s)"
    and len: "0 \<le> body_len (in_bytes s)" "body_len (in_bytes s) \<le> MESSAGE_LENGTH_LIMIT"
      "8 + body_len (in_bytes s) \<le> int (length (in_bytes s))"
    and m: "i = head_msgid (read_head (in_bytes s))" "b = take (nat (body_len (in_bytes s))) (drop 8 (in_bytes s))"
    and room: "int (length (out_bytes s)) + int (length (reply i b (app_of s))) \<le> m8M"
  shows "read_frame call clean s = Inl Exited \<or>
    (\<exists>s'. read_frame call clean s = Inr (True, s') \<and> conn_ok others s' \<and> inv s' \<and>
       same_others others (bpool s) (bpool s') \<and> in_bytes s' = drop (8 + nat (body_len (in_bytes s))) (in_bytes s) \<and>
       out_bytes s' = out_bytes s @ reply i b (app_of s) \<and> app_of s' = upd i b (app_of s))"
proof -
  let ?n = "body_len (in_bytes s)"
  have rb: "rb_ok (others_in others s) (ibuf s) (bpool s)" using ok by (simp add: conn_ok_def)
  have "ibuf s \<noteq> None" using assms(3) by (intro content_not_None [of _ "bpool s"]) (auto simp: in_bytes_def)
  then obtain rb1 p1 where one: "rb_pop 8 (ibuf s, bpool s) = Inr (rb1, p1)" "rb_ok (others_in others s) rb1 p1"
      "same_others (others_in others s) (bpool s) p1" "rb_content rb1 p1 = drop 8 (in_bytes s)" "rb1 \<noteq> None"
    using rb_pop_ok [OF rb, of 8] assms(3) by (auto simp: in_bytes_def)
  let ?s1 = "put_in_buf (rb1, p1) s"
  note s1 = conn_ok_input [OF ok one(2,3)]
  have data: "rb_data ?n rb1 p1 = Inr b"
    using rb_data_ok [OF one(2) len(1)] one(4) len(3) m(2) by simp
  have start: "read_frame call clean s = res_bind (call i b ?s1) (\<lambda>s. res_bind (rb_pop ?n (ibuf s, bpool s))
      (\<lambda>rp. Inr (True, put_in_buf rp s)))"
    using rb_length_ok [OF rb] rb_data_ok [OF rb, of 8] assms(3) one(1) data len m(1)
    by (simp add: read_frame_def in_bytes_def body_len_def lars_defs Let_def)
  have "int (length (out_bytes ?s1)) + int (length (reply i b (app_of ?s1))) \<le> m8M"
    using room s1(2) by (simp add: app_input)
  from call_ok [OF s1(1) inv_input [OF inv s1(2)] this] show ?thesis
  proof (elim disjE exE conjE)
    fix s2
    assume two: "call i b ?s1 = Inr s2" "conn_ok others s2" "inv s2" "ibuf s2 = ibuf ?s1"
      "buf_of (ibuf ?s1) (bpool s2) = buf_of (ibuf ?s1) (bpool ?s1)" "same_others others (bpool ?s1) (bpool s2)"
      "out_bytes s2 = out_bytes ?s1 @ reply i b (app_of ?s1)" "app_of s2 = upd i b (app_of ?s1)"
    have rb2: "rb_ok (others_in others s2) (ibuf s2) (bpool s2)" using two(2) by (simp add: conn_ok_def)
    have cont: "rb_content (ibuf s2) (bpool s2) = drop 8 (in_bytes s)"
      using content_cong [OF two(5)] two(4) one(4) by simp
    have "?n \<le> int (length (rb_content (ibuf s2) (bpool s2)))" using cont len(3) by simp
    then obtain rb3 p3 where three: "rb_pop ?n (ibuf s2, bpool s2) = Inr (rb3, p3)" "rb_ok (others_in others s2) rb3 p3"
        "same_others (others_in others s2) (bpool s2) p3" "rb_content rb3 p3 = drop (nat ?n) (drop 8 (in_bytes s))"
      using rb_pop_ok [OF rb2 len(1)] cont two(4) one(5) by auto
    note s3 = conn_ok_input [OF two(2) three(2,3)]
    have "same_others others (bpool s) p3"
      using s1(3) two(6) s3(3) by (auto simp: same_others_def)
    then show ?thesis
      using start two s1(2) three(1,4) s3(1,2) inv_input [OF two(3) s3(2)]
      by (intro disjI2 exI [of _ "put_in_buf (rb3, p3) s2"]) (simp add: app_input add.commute)
  qed (simp add: start)
qed

lemma read_frames_decode:
  assumes "conn_ok others s" and "inv s" and "decode (in_bytes s) = (ms, rest, bad)"
    and "\<forall>m \<in> set ms. snd m \<noteq> []"
    and "int (length (out_bytes s)) + int (length (replies reply upd ms (app_of s))) \<le> m8M"
  shows "read_frames call clean s = Some (Inl Exited) \<or>
    (\<exists>s'. read_frames call clean s = Some (if bad then clean s' else Inr s') \<and> conn_ok others s' \<and> inv s' \<and>
       same_others others (bpool s) (bpool s') \<and> in_bytes s' = rest \<and>
       out_bytes s' = out_bytes s @ replies reply upd ms (app_of s) \<and> app_of s' = updates upd ms (app_of s))"
  using assms
proof (induction "in_bytes s" arbitrary: s ms rule: decode.induct)
  case 1
  let ?bs = "in_bytes s" and ?n = "body_len (in_bytes s)"
  consider (stop) "length ?bs < 8 \<or> 0 \<le> ?n \<and> ?n \<le> MESSAGE_LENGTH_LIMIT \<and> int (length ?bs) < 8 + ?n"
    | (bad) "8 \<le> length ?bs" "?n > MESSAGE_LENGTH_LIMIT \<or> ?n < 0"
    | (msg) "8 \<le> length ?bs" "0 \<le> ?n" "?n \<le> MESSAGE_LENGTH_LIMIT" "8 + ?n \<le> int (length ?bs)"
    by linarith
  then show ?case
  proof cases
    case stop
    have "ms = []" "rest = ?bs" "\<not> bad"
      using "1.prems"(3) stop by (subst (asm) decode.simps, auto split: if_splits)+
    moreover have "read_frames call clean s = Some (Inr s)"
      using read_frame_stop [OF "1.prems"(1) stop] by (subst read_frames.simps) simp
    ultimately show ?thesis using "1.prems"(1,2) by (intro disjI2 exI [of _ s]) simp
  next
    case bad
    have "ms = []" "rest = ?bs" "bad"
      using "1.prems"(3) bad by (subst (asm) decode.simps, auto split: if_splits)+
    moreover have "read_frames call clean s = Some (clean s)"
      using read_frame_bad [OF "1.prems"(1) bad] by (subst read_frames.simps) (cases "clean s"; simp)
    ultimately show ?thesis using "1.prems"(1,2) by (intro disjI2 exI [of _ s]) simp
  next
    case msg
    let ?i = "head_msgid (read_head ?bs)" and ?b = "take (nat ?n) (drop 8 ?bs)"
    obtain ms' where rec: "decode (drop (8 + nat ?n) ?bs) = (ms', rest, bad)" "ms = (?i, ?b) # ms'"
      using "1.prems"(3) msg by (subst (asm) decode.simps) (auto split: if_splits prod.splits)
    have "?b \<noteq> []" using "1.prems"(4) rec(2) by simp
    then have long: "8 < length ?bs" by (metis drop_all not_less take_Nil)
    have room: "int (length (out_bytes s)) + int (length (reply ?i ?b (app_of s))) \<le> m8M"
      using "1.prems"(5) rec(2) by simp
    from read_frame_message [OF "1.prems"(1,2) long msg(2-4) refl refl room, of clean]
    show ?thesis
    proof (elim disjE exE conjE)
      fix s'
      assume s': "read_frame call clean s = Inr (True, s')" "conn_ok others s'" "inv s'"
        "same_others others (bpool s) (bpool s')" "in_bytes s' = drop (8 + nat ?n) ?bs"
        "out_bytes s' = out_bytes s @ reply ?i ?b (app_of s)" "app_of s' = upd ?i ?b (app_of s)"
      have next_frames: "read_frames call clean s = read_frames call clean s'"
        using s'(1) by (subst read_frames.simps) simp
      have guards: "\<not> (length ?bs < 8)" "\<not> (MESSAGE_LENGTH_LIMIT < ?n \<or> ?n < 0)" "\<not> int (length ?bs) < 8 + ?n"
        using msg by auto
      have dec: "decode (in_bytes s') = (ms', rest, bad)" using rec(1) s'(5) by simp
      have bodies: "\<forall>m \<in> set ms'. snd m \<noteq> []" using "1.prems"(4) rec(2) by simp
      have "int (length (out_bytes s')) + int (length (replies reply upd ms' (app_of s'))) \<le> m8M"
        using "1.prems"(5) rec(2) s'(6,7) by simp
      from "1.hyps" [OF guards s'(5) [symmetric] s'(2,3) dec bodies this] show ?thesis
      proof (elim disjE exE conjE)
        fix t
        assume t: "read_frames call clean s' = Some (if bad then clean t else Inr t)" "conn_ok others t" "inv t"
          "same_others others (bpool s') (bpool t)" "in_bytes t = rest"
          "out_bytes t = out_bytes s' @ replies reply upd ms' (app_of s')" "app_of t = updates upd ms' (app_of s')"
        then show ?thesis
          using s'(6,7) same_others_trans [OF s'(4) t(4)] rec(2)
          by (intro disjI2 exI [of _ t]) (simp add: next_frames)
      qed (simp add: next_frames)
    next
      assume "read_frame call clean s = Inl Exited"
      then show ?thesis by (subst read_frames.simps) simp
    qed
  qed
qed

lemma do_read_messages:
  assumes "conn_ok others s" and "front_in s" and "inv s" and "bs \<noteq> []"
    and "int (length (in_bytes s)) + int (length bs) \<le> m8M"
    and "decode (in_bytes s @ bs) = (ms, rest, False)" and "\<forall>m \<in> set ms. snd m \<noteq> []"
    and "int (length (out_bytes s)) + int (length (replies reply upd ms (app_of s))) \<le> m8M"
  shows "do_read call clean (Some (int (length bs))) (Io_Bytes bs) s = Some (Inl Exited) \<or>
    (\<exists>s'. do_read call clean (Some (int (length bs))) (Io_Bytes bs) s = Some (Inr s') \<and> conn_ok others s' \<and>
       front_in s' \<and> inv s' \<and> same_others others (bpool s) (bpool s') \<and> in_bytes s' = rest \<and>
       out_bytes s' = out_bytes s @ replies reply upd ms (app_of s) \<and> app_of s' = updates upd ms (app_of s))"
proof -
  have rb: "rb_ok (others_in others s) (ibuf s) (bpool s)" "at_front (ibuf s) (bpool s)"
    using assms(1,2) by (simp_all add: conn_ok_def front_in_def)
  have room: "int (length (rb_content (ibuf s) (bpool s))) + int (length bs) \<le> m8M"
    using assms(5) by (simp add: in_bytes_def)
  have "0 < int (length bs)" using assms(4) by simp
  from read_data_ok [OF rb this room refl] show ?thesis
  proof (elim disjE exE conjE)
    fix rb1 p1
    assume one: "read_data (Some (int (length bs))) (Io_Bytes bs) (ibuf s, bpool s) = Inr (int (length bs), rb1, p1)"
      "rb_ok (others_in others s) rb1 p1" "same_others (others_in others s) (bpool s) p1"
      "rb_content rb1 p1 = rb_content (ibuf s) (bpool s) @ bs"
    let ?s1 = "put_in_buf (rb1, p1) s"
    note s1 = conn_ok_input [OF assms(1) one(2,3)]
    have "do_read call clean (Some (int (length bs))) (Io_Bytes bs) s =
        map_option (\<lambda>r. res_bind r (\<lambda>s. res_bind (rb_adjust (ibuf s, bpool s)) (\<lambda>rp. Inr (put_in_buf rp s))))
          (read_frames call clean ?s1)"
      using one(1) assms(4) by (simp add: do_read_def)
    note start = this
    have dec: "decode (in_bytes ?s1) = (ms, rest, False)" using assms(6) one(4) by (simp add: in_bytes_def)
    have "int (length (out_bytes ?s1)) + int (length (replies reply upd ms (app_of ?s1))) \<le> m8M"
      using assms(8) s1(2) by (simp add: app_input)
    from read_frames_decode [OF s1(1) inv_input [OF assms(3) s1(2)] dec assms(7) this, of clean] show ?thesis
    proof (elim disjE exE conjE)
      fix t
      assume t: "read_frames call clean ?s1 = Some (if False then clean t else Inr t)" "conn_ok others t" "inv t"
        "same_others others (bpool ?s1) (bpool t)" "in_bytes t = rest"
        "out_bytes t = out_bytes ?s1 @ replies reply upd ms (app_of ?s1)" "app_of t = updates upd ms (app_of ?s1)"
      have "rb_ok (others_in others t) (ibuf t) (bpool t)" using t(2) by (simp add: conn_ok_def)
      from rb_adjust_ok [OF this] obtain p2 where two: "rb_adjust (ibuf t, bpool t) = Inr (ibuf t, p2)"
          "rb_ok (others_in others t) (ibuf t) p2" "same_others (others_in others t) (bpool t) p2"
          "rb_content (ibuf t) p2 = rb_content (ibuf t) (bpool t)" "at_front (ibuf t) p2"
        by blast
      note s2 = conn_ok_input [OF t(2) two(2,3)]
      have "same_others others (bpool s) p2"
        using s1(3) t(4) s2(3) by (auto simp: same_others_def)
      then show ?thesis
        using start t(1,5-7) two(1,4,5) s1(2) s2(1,2) inv_input [OF t(3) s2(2)]
        by (intro disjI2 exI [of _ "put_in_buf (ibuf t, p2) t"]) (simp add: app_input front_in_def in_bytes_def)
    qed (simp add: start)
  qed (simp add: do_read_def)
qed

end

text \<open>The reads of a connection, one for each piece of the stream that arrives.\<close>

fun reads :: "(int32 \<Rightarrow> byte list \<Rightarrow> 'x conn_bufs_scheme \<Rightarrow> 'x conn_bufs_scheme res) \<Rightarrow>
    ('x conn_bufs_scheme \<Rightarrow> 'x conn_bufs_scheme res) \<Rightarrow> byte list list \<Rightarrow>
    'x conn_bufs_scheme \<Rightarrow> 'x conn_bufs_scheme res option" where
  "reads call clean [] s = Some (Inr s)"
| "reads call clean (bs # bss) s =
     (case do_read call clean (Some (int (length bs))) (Io_Bytes bs) s of
        Some (Inr s') \<Rightarrow> reads call clean bss s'
      | r \<Rightarrow> r)"

definition read_limit :: int where
  "read_limit = m8M - (8 + MESSAGE_LENGTH_LIMIT)"

context stream_handler
begin

lemma reads_messages:
  assumes "conn_ok others s" and "front_in s" and "inv s" and "decode (in_bytes s) = ([], in_bytes s, False)"
    and "\<forall>bs \<in> set bss. bs \<noteq> [] \<and> int (length bs) \<le> read_limit"
    and "decode (in_bytes s @ concat bss) = (ms, rest, False)" and "\<forall>m \<in> set ms. snd m \<noteq> []"
    and "int (length (out_bytes s)) + int (length (replies reply upd ms (app_of s))) \<le> m8M"
  shows "reads call clean bss s = Some (Inl Exited) \<or>
    (\<exists>s'. reads call clean bss s = Some (Inr s') \<and> conn_ok others s' \<and>
       front_in s' \<and> inv s' \<and> same_others others (bpool s) (bpool s') \<and> in_bytes s' = rest \<and>
       out_bytes s' = out_bytes s @ replies reply upd ms (app_of s) \<and> app_of s' = updates upd ms (app_of s))"
  using assms
proof (induction bss arbitrary: s ms)
  case (Cons bs bss)
  obtain ms1 r1 ms2 where d: "decode (in_bytes s @ bs) = (ms1, r1, False)"
      "decode (r1 @ concat bss) = (ms2, rest, False)" "ms = ms1 @ ms2"
    using Cons.prems(6) decode_prefix [of "in_bytes s @ bs" "concat bss" ms rest] by auto
  have r1: "decode r1 = ([], r1, False)" using decode_rest [OF d(1)] by simp
  have bs: "bs \<noteq> []" "\<forall>m \<in> set ms1. snd m \<noteq> []" using Cons.prems(5,7) d(3) by auto
  have len: "int (length (in_bytes s)) + int (length bs) \<le> m8M"
    using decode_rest [OF Cons.prems(4)] Cons.prems(5) by (simp add: read_limit_def)
  have "int (length (out_bytes s)) + int (length (replies reply upd ms1 (app_of s))) \<le> m8M"
    using Cons.prems(8) d(3) by (simp add: replies_append)
  from do_read_messages [OF Cons.prems(1-3) bs(1) len d(1) bs(2) this, of clean] show ?case
  proof (elim disjE exE conjE)
    fix t
    assume t: "do_read call clean (Some (int (length bs))) (Io_Bytes bs) s = Some (Inr t)" "conn_ok others t"
      "front_in t" "inv t" "same_others others (bpool s) (bpool t)" "in_bytes t = r1"
      "out_bytes t = out_bytes s @ replies reply upd ms1 (app_of s)" "app_of t = updates upd ms1 (app_of s)"
    have "int (length (out_bytes t)) + int (length (replies reply upd ms2 (app_of t))) \<le> m8M"
      using Cons.prems(8) d(3) t(7,8) by (simp add: replies_append)
    with Cons.IH [of t ms2] t r1 d Cons.prems(5,7)
    have "reads call clean bss t = Some (Inl Exited) \<or>
      (\<exists>s'. reads call clean bss t = Some (Inr s') \<and> conn_ok others s' \<and>
         front_in s' \<and> inv s' \<and> same_others others (bpool t) (bpool s') \<and> in_bytes s' = rest \<and>
         out_bytes s' = out_bytes t @ replies reply upd ms2 (app_of t) \<and> app_of s' = updates upd ms2 (app_of t))"
      by simp
    then show ?thesis
    proof (elim disjE exE conjE)
      fix s'
      assume "reads call clean bss t = Some (Inr s')" "conn_ok others s'" "front_in s'" "inv s'"
        "same_others others (bpool t) (bpool s')" "in_bytes s' = rest"
        "out_bytes s' = out_bytes t @ replies reply upd ms2 (app_of t)" "app_of s' = updates upd ms2 (app_of t)"
      then show ?thesis
        using t(1,7,8) same_others_trans [OF t(5), of "bpool s'"] d(3)
        by (intro disjI2 exI [of _ s']) (simp add: replies_append)
    qed (simp add: t(1))
  qed simp
qed simp

text \<open>
  A message without a body that ends what was read: taking its head gives the buffer back, and taking
  the body of length 0 then finds none.
\<close>

lemma do_read_empty_body:
  assumes "conn_ok others s" and "front_in s" and "inv s" and "in_bytes s = []" and "bs = frame (i, [])"
    and "int (length (out_bytes s)) + int (length (reply i [] (app_of s))) \<le> m8M"
  shows "do_read call clean (Some (int (length bs))) (Io_Bytes bs) s \<in> {Some (Inl Exited), Some (Inl Assert_Failed)}"
proof -
  have rb: "rb_ok (others_in others s) (ibuf s) (bpool s)" "at_front (ibuf s) (bpool s)"
    using assms(1,2) by (simp_all add: conn_ok_def front_in_def)
  have "int (length (rb_content (ibuf s) (bpool s))) + 8 \<le> m8M"
    using assms(4) by (simp add: in_bytes_def m8M_def)
  moreover have "int (length bs) = 8" using assms(5) by simp
  ultimately have "read_data (Some 8) (Io_Bytes bs) (ibuf s, bpool s) = Inl Exited \<or>
    (\<exists>rb' p'. read_data (Some 8) (Io_Bytes bs) (ibuf s, bpool s) = Inr (8, rb', p') \<and>
       rb_ok (others_in others s) rb' p' \<and> same_others (others_in others s) (bpool s) p' \<and>
       rb_content rb' p' = rb_content (ibuf s) (bpool s) @ bs)"
    using read_data_ok [OF rb, of 8 bs] by auto
  then show ?thesis
  proof (elim disjE exE conjE )
    fix rb1 p1
    assume one: "read_data (Some 8) (Io_Bytes bs) (ibuf s, bpool s) = Inr (8, rb1, p1)"
      "rb_ok (others_in others s) rb1 p1" "same_others (others_in others s) (bpool s) p1"
      "rb_content rb1 p1 = rb_content (ibuf s) (bpool s) @ bs"
    let ?s1 = "put_in_buf (rb1, p1) s"
    note s1 = conn_ok_input [OF assms(1) one(2,3)]
    have cont: "rb_content rb1 p1 = frame (i, [])" using one(4) assms(4,5) by (simp add: in_bytes_def)
    then have "rb1 \<noteq> None" using content_not_None [of rb1 p1] by (metis length_frame list.size(3) add_eq_0_iff_both_eq_0 numeral_neq_zero)
    then obtain rb2 p2 where two: "rb_pop 8 (rb1, p1) = Inr (rb2, p2)" "rb_ok (others_in others s) rb2 p2"
        "same_others (others_in others s) p1 p2" "rb2 = None"
      using rb_pop_ok [OF one(2), of 8] cont by auto
    let ?s2 = "put_in_buf (rb2, p2) s"
    note s2 = conn_ok_input [OF assms(1) two(2) same_others_trans [OF one(3) two(3)]]
    have head: "read_head (frame (i, [])) = \<lparr>head_msgid = i, head_msglen = 0\<rparr>"
      using read_head_bytes [of "\<lparr>head_msgid = i, head_msglen = 0\<rparr>" "[]"] by (simp add: frame_def)
    have "rb_data 8 rb1 p1 = Inr (frame (i, []))" using rb_data_ok [OF one(2), of 8] cont by simp
    then have "read_frame call clean ?s1 = res_bind (call i [] ?s2) (\<lambda>s. res_bind (rb_pop 0 (ibuf s, bpool s))
        (\<lambda>rp. Inr (True, put_in_buf rp s)))"
      using rb_length_ok [OF one(2)] cont two(1,4) head
      by (simp add: read_frame_def lars_defs Let_def rb_data_def put_in_buf_def)
    note frame = this
    have "int (length (out_bytes ?s2)) + int (length (reply i [] (app_of ?s2))) \<le> m8M"
      using assms(6) s2(2) by (simp add: app_input)
    from call_ok [OF s2(1) inv_input [OF assms(3) s2(2)] this]
    have "read_frame call clean ?s1 \<in> {Inl Exited, Inl Assert_Failed}"
      using frame two(4) by (auto simp: rb_pop_def)
    moreover have "do_read call clean (Some 8) (Io_Bytes bs) s =
        map_option (\<lambda>r. res_bind r (\<lambda>s. res_bind (rb_adjust (ibuf s, bpool s)) (\<lambda>rp. Inr (put_in_buf rp s))))
          (read_frames call clean ?s1)"
      using one(1) by (simp add: do_read_def)
    ultimately show ?thesis using assms(5) by (subst (asm) read_frames.simps) auto
  qed (use assms(5) in \<open>simp_all add: do_read_def\<close>)
qed

text \<open>A refused length: the messages before it are handled, then the connection is closed.\<close>

lemma do_read_bad:
  assumes "conn_ok others s" and "front_in s" and "inv s" and "bs \<noteq> []"
    and "int (length (in_bytes s)) + int (length bs) \<le> m8M"
    and "decode (in_bytes s @ bs) = (ms, rest, True)" and "\<forall>m \<in> set ms. snd m \<noteq> []"
    and "int (length (out_bytes s)) + int (length (replies reply upd ms (app_of s))) \<le> m8M"
  shows "do_read call clean (Some (int (length bs))) (Io_Bytes bs) s = Some (Inl Exited) \<or>
    (\<exists>s'. do_read call clean (Some (int (length bs))) (Io_Bytes bs) s =
         Some (res_bind (clean s') (\<lambda>s. res_bind (rb_adjust (ibuf s, bpool s)) (\<lambda>rp. Inr (put_in_buf rp s)))) \<and>
       conn_ok others s' \<and> inv s' \<and> same_others others (bpool s) (bpool s') \<and> in_bytes s' = rest \<and>
       app_of s' = updates upd ms (app_of s))"
proof -
  have rb: "rb_ok (others_in others s) (ibuf s) (bpool s)" "at_front (ibuf s) (bpool s)"
    using assms(1,2) by (simp_all add: conn_ok_def front_in_def)
  have room: "int (length (rb_content (ibuf s) (bpool s))) + int (length bs) \<le> m8M"
    using assms(5) by (simp add: in_bytes_def)
  have "0 < int (length bs)" using assms(4) by simp
  from read_data_ok [OF rb this room refl] show ?thesis
  proof (elim disjE exE conjE)
    fix rb1 p1
    assume one: "read_data (Some (int (length bs))) (Io_Bytes bs) (ibuf s, bpool s) = Inr (int (length bs), rb1, p1)"
      "rb_ok (others_in others s) rb1 p1" "same_others (others_in others s) (bpool s) p1"
      "rb_content rb1 p1 = rb_content (ibuf s) (bpool s) @ bs"
    let ?s1 = "put_in_buf (rb1, p1) s"
    note s1 = conn_ok_input [OF assms(1) one(2,3)]
    have dec: "decode (in_bytes ?s1) = (ms, rest, True)" using assms(6) one(4) by (simp add: in_bytes_def)
    have "int (length (out_bytes ?s1)) + int (length (replies reply upd ms (app_of ?s1))) \<le> m8M"
      using assms(8) s1(2) by (simp add: app_input)
    from read_frames_decode [OF s1(1) inv_input [OF assms(3) s1(2)] dec assms(7) this, of clean] show ?thesis
      using one(1) assms(4) same_others_trans [OF s1(3)] by (auto simp: do_read_def app_input)
  qed (simp add: do_read_def)
qed

end

subsection \<open>Callbacks that answer\<close>

text \<open>
  A callback as an application writes it: from its argument, the message and the application's state
  it computes what to send on the connection and the new state. The handlers of the DNS service, of
  the reporter and of the DNS client and the echo example have this form.
\<close>

type_synonym ('a, 'u) handler = "'a option \<Rightarrow> int32 \<Rightarrow> byte list \<Rightarrow> 'u \<Rightarrow> msg list \<times> 'u"

definition run_handler :: "(msg \<Rightarrow> 's \<Rightarrow> 's res) \<Rightarrow> ('s \<Rightarrow> 'u) \<Rightarrow> ('u \<Rightarrow> 's \<Rightarrow> 's) \<Rightarrow> ('a, 'u) handler \<Rightarrow>
    byte list \<Rightarrow> int32 \<Rightarrow> 'a option \<Rightarrow> 's \<Rightarrow> 's res" where
  "run_handler send app_of set_app h body msgid arg s =
     (case h arg msgid body (app_of s) of (ms, u) \<Rightarrow> res_fold send ms (set_app u s))"

definition router_run :: "(msg \<Rightarrow> 's \<Rightarrow> 's res) \<Rightarrow> ('s \<Rightarrow> 'u) \<Rightarrow> ('u \<Rightarrow> 's \<Rightarrow> 's) \<Rightarrow> (('a, 'u) handler, 'a) msg_router \<Rightarrow>
    int32 \<Rightarrow> byte list \<Rightarrow> 's \<Rightarrow> 's res" where
  "router_run send app_of set_app router = router_call (run_handler send app_of set_app) router"

definition handled :: "(('a, 'u) handler, 'a) msg_router \<Rightarrow> int32 \<Rightarrow> byte list \<Rightarrow> 'u \<Rightarrow> msg list \<times> 'u" where
  "handled router i b u =
     (case router_cbs router i of
        None \<Rightarrow> ([], u)
      | Some h \<Rightarrow> h (case router_args router i of None \<Rightarrow> None | Some a \<Rightarrow> a) i b u)"

definition handler_reply where
  "handler_reply router i b u = concat (map frame (fst (handled router i b u)))"

definition handler_upd where
  "handler_upd router i b u = snd (handled router i b u)"

text \<open>
  What such callbacks need of their connection: a \<open>send\<close> that queues a message, and a place for the
  application's state. It gives them the contract above.
\<close>

locale stream_sender =
  fixes send :: "msg \<Rightarrow> 'x conn_bufs_scheme \<Rightarrow> 'x conn_bufs_scheme res"
    and inv :: "'x conn_bufs_scheme \<Rightarrow> bool"
    and app_of :: "'x conn_bufs_scheme \<Rightarrow> 'u"
    and set_app :: "'u \<Rightarrow> 'x conn_bufs_scheme \<Rightarrow> 'x conn_bufs_scheme"
  assumes send_ok: "conn_ok others s \<Longrightarrow> inv s \<Longrightarrow> int (length (out_bytes s)) + int (length (frame m)) \<le> m8M \<Longrightarrow>
      send m s = Inl Exited \<or>
      (\<exists>s'. send m s = Inr s' \<and> conn_ok others s' \<and> inv s' \<and> ibuf s' = ibuf s \<and>
         buf_of (ibuf s) (bpool s') = buf_of (ibuf s) (bpool s) \<and> same_others others (bpool s) (bpool s') \<and>
         out_bytes s' = out_bytes s @ frame m \<and> app_of s' = app_of s)"
    and set_app: "app_of (set_app u s) = u" "inv (set_app u s) = inv s" "set_app (app_of s) s = s"
      "ibuf (set_app u s) = ibuf s" "obuf (set_app u s) = obuf s" "bpool (set_app u s) = bpool s"
    and app_put: "app_of (put_in_buf rp s) = app_of s"
    and inv_put: "inv s \<Longrightarrow> out_bytes (put_in_buf rp s) = out_bytes s \<Longrightarrow> inv (put_in_buf rp s)"
begin

lemma send_all_ok:
  assumes "conn_ok others s" and "inv s" and "int (length (out_bytes s)) + int (length (concat (map frame ms))) \<le> m8M"
  shows "res_fold send ms s = Inl Exited \<or>
    (\<exists>s'. res_fold send ms s = Inr s' \<and> conn_ok others s' \<and> inv s' \<and> ibuf s' = ibuf s \<and>
       buf_of (ibuf s) (bpool s') = buf_of (ibuf s) (bpool s) \<and> same_others others (bpool s) (bpool s') \<and>
       out_bytes s' = out_bytes s @ concat (map frame ms) \<and> app_of s' = app_of s)"
  using assms
proof (induction ms arbitrary: s)
  case (Cons m ms)
  have "int (length (out_bytes s)) + int (length (frame m)) \<le> m8M" using Cons.prems(3) by simp
  from send_ok [OF Cons.prems(1,2) this] show ?case
  proof (elim disjE exE conjE)
    fix s1
    assume one: "send m s = Inr s1" "conn_ok others s1" "inv s1" "ibuf s1 = ibuf s"
      "buf_of (ibuf s) (bpool s1) = buf_of (ibuf s) (bpool s)" "same_others others (bpool s) (bpool s1)"
      "out_bytes s1 = out_bytes s @ frame m" "app_of s1 = app_of s"
    have "int (length (out_bytes s1)) + int (length (concat (map frame ms))) \<le> m8M"
      using Cons.prems(3) one(7) by simp
    from Cons.IH [OF one(2,3) this] show ?thesis
    proof (elim disjE exE conjE)
      fix s2
      assume two: "res_fold send ms s1 = Inr s2" "conn_ok others s2" "inv s2" "ibuf s2 = ibuf s1"
        "buf_of (ibuf s1) (bpool s2) = buf_of (ibuf s1) (bpool s1)" "same_others others (bpool s1) (bpool s2)"
        "out_bytes s2 = out_bytes s1 @ concat (map frame ms)" "app_of s2 = app_of s1"
      then show ?thesis
        using one same_others_trans [OF one(6) two(6)] by (intro disjI2 exI [of _ s2]) simp
    qed (simp add: one(1))
  qed simp
qed simp

end

sublocale stream_sender \<subseteq> cb: stream_handler "router_run send app_of set_app router" inv app_of
    "handler_reply router" "handler_upd router" for router
proof
  fix others s i b
  assume a: "conn_ok others s" "inv s"
    "int (length (out_bytes s)) + int (length (handler_reply router i b (app_of s))) \<le> m8M"
  obtain ms u where h: "handled router i b (app_of s) = (ms, u)" by (cases "handled router i b (app_of s)")
  have call: "router_run send app_of set_app router i b s = res_fold send ms (set_app u s)"
    using h by (auto simp: router_run_def router_call_def run_handler_def handled_def set_app split: option.splits)
  have same: "conn_ok others (set_app u s)" "inv (set_app u s)" "out_bytes (set_app u s) = out_bytes s"
    using a(1,2) by (simp_all add: conn_ok_def others_in_def others_out_def out_bytes_def set_app)
  then have "int (length (out_bytes (set_app u s))) + int (length (concat (map frame ms))) \<le> m8M"
    using a(3) h by (simp add: handler_reply_def)
  from send_all_ok [OF same(1,2) this]
  show "router_run send app_of set_app router i b s = Inl Exited \<or>
      (\<exists>s'. router_run send app_of set_app router i b s = Inr s' \<and> conn_ok others s' \<and> inv s' \<and> ibuf s' = ibuf s \<and>
         buf_of (ibuf s) (bpool s') = buf_of (ibuf s) (bpool s) \<and> same_others others (bpool s) (bpool s') \<and>
         out_bytes s' = out_bytes s @ handler_reply router i b (app_of s) \<and> app_of s' = handler_upd router i b (app_of s))"
    using h call same(3) by (auto simp: handler_reply_def handler_upd_def set_app)
qed (simp_all add: app_put inv_put)

subsection \<open>The events a connection asks for\<close>

text \<open>
  Input always, output exactly while \<open>out\<close> is not empty, with the connection's callbacks \<open>rd\<close> and \<open>wr\<close>.
\<close>

definition ev_armed :: "io_cb \<Rightarrow> io_cb \<Rightarrow> (int32 \<Rightarrow> bool) \<Rightarrow> int32 \<Rightarrow> 'task io_loop \<Rightarrow> byte list \<Rightarrow> bool" where
  "ev_armed rd wr pollable fd el out \<longleftrightarrow> loop_ok el \<and> pollable fd \<and>
     (\<exists>ev. io_evs el fd = Some ev \<and> read_callback ev = Some rd \<and>
        ev_mask ev = (if out = [] then EPOLLIN else EPOLLIN OR EPOLLOUT) \<and>
        (out \<noteq> [] \<longrightarrow> write_callback ev = Some wr))"

lemma ev_armed_more:
  "ev_armed rd wr pollable fd el out \<Longrightarrow> out \<noteq> [] \<Longrightarrow> out' \<noteq> [] \<Longrightarrow> ev_armed rd wr pollable fd el out'"
  by (simp add: ev_armed_def)

lemma ev_armed_add:
  assumes "ev_armed rd wr pollable fd el []" and "out' \<noteq> []"
  shows "ev_armed rd wr pollable fd (add_io_event pollable fd wr EPOLLOUT args el) out'"
proof -
  have ok: "loop_ok el" "pollable fd" using assms(1) by (simp_all add: ev_armed_def)
  have "loop_ok (add_io_event pollable fd wr EPOLLOUT args el)"
    using loop_ok_add [where pollable = pollable, OF ok, of EPOLLOUT] by simp
  moreover have "io_evs (add_io_event pollable fd wr EPOLLOUT args el) fd =
      Some (registered fd wr EPOLLOUT args (io_evs el fd))"
    by (simp add: add_io_event_ok_eq [where pollable = pollable, OF ok])
  ultimately show ?thesis
    using assms by (auto simp: ev_armed_def registered_def set_io_callback_def lars_defs)
qed

lemma ev_armed_del:
  assumes "ev_armed rd wr pollable fd el out"
  shows "ev_armed rd wr pollable fd (del_io_mask pollable fd EPOLLOUT el) []"
proof -
  have ok: "loop_ok el" "pollable fd" using assms(1) by (simp_all add: ev_armed_def)
  have "loop_ok (del_io_mask pollable fd EPOLLOUT el)"
    using loop_ok_del_mask [where pollable = pollable, OF ok, of EPOLLOUT] by simp
  moreover obtain ev where ev: "io_evs el fd = Some ev" "read_callback ev = Some rd" "ev_mask ev = 1 \<or> ev_mask ev = 5"
    using assms(1) by (auto simp: ev_armed_def lars_defs split: if_splits)
  moreover have "io_evs (del_io_mask pollable fd EPOLLOUT el) fd = Some (ev\<lparr>ev_mask := 1\<rparr>)"
    using ev by (auto simp: del_io_mask_def Let_def lars_defs split: option.splits)
  ultimately show ?thesis
    using assms by (auto simp: ev_armed_def lars_defs)
qed

end
