(* ===== verification/Tcp_Conn_Props.thy ===== *)
theory Tcp_Conn_Props
  imports Tcp_Stream
begin

text \<open>
  The server side of a connection: its callbacks answer on it, so it is an instance of the contract
  of \<open>Tcp_Stream\<close>; what it sends leaves in order and the write event is armed exactly while
  something waits; and how it ends.
\<close>

subsection \<open>Sending and the write event\<close>

definition armed :: "(int32 \<Rightarrow> bool) \<Rightarrow> ('task, 'u) tcp_conn \<Rightarrow> bool" where
  "armed pollable c \<longleftrightarrow> ev_armed Conn_Rd Conn_Wt pollable (connfd c) (conn_loop c) (out_bytes c)"

lemma rb_length_out: "conn_ok others c \<Longrightarrow> rb_length (obuf c) (bpool c) = Inr (int (length (out_bytes c)))"
  using rb_length_ok by (auto simp: conn_ok_def out_bytes_def)

lemma out_bytes_loop [simp]:
  "out_bytes (c\<lparr>conn_loop := el\<rparr>) = out_bytes c" "in_bytes (c\<lparr>conn_loop := el\<rparr>) = in_bytes c"
  "conn_ok others (c\<lparr>conn_loop := el\<rparr>) = conn_ok others c" "front_in (c\<lparr>conn_loop := el\<rparr>) = front_in c"
  "out_bytes (c\<lparr>app := u\<rparr>) = out_bytes c" "in_bytes (c\<lparr>app := u\<rparr>) = in_bytes c"
  "conn_ok others (c\<lparr>app := u\<rparr>) = conn_ok others c" "front_in (c\<lparr>app := u\<rparr>) = front_in c"
  "armed pollable (c\<lparr>app := u\<rparr>) = armed pollable c"
  by (simp_all add: out_bytes_def in_bytes_def conn_ok_def front_in_def others_in_def others_out_def armed_def)

lemma armed_cong:
  "armed pollable c \<Longrightarrow> out_bytes c' = out_bytes c \<Longrightarrow> conn_loop c' = conn_loop c \<Longrightarrow> connfd c' = connfd c \<Longrightarrow>
   armed pollable c'"
  by (simp add: armed_def)

lemma conn_send_message_ok:
  assumes "conn_ok others c" and "armed pollable c" and "int (length (out_bytes c)) + int (length (frame (msgid, data))) \<le> m8M"
  shows "conn_send_message pollable self data msgid c = Inl Exited \<or>
    (\<exists>c'. conn_send_message pollable self data msgid c = Inr (0, c') \<and> conn_ok others c' \<and> armed pollable c' \<and>
       ibuf c' = ibuf c \<and> buf_of (ibuf c) (bpool c') = buf_of (ibuf c) (bpool c) \<and>
       same_others others (bpool c) (bpool c') \<and> out_bytes c' = out_bytes c @ frame (msgid, data) \<and>
       app c' = app c \<and> connfd c' = connfd c \<and> conn_tab c' = conn_tab c)"
proof -
  have "int (length (out_bytes c)) + 8 + int (length data) \<le> m8M" using assms(3) by simp
  from queue_message_ok [OF assms(1) this, of msgid] show ?thesis
  proof (elim disjE exE conjE)
    fix rp
    assume q: "queue_message data msgid c = Inr (0, put_out_buf rp c)" "conn_ok others (put_out_buf rp c)"
      "out_bytes (put_out_buf rp c) = out_bytes c @ frame (msgid, data)"
      "buf_of (ibuf c) (snd rp) = buf_of (ibuf c) (bpool c)" "same_others others (bpool c) (snd rp)"
    have ne: "frame (msgid, data) \<noteq> []" by simp
    show ?thesis
    proof (cases "out_bytes c = []")
      case True
      let ?el = "add_io_event pollable (connfd c) Conn_Wt EPOLLOUT (Some self) (conn_loop c)"
      have "armed pollable ((put_out_buf rp c)\<lparr>conn_loop := ?el\<rparr>)"
        using assms(2) True q(3) ne ev_armed_add [of Conn_Rd Conn_Wt pollable "connfd c" "conn_loop c"]
        by (simp add: armed_def)
      then show ?thesis
        using q True rb_length_out [OF assms(1)]
        by (intro disjI2 exI [of _ "(put_out_buf rp c)\<lparr>conn_loop := ?el\<rparr>"])
          (simp add: conn_send_message_def)
    next
      case False
      then have "armed pollable (put_out_buf rp c)"
        using assms(2) q(3) ev_armed_more by (fastforce simp: armed_def)
      then show ?thesis
        using q False rb_length_out [OF assms(1)]
        by (intro disjI2 exI [of _ "put_out_buf rp c"]) (simp add: conn_send_message_def)
    qed
  qed (simp add: conn_send_message_def rb_length_out [OF assms(1)])
qed

subsection \<open>Callbacks of a connection\<close>

definition send_to :: "(int32 \<Rightarrow> bool) \<Rightarrow> addr \<Rightarrow> msg \<Rightarrow> ('task, 'u) tcp_conn \<Rightarrow> ('task, 'u) tcp_conn res" where
  "send_to pollable self m c = res_bind (conn_send_message pollable self (snd m) (fst m) c) (\<lambda>(_, c). Inr c)"

definition set_app :: "'u \<Rightarrow> ('task, 'u) tcp_conn \<Rightarrow> ('task, 'u) tcp_conn" where
  "set_app u c = c\<lparr>app := u\<rparr>"

definition conn_call :: "(int32 \<Rightarrow> bool) \<Rightarrow> addr \<Rightarrow> (('a, 'u) handler, 'a) msg_router \<Rightarrow> int32 \<Rightarrow> byte list \<Rightarrow>
    ('task, 'u) tcp_conn \<Rightarrow> ('task, 'u) tcp_conn res" where
  "conn_call pollable self router = router_run (send_to pollable self) app set_app router"

text \<open>The echo callback is of this form.\<close>

lemma callback_busi_handler:
  "callback_busi pollable self data msgid c =
   run_handler (send_to pollable self) app set_app (\<lambda>_ i b u. ([(i, b)], u)) data msgid arg c"
  by (simp add: callback_busi_def run_handler_def send_to_def set_app_def res_bind_def split: sum.split prod.split)

definition conn_at :: "(int32 \<Rightarrow> bool) \<Rightarrow> int32 \<Rightarrow> conn_table \<Rightarrow> ('task, 'u) tcp_conn \<Rightarrow> bool" where
  "conn_at pollable fd tab c \<longleftrightarrow> armed pollable c \<and> connfd c = fd \<and> conn_tab c = tab"

interpretation tc: stream_sender "send_to pollable self" "conn_at pollable fd tab" app set_app
  for pollable self fd tab
proof
  fix others s m
  assume a: "conn_ok others s" "conn_at pollable fd tab s" "int (length (out_bytes s)) + int (length (frame m)) \<le> m8M"
  then have "int (length (out_bytes s)) + int (length (frame (fst m, snd m))) \<le> m8M" by simp
  from conn_send_message_ok [OF a(1) _ this, of pollable self] a(2)
  show "send_to pollable self m s = Inl Exited \<or>
      (\<exists>s'. send_to pollable self m s = Inr s' \<and> conn_ok others s' \<and> conn_at pollable fd tab s' \<and> ibuf s' = ibuf s \<and>
         buf_of (ibuf s) (bpool s') = buf_of (ibuf s) (bpool s) \<and> same_others others (bpool s) (bpool s') \<and>
         out_bytes s' = out_bytes s @ frame m \<and> app s' = app s)"
    by (auto simp: send_to_def conn_at_def)
next
  fix s rp
  assume "conn_at pollable fd tab s" "out_bytes (put_in_buf rp s) = out_bytes s"
  then show "conn_at pollable fd tab (put_in_buf rp s)"
    using armed_cong [of pollable s "put_in_buf rp s"] by (simp add: conn_at_def)
qed (simp_all add: set_app_def conn_at_def)

lemma conn_at_self: "armed pollable c \<Longrightarrow> conn_at pollable (connfd c) (conn_tab c) c"
  by (simp add: conn_at_def)

text \<open>
  C15: A server connection answers its requests in order: when the bytes that arrive, cut into pieces
  in any way, are the framed messages \<open>ms\<close> with non-empty bodies and a piece of another, then reading
  them calls the registered callback of every message once and in order, the application's state and
  the queued answers are what the callbacks make of them one after the other, the piece is kept for
  the next read, the write event is armed when there is something to write, and the buffers of other
  connections are not touched. The only other outcome is the exit when the pool's memory limit is hit.
\<close>

theorem requests_answered_in_order:
  assumes "conn_ok others c" and "front_in c" and "armed pollable c" and "in_bytes c = []"
    and "\<forall>bs \<in> set bss. bs \<noteq> [] \<and> int (length bs) \<le> read_limit"
    and "concat bss = concat (map frame ms) @ part" and "decode part = ([], part, False)"
    and "\<forall>m \<in> set ms. snd m \<noteq> [] \<and> int (length (snd m)) \<le> MESSAGE_LENGTH_LIMIT"
    and "int (length (out_bytes c)) +
      int (length (replies (handler_reply router) (handler_upd router) ms (app c))) \<le> m8M"
  shows "reads (conn_call pollable self router) (clean_conn pollable hook) bss c = Some (Inl Exited) \<or>
    (\<exists>c'. reads (conn_call pollable self router) (clean_conn pollable hook) bss c = Some (Inr c') \<and>
       in_bytes c' = part \<and> app c' = updates (handler_upd router) ms (app c) \<and>
       out_bytes c' = out_bytes c @ replies (handler_reply router) (handler_upd router) ms (app c) \<and>
       armed pollable c' \<and> same_others others (bpool c) (bpool c'))"
proof -
  have "decode (in_bytes c) = ([], in_bytes c, False)" using assms(4) by (simp add: decode_short)
  moreover have "decode (in_bytes c @ concat bss) = (ms, part, False)"
    using assms(4,6,7,8) decode_frames [of ms part] by simp
  ultimately show ?thesis
    using tc.cb.reads_messages [OF assms(1,2) conn_at_self [OF assms(3)] _ assms(5), of ms part router self
        "clean_conn pollable hook", folded conn_call_def] assms(8,9)
    by (auto simp: conn_at_def)
qed

text \<open>
  A message without a body that is the last of what was read aborts the server: its head is taken,
  the empty buffer goes back to the pool, and taking the body of length 0 fails the assertion that
  there is a buffer. The route request for modid 0 and cmdid 0 is such a message, since a proto3
  message of zero values is empty.
\<close>

theorem empty_message_aborts:
  assumes "conn_ok others c" and "front_in c" and "armed pollable c" and "in_bytes c = []"
    and "int (length (out_bytes c)) + int (length (handler_reply router i [] (app c))) \<le> m8M"
  shows "conn_do_read pollable hook (conn_call pollable self router) (Some 8) (Io_Bytes (frame (i, []))) c
    \<in> {Some (Inl Exited), Some (Inl Assert_Failed)}"
  using tc.cb.do_read_empty_body [OF assms(1,2) conn_at_self [OF assms(3)] assms(4) refl assms(5), of self
      "clean_conn pollable hook", folded conn_call_def]
  by (simp add: conn_do_read_def)

subsection \<open>Closing\<close>

lemma clean_conn_ok:
  assumes "conn_ok others c" and "armed pollable c" and "call_hook hook c = Inr (c\<lparr>app := u\<rparr>)"
    and "0 \<le> sint (connfd c)" and "sint (connfd c) < int (length (conns (conn_tab c)))"
  shows "\<exists>c'. clean_conn pollable hook c = Inr c' \<and> ibuf c' = None \<and> obuf c' = None \<and> pool_ok others (bpool c') \<and>
    same_others others (bpool c) (bpool c') \<and> connfd c' = - 1 \<and> loop_ok (conn_loop c') \<and>
    connfd c \<notin> get_listen_fds (conn_loop c') \<and> app c' = u \<and>
    conns (conn_tab c') = (conns (conn_tab c))[nat (sint (connfd c)) := None] \<and>
    get_conn_num (conn_tab c') = get_conn_num (conn_tab c) - 1"
proof -
  have lp: "loop_ok (conn_loop c)" "pollable (connfd c)" using assms(2) by (simp_all add: armed_def ev_armed_def)
  let ?t = "conn_tab c\<lparr>conns := (conns (conn_tab c))[nat (sint (connfd c)) := None], cur_conns := cur_conns (conn_tab c) - 1\<rparr>"
  let ?c = "c\<lparr>app := u, conn_tab := ?t, conn_loop := del_io_event pollable (connfd c) (conn_loop c)\<rparr>"
  have ok: "conn_ok others ?c" using assms(1) by (simp add: conn_ok_def others_in_def others_out_def)
  then obtain p1 where one: "rb_clear (ibuf ?c, bpool ?c) = Inr (None, p1)" "rb_ok (others_in others ?c) None p1"
      "same_others (others_in others ?c) (bpool ?c) p1"
    using rb_clear_ok by (meson conn_ok_def)
  note s1 = conn_ok_input [OF ok one(2,3)]
  then have "rb_ok others (obuf c) p1" by (simp add: conn_ok_def others_out_def)
  then obtain p2 where two: "rb_clear (obuf c, p1) = Inr (None, p2)" "rb_ok others None p2" "same_others others p1 p2"
    using rb_clear_ok by blast
  have "clean_conn pollable hook c = Inr ((put_out_buf (None, p2) (put_in_buf (None, p1) ?c))\<lparr>connfd := - 1\<rparr>)"
    using assms(3-5) one(1) two(1) by (simp add: clean_conn_def decrease_conn_def set_conn_def)
  then show ?thesis
    using two(2,3) same_others_trans [OF s1(3) two(3)] loop_ok_del [where pollable = pollable, OF lp]
      del_io_event_ok_eq [where pollable = pollable, OF lp]
    by (simp add: rb_ok_def get_conn_num_def get_listen_fds_def)
qed

text \<open>
  A message whose head announces a negative length or one over the limit ends the connection: the
  complete messages before it are handled, then the close hook runs, the connection leaves the table
  and the loop, its buffers return to the pool and its descriptor is closed; later calls find no
  buffer and no event of it.
\<close>

theorem refused_length_closes:
  assumes "conn_ok others c" and "front_in c" and "armed pollable c" and "bs \<noteq> []"
    and "int (length (in_bytes c)) + int (length bs) \<le> m8M"
    and "decode (in_bytes c @ bs) = (ms, rest, True)" and "\<forall>m \<in> set ms. snd m \<noteq> []"
    and "int (length (out_bytes c)) +
      int (length (replies (handler_reply router) (handler_upd router) ms (app c))) \<le> m8M"
    and "\<And>c. call_hook hook c = Inr (c\<lparr>app := closed (app c)\<rparr>)"
    and "0 \<le> sint (connfd c)" and "sint (connfd c) < int (length (conns (conn_tab c)))"
  shows "conn_do_read pollable hook (conn_call pollable self router) (Some (int (length bs))) (Io_Bytes bs) c =
      Some (Inl Exited) \<or>
    (\<exists>c'. conn_do_read pollable hook (conn_call pollable self router) (Some (int (length bs))) (Io_Bytes bs) c =
         Some (Inr c') \<and>
       app c' = closed (updates (handler_upd router) ms (app c)) \<and> connfd c' = - 1 \<and>
       ibuf c' = None \<and> obuf c' = None \<and> pool_ok others (bpool c') \<and>
       connfd c \<notin> get_listen_fds (conn_loop c') \<and>
       conns (conn_tab c') = (conns (conn_tab c))[nat (sint (connfd c)) := None] \<and>
       get_conn_num (conn_tab c') = get_conn_num (conn_tab c) - 1)"
  using tc.cb.do_read_bad [OF assms(1,2) conn_at_self [OF assms(3)] assms(4-8), of self "clean_conn pollable hook",
      folded conn_call_def]
proof (elim disjE exE conjE)
  fix s'
  assume s': "do_read (conn_call pollable self router) (clean_conn pollable hook) (Some (int (length bs))) (Io_Bytes bs) c =
      Some (res_bind (clean_conn pollable hook s') (\<lambda>s. res_bind (rb_adjust (ibuf s, bpool s)) (\<lambda>rp. Inr (put_in_buf rp s))))"
    "conn_ok others s'" "conn_at pollable (connfd c) (conn_tab c) s'" "app s' = updates (handler_upd router) ms (app c)"
  have at: "armed pollable s'" "connfd s' = connfd c" "conn_tab s' = conn_tab c" using s'(3) by (simp_all add: conn_at_def)
  obtain c' where c': "clean_conn pollable hook s' = Inr c'" "ibuf c' = None" "obuf c' = None" "pool_ok others (bpool c')"
      "connfd c' = - 1" "connfd c \<notin> get_listen_fds (conn_loop c')" "app c' = closed (app s')"
      "conns (conn_tab c') = (conns (conn_tab c))[nat (sint (connfd c)) := None]"
      "get_conn_num (conn_tab c') = get_conn_num (conn_tab c) - 1"
    using clean_conn_ok [OF s'(2) at(1) assms(9)] assms(10,11) at(2,3) by auto
  then show ?thesis using s'(1,4) by (simp add: conn_do_read_def rb_adjust_def put_in_buf_def)
qed (simp add: conn_do_read_def)

subsection \<open>Writing\<close>

text \<open>What \<open>write\<close> returns when the socket takes at most \<open>k\<close> bytes in each call, \<open>k\<close> from a list.\<close>

fun kernel_writes :: "nat list \<Rightarrow> byte list \<Rightarrow> io_result list" where
  "kernel_writes [] bytes = []"
| "kernel_writes (k # ks) bytes = Io_Written (min k (length bytes)) # kernel_writes ks (drop k bytes)"

declare write_out.simps [simp del]

lemma write_out_ok:
  assumes "conn_ok others s" and "\<forall>k \<in> set ks. 0 < k"
  shows "\<exists>rp. write_out (kernel_writes ks (out_bytes s)) s = Inr (True, put_out_buf rp s) \<and>
    conn_ok others (put_out_buf rp s) \<and> buf_of (ibuf s) (snd rp) = buf_of (ibuf s) (bpool s) \<and>
    same_others others (bpool s) (snd rp) \<and> out_bytes (put_out_buf rp s) = drop (sum_list ks) (out_bytes s)"
  using assms
proof (induction ks arbitrary: s)
  case Nil
  have id: "put_out_buf (obuf s, bpool s) s = s" by (simp add: put_out_buf_def)
  have "write_out [] s = Inr (True, s)"
  proof (cases "out_bytes s")
    case Nil
    then show ?thesis using rb_length_out [OF Nil.prems(1)] by (simp add: write_out.simps)
  next
    case (Cons x xs)
    then obtain a where a: "obuf s = Some a" using content_not_None [of "obuf s" "bpool s"] by (auto simp: out_bytes_def)
    have ok: "rb_ok (others_out others s) (Some a) (bpool s)" "at_front (Some a) (bpool s)"
      using Nil.prems(1) a by (simp_all add: conn_ok_def)
    then obtain b where "bufs (bpool s) a = Some b" "buf_head b = 0"
      using rb_ok_Some [OF ok(1)] by (auto simp: at_front_def)
    then have "write2fd Io_Again (Some a, bpool s) = Inr (0, Some a, bpool s)" by (simp add: write2fd_def deref_def)
    then show ?thesis using rb_length_out [OF Nil.prems(1)] Cons a id by (subst write_out.simps) simp
  qed
  then show ?case using Nil.prems(1) id by (intro exI [of _ "(obuf s, bpool s)"]) simp
next
  case (Cons k ks)
  show ?case
  proof (cases "out_bytes s = []")
    case True
    have "put_out_buf (obuf s, bpool s) s = s" by (simp add: put_out_buf_def)
    then show ?thesis
      using Cons.prems(1) True rb_length_out [OF Cons.prems(1)] by (intro exI [of _ "(obuf s, bpool s)"]) (simp add: write_out.simps)
  next
    case False
    let ?n = "min k (length (out_bytes s))"
    obtain a where a: "obuf s = Some a" using False content_not_None [of "obuf s" "bpool s"] by (auto simp: out_bytes_def)
    have ok: "rb_ok (others_out others s) (Some a) (bpool s)" "at_front (Some a) (bpool s)"
      using Cons.prems(1) a by (simp_all add: conn_ok_def)
    have "?n \<le> length (rb_content (Some a) (bpool s))" using a by (simp add: out_bytes_def)
    from write2fd_ok [OF ok this] obtain p1 where one: "write2fd (Io_Written ?n) (Some a, bpool s) = Inr (int ?n, Some a, p1)"
        "rb_ok (others_out others s) (Some a) p1" "same_others (others_out others s) (bpool s) p1"
        "at_front (Some a) p1" "rb_content (Some a) p1 = drop ?n (rb_content (Some a) (bpool s))"
      by blast
    let ?s1 = "put_out_buf (Some a, p1) s"
    note s1 = conn_ok_output [OF Cons.prems(1) one(2,4,3)]
    have out: "out_bytes ?s1 = drop k (out_bytes s)" using one(5) a by (simp add: out_bytes_def min_def)
    have "int ?n \<noteq> 0" using Cons.prems(2) False by simp
    then have start: "write_out (kernel_writes (k # ks) (out_bytes s)) s = write_out (kernel_writes ks (out_bytes ?s1)) ?s1"
      using rb_length_out [OF Cons.prems(1)] False one(1) a out by (subst write_out.simps) (simp add: Let_def del: of_nat_min min_less_iff_conj)
    obtain rp where "write_out (kernel_writes ks (out_bytes ?s1)) ?s1 = Inr (True, put_out_buf rp ?s1)"
        "conn_ok others (put_out_buf rp ?s1)" "buf_of (ibuf s) (snd rp) = buf_of (ibuf s) p1"
        "same_others others p1 (snd rp)" "out_bytes (put_out_buf rp ?s1) = drop (sum_list ks) (out_bytes ?s1)"
      using Cons.IH [OF s1(1)] Cons.prems(2) by auto
    moreover have "put_out_buf rp ?s1 = put_out_buf rp s" for rp by (simp add: put_out_buf_def)
    ultimately show ?thesis
      using start s1(2) same_others_trans [OF s1(4)] out by (intro exI [of _ rp]) (simp add: add.commute)
  qed
qed

lemma conn_do_write_ok:
  assumes "conn_ok others c" and "armed pollable c" and "\<forall>k \<in> set ks. 0 < k"
  shows "\<exists>c'. conn_do_write pollable hook (kernel_writes ks (out_bytes c)) c = Inr c' \<and> conn_ok others c' \<and>
    armed pollable c' \<and> same_others others (bpool c) (bpool c') \<and> app c' = app c \<and>
    out_bytes c' = drop (sum_list ks) (out_bytes c)"
proof -
  obtain rp where w: "write_out (kernel_writes ks (out_bytes c)) c = Inr (True, put_out_buf rp c)"
      "conn_ok others (put_out_buf rp c)" "same_others others (bpool c) (snd rp)"
      "out_bytes (put_out_buf rp c) = drop (sum_list ks) (out_bytes c)"
    using write_out_ok [OF assms(1,3)] by blast
  let ?c = "put_out_buf rp c"
  let ?d = "?c\<lparr>conn_loop := del_io_mask pollable (connfd c) EPOLLOUT (conn_loop c)\<rparr>"
  show ?thesis
  proof (cases "out_bytes ?c = []")
    case True
    then have "conn_do_write pollable hook (kernel_writes ks (out_bytes c)) c = Inr ?d"
      using w rb_length_out [OF w(2)] by (simp add: conn_do_write_def)
    moreover have "armed pollable ?d" using assms(2) True ev_armed_del by (auto simp: armed_def)
    ultimately show ?thesis using w by simp
  next
    case False
    then have "conn_do_write pollable hook (kernel_writes ks (out_bytes c)) c = Inr ?c"
      using w rb_length_out [OF w(2)] by (simp add: conn_do_write_def)
    moreover have "out_bytes c \<noteq> []" using False w(4) by auto
    then have "armed pollable ?c" using assms(2) False ev_armed_more by (fastforce simp: armed_def)
    ultimately show ?thesis using w by simp
  qed
qed

datatype conn_op = Send_Msg int32 "byte list" | Writable "nat list"

fun conn_out_run :: "(int32 \<Rightarrow> bool) \<Rightarrow> ('task, 'u) conn_hook \<Rightarrow> addr \<Rightarrow> conn_op list \<Rightarrow>
    byte list \<times> ('task, 'u) tcp_conn \<Rightarrow> (byte list \<times> ('task, 'u) tcp_conn) res" where
  "conn_out_run pollable hook self [] s = Inr s"
| "conn_out_run pollable hook self (Send_Msg i b # ops) (wire, c) =
     res_bind (conn_send_message pollable self b i c) (\<lambda>(_, c). conn_out_run pollable hook self ops (wire, c))"
| "conn_out_run pollable hook self (Writable ks # ops) (wire, c) =
     res_bind (conn_do_write pollable hook (kernel_writes ks (out_bytes c)) c) (\<lambda>c'.
       conn_out_run pollable hook self ops (wire @ take (sum_list ks) (out_bytes c), c'))"

fun sent_msgs :: "conn_op list \<Rightarrow> msg list" where
  "sent_msgs [] = []"
| "sent_msgs (Send_Msg i b # ops) = (i, b) # sent_msgs ops"
| "sent_msgs (Writable ks # ops) = sent_msgs ops"

fun op_ok :: "conn_op \<Rightarrow> bool" where
  "op_ok (Send_Msg i b) \<longleftrightarrow> int (length b) \<le> MESSAGE_LENGTH_LIMIT"
| "op_ok (Writable ks) \<longleftrightarrow> (\<forall>k \<in> set ks. 0 < k)"

lemma conn_out_run_stream:
  assumes "conn_ok others c" and "armed pollable c" and "\<forall>x \<in> set ops. op_ok x"
    and "int (length (out_bytes c)) + int (length (concat (map frame (sent_msgs ops)))) \<le> m8M"
  shows "conn_out_run pollable hook self ops (wire, c) = Inl Exited \<or>
    (\<exists>wire' c'. conn_out_run pollable hook self ops (wire, c) = Inr (wire', c') \<and> conn_ok others c' \<and>
       armed pollable c' \<and> same_others others (bpool c) (bpool c') \<and> app c' = app c \<and>
       wire' @ out_bytes c' = wire @ out_bytes c @ concat (map frame (sent_msgs ops)))"
  using assms
proof (induction ops arbitrary: wire c)
  case (Cons opn ops)
  show ?case
  proof (cases opn)
    case (Send_Msg i b)
    have "int (length (out_bytes c)) + int (length (frame (i, b))) \<le> m8M" using Cons.prems(4) Send_Msg by simp
    from conn_send_message_ok [OF Cons.prems(1,2) this, of self] show ?thesis
    proof (elim disjE exE conjE)
      fix c1
      assume one: "conn_send_message pollable self b i c = Inr (0, c1)" "conn_ok others c1" "armed pollable c1"
        "same_others others (bpool c) (bpool c1)" "out_bytes c1 = out_bytes c @ frame (i, b)" "app c1 = app c"
      have "int (length (out_bytes c1)) + int (length (concat (map frame (sent_msgs ops)))) \<le> m8M"
        using Cons.prems(4) Send_Msg one(5) by simp
      then show ?thesis
        using Cons.IH [OF one(2,3), of wire] Cons.prems(3) Send_Msg one same_others_trans by fastforce
    qed (simp add: Send_Msg)
  next
    case (Writable ks)
    obtain c1 where one: "conn_do_write pollable hook (kernel_writes ks (out_bytes c)) c = Inr c1" "conn_ok others c1"
        "armed pollable c1" "same_others others (bpool c) (bpool c1)" "app c1 = app c"
        "out_bytes c1 = drop (sum_list ks) (out_bytes c)"
      using conn_do_write_ok [OF Cons.prems(1,2), of ks hook] Cons.prems(3) Writable by auto
    have "int (length (out_bytes c1)) + int (length (concat (map frame (sent_msgs ops)))) \<le> m8M"
      using Cons.prems(4) Writable one(6) by simp
    from Cons.IH [OF one(2,3) _ this, of "wire @ take (sum_list ks) (out_bytes c)"] show ?thesis
      using Cons.prems(3) Writable one same_others_trans by fastforce
  qed
qed simp

text \<open>
  C19: Whatever messages a connection sends and however little the socket takes in each write, the
  bytes on the wire followed by the queued ones are the framed messages in order, and the write event
  is armed exactly while something is queued: nothing that was sent is forgotten, and an idle
  connection is not woken. When nothing is queued any more, the receiver's \<open>decode\<close> of the wire is
  exactly the messages sent.
\<close>

theorem sent_messages_reach_the_wire:
  assumes "conn_ok others c" and "armed pollable c" and "out_bytes c = []" and "\<forall>x \<in> set ops. op_ok x"
    and "int (length (concat (map frame (sent_msgs ops)))) \<le> m8M"
  shows "conn_out_run pollable hook self ops ([], c) = Inl Exited \<or>
    (\<exists>wire c'. conn_out_run pollable hook self ops ([], c) = Inr (wire, c') \<and>
       wire @ out_bytes c' = concat (map frame (sent_msgs ops)) \<and> armed pollable c' \<and>
       (out_bytes c' = [] \<longrightarrow> decode wire = (sent_msgs ops, [], False)))"
proof -
  have "\<forall>m \<in> set (sent_msgs ops). int (length (snd m)) \<le> MESSAGE_LENGTH_LIMIT"
    using assms(4) by (induction ops rule: sent_msgs.induct) auto
  then have "decode (concat (map frame (sent_msgs ops))) = (sent_msgs ops, [], False)"
    using decode_frames [of "sent_msgs ops" "[]"] by (simp add: decode_short)
  then show ?thesis
    using conn_out_run_stream [OF assms(1,2,4), of hook self "[]"] assms(3,5) by fastforce
qed

subsection \<open>A message that does not fit\<close>

text \<open>
  When there is no room for the body of a message, \<open>send_message\<close> takes its head back from the
  wrong end: with other messages waiting, the first eight bytes waiting are lost, the head stays
  queued, and the next message fails the assertion that output starts at the front.
\<close>

theorem failed_send_corrupts_stream:
  assumes "conn_ok others c" and "obuf c = Some a" and "bufs (bpool c) a = Some b" and "buf_head b = 0"
    and "8 \<le> length (out_bytes c)" and "buf_length b + 8 \<le> capacity b" and "m8M < int (length data)"
  shows "\<exists>c'. conn_send_message pollable self data msgid c = Inr (- 1, c') \<and>
    out_bytes c' = drop 8 (out_bytes c) @ head_bytes \<lparr>head_msgid = msgid, head_msglen = of_nat (length data)\<rparr> \<and>
    (\<forall>data' msgid'. conn_send_message pollable self data' msgid' c' = Inl Assert_Failed)"
proof -
  let ?h = "head_bytes \<lparr>head_msgid = msgid, head_msglen = of_nat (length data)\<rparr>" and ?o = "others_out others c"
  have ok: "rb_ok ?o (Some a) (bpool c)" "at_front (Some a) (bpool c)" using assms(1,2) by (simp_all add: conn_ok_def)
  have cont: "rb_content (Some a) (bpool c) = out_bytes c" using assms(2) by (simp add: out_bytes_def)
  have len: "buf_length b = int (length (out_bytes c))" using rb_ok_Some [OF ok(1)] assms(3) cont by auto
  obtain p1 where one: "put_bytes ?h (Some a, bpool c) = Inr (Some a, p1)" "rb_ok ?o (Some a) p1"
      "at_front (Some a) p1" "rb_content (Some a) p1 = out_bytes c @ ?h"
    using put_bytes_ok [OF ok assms(3), of ?h] assms(6) len cont by auto
  have head: "send_data ?h (Some a, bpool c) = Inr (0, Some a, p1)"
    using one(1) assms(3,4,6) by (simp add: send_data_def make_room_def deref_def)
  obtain b1 where b1: "bufs p1 a = Some b1" "buf_head b1 = 0" "buf_ok b1" "buf_length b1 = int (length (out_bytes c @ ?h))"
      "capacity b1 \<in> caps"
    using rb_ok_Some [OF one(2)] one(3,4) by (auto simp: at_front_def)
  have "capacity b1 \<le> m8M" using b1(5) by (auto simp: caps_def mem_caps)
  moreover have big: "alloc_buf (buf_length b1 + int (length data)) p1 = Inr (None, p1)"
    using assms(7) b1(4) by (simp add: alloc_buf_def size_class_def mem_caps)
  ultimately have body: "send_data data (Some a, p1) = Inr (- 1, Some a, p1)"
    using b1 assms(7) by (simp add: send_data_def make_room_def deref_def)
  obtain rb2 p2 where two: "rb_pop 8 (Some a, p1) = Inr (rb2, p2)" "rb_ok ?o rb2 p2" "rb_content rb2 p2 = drop 8 (out_bytes c @ ?h)"
      "rb2 \<noteq> None"
    using rb_pop_ok [OF one(2), of 8] one(4) assms(5) by auto
  let ?c = "put_out_buf (rb2, p2) c"
  have rb2: "rb2 = Some a" "bufs p2 a = Some (buf_pop 8 b1)"
    using two(1,4) b1(1) by (auto simp: rb_pop_def deref_def Let_def set_buf_def res_bind_def split: if_splits sum.splits)
  have len1: "rb_length (obuf c) (bpool c) = Inr (int (length (out_bytes c)))" by (rule rb_length_out [OF assms(1)])
  have "conn_send_message pollable self data msgid c = Inr (- 1, ?c)"
    using len1 head body two(1) assms(2)
    by (simp add: conn_send_message_def queue_message_def lars_defs put_out_buf_def)
  moreover have "out_bytes ?c = drop 8 (out_bytes c) @ ?h" using two(3) assms(5) by simp
  moreover have "conn_send_message pollable self data' msgid' ?c = Inl Assert_Failed" for data' msgid'
    using rb_length_ok [OF two(2)] rb2 b1(2)
    by (simp add: conn_send_message_def queue_message_def send_data_def make_room_def deref_def buf_pop_def)
  ultimately show ?thesis by blast
qed

subsection \<open>Concrete connections\<close>

text \<open>A pool that has handed out the buffers \<open>h\<close>, and a fresh connection on descriptor 5.\<close>

definition ex_pool :: "(addr \<rightharpoonup> io_buf) \<Rightarrow> buf_pool" where
  "ex_pool h = \<lparr>bufs = h, pool = (\<lambda>c. if c \<in> caps then Some None else None), total_mem = 0, next_addr = 1\<rparr>"

definition ex_conn :: "reactor_buf \<Rightarrow> buf_pool \<Rightarrow> 'u \<Rightarrow> (unit, 'u) tcp_conn" where
  "ex_conn rb p u = \<lparr>ibuf = None, obuf = rb, bpool = p, connfd = 5,
     conn_loop = add_io_event (\<lambda>_. True) 5 Conn_Rd EPOLLIN (Some 0) new_event_loop,
     conn_tab = \<lparr>conns = replicate 10 (Some 0), cur_conns = 1, max_conns = 10\<rparr>, app = u\<rparr>"

lemma ex_pool_ok:
  assumes "\<And>a. h a \<noteq> None \<longleftrightarrow> a \<in> held" and "\<And>a b. h a = Some b \<Longrightarrow> buf_ok b \<and> capacity b \<in> caps \<and> a = 0"
  shows "pool_ok held (ex_pool h)"
  unfolding pool_ok_def
proof (rule exI [of _ "\<lambda>_. []"], rule pool_freeI)
  fix a
  assume "a \<in> held"
  with assms(1) obtain b where "h a = Some b" by blast
  then show "\<exists>b. bufs (ex_pool h) a = Some b \<and> buf_ok b \<and> capacity b \<in> caps" using assms(2) by (simp add: ex_pool_def)
next
  fix a
  assume "bufs (ex_pool h) a \<noteq> None"
  then show "a < next_addr (ex_pool h)" using assms(2) by (auto simp: ex_pool_def)
qed (auto simp: ex_pool_def)

lemma ex_conn_ok:
  "conn_ok {} (ex_conn None (ex_pool Map.empty) u)" "front_in (ex_conn None (ex_pool Map.empty) u)"
  "armed (\<lambda>_. True) (ex_conn None (ex_pool Map.empty) u)" "in_bytes (ex_conn None (ex_pool Map.empty) u) = []"
  "out_bytes (ex_conn None (ex_pool Map.empty) u) = []"
proof -
  have "pool_ok {} (ex_pool Map.empty)" by (rule ex_pool_ok) auto
  then show "conn_ok {} (ex_conn None (ex_pool Map.empty) u)" "front_in (ex_conn None (ex_pool Map.empty) u)"
    "in_bytes (ex_conn None (ex_pool Map.empty) u) = []" "out_bytes (ex_conn None (ex_pool Map.empty) u) = []"
    by (simp_all add: conn_ok_def front_in_def in_bytes_def out_bytes_def ex_conn_def others_in_def others_out_def rb_ok_def
        at_front_def rb_content_def)
  then show "armed (\<lambda>_. True) (ex_conn None (ex_pool Map.empty) u)"
    using loop_ok_add [where pollable = "\<lambda>_. True" and fd = 5 and msk = EPOLLIN, OF loop_ok_new]
    by (simp add: armed_def ev_armed_def ex_conn_def add_io_event_def new_event_loop_def set_io_callback_def lars_defs Let_def)
qed

text \<open>The router of the echo server: message 3 is sent back.\<close>

definition echo_router :: "((unit, unit) handler, unit) msg_router" where
  "echo_router = snd (regist_msg_router 3 (\<lambda>_ i b u. ([(i, b)], u)) None new_msg_router)"

lemma handled_echo: "handled echo_router i b u = (if i = 3 then ([(i, b)], u) else ([], u))"
  by (simp add: handled_def echo_router_def regist_msg_router_def new_msg_router_def)

theorem requests_answered_in_order_witness:
  "let f = frame (3, [1, 2]); bss = [take 5 f, drop 5 f @ [7]]; c = ex_conn None (ex_pool Map.empty) () in
   reads (conn_call (\<lambda>_. True) 0 echo_router) (clean_conn (\<lambda>_. True) None) bss c = Some (Inl Exited) \<or>
   (\<exists>c'. reads (conn_call (\<lambda>_. True) 0 echo_router) (clean_conn (\<lambda>_. True) None) bss c = Some (Inr c') \<and>
      in_bytes c' = [7] \<and> out_bytes c' = frame (3, [1, 2]))"
  using requests_answered_in_order [OF ex_conn_ok(1-4), of "[take 5 (frame (3, [1, 2])), drop 5 (frame (3, [1, 2])) @ [7]]"
      "[(3, [1, 2])]" "[7]" "()" echo_router 0 None]
  by (simp add: decode_short ex_conn_ok handler_reply_def handled_echo read_limit_def m8M_def lars_defs Let_def del: reads.simps) blast

theorem empty_message_aborts_witness:
  "conn_do_read (\<lambda>_. True) None (conn_call (\<lambda>_. True) 0 echo_router) (Some 8) (Io_Bytes (frame (3, [])))
     (ex_conn None (ex_pool Map.empty) ()) \<in> {Some (Inl Exited), Some (Inl Assert_Failed)}"
  by (rule empty_message_aborts [OF ex_conn_ok(1-4)]) (simp add: handler_reply_def handled_echo ex_conn_ok m8M_def)

theorem refused_length_closes_witness:
  "let bs = head_bytes \<lparr>head_msgid = 3, head_msglen = - 1\<rparr>; c = ex_conn None (ex_pool Map.empty) () in
   conn_do_read (\<lambda>_. True) None (conn_call (\<lambda>_. True) 0 echo_router) (Some 8) (Io_Bytes bs) c = Some (Inl Exited) \<or>
   (\<exists>c'. conn_do_read (\<lambda>_. True) None (conn_call (\<lambda>_. True) 0 echo_router) (Some 8) (Io_Bytes bs) c = Some (Inr c') \<and>
      connfd c' = - 1 \<and> get_conn_num (conn_tab c') = 0)"
proof -
  let ?bs = "head_bytes \<lparr>head_msgid = 3, head_msglen = - 1\<rparr>"
  have "decode ?bs = ([], ?bs, True)"
    using read_head_bytes [of "\<lparr>head_msgid = 3, head_msglen = - 1\<rparr>" "[]"]
    by (subst decode.simps) (simp add: body_len_def)
  then show ?thesis
    using refused_length_closes [OF ex_conn_ok(1-3), of ?bs "()" "[]" ?bs echo_router None "\<lambda>u. u" 0]
    by (auto simp: ex_conn_ok m8M_def) (auto simp: ex_conn_def get_conn_num_def)
qed

theorem sent_messages_reach_the_wire_witness:
  "let ops = [Send_Msg 1 [1, 2], Writable [3], Send_Msg 2 [], Writable [9, 9]]; c = ex_conn None (ex_pool Map.empty) () in
   conn_out_run (\<lambda>_. True) None 0 ops ([], c) = Inl Exited \<or>
   (\<exists>wire c'. conn_out_run (\<lambda>_. True) None 0 ops ([], c) = Inr (wire, c') \<and>
      wire @ out_bytes c' = frame (1, [1, 2]) @ frame (2, []))"
  using sent_messages_reach_the_wire [OF ex_conn_ok(1,3,5), of "[Send_Msg 1 [1, 2], Writable [3], Send_Msg 2 [], Writable [9, 9]]" None 0 "()"]
  by (auto simp: lars_defs m8M_def)

theorem failed_send_corrupts_stream_witness:
  "\<exists>c :: (unit, unit) tcp_conn. \<exists>c'. out_bytes c = replicate 8 0 \<and>
    conn_send_message (\<lambda>_. True) 0 (replicate (nat m8M + 1) 0) 7 c = Inr (- 1, c') \<and>
    conn_send_message (\<lambda>_. True) 0 [] 7 c' = Inl Assert_Failed"
proof -
  let ?b = "(new_io_buf m4K)\<lparr>buf_length := 8\<rparr>"
  let ?c = "ex_conn (Some 0) (ex_pool [0 \<mapsto> ?b]) ()"
  have b: "buf_ok ?b" "capacity ?b \<in> caps" by (simp_all add: buf_ok_def new_io_buf_def caps_def m4K_def)
  have "pool_ok {0} (ex_pool [0 \<mapsto> ?b])" by (rule ex_pool_ok) (use b in \<open>auto split: if_splits\<close>)
  then have ok: "conn_ok {} ?c"
    by (simp add: conn_ok_def ex_conn_def others_in_def others_out_def rb_ok_def at_front_def ex_pool_def new_io_buf_def)
  have out: "out_bytes ?c = replicate 8 0"
    by (simp add: out_bytes_def ex_conn_def rb_content_def ex_pool_def content_def new_io_buf_def m4K_def)
  have room: "buf_length ?b + 8 \<le> capacity ?b" by (simp add: new_io_buf_def m4K_def)
  have big: "m8M < int (length (replicate (nat m8M + 1) (0 :: byte)))" by (simp add: m8M_def)
  show ?thesis
    using failed_send_corrupts_stream [OF ok, of 0 ?b "replicate (nat m8M + 1) 0" "\<lambda>_. True" 0 7] out room big
    by (auto simp: ex_conn_def ex_pool_def new_io_buf_def)
qed

end
