(* ===== verification/Thread_Pool.thy ===== *)
theory Thread_Pool
  imports Thread_Queue Tcp_Conn_Props
begin

text \<open>
  The worker threads of a server (\<open>lars_reactor/src/thread_pool.cpp\<close>, \<open>include/thread_pool.h\<close>,
  \<open>task_msg.h\<close>): one queue and one event loop for each thread. The main thread hands new connections
  to the queues in turn; tasks are sent to all of them; a woken worker opens the connections and
  passes the tasks to its loop.
\<close>

subsection \<open>The pool\<close>

text \<open>\<open>task_msg\<close>: the type and the members of the union that go with it.\<close>

datatype 'task task_msg = NEW_CONN int32 | NEW_TASK 'task "addr option"

record 'task thread_pool =
  tp_queues :: "'task task_msg thread_queue list"
  tp_thread_cnt :: int
  tp_index :: int

text \<open>The constructor; \<open>evfd i\<close> is what \<open>eventfd\<close> returns for the queue of thread \<open>i\<close>.\<close>

fun new_queues :: "(nat \<Rightarrow> int32 option) \<Rightarrow> nat list \<Rightarrow> 'a thread_queue list res" where
  "new_queues evfd [] = Inr []"
| "new_queues evfd (i # is) =
     res_bind (new_thread_queue (evfd i)) (\<lambda>q. res_bind (new_queues evfd is) (\<lambda>qs. Inr (q # qs)))"

definition new_thread_pool :: "(nat \<Rightarrow> int32 option) \<Rightarrow> int \<Rightarrow> 'task thread_pool res" where
  "new_thread_pool evfd thread_cnt =
     (if thread_cnt \<le> 0 then Inl Exited
      else res_bind (new_queues evfd [0..<nat thread_cnt]) (\<lambda>qs.
        Inr \<lparr>tp_queues = qs, tp_thread_cnt = thread_cnt, tp_index = 0\<rparr>))"

text \<open>\<open>get_thread\<close> returns a queue; here its index.\<close>

definition get_thread :: "'task thread_pool \<Rightarrow> (nat \<times> 'task thread_pool) res" where
  "get_thread tp =
     (let index = (if tp_index tp = tp_thread_cnt tp then 0 else tp_index tp)
      in if 0 \<le> index \<and> index < int (length (tp_queues tp)) then Inr (nat index, tp\<lparr>tp_index := index + 1\<rparr>)
         else Inl Out_Of_Bounds)"

definition send_to_queue :: "nat \<Rightarrow> 'task task_msg \<Rightarrow> 'task thread_pool \<Rightarrow> 'task thread_pool res" where
  "send_to_queue i task tp =
     (if i < length (tp_queues tp) then Inr (tp\<lparr>tp_queues := (tp_queues tp)[i := tq_send task (tp_queues tp ! i)]\<rparr>)
      else Inl Out_Of_Bounds)"

definition send_task :: "'task \<Rightarrow> addr option \<Rightarrow> 'task thread_pool \<Rightarrow> 'task thread_pool res" where
  "send_task func args tp = res_fold (\<lambda>i. send_to_queue i (NEW_TASK func args)) [0..<nat (tp_thread_cnt tp)] tp"

definition pool_wf :: "'task thread_pool \<Rightarrow> bool" where
  "pool_wf tp \<longleftrightarrow> tp_thread_cnt tp = int (length (tp_queues tp)) \<and> tp_queues tp \<noteq> [] \<and>
     0 \<le> tp_index tp \<and> tp_index tp \<le> tp_thread_cnt tp \<and> (\<forall>q \<in> set (tp_queues tp). tq_ok q)"

text \<open>The queue the next connection goes to.\<close>

definition turn :: "'task thread_pool \<Rightarrow> nat" where
  "turn tp = nat (tp_index tp) mod length (tp_queues tp)"

lemma new_queues_ok:
  "new_queues evfd is = Inr qs \<Longrightarrow> length qs = length is \<and> (\<forall>q \<in> set qs. tq_ok q \<and> tq_queue q = [])"
  by (induction "is" arbitrary: qs)
    (auto simp: res_bind_eq_Inr tq_ok_def new_thread_queue_def split: option.splits)

lemma new_thread_pool_wf:
  assumes "new_thread_pool evfd n = Inr tp"
  shows "pool_wf tp \<and> turn tp = 0 \<and> length (tp_queues tp) = nat n \<and> (\<forall>q \<in> set (tp_queues tp). tq_queue q = [])"
proof -
  obtain qs where qs: "new_queues evfd [0..<nat n] = Inr qs" "0 < n"
      "tp = \<lparr>tp_queues = qs, tp_thread_cnt = n, tp_index = 0\<rparr>"
    using assms by (auto simp: new_thread_pool_def res_bind_eq_Inr split: if_splits)
  then have "length qs = nat n" "\<forall>q \<in> set qs. tq_ok q \<and> tq_queue q = []"
    using new_queues_ok [OF qs(1)] by auto
  then show ?thesis using qs(2,3) by (auto simp: pool_wf_def turn_def)
qed

lemma get_thread_turn:
  assumes "pool_wf tp"
  shows "\<exists>tp'. get_thread tp = Inr (turn tp, tp') \<and> pool_wf tp' \<and> tp_queues tp' = tp_queues tp \<and>
    turn tp' = Suc (turn tp) mod length (tp_queues tp) \<and> turn tp < length (tp_queues tp)"
proof -
  let ?i = "if tp_index tp = tp_thread_cnt tp then 0 else tp_index tp" and ?n = "length (tp_queues tp)"
  have wf: "tp_thread_cnt tp = int ?n" "0 < ?n" "0 \<le> tp_index tp" "tp_index tp \<le> int ?n"
    using assms by (auto simp: pool_wf_def)
  have i: "0 \<le> ?i" "?i < int ?n" using wf by auto
  have t: "turn tp = nat ?i" using wf by (auto simp: turn_def nat_less_iff)
  have "get_thread tp = Inr (nat ?i, tp\<lparr>tp_index := ?i + 1\<rparr>)" using i by (simp add: get_thread_def Let_def)
  moreover have "pool_wf (tp\<lparr>tp_index := ?i + 1\<rparr>)" using assms i wf(1) by (simp add: pool_wf_def)
  moreover have "turn (tp\<lparr>tp_index := ?i + 1\<rparr>) = Suc (turn tp) mod ?n"
    using t i by (simp add: turn_def nat_add_distrib)
  ultimately show ?thesis using t i by auto
qed

lemma send_to_queue_ok:
  assumes "pool_wf tp" and "i < length (tp_queues tp)"
  shows "\<exists>tp'. send_to_queue i task tp = Inr tp' \<and> pool_wf tp' \<and> turn tp' = turn tp \<and>
    length (tp_queues tp') = length (tp_queues tp) \<and> tp_thread_cnt tp' = tp_thread_cnt tp \<and>
    (\<forall>j < length (tp_queues tp). tq_queue (tp_queues tp' ! j) = tq_queue (tp_queues tp ! j) @ (if j = i then [task] else []))"
  using assms tq_ok_send [of "tp_queues tp ! i" task]
  by (auto simp: send_to_queue_def pool_wf_def turn_def nth_list_update set_update_subset_insert
      dest!: subsetD [OF set_update_subset_insert])

lemma send_task_ok:
  assumes "pool_wf tp"
  shows "\<exists>tp'. send_task func args tp = Inr tp' \<and> pool_wf tp' \<and> turn tp' = turn tp \<and>
    length (tp_queues tp') = length (tp_queues tp) \<and>
    (\<forall>j < length (tp_queues tp). tq_queue (tp_queues tp' ! j) = tq_queue (tp_queues tp ! j) @ [NEW_TASK func args])"
proof -
  let ?f = "\<lambda>i. send_to_queue i (NEW_TASK func args)" and ?n = "length (tp_queues tp)"
  have sends: "k \<le> ?n \<Longrightarrow> \<exists>tp'. res_fold ?f [0..<k] tp = Inr tp' \<and> pool_wf tp' \<and> turn tp' = turn tp \<and> length (tp_queues tp') = ?n \<and>
      (\<forall>j < ?n. tq_queue (tp_queues tp' ! j) = tq_queue (tp_queues tp ! j) @ (if j < k then [NEW_TASK func args] else []))" for k
  proof (induction k)
    case (Suc k)
    then obtain t where t: "res_fold ?f [0..<k] tp = Inr t" "pool_wf t" "turn t = turn tp" "length (tp_queues t) = ?n"
        "\<forall>j < ?n. tq_queue (tp_queues t ! j) = tq_queue (tp_queues tp ! j) @ (if j < k then [NEW_TASK func args] else [])"
      by auto
    then obtain t' where "send_to_queue k (NEW_TASK func args) t = Inr t'" "pool_wf t'" "turn t' = turn t"
        "length (tp_queues t') = ?n"
        "\<forall>j < ?n. tq_queue (tp_queues t' ! j) = tq_queue (tp_queues t ! j) @ (if j = k then [NEW_TASK func args] else [])"
      using send_to_queue_ok [OF t(2), of k "NEW_TASK func args"] Suc.prems by auto
    then show ?case using t by (intro exI [of _ t']) (auto simp: res_fold_append less_Suc_eq)
  qed (use assms in simp)
  moreover have "nat (tp_thread_cnt tp) = ?n" using assms by (simp add: pool_wf_def)
  ultimately show ?thesis using sends [of ?n] by (auto simp: send_task_def)
qed

subsection \<open>The workers\<close>

text \<open>
  The objects of a server process: the loops of the main thread and of the workers, the pool, and what
  all threads share behind mutexes: the connection table, the buffer pool, the connection objects and
  the application's state. \<open>new_addr\<close> is the address the next \<open>new\<close> returns. An object's loop pointer is
  \<open>None\<close> for the loop of the main thread and \<open>Some i\<close> for the loop of worker \<open>i\<close>.
\<close>

record conn_obj =
  obj_fd :: int32
  obj_loop :: "nat option"
  obj_ibuf :: reactor_buf
  obj_obuf :: reactor_buf

record ('task, 'u) reactor =
  main_loop :: "'task io_loop"
  loops :: "'task io_loop list"
  workers :: "'task thread_pool option"
  tab :: conn_table
  rbufs :: buf_pool
  rapp :: 'u
  objs :: "addr \<rightharpoonup> conn_obj"
  new_addr :: addr

text \<open>\<open>new tcp_conn(fd, loop)\<close>: the constructor on the shared objects and the given loop, which \<open>l\<close> points to.\<close>

definition open_conn :: "(int32 \<Rightarrow> bool) \<Rightarrow> ('task, 'u) conn_hook \<Rightarrow> int32 \<Rightarrow> nat option \<Rightarrow> 'task io_loop \<Rightarrow>
    ('task, 'u) reactor \<Rightarrow> ('task io_loop \<times> ('task, 'u) reactor) res" where
  "open_conn pollable conn_start_cb fd l loop r =
     res_bind (new_tcp_conn pollable conn_start_cb (new_addr r) fd
         \<lparr>ibuf = None, obuf = None, bpool = rbufs r, connfd = fd, conn_loop = loop, conn_tab = tab r, app = rapp r\<rparr>) (\<lambda>c.
       Inr (conn_loop c, r\<lparr>tab := conn_tab c, rbufs := bpool c, rapp := app c, new_addr := Suc (new_addr r),
         objs := (objs r)(new_addr r \<mapsto> \<lparr>obj_fd = connfd c, obj_loop = l, obj_ibuf = ibuf c, obj_obuf = obuf c\<rparr>)\<rparr>))"

text \<open>One task, on the loop of the worker that took it.\<close>

fun deal_task :: "(int32 \<Rightarrow> bool) \<Rightarrow> ('task, 'u) conn_hook \<Rightarrow> nat \<Rightarrow> 'task task_msg \<Rightarrow>
    'task io_loop \<times> ('task, 'u) reactor \<Rightarrow> ('task io_loop \<times> ('task, 'u) reactor) res" where
  "deal_task pollable conn_start_cb i (NEW_CONN fd) (loop, r) = open_conn pollable conn_start_cb fd (Some i) loop r"
| "deal_task pollable conn_start_cb i (NEW_TASK func args) (loop, r) = Inr (add_task func args loop, r)"

definition deal_task_message :: "(int32 \<Rightarrow> bool) \<Rightarrow> ('task, 'u) conn_hook \<Rightarrow> nat \<Rightarrow>
    ('task, 'u) reactor \<Rightarrow> ('task, 'u) reactor res" where
  "deal_task_message pollable conn_start_cb i r =
     (case workers r of
        None \<Rightarrow> Inl Null_Deref
      | Some tp \<Rightarrow>
          if i < length (tp_queues tp) \<and> i < length (loops r) then
            (let (tasks, q) = tq_recv [] (tp_queues tp ! i);
                 r = r\<lparr>workers := Some (tp\<lparr>tp_queues := (tp_queues tp)[i := q]\<rparr>)\<rparr>
             in res_bind (res_fold (deal_task pollable conn_start_cb i) tasks (loops r ! i, r)) (\<lambda>(loop, r).
                  Inr (r\<lparr>loops := (loops r)[i := loop]\<rparr>)))
          else Inl Out_Of_Bounds)"

text \<open>The start of \<open>thread_main\<close>: the worker's loop watches the eventfd of its queue.\<close>

definition thread_main :: "(int32 \<Rightarrow> bool) \<Rightarrow> nat \<Rightarrow> ('task, 'u) reactor \<Rightarrow> ('task, 'u) reactor res" where
  "thread_main pollable i r =
     (case workers r of
        None \<Rightarrow> Inl Null_Deref
      | Some tp \<Rightarrow>
          if i < length (tp_queues tp) \<and> i < length (loops r) then
            (let q = tq_set_loop (Some i) (tp_queues tp ! i)
             in Inr (r\<lparr>workers := Some (tp\<lparr>tp_queues := (tp_queues tp)[i := q]\<rparr>),
                      loops := (loops r)[i := tq_set_callback pollable Deal_Task (Some i) q new_event_loop]\<rparr>))
          else Inl Out_Of_Bounds)"

lemma open_conn_fresh:
  assumes "pollable fd" and "loop_ok loop" and "io_evs loop fd = None"
    and "0 \<le> sint fd" and "sint fd < int (length (conns (tab r)))"
  shows "\<exists>loop' r'. open_conn pollable None fd l loop r = Inr (loop', r') \<and>
    ev_armed Conn_Rd Conn_Wt pollable fd loop' [] \<and> ready_tasks loop' = ready_tasks loop \<and>
    conns (tab r') = (conns (tab r))[nat (sint fd) := Some (new_addr r)] \<and> get_conn_num (tab r') = get_conn_num (tab r) + 1 \<and>
    max_conns (tab r') = max_conns (tab r) \<and>
    objs r' (new_addr r) = Some \<lparr>obj_fd = fd, obj_loop = l, obj_ibuf = None, obj_obuf = None\<rparr> \<and>
    workers r' = workers r \<and> loops r' = loops r"
proof -
  let ?el = "add_io_event pollable fd Conn_Rd EPOLLIN (Some (new_addr r)) loop"
  have "ev_armed Conn_Rd Conn_Wt pollable fd ?el []"
    using assms(1,3) loop_ok_add [where pollable = pollable, OF assms(2,1), of EPOLLIN]
    by (simp add: ev_armed_def io_evs_add registered_def set_io_callback_def lars_defs)
  moreover have "ready_tasks ?el = ready_tasks loop"
    by (simp add: add_io_event_def Let_def split: option.splits)
  ultimately show ?thesis
    using assms(4,5) by (simp add: open_conn_def new_tcp_conn_def increase_conn_def set_conn_def get_conn_num_def)
qed

text \<open>
  A task sent to the pool runs on every worker: \<open>send_task\<close> puts it behind whatever each queue
  holds, every queue's eventfd becomes readable, and when a worker takes its queue, with only tasks
  in it, its loop has exactly those tasks to run, in order, with the new one last; the other workers'
  queues are untouched.
\<close>

theorem task_reaches_every_worker:
  assumes "workers r = Some tp" and "pool_wf tp" and "length (loops r) = length (tp_queues tp)"
    and "i < length (tp_queues tp)" and "tq_queue (tp_queues tp ! i) = map (\<lambda>(f, a). NEW_TASK f a) ts"
  shows "\<exists>tp' r'. send_task func args tp = Inr tp' \<and>
    (\<forall>j < length (tp_queues tp). eventfd_readable (tq_count (tp_queues tp' ! j))) \<and>
    deal_task_message pollable hook i (r\<lparr>workers := Some tp'\<rparr>) = Inr r' \<and>
    ready_tasks (loops r' ! i) = ready_tasks (loops r ! i) @ ts @ [(func, args)] \<and>
    (\<exists>tp''. workers r' = Some tp'' \<and> (\<forall>j < length (tp_queues tp). j \<noteq> i \<longrightarrow> tp_queues tp'' ! j = tp_queues tp' ! j) \<and>
       tq_queue (tp_queues tp'' ! i) = [])"
proof -
  obtain tp' where tp': "send_task func args tp = Inr tp'" "pool_wf tp'" "length (tp_queues tp') = length (tp_queues tp)"
      "\<forall>j < length (tp_queues tp). tq_queue (tp_queues tp' ! j) = tq_queue (tp_queues tp ! j) @ [NEW_TASK func args]"
    using send_task_ok [OF assms(2), of func args] by blast
  have woken: "eventfd_readable (tq_count (tp_queues tp' ! j))" if "j < length (tp_queues tp)" for j
    using tp' that tq.wake [of "tp_queues tp' ! j"] by (auto simp: pool_wf_def)
  obtain tasks q where q: "tq_recv [] (tp_queues tp' ! i) = (tasks, q)" by (cases "tq_recv [] (tp_queues tp' ! i)")
  have tasks: "tasks = map (\<lambda>(f, a). NEW_TASK f a) (ts @ [(func, args)])" "tq_queue q = []"
    using q tp'(4) assms(4,5) fst_tq_recv [of "[]" "tp_queues tp' ! i"] tq_queue_recv [of "[]" "tp_queues tp' ! i"] by auto
  have fold: "res_fold (deal_task pollable hook i) (map (\<lambda>(f, a). NEW_TASK f a) xs) (l, s) =
      Inr (l\<lparr>ready_tasks := ready_tasks l @ xs\<rparr>, s)" for xs l s
    by (induction xs arbitrary: l) (auto simp: add_task_def)
  show ?thesis
    using tp'(1,3) woken q tasks assms(1,3,4)
    by (auto simp: deal_task_message_def fold res_fold_append add_task_def)
qed

subsection \<open>A concrete pool of two workers\<close>

definition ex_tp :: "nat thread_pool" where
  "ex_tp = \<lparr>tp_queues = replicate 2 \<lparr>tq_evfd = 10, tq_count = 0, tq_loop = None, tq_queue = []\<rparr>, tp_thread_cnt = 2, tp_index = 0\<rparr>"

definition ex_reactor :: "(nat, unit) reactor" where
  "ex_reactor = \<lparr>main_loop = new_event_loop, loops = replicate 2 new_event_loop, workers = Some ex_tp,
     tab = \<lparr>conns = replicate 10 None, cur_conns = 0, max_conns = 1\<rparr>, rbufs = ex_pool Map.empty, rapp = (),
     objs = Map.empty, new_addr = 0\<rparr>"

lemma ex_reactor_ok [simp]:
  "workers ex_reactor = Some ex_tp" "pool_wf ex_tp" "turn ex_tp = 0" "length (tp_queues ex_tp) = 2" "length (loops ex_reactor) = 2"
  "i < 2 \<Longrightarrow> tq_queue (tp_queues ex_tp ! i) = []" "i < 2 \<Longrightarrow> loops ex_reactor ! i = new_event_loop"
  "cur_conns (tab ex_reactor) = 0" "max_conns (tab ex_reactor) = 1" "conns (tab ex_reactor) = replicate 10 None"
  "new_addr ex_reactor = 0"
  by (simp_all add: ex_reactor_def ex_tp_def pool_wf_def turn_def tq_ok_def)

theorem task_reaches_every_worker_witness:
  "\<exists>tp' r'. send_task 7 None ex_tp = Inr tp' \<and>
    deal_task_message (\<lambda>_. True) None 1 (ex_reactor\<lparr>workers := Some tp'\<rparr>) = Inr r' \<and> ready_tasks (loops r' ! 1) = [(7, None)]"
  using task_reaches_every_worker [of ex_reactor ex_tp 1 "[]" 7 None "\<lambda>_. True" None]
  by (auto simp: new_event_loop_def)

end
