(* ===== verification/Config_File.thy ===== *)
theory Config_File
  imports Lars_Prelude Complex_Main
begin

text \<open>
  \<open>config_file\<close> (\<open>lars_reactor/src/config_file.cpp\<close>): the INI-style configuration every Lars process
  loads once at start. The file's content is the argument of \<open>load\<close>; what a process reads back are
  the \<open>Get\<close> functions. The pointer \<open>m\<close> into the current section is the section's name, absent before
  the first section line.
\<close>

subsection \<open>Trimming\<close>

text \<open>\<open>isspace\<close> in the C locale, the only one a Lars process runs in.\<close>

definition is_space :: "char \<Rightarrow> bool" where
  "is_space c \<longleftrightarrow> c = CHR '' '' \<or> (9 \<le> (of_char c :: nat) \<and> (of_char c :: nat) \<le> 13)"

definition trim_left :: "string \<Rightarrow> string" where
  "trim_left s = drop (length (takeWhile is_space s)) s"

definition trim_right :: "string \<Rightarrow> string" where
  "trim_right s = take (length s - length (takeWhile is_space (rev s))) s"

definition trim :: "string \<Rightarrow> string" where
  "trim s = trim_left (trim_right s)"

definition is_section :: "string \<Rightarrow> string option" where
  "is_section line =
     (let section = trim line in
      if section = [] \<or> length section \<le> 2 then None
      else if section ! 0 \<noteq> CHR ''['' \<or> section ! (length section - 1) \<noteq> CHR '']'' then None
      else Some (trim (take (length section - 2) (drop 1 section))))"

subsection \<open>Loading\<close>

text \<open>
  \<open>getline\<close> until the end of the file: a newline at the very end leaves one more, empty line.
\<close>

fun getlines :: "string \<Rightarrow> string list" where
  "getlines [] = [[]]"
| "getlines (c # cs) =
     (if c = CHR 0x0A then [] # getlines cs
      else (case getlines cs of [] \<Rightarrow> [[c]] | l # ls \<Rightarrow> (c # l) # ls))"

type_synonym sections = "string \<rightharpoonup> (string \<rightharpoonup> string)"

definition line_entry :: "string \<Rightarrow> (string \<times> string) option" where
  "line_entry line =
     (let pos = length (takeWhile (\<lambda>c. c \<noteq> CHR ''='') line) in
      if pos = length line then None
      else
        (let key = trim (take pos line); value = trim (drop (pos + 1) line) in
         if key = [] then None
         else if key ! 0 = CHR ''#'' \<or> key ! 0 = CHR '';'' then None
         else Some (key, value)))"

definition load_line :: "string \<Rightarrow> sections \<times> string option \<Rightarrow> (sections \<times> string option) res" where
  "load_line line s =
     (case s of (sections, m) \<Rightarrow>
        (case is_section line of
           Some section \<Rightarrow>
             Inr (case sections section of None \<Rightarrow> sections(section \<mapsto> Map.empty) | Some _ \<Rightarrow> sections,
                  Some section)
         | None \<Rightarrow>
             (case line_entry line of
                None \<Rightarrow> Inr (sections, m)
              | Some (key, value) \<Rightarrow>
                  (case m of
                     None \<Rightarrow> Inl Null_Deref
                   | Some section \<Rightarrow>
                       Inr (sections(section \<mapsto> (case sections section of None \<Rightarrow> [key \<mapsto> value]
                              | Some entries \<Rightarrow> entries(key \<mapsto> value))), m)))))"

text \<open>\<open>Load\<close> and \<open>setPath\<close>; a file that cannot be opened gives the empty configuration and \<open>false\<close>.\<close>

definition load :: "string option \<Rightarrow> (bool \<times> sections) res" where
  "load file = (case file of
     None \<Rightarrow> Inr (False, Map.empty)
   | Some content \<Rightarrow>
       res_bind (res_fold load_line (getlines content) (Map.empty, None)) (\<lambda>(sections, _). Inr (True, sections)))"

definition setPath :: "string option \<Rightarrow> sections option \<Rightarrow> (bool \<times> sections option) res" where
  "setPath file config =
     (case config of
        Some _ \<Rightarrow> Inl Assert_Failed
      | None \<Rightarrow> res_bind (load file) (\<lambda>(ok, sections). Inr (ok, Some sections)))"

definition config_instance :: "sections option \<Rightarrow> sections res" where
  "config_instance config = (case config of None \<Rightarrow> Inl Assert_Failed | Some c \<Rightarrow> Inr c)"

subsection \<open>Reading values\<close>

definition find_value :: "sections \<Rightarrow> string \<Rightarrow> string \<Rightarrow> string option" where
  "find_value c section key = (case c section of None \<Rightarrow> None | Some entries \<Rightarrow> entries key)"

definition GetString :: "sections \<Rightarrow> string \<Rightarrow> string \<Rightarrow> string \<Rightarrow> string" where
  "GetString c section key default_value =
     (case find_value c section key of Some v \<Rightarrow> v | None \<Rightarrow> default_value)"

text \<open>
  \<open>parseNumber\<close>: \<open>iss >> v\<close> skips white space, takes a sign and digits, and stores the nearest
  \<open>long long\<close> when the number does not fit and 0 when there is none; the result is cut to 32 bits.
\<close>

definition is_digit :: "char \<Rightarrow> bool" where
  "is_digit c \<longleftrightarrow> 48 \<le> (of_char c :: nat) \<and> (of_char c :: nat) \<le> 57"

definition digits_value :: "string \<Rightarrow> int" where
  "digits_value ds = foldl (\<lambda>v c. 10 * v + (int (of_char c) - 48)) 0 ds"

definition read_int :: "string \<Rightarrow> int" where
  "read_int s =
     (let s = dropWhile is_space s;
          neg = (case s of c # _ \<Rightarrow> c = CHR ''-'' | [] \<Rightarrow> False);
          s = (case s of c # cs \<Rightarrow> if c = CHR ''-'' \<or> c = CHR ''+'' then cs else s | [] \<Rightarrow> s);
          v = digits_value (takeWhile is_digit s)
      in if neg then - v else v)"

definition parseNumber :: "string \<Rightarrow> uint32" where
  "parseNumber s = word_of_int (max (- (2 ^ 63)) (min (2 ^ 63 - 1) (read_int s)))"

definition GetNumber :: "sections \<Rightarrow> string \<Rightarrow> string \<Rightarrow> uint32 \<Rightarrow> uint32" where
  "GetNumber c section key default_value =
     (case find_value c section key of Some v \<Rightarrow> parseNumber v | None \<Rightarrow> default_value)"

text \<open>
  \<open>GetFloat\<close> writes the default as text and reads a text as a float; the two conversions of the
  stream library are \<open>show_float\<close> and \<open>read_float\<close>.
\<close>

definition GetFloat :: "(rat \<Rightarrow> string) \<Rightarrow> (string \<Rightarrow> rat option) \<Rightarrow> sections \<Rightarrow> string \<Rightarrow> string \<Rightarrow> rat \<Rightarrow> rat" where
  "GetFloat show_float read_float c section key default_value =
     (case read_float (GetString c section key (show_float default_value)) of Some x \<Rightarrow> x | None \<Rightarrow> 0)"

definition to_lower :: "char \<Rightarrow> char" where
  "to_lower c = (if 65 \<le> (of_char c :: nat) \<and> (of_char c :: nat) \<le> 90 then char_of ((of_char c :: nat) + 32) else c)"

definition GetBool :: "sections \<Rightarrow> string \<Rightarrow> string \<Rightarrow> bool \<Rightarrow> bool" where
  "GetBool c section key default_value =
     (case find_value c section key of
        Some v \<Rightarrow> if map to_lower (takeWhile (\<lambda>c. c \<noteq> CHR 0x00) v) = ''true'' then True else default_value
      | None \<Rightarrow> default_value)"

definition is_sep :: "char \<Rightarrow> bool" where
  "is_sep c \<longleftrightarrow> c = CHR '','' \<or> c = CHR '' '' \<or> c = CHR 0x09"

function string_list :: "string \<Rightarrow> string list" where
  "string_list s =
     (let index = length (takeWhile (\<lambda>c. \<not> is_sep c) s) in
      if index = length s then [s]
      else
        (let rest = dropWhile is_sep (drop index s) in
         take index s # (if rest = [] then [] else string_list rest)))"
  by auto
termination
proof (relation "measure length", goal_cases)
  case 1
  then show ?case by simp
next
  case (2 s index rest)
  then have lt: "index < length s"
    using length_takeWhile_le [of "\<lambda>c. \<not> is_sep c" s] by linarith
  then have "is_sep (s ! index)" using nth_length_takeWhile [of "\<lambda>c. \<not> is_sep c" s] 2(1) by simp
  then have "rest = dropWhile is_sep (drop (Suc index) s)"
    using lt 2(3) by (simp flip: Cons_nth_drop_Suc)
  then have "length rest \<le> length (drop (Suc index) s)"
    using length_dropWhile_le [of is_sep "drop (Suc index) s"] by simp
  then show ?case using lt by simp
qed

declare string_list.simps [simp del]

definition GetStringList :: "sections \<Rightarrow> string \<Rightarrow> string \<Rightarrow> string list" where
  "GetStringList c section key = string_list (GetString c section key '''')"

subsection \<open>Trimming and lines\<close>

lemma trim_left_dropWhile: "trim_left s = dropWhile is_space s"
  by (simp add: trim_left_def dropWhile_eq_drop)

lemma trim_right_dropWhile: "trim_right s = rev (dropWhile is_space (rev s))"
  by (simp add: trim_right_def dropWhile_eq_drop rev_drop)

lemma trim_id: "s \<noteq> [] \<Longrightarrow> \<not> is_space (hd s) \<Longrightarrow> \<not> is_space (last s) \<Longrightarrow> trim s = s"
proof -
  assume "s \<noteq> []" "\<not> is_space (hd s)" "\<not> is_space (last s)"
  then obtain x y where "hd s = x" "\<not> is_space x" "last s = y" "\<not> is_space y" by blast
  moreover have "dropWhile is_space (rev s) = rev s"
    using \<open>s \<noteq> []\<close> \<open>\<not> is_space (last s)\<close> by (cases s rule: rev_cases) simp_all
  moreover have "dropWhile is_space s = s"
    using \<open>s \<noteq> []\<close> \<open>\<not> is_space (hd s)\<close> by (cases s) simp_all
  ultimately show "trim s = s" by (simp add: trim_def trim_left_dropWhile trim_right_dropWhile)
qed

lemma getlines_line: "CHR 0x0A \<notin> set l \<Longrightarrow> getlines (l @ CHR 0x0A # rest) = l # getlines rest"
  by (induction l) auto

lemma getlines_render:
  "\<forall>l \<in> set ls. CHR 0x0A \<notin> set l \<Longrightarrow> getlines (concat (map (\<lambda>l. l @ [CHR 0x0A]) ls)) = ls @ [[]]"
  by (induction ls) (auto simp: getlines_line)

lemma brackets_not_space [simp]: "\<not> is_space CHR ''[''" "\<not> is_space CHR '']''" "\<not> is_space CHR ''=''"
  by (simp_all add: is_space_def)

text \<open>Names and values a configuration can be written with.\<close>

definition clean_text :: "string \<Rightarrow> bool" where
  "clean_text s \<longleftrightarrow> CHR 0x0A \<notin> set s \<and> (s \<noteq> [] \<longrightarrow> \<not> is_space (hd s) \<and> \<not> is_space (last s))"

definition clean_key :: "string \<Rightarrow> bool" where
  "clean_key k \<longleftrightarrow> clean_text k \<and> k \<noteq> [] \<and> CHR ''='' \<notin> set k \<and>
     hd k \<noteq> CHR ''#'' \<and> hd k \<noteq> CHR '';'' \<and> hd k \<noteq> CHR ''[''"

lemma trim_clean: "clean_text s \<Longrightarrow> trim s = s"
  by (cases "s = []") (auto simp: clean_text_def intro: trim_id, simp add: trim_def trim_left_def trim_right_def)

definition section_line :: "string \<Rightarrow> string" where
  "section_line section = CHR ''['' # section @ '']''"

definition entry_line :: "string \<times> string \<Rightarrow> string" where
  "entry_line e = fst e @ CHR ''='' # snd e"

lemma is_section_section_line:
  assumes "clean_text section" and "section \<noteq> []"
  shows "is_section (section_line section) = Some section"
proof -
  have t: "trim (section_line section) = section_line section"
    by (rule trim_id) (simp_all add: section_line_def)
  have len: "length (section_line section) = length section + 2" "0 < length section"
    using assms(2) by (simp_all add: section_line_def)
  have "section_line section ! (length section + 1) = CHR '']''"
    by (simp add: section_line_def nth_append)
  moreover have "take (length section) (drop 1 (section_line section)) = section"
    by (simp add: section_line_def)
  moreover have "section_line section ! 0 = CHR ''[''" "section_line section \<noteq> []"
    by (simp_all add: section_line_def)
  ultimately show ?thesis
    using len trim_clean [OF assms(1)] assms(2) by (simp add: is_section_def Let_def t)
qed

lemma entry_line_entry:
  assumes "clean_key k" and "clean_text v"
  shows "is_section (entry_line (k, v)) = None" and "line_entry (entry_line (k, v)) = Some (k, v)"
proof -
  have k: "k \<noteq> []" "\<not> is_space (hd k)" "hd k \<noteq> CHR ''[''" "clean_text k" "CHR ''='' \<notin> set k"
    using assms(1) by (auto simp: clean_key_def clean_text_def)
  have t: "trim (entry_line (k, v)) = entry_line (k, v)"
    using k assms(2) by (intro trim_id) (auto simp: entry_line_def clean_text_def)
  have "entry_line (k, v) ! 0 = hd k" using k(1) by (cases k) (simp_all add: entry_line_def)
  then show "is_section (entry_line (k, v)) = None"
    using k(3) by (simp add: is_section_def Let_def t)
  have pos: "takeWhile (\<lambda>c. c \<noteq> CHR ''='') (entry_line (k, v)) = k"
    using k(5) by (simp add: entry_line_def takeWhile_tail) (metis takeWhile_append2 takeWhile_eq_all_conv append_Nil2 takeWhile.simps(1))
  have "hd k = k ! 0" using k(1) by (simp add: hd_conv_nth)
  then show "line_entry (entry_line (k, v)) = Some (k, v)"
    using k assms unfolding line_entry_def pos
    by (simp add: entry_line_def Let_def trim_clean clean_key_def)
qed

subsection \<open>Writing and loading\<close>

text \<open>The lines of a configuration given as sections with their entries, in order.\<close>

definition section_lines :: "string \<times> (string \<times> string) list \<Rightarrow> string list" where
  "section_lines s = section_line (fst s) # map entry_line (snd s)"

definition render :: "(string \<times> (string \<times> string) list) list \<Rightarrow> string" where
  "render secs = concat (map (\<lambda>l. l @ [CHR 0x0A]) (concat (map section_lines secs)))"

definition clean_config :: "(string \<times> (string \<times> string) list) list \<Rightarrow> bool" where
  "clean_config secs \<longleftrightarrow> (\<forall>(section, es) \<in> set secs. clean_text section \<and> section \<noteq> [] \<and>
     (\<forall>(k, v) \<in> set es. clean_key k \<and> clean_text v))"

definition entries_of :: "(string \<times> (string \<times> string) list) list \<Rightarrow> string \<Rightarrow> (string \<times> string) list" where
  "entries_of secs section = concat (map snd (filter (\<lambda>s. fst s = section) secs))"

lemma load_entries:
  assumes "\<forall>(k, v) \<in> set es. clean_key k \<and> clean_text v" and "c sn = Some entries"
  shows "res_fold load_line (map entry_line es) (c, Some sn) =
    Inr (c(sn \<mapsto> entries ++ map_of (rev es)), Some sn)"
  using assms
proof (induction es arbitrary: c entries)
  case Nil
  then show ?case by (simp add: fun_upd_idem)
next
  case (Cons e es)
  obtain k v where e: "e = (k, v)" by (cases e)
  have "clean_key k" "clean_text v" using Cons.prems(1) e by auto
  then have "load_line (entry_line e) (c, Some sn) =
      Inr (c(sn \<mapsto> entries(k \<mapsto> v)), Some sn)"
    using Cons.prems(2) by (simp add: load_line_def e entry_line_entry)
  moreover have "entries(k \<mapsto> v) ++ map_of (rev es) = entries ++ map_of (rev (e # es))"
    by (simp add: e map_add_def fun_eq_iff map_of_append split: option.split)
  moreover have "res_fold load_line (map entry_line es) (c(sn \<mapsto> entries(k \<mapsto> v)), Some sn) =
      Inr ((c(sn \<mapsto> entries(k \<mapsto> v)))(sn \<mapsto> entries(k \<mapsto> v) ++ map_of (rev es)), Some sn)"
  proof (rule Cons.IH)
    show "\<forall>(k, v) \<in> set es. clean_key k \<and> clean_text v" using Cons.prems(1) by simp
    show "(c(sn \<mapsto> entries(k \<mapsto> v))) sn = Some (entries(k \<mapsto> v))" by (rule fun_upd_same)
  qed
  ultimately show ?case by (simp only: list.map res_fold.simps res_bind_simps fun_upd_upd)
qed

lemma load_section:
  assumes "clean_text section" and "section \<noteq> []"
    and "\<forall>(k, v) \<in> set es. clean_key k \<and> clean_text v"
  shows "\<exists>c'. res_fold load_line (section_lines (section, es)) (c, m) = Inr (c', Some section) \<and>
    (\<forall>sec key. find_value c' sec key = (if sec = section
       then case map_of (rev es) key of Some v \<Rightarrow> Some v | None \<Rightarrow> find_value c sec key
       else find_value c sec key))"
proof -
  let ?c = "case c section of None \<Rightarrow> c(section \<mapsto> Map.empty) | Some _ \<Rightarrow> c"
  obtain entries where e: "?c section = Some entries" by (cases "c section") simp_all
  have same: "find_value ?c = find_value c"
    by (cases "c section") (simp_all add: find_value_def fun_eq_iff)
  have entry: "find_value c section key = entries key" for key
    unfolding same [symmetric] unfolding find_value_def e by simp
  let ?c' = "?c(section \<mapsto> entries ++ map_of (rev es))"
  have "load_line (section_line section) (c, m) = Inr (?c, Some section)"
    by (simp add: load_line_def is_section_section_line [OF assms(1,2)])
  then have "res_fold load_line (section_lines (section, es)) (c, m) = Inr (?c', Some section)"
    using load_entries [where c = "?c" and sn = "section" and entries = entries, OF assms(3) e] by (simp only: section_lines_def res_fold.simps fst_conv snd_conv res_bind_simps)
  moreover have "find_value ?c' sec key = (if sec = section
       then case map_of (rev es) key of Some v \<Rightarrow> Some v | None \<Rightarrow> find_value c sec key
       else find_value c sec key)" for sec key
  proof (cases "sec = section")
    case True
    then have "find_value ?c' sec key = (entries ++ map_of (rev es)) key"
      by (simp only: find_value_def fun_upd_same option.case)
    then show ?thesis using True entry by (simp add: map_add_def split: option.split)
  next
    case False
    then have "?c' sec = ?c sec" by (rule fun_upd_other)
    then have "find_value ?c' sec key = find_value ?c sec key"
      unfolding find_value_def by (rule arg_cong)
    then show ?thesis using False by (simp only: same if_False)
  qed
  ultimately show ?thesis by blast
qed

lemma load_sections:
  assumes "clean_config secs"
  shows "\<exists>c' m'. res_fold load_line (concat (map section_lines secs)) (c, m) = Inr (c', m') \<and>
    (\<forall>section key. find_value c' section key =
       (case map_of (rev (entries_of secs section)) key of
          Some v \<Rightarrow> Some v | None \<Rightarrow> find_value c section key))"
  using assms
proof (induction secs arbitrary: c m)
  case (Cons s secs)
  obtain sn es where s: "s = (sn, es)" by (cases s)
  have sec: "clean_text sn" "sn \<noteq> []" "\<forall>(k, v) \<in> set es. clean_key k \<and> clean_text v"
    and rest: "clean_config secs"
    using Cons.prems by (auto simp: clean_config_def s)
  obtain c1 where c1: "res_fold load_line (section_lines s) (c, m) = Inr (c1, Some sn)"
    and v1: "\<And>sec key. find_value c1 sec key = (if sec = sn
       then case map_of (rev es) key of Some v \<Rightarrow> Some v | None \<Rightarrow> find_value c sec key
       else find_value c sec key)"
    using load_section [OF sec, of c m] s by auto
  from Cons.IH [OF rest, of c1 "Some sn"] obtain c2 m2 where
    c2: "res_fold load_line (concat (map section_lines secs)) (c1, Some sn) = Inr (c2, m2)"
    and v2: "\<And>sec key. find_value c2 sec key = (case map_of (rev (entries_of secs sec)) key of
          Some v \<Rightarrow> Some v | None \<Rightarrow> find_value c1 sec key)"
    by blast
  have "find_value c2 sec key = (case map_of (rev (entries_of (s # secs) sec)) key of
          Some v \<Rightarrow> Some v | None \<Rightarrow> find_value c sec key)" for sec key
    unfolding v2 v1 by (auto simp: entries_of_def s map_of_append map_add_def split: option.split)
  then show ?case using c1 c2 by (auto simp: res_fold_append)
qed (simp add: entries_of_def)

lemma load_line_empty [simp]: "load_line [] s = Inr s"
  by (cases s) (simp add: load_line_def is_section_def line_entry_def trim_def trim_left_def trim_right_def)

text \<open>
  C38: Loading a configuration as it is written gives it back: the value of a key is the last one
  written for it in any part of its section, and a key that is not written has none.
\<close>

theorem load_render:
  assumes "clean_config secs"
  shows "\<exists>c. load (Some (render secs)) = Inr (True, c) \<and>
    (\<forall>section key default_value. GetString c section key default_value =
       (case map_of (rev (entries_of secs section)) key of Some v \<Rightarrow> v | None \<Rightarrow> default_value))"
proof -
  have "CHR 0x0A \<notin> set l" if l: "l \<in> set (concat (map section_lines secs))" for l
  proof -
    obtain sn es where "(sn, es) \<in> set secs" and l: "l \<in> set (section_lines (sn, es))"
      using l by auto
    then have "clean_text sn" "\<And>k v. (k, v) \<in> set es \<Longrightarrow> clean_key k \<and> clean_text v"
      using assms by (auto simp: clean_config_def)
    then show ?thesis
      using l by (fastforce simp: section_lines_def section_line_def entry_line_def clean_key_def clean_text_def)
  qed
  then have lines: "getlines (render secs) = concat (map section_lines secs) @ [[]]"
    unfolding render_def by (intro getlines_render) blast
  obtain c m where c: "res_fold load_line (concat (map section_lines secs)) (Map.empty, None) = Inr (c, m)"
    and v: "\<And>section key. find_value c section key = (case map_of (rev (entries_of secs section)) key of
          Some v \<Rightarrow> Some v | None \<Rightarrow> find_value Map.empty section key)"
    using load_sections [OF assms, of Map.empty None] by blast
  have "load (Some (render secs)) = Inr (True, c)"
    by (simp add: load_def lines res_fold_append c)
  then show ?thesis
    using v by (auto simp: GetString_def find_value_def [of Map.empty] split: option.split)
qed

text \<open>
  A key before the first section is a null dereference, and nothing else makes loading fail.
\<close>

theorem load_fault_iff:
  "load (Some content) = Inl e \<longleftrightarrow> e = Null_Deref \<and>
    (\<exists>line \<in> set (takeWhile (\<lambda>l. is_section l = None) (getlines content)). line_entry line \<noteq> None)"
proof -
  have some: "\<exists>c' m'. load_line l (c, Some m) = Inr (c', Some m')" for l c m
    by (auto simp: load_line_def split: option.splits)
  have "\<exists>c' m'. res_fold load_line ls (c, Some m) = Inr (c', Some m')" for ls c m
    by (induction ls arbitrary: c m) (use some in \<open>auto, metis res_bind_simps(2)\<close>)
  then have no_fault: "res_fold load_line ls (c, Some m) \<noteq> Inl e" for ls c m
    by (metis sum.distinct(1))
  have "res_fold load_line ls (c, None) = Inl e \<longleftrightarrow> e = Null_Deref \<and>
      (\<exists>line \<in> set (takeWhile (\<lambda>l. is_section l = None) ls). line_entry line \<noteq> None)" for ls c
  proof (induction ls arbitrary: c)
    case (Cons l ls)
    show ?case
    proof (cases "is_section l")
      case None
      then show ?thesis using Cons.IH [of c] by (auto simp: load_line_def split: option.splits)
    next
      case (Some sn)
      then obtain c' where "load_line l (c, None) = Inr (c', Some sn)"
        by (simp add: load_line_def split: option.split)
      then show ?thesis using no_fault Some by simp
    qed
  qed simp
  from this [of "getlines content" Map.empty] show ?thesis
    by (auto simp: load_def res_bind_eq_Inl)
qed

theorem load_render_witness:
  "\<exists>c. load (Some (render [(''dns'', [(''ip'', ''a''), (''port'', ''1''), (''port'', ''2'')])])) = Inr (True, c) \<and>
    GetString c ''dns'' ''port'' ''0'' = ''2'' \<and> GetString c ''dns'' ''host'' ''0'' = ''0''"
proof -
  have "clean_config [(''dns'', [(''ip'', ''a''), (''port'', ''1''), (''port'', ''2'')])]"
    by (simp add: clean_config_def clean_key_def clean_text_def is_space_def)
  from load_render [OF this] show ?thesis by (auto simp: entries_of_def)
qed

text \<open>The two ways a number can go wrong: no digits give 0, and a value that does not fit is cut.\<close>

lemma parseNumber_examples:
  "parseNumber ''7778'' = 7778" "parseNumber ''abc'' = 0" "parseNumber '' -1'' = - 1"
  "parseNumber ''4294967297'' = 1"
  by (simp_all add: parseNumber_def read_int_def is_space_def is_digit_def digits_value_def)

lemma string_list_examples:
  "string_list ''a, b'' = [''a'', ''b'']" "string_list [] = [[]]"
  by (simp_all add: string_list.simps is_sep_def)

end
