(* ===== verification/Tcp_Server.thy ===== *)
theory Tcp_Server
  imports Thread_Pool Config_File
begin

text \<open>
  \<open>tcp_server\<close> (\<open>lars_reactor/src/tcp_server.cpp\<close>, \<open>include/tcp_server.h\<close>): the constructor, accepting
  connections on the main loop, and how an accepted connection gets to a worker.
\<close>

subsection \<open>The server\<close>

text \<open>What the kernel answers while the server is set up.\<close>

record listen_env =
  env_sock :: "int32 option"
  env_bind :: bool
  env_listen :: bool

text \<open>
  The constructor. The two numbers come from the configuration; the entries of the new array \<open>conns\<close>
  are not set, \<open>junk\<close> is what is in its memory, and so is the pointer \<open>_thread_pool\<close> when the number of
  threads is not positive. A negative array length makes \<open>new\<close> throw.
\<close>

definition new_tcp_server :: "(int32 \<Rightarrow> bool) \<Rightarrow> listen_env \<Rightarrow> sections \<Rightarrow> (nat \<Rightarrow> int32 option) \<Rightarrow>
    (nat \<Rightarrow> addr option) \<Rightarrow> 'task thread_pool option \<Rightarrow> ('task, 'u) reactor \<Rightarrow> ('task, 'u) reactor res" where
  "new_tcp_server pollable env config evfd junk old_pool r =
     (case env_sock env of
        None \<Rightarrow> Inl Exited
      | Some sock \<Rightarrow>
          if \<not> env_bind env \<or> \<not> env_listen env then Inl Exited
          else
            (let thread_cnt = sint (GetNumber config ''reactor'' ''threadNum'' 3);
                 max = sint (GetNumber config ''reactor'' ''maxConn'' 1000);
                 len = max + 5 + 2 * thread_cnt
             in res_bind (if thread_cnt > 0 then res_bind (new_thread_pool evfd thread_cnt) (\<lambda>tp. Inr (Some tp)) else Inr old_pool)
                  (\<lambda>wk. if len < 0 then Inl Exited
                    else Inr (r\<lparr>workers := wk, loops := replicate (nat thread_cnt) new_event_loop,
                      tab := \<lparr>conns = map junk [0..<nat len], cur_conns = cur_conns (tab r), max_conns = max\<rparr>,
                      main_loop := add_io_event pollable sock Accept_Cb EPOLLIN (Some 0) (main_loop r)\<rparr>))))"

text \<open>\<open>add_msg_router\<close> registers with the static router; the hooks are plain assignments.\<close>

definition add_msg_router :: "int32 \<Rightarrow> 'cb \<Rightarrow> 'a option \<Rightarrow> ('cb, 'a) msg_router \<Rightarrow> ('cb, 'a) msg_router" where
  "add_msg_router msgid cb user_data router = snd (regist_msg_router msgid cb user_data router)"

definition set_conn_start :: "('task, 'u) conn_hook \<Rightarrow> ('task, 'u) conn_hook \<times> ('task, 'u) conn_hook \<Rightarrow>
    ('task, 'u) conn_hook \<times> ('task, 'u) conn_hook" where
  "set_conn_start cb hooks = (cb, snd hooks)"

definition set_conn_close :: "('task, 'u) conn_hook \<Rightarrow> ('task, 'u) conn_hook \<times> ('task, 'u) conn_hook \<Rightarrow>
    ('task, 'u) conn_hook \<times> ('task, 'u) conn_hook" where
  "set_conn_close cb hooks = (fst hooks, cb)"

subsection \<open>Accepting\<close>

definition accept_conn :: "(int32 \<Rightarrow> bool) \<Rightarrow> ('task, 'u) conn_hook \<Rightarrow> int32 \<Rightarrow> ('task, 'u) reactor \<Rightarrow> ('task, 'u) reactor res" where
  "accept_conn pollable conn_start_cb fd r =
     (if get_conn_num (tab r) \<ge> max_conns (tab r) then Inr r
      else (case workers r of
              Some tp \<Rightarrow>
                res_bind (get_thread tp) (\<lambda>(i, tp).
                res_bind (send_to_queue i (NEW_CONN fd) tp) (\<lambda>tp. Inr (r\<lparr>workers := Some tp\<rparr>)))
            | None \<Rightarrow>
                res_bind (open_conn pollable conn_start_cb fd None (main_loop r) r) (\<lambda>(loop, r).
                  Inr (r\<lparr>main_loop := loop\<rparr>))))"

text \<open>
  \<open>do_accept\<close> over what the calls of \<open>accept\<close> return; when they have all been used up it is still
  waiting in the next one. A lack of descriptors is logged and the loop goes on.
\<close>

datatype accept_result = Accepted int32 | Acc_EINTR | Acc_EMFILE | Acc_EAGAIN | Acc_Error

fun do_accept :: "(int32 \<Rightarrow> bool) \<Rightarrow> ('task, 'u) conn_hook \<Rightarrow> accept_result list \<Rightarrow> ('task, 'u) reactor \<Rightarrow>
    ('task, 'u) reactor res option" where
  "do_accept pollable conn_start_cb [] r = None"
| "do_accept pollable conn_start_cb (a # as) r =
     (case a of
        Accepted fd \<Rightarrow> Some (accept_conn pollable conn_start_cb fd r)
      | Acc_EINTR \<Rightarrow> do_accept pollable conn_start_cb as r
      | Acc_EMFILE \<Rightarrow> do_accept pollable conn_start_cb as r
      | Acc_EAGAIN \<Rightarrow> Some (Inr r)
      | Acc_Error \<Rightarrow> Some (Inl Exited))"

text \<open>With no descriptors left the main thread never returns from \<open>do_accept\<close> to its loop.\<close>

lemma do_accept_spins: "do_accept pollable hook (replicate n Acc_EMFILE) r = None"
  by (induction n) simp_all

fun accept_all :: "(int32 \<Rightarrow> bool) \<Rightarrow> ('task, 'u) conn_hook \<Rightarrow> int32 list \<Rightarrow> ('task, 'u) reactor \<Rightarrow> ('task, 'u) reactor res option" where
  "accept_all pollable hook [] r = Some (Inr r)"
| "accept_all pollable hook (fd # fds) r =
     (case do_accept pollable hook [Accepted fd] r of
        Some (Inr r) \<Rightarrow> accept_all pollable hook fds r
      | res \<Rightarrow> res)"

lemma accept_all_fold: "accept_all pollable hook fds r = Some (res_fold (accept_conn pollable hook) fds r)"
proof (induction fds arbitrary: r)
  case (Cons fd fds)
  then show ?case by (cases "accept_conn pollable hook fd r") simp_all
qed simp

lemma accept_conn_queues:
  assumes "workers r = Some tp" and "pool_wf tp" and "get_conn_num (tab r) < max_conns (tab r)"
  shows "\<exists>tp'. accept_conn pollable hook fd r = Inr (r\<lparr>workers := Some tp'\<rparr>) \<and> pool_wf tp' \<and>
    turn tp' = Suc (turn tp) mod length (tp_queues tp) \<and> length (tp_queues tp') = length (tp_queues tp) \<and>
    (\<forall>j < length (tp_queues tp). tq_queue (tp_queues tp' ! j) =
       tq_queue (tp_queues tp ! j) @ (if j = turn tp then [NEW_CONN fd] else []))"
proof -
  obtain t where t: "get_thread tp = Inr (turn tp, t)" "pool_wf t" "tp_queues t = tp_queues tp"
      "turn t = Suc (turn tp) mod length (tp_queues tp)" "turn tp < length (tp_queues tp)"
    using get_thread_turn [OF assms(2)] by blast
  obtain t' where t': "send_to_queue (turn tp) (NEW_CONN fd) t = Inr t'" "pool_wf t'" "turn t' = turn t"
      "length (tp_queues t') = length (tp_queues tp)"
      "\<forall>j < length (tp_queues tp). tq_queue (tp_queues t' ! j) =
        tq_queue (tp_queues tp ! j) @ (if j = turn tp then [NEW_CONN fd] else [])"
    using send_to_queue_ok [OF t(2), of "turn tp" "NEW_CONN fd"] t(3,5) by auto
  have "accept_conn pollable hook fd r = Inr (r\<lparr>workers := Some t'\<rparr>)"
    using assms(1,3) t(1) t'(1) by (simp add: accept_conn_def)
  then show ?thesis using t t' by (intro exI [of _ t'] conjI) simp_all
qed

text \<open>The workers of a server below its limit, while nothing but its pool changes.\<close>

definition pool_of :: "('task, 'u) reactor \<Rightarrow> 'task thread_pool" where
  "pool_of r = the (workers r)"

definition dealing_conns :: "('task, 'u) reactor \<Rightarrow> ('task, 'u) reactor \<Rightarrow> bool" where
  "dealing_conns r0 r \<longleftrightarrow> (\<exists>tp. r = r0\<lparr>workers := Some tp\<rparr> \<and> pool_wf tp) \<and> get_conn_num (tab r0) < max_conns (tab r0)"

interpretation wd: dealer "accept_conn pollable hook" NEW_CONN "\<lambda>r j. tq_queue (tp_queues (pool_of r) ! j)"
  "\<lambda>r. turn (pool_of r)" "\<lambda>r. length (tp_queues (pool_of r))" "dealing_conns r0"
  for pollable hook r0
proof
  fix r x
  assume "dealing_conns r0 r"
  then obtain tp where tp: "r = r0\<lparr>workers := Some tp\<rparr>" "pool_wf tp" "get_conn_num (tab r0) < max_conns (tab r0)"
    by (auto simp: dealing_conns_def)
  then obtain tp' where "accept_conn pollable hook x r = Inr (r\<lparr>workers := Some tp'\<rparr>)" "pool_wf tp'"
      "turn tp' = Suc (turn tp) mod length (tp_queues tp)" "length (tp_queues tp') = length (tp_queues tp)"
      "\<forall>j < length (tp_queues tp). tq_queue (tp_queues tp' ! j) =
        tq_queue (tp_queues tp ! j) @ (if j = turn tp then [NEW_CONN x] else [])"
    using accept_conn_queues [of r tp pollable hook x] by auto
  then show "\<exists>s'. accept_conn pollable hook x r = Inr s' \<and> dealing_conns r0 s' \<and>
      length (tp_queues (pool_of s')) = length (tp_queues (pool_of r)) \<and>
      turn (pool_of s') = Suc (turn (pool_of r)) mod length (tp_queues (pool_of r)) \<and>
      (\<forall>j < length (tp_queues (pool_of r)). tq_queue (tp_queues (pool_of s') ! j) =
        tq_queue (tp_queues (pool_of r) ! j) @ (if j = turn (pool_of r) then [NEW_CONN x] else []))"
    using tp by (intro exI [of _ "r\<lparr>workers := Some tp'\<rparr>"]) (auto simp: dealing_conns_def pool_of_def)
qed

text \<open>
  C31: Connections are dealt to the workers in turn: starting with the worker whose turn it is, the
  accepted descriptors go to the queues one after the other, each to exactly one, behind what is
  already there. The count of connections does not change until the workers open them, so this holds
  for any number of connections accepted before a worker runs, beyond the configured limit too.
\<close>

theorem connections_round_robin:
  assumes "workers r = Some tp" and "pool_wf tp" and "get_conn_num (tab r) < max_conns (tab r)"
  shows "\<exists>tp'. accept_all pollable hook fds r = Some (Inr (r\<lparr>workers := Some tp'\<rparr>)) \<and>
    (\<forall>j < length (tp_queues tp). tq_queue (tp_queues tp' ! j) =
       tq_queue (tp_queues tp ! j) @ map NEW_CONN (share (length (tp_queues tp)) (turn tp) j fds))"
proof -
  have "r = r\<lparr>workers := Some tp\<rparr>" using assms(1) by simp
  then have "dealing_conns r r" using assms(2,3) unfolding dealing_conns_def by blast
  from wd.deal_all [OF this, of pollable hook fds] show ?thesis
    using assms(1) by (auto simp: accept_all_fold dealing_conns_def pool_of_def)
qed

text \<open>
  A connection that is accepted is served: the worker whose turn it is finds it in its queue and
  opens it; then the table has it under its descriptor, the count is one higher, and the worker's loop
  watches it for input with the connection's read callback.
\<close>

theorem accepted_connection_is_watched:
  assumes "workers r = Some tp" and "pool_wf tp" and "get_conn_num (tab r) < max_conns (tab r)"
    and "length (loops r) = length (tp_queues tp)" and "tq_queue (tp_queues tp ! turn tp) = []"
    and "loop_ok (loops r ! turn tp)" and "io_evs (loops r ! turn tp) fd = None" and "pollable fd"
    and "0 \<le> sint fd" and "sint fd < int (length (conns (tab r)))"
  shows "\<exists>r1 r2. do_accept pollable None [Accepted fd] r = Some (Inr r1) \<and>
    deal_task_message pollable None (turn tp) r1 = Inr r2 \<and>
    ev_armed Conn_Rd Conn_Wt pollable fd (loops r2 ! turn tp) [] \<and>
    conns (tab r2) = (conns (tab r))[nat (sint fd) := Some (new_addr r)] \<and>
    get_conn_num (tab r2) = get_conn_num (tab r) + 1"
proof -
  obtain t where t: "accept_conn pollable None fd r = Inr (r\<lparr>workers := Some t\<rparr>)" "length (tp_queues t) = length (tp_queues tp)"
      "\<forall>j < length (tp_queues tp). tq_queue (tp_queues t ! j) =
        tq_queue (tp_queues tp ! j) @ (if j = turn tp then [NEW_CONN fd] else [])"
    using accept_conn_queues [OF assms(1-3)] by blast
  have i: "turn tp < length (tp_queues tp)" using get_thread_turn [OF assms(2)] by blast
  obtain q where q: "tq_recv [] (tp_queues t ! turn tp) = ([NEW_CONN fd], q)"
    using t(3) i assms(5) fst_tq_recv [of "[]" "tp_queues t ! turn tp"] by (cases "tq_recv [] (tp_queues t ! turn tp)") auto
  let ?r = "r\<lparr>workers := Some (t\<lparr>tp_queues := (tp_queues t)[turn tp := q]\<rparr>)\<rparr>"
  obtain l' r' where "open_conn pollable None fd (Some (turn tp)) (loops r ! turn tp) ?r = Inr (l', r')"
      "ev_armed Conn_Rd Conn_Wt pollable fd l' []" "conns (tab r') = (conns (tab r))[nat (sint fd) := Some (new_addr r)]"
      "get_conn_num (tab r') = get_conn_num (tab r) + 1" "loops r' = loops r"
    using open_conn_fresh [where pollable = pollable and r = ?r and l = "Some (turn tp)", OF assms(8,6,7,9)] assms(10) by auto
  then show ?thesis
    using t(1,2) i q assms(4) by (simp add: deal_task_message_def)
qed

text \<open>
  The limit on connections can be overrun: it is tested against the connections already opened,
  not against those queued, so connections beyond it are queued too, and opening one whose descriptor
  is past the end of the table writes outside the table.
\<close>

theorem connection_limit_overrun:
  assumes "workers r = Some tp" and "pool_wf tp" and "get_conn_num (tab r) < max_conns (tab r)"
    and "length (loops r) = length (tp_queues tp)" and "tq_queue (tp_queues tp ! turn tp) = []"
    and "int (length (conns (tab r))) \<le> sint fd"
  shows "\<exists>r1. do_accept pollable None [Accepted fd] r = Some (Inr r1) \<and>
    deal_task_message pollable None (turn tp) r1 = Inl Out_Of_Bounds"
proof -
  obtain t where t: "accept_conn pollable None fd r = Inr (r\<lparr>workers := Some t\<rparr>)" "length (tp_queues t) = length (tp_queues tp)"
      "\<forall>j < length (tp_queues tp). tq_queue (tp_queues t ! j) =
        tq_queue (tp_queues tp ! j) @ (if j = turn tp then [NEW_CONN fd] else [])"
    using accept_conn_queues [OF assms(1-3)] by blast
  have i: "turn tp < length (tp_queues tp)" using get_thread_turn [OF assms(2)] by blast
  obtain q where "tq_recv [] (tp_queues t ! turn tp) = ([NEW_CONN fd], q)"
    using t(3) i assms(5) fst_tq_recv [of "[]" "tp_queues t ! turn tp"] by (cases "tq_recv [] (tp_queues t ! turn tp)") auto
  then show ?thesis
    using t(1,2) i assms(4,6)
    by (simp add: deal_task_message_def open_conn_def new_tcp_conn_def increase_conn_def set_conn_def)
qed

theorem connections_round_robin_witness:
  "\<exists>tp'. accept_all (\<lambda>_. True) None [5, 6, 7] ex_reactor = Some (Inr (ex_reactor\<lparr>workers := Some tp'\<rparr>)) \<and>
    tq_queue (tp_queues tp' ! 0) = [NEW_CONN 5, NEW_CONN 7] \<and> tq_queue (tp_queues tp' ! 1) = [NEW_CONN 6]"
  using connections_round_robin [of ex_reactor ex_tp "\<lambda>_. True" None "[5, 6, 7]"]
  by (auto simp: get_conn_num_def)

theorem accepted_connection_is_watched_witness:
  "\<exists>r1 r2. do_accept (\<lambda>_. True) None [Accepted 5] ex_reactor = Some (Inr r1) \<and>
    deal_task_message (\<lambda>_. True) None 0 r1 = Inr r2 \<and> get_conn_num (tab r2) = 1"
  using accepted_connection_is_watched [of ex_reactor ex_tp 5 "\<lambda>_. True"]
  by (auto simp: get_conn_num_def loop_ok_new [unfolded new_event_loop_def] new_event_loop_def)

theorem connection_limit_overrun_witness:
  "\<exists>r1. do_accept (\<lambda>_. True) None [Accepted 12] ex_reactor = Some (Inr r1) \<and>
    deal_task_message (\<lambda>_. True) None 0 r1 = Inl Out_Of_Bounds"
  using connection_limit_overrun [of ex_reactor ex_tp 12 "\<lambda>_. True"]
  by (auto simp: get_conn_num_def)

end
