(* ===== verification/Server_Process.thy ===== *)
theory Server_Process
  imports Tcp_Server
begin

text \<open>
  A whole server process: the callbacks \<open>conn_rd_callback\<close> and \<open>conn_wt_callback\<close>
  (\<open>lars_reactor/src/tcp_conn.cpp\<close>), \<open>accept_callback\<close> (\<open>tcp_server.cpp\<close>) and \<open>deal_task_message\<close> behind
  the event dispatch of the main thread's and the workers' loops, on the objects all threads share.
  Each step of a run is one event of one loop with what the kernel answers to the calls the callback
  makes, or a message the application sends on an open connection. The invariant says that the
  connection table, the objects, the loops, the pool and the queues agree; every event preserves it,
  and no event makes the server fail except through its own \<open>exit\<close>.
\<close>

subsection \<open>Callbacks on the shared objects\<close>

definition loop_at :: "nat option \<Rightarrow> ('task, 'u) reactor \<Rightarrow> 'task io_loop" where
  "loop_at l r = (case l of None \<Rightarrow> main_loop r | Some i \<Rightarrow> loops r ! i)"

definition put_loop :: "nat option \<Rightarrow> 'task io_loop \<Rightarrow> ('task, 'u) reactor \<Rightarrow> ('task, 'u) reactor" where
  "put_loop l el r = (case l of None \<Rightarrow> r\<lparr>main_loop := el\<rparr> | Some i \<Rightarrow> r\<lparr>loops := (loops r)[i := el]\<rparr>)"

text \<open>A method of \<open>tcp_conn\<close> sees the object, the loop it points to and the static members.\<close>

definition load_conn :: "conn_obj \<Rightarrow> ('task, 'u) reactor \<Rightarrow> ('task, 'u) tcp_conn" where
  "load_conn ob r = \<lparr>ibuf = obj_ibuf ob, obuf = obj_obuf ob, bpool = rbufs r, connfd = obj_fd ob,
     conn_loop = loop_at (obj_loop ob) r, conn_tab = tab r, app = rapp r\<rparr>"

definition store_conn :: "addr \<Rightarrow> nat option \<Rightarrow> ('task, 'u) tcp_conn \<Rightarrow> ('task, 'u) reactor \<Rightarrow> ('task, 'u) reactor" where
  "store_conn self l c r =
     put_loop l (conn_loop c)
       (r\<lparr>tab := conn_tab c, rbufs := bpool c, rapp := app c,
          objs := (objs r)(self \<mapsto> \<lparr>obj_fd = connfd c, obj_loop = l, obj_ibuf = ibuf c, obj_obuf = obuf c\<rparr>)\<rparr>)"

text \<open>What the kernel answers to the calls of one callback.\<close>

record sys_answers =
  sys_fionread :: "int option"
  sys_read :: io_result
  sys_writes :: "io_result list"
  sys_accepts :: "accept_result list"

text \<open>
  What the application gave the server: its two hooks, and its router with the callbacks as they are on
  a connection of the given descriptor.
\<close>

record ('task, 'u, 'a) server_app =
  conn_start :: "('task, 'u) conn_hook"
  conn_close :: "('task, 'u) conn_hook"
  app_router :: "int32 \<Rightarrow> (('a, 'u) handler, 'a) msg_router"

definition conn_rd_callback :: "(int32 \<Rightarrow> bool) \<Rightarrow> ('task, 'u, 'a) server_app \<Rightarrow> sys_answers \<Rightarrow> addr option \<Rightarrow>
    ('task, 'u) reactor \<Rightarrow> ('task, 'u) reactor res option" where
  "conn_rd_callback pollable sv k args r =
     (case args of
        None \<Rightarrow> Some (Inl Null_Deref)
      | Some self \<Rightarrow>
          (case objs r self of
             None \<Rightarrow> Some (Inl Dangling)
           | Some ob \<Rightarrow>
               map_option (\<lambda>res. res_bind res (\<lambda>c. Inr (store_conn self (obj_loop ob) c r)))
                 (conn_do_read pollable (conn_close sv) (conn_call pollable self (app_router sv (obj_fd ob)))
                    (sys_fionread k) (sys_read k) (load_conn ob r))))"

definition conn_wt_callback :: "(int32 \<Rightarrow> bool) \<Rightarrow> ('task, 'u, 'a) server_app \<Rightarrow> sys_answers \<Rightarrow> addr option \<Rightarrow>
    ('task, 'u) reactor \<Rightarrow> ('task, 'u) reactor res" where
  "conn_wt_callback pollable sv k args r =
     (case args of
        None \<Rightarrow> Inl Null_Deref
      | Some self \<Rightarrow>
          (case objs r self of
             None \<Rightarrow> Inl Dangling
           | Some ob \<Rightarrow>
               res_bind (conn_do_write pollable (conn_close sv) (sys_writes k) (load_conn ob r))
                 (\<lambda>c. Inr (store_conn self (obj_loop ob) c r))))"

text \<open>The listening socket's callback: its argument is the one server object.\<close>

definition accept_callback :: "(int32 \<Rightarrow> bool) \<Rightarrow> ('task, 'u, 'a) server_app \<Rightarrow> sys_answers \<Rightarrow> addr option \<Rightarrow>
    ('task, 'u) reactor \<Rightarrow> ('task, 'u) reactor res option" where
  "accept_callback pollable sv k args r =
     (case args of
        None \<Rightarrow> Some (Inl Null_Deref)
      | Some server \<Rightarrow> do_accept pollable (conn_start sv) (sys_accepts k) r)"

text \<open>The application sends a message on an object, as the push to the subscribers does.\<close>

definition obj_send_message :: "(int32 \<Rightarrow> bool) \<Rightarrow> addr \<Rightarrow> byte list \<Rightarrow> int32 \<Rightarrow>
    ('task, 'u) reactor \<Rightarrow> (int \<times> ('task, 'u) reactor) res" where
  "obj_send_message pollable self data msgid r =
     (case objs r self of
        None \<Rightarrow> Inl Dangling
      | Some ob \<Rightarrow>
          res_bind (conn_send_message pollable self data msgid (load_conn ob r))
            (\<lambda>(ret, c). Inr (ret, store_conn self (obj_loop ob) c r)))"

text \<open>
  The callback of an event of loop \<open>l\<close>. Those of clients and of UDP endpoints are not a server's. A
  callback that does not return is the value \<open>None\<close>.
\<close>

definition server_callback :: "(int32 \<Rightarrow> bool) \<Rightarrow> ('task, 'u, 'a) server_app \<Rightarrow> sys_answers \<Rightarrow> io_cb \<Rightarrow> addr option \<Rightarrow>
    ('task, 'u) reactor \<Rightarrow> ('task, 'u) reactor res option" where
  "server_callback pollable sv k cb args r =
     (case cb of
        Conn_Rd \<Rightarrow> conn_rd_callback pollable sv k args r
      | Conn_Wt \<Rightarrow> Some (conn_wt_callback pollable sv k args r)
      | Accept_Cb \<Rightarrow> accept_callback pollable sv k args r
      | Deal_Task \<Rightarrow>
          (case args of
             None \<Rightarrow> Some (Inl Null_Deref)
           | Some i \<Rightarrow> Some (deal_task_message pollable (conn_start sv) i r))
      | _ \<Rightarrow> Some (Inl Dangling))"

text \<open>
  One fired event of loop \<open>l\<close>, dispatched as \<open>event_process\<close> does it: the dispatch picks the callback and
  its argument, the callback works on the process.
\<close>

definition picked :: "(int32 \<Rightarrow> bool) \<Rightarrow> int32 \<times> int32 \<Rightarrow> 'task io_loop \<Rightarrow>
    ((io_cb \<times> addr option) option \<times> 'task io_loop) res" where
  "picked pollable fired el = dispatch_event pollable (\<lambda>cb fd args (_, el). Inr (Some (cb, args), el)) fired (None, el)"

definition server_event :: "(int32 \<Rightarrow> bool) \<Rightarrow> ('task, 'u, 'a) server_app \<Rightarrow> sys_answers \<Rightarrow> nat option \<Rightarrow>
    int32 \<times> int32 \<Rightarrow> ('task, 'u) reactor \<Rightarrow> ('task, 'u) reactor res option" where
  "server_event pollable sv k l fired r =
     (case picked pollable fired (loop_at l r) of
        Inl e \<Rightarrow> Some (Inl e)
      | Inr (None, el) \<Rightarrow> Some (Inr (put_loop l el r))
      | Inr (Some (cb, args), el) \<Rightarrow> server_callback pollable sv k cb args (put_loop l el r))"


subsection \<open>The invariant of the process\<close>

text \<open>The loops there are, the open connections, and the buffers they hold.\<close>

definition loop_ref :: "nat option \<Rightarrow> ('task, 'u) reactor \<Rightarrow> bool" where
  "loop_ref l r \<longleftrightarrow> (case l of None \<Rightarrow> True | Some i \<Rightarrow> i < length (loops r))"

definition open_at :: "('task, 'u) reactor \<Rightarrow> addr \<Rightarrow> conn_obj \<Rightarrow> bool" where
  "open_at r a ob \<longleftrightarrow> objs r a = Some ob \<and> obj_fd ob \<noteq> - 1"

definition bufs_of :: "conn_obj \<Rightarrow> addr set" where
  "bufs_of ob = set_option (obj_ibuf ob) \<union> set_option (obj_obuf ob)"

definition held :: "('task, 'u) reactor \<Rightarrow> addr set" where
  "held r = {x. \<exists>a ob. open_at r a ob \<and> x \<in> bufs_of ob}"

definition others_of :: "('task, 'u) reactor \<Rightarrow> addr \<Rightarrow> addr set" where
  "others_of r a = {x. \<exists>b ob. open_at r b ob \<and> b \<noteq> a \<and> x \<in> bufs_of ob}"

text \<open>The connection's event has its callbacks, with the object as their argument.\<close>

definition conn_armed :: "(int32 \<Rightarrow> bool) \<Rightarrow> addr \<Rightarrow> ('task, 'u) tcp_conn \<Rightarrow> bool" where
  "conn_armed pollable self c \<longleftrightarrow> armed pollable c \<and>
     (\<forall>ev. io_evs (conn_loop c) (connfd c) = Some ev \<longrightarrow> rcb_args ev = Some self \<and>
        (out_bytes c \<noteq> [] \<longrightarrow> wcb_args ev = Some self))"

text \<open>A descriptor the kernel accepts for epoll and the table has room for.\<close>

definition fd_ok :: "(int32 \<Rightarrow> bool) \<Rightarrow> conn_table \<Rightarrow> int32 \<Rightarrow> bool" where
  "fd_ok pollable t fd \<longleftrightarrow> pollable fd \<and> 0 \<le> sint fd \<and> sint fd < int (length (conns t))"

definition obj_ok :: "(int32 \<Rightarrow> bool) \<Rightarrow> ('task, 'u) reactor \<Rightarrow> addr \<Rightarrow> conn_obj \<Rightarrow> bool" where
  "obj_ok pollable r a ob \<longleftrightarrow> a < new_addr r \<and> loop_ref (obj_loop ob) r \<and> fd_ok pollable (tab r) (obj_fd ob) \<and>
     conns (tab r) ! nat (sint (obj_fd ob)) = Some a \<and> conn_armed pollable a (load_conn ob r) \<and>
     conn_ok (others_of r a) (load_conn ob r) \<and> front_in (load_conn ob r)"

text \<open>The events that belong to no connection: the listening socket and the queues' eventfds.\<close>

definition service_event :: "nat option \<Rightarrow> (io_cb, addr) io_event \<Rightarrow> bool" where
  "service_event l ev \<longleftrightarrow> ev_mask ev = EPOLLIN \<and>
     (case l of
        None \<Rightarrow> read_callback ev = Some Accept_Cb \<and> rcb_args ev \<noteq> None
      | Some i \<Rightarrow> read_callback ev = Some Deal_Task \<and> rcb_args ev = Some i)"

definition fresh_fd :: "('task, 'u) reactor \<Rightarrow> int32 \<Rightarrow> bool" where
  "fresh_fd r fd \<longleftrightarrow> (\<forall>l. loop_ref l r \<longrightarrow> io_evs (loop_at l r) fd = None)"

fun conn_fds :: "'task task_msg list \<Rightarrow> int32 list" where
  "conn_fds [] = []"
| "conn_fds (NEW_CONN fd # ts) = fd # conn_fds ts"
| "conn_fds (NEW_TASK func args # ts) = conn_fds ts"

text \<open>The accepted descriptors the workers have not opened yet.\<close>

definition queued :: "('task, 'u) reactor \<Rightarrow> int32 list" where
  "queued r = (case workers r of None \<Rightarrow> [] | Some tp \<Rightarrow> concat (map (\<lambda>q. conn_fds (tq_queue q)) (tp_queues tp)))"

text \<open>There is a loop for every queue.\<close>

definition workers_ok :: "('task, 'u) reactor \<Rightarrow> bool" where
  "workers_ok r \<longleftrightarrow>
     (case workers r of None \<Rightarrow> loops r = [] | Some tp \<Rightarrow> pool_wf tp \<and> length (loops r) = length (tp_queues tp))"

text \<open>The descriptors of the open connections, as the application knows them.\<close>

definition open_fds :: "('task, 'u) reactor \<Rightarrow> int32 set" where
  "open_fds r = {fd. \<exists>a ob. open_at r a ob \<and> obj_fd ob = fd}"

text \<open>\<open>pending\<close> are descriptors a worker has taken from its queue and not opened yet; \<open>J\<close> is what the application keeps of its state.\<close>

definition server_inv :: "(int32 \<Rightarrow> bool) \<Rightarrow> (int32 set \<Rightarrow> 'u \<Rightarrow> bool) \<Rightarrow> int32 list \<Rightarrow> ('task, 'u) reactor \<Rightarrow> bool" where
  "server_inv pollable J pending r \<longleftrightarrow>
     workers_ok r \<and>
     (\<forall>l. loop_ref l r \<longrightarrow> loop_ok (loop_at l r)) \<and>
     (\<forall>a ob. open_at r a ob \<longrightarrow> obj_ok pollable r a ob) \<and>
     (\<forall>l fd ev. loop_ref l r \<longrightarrow> io_evs (loop_at l r) fd = Some ev \<longrightarrow>
        service_event l ev \<or> (\<exists>a ob. open_at r a ob \<and> obj_fd ob = fd \<and> obj_loop ob = l)) \<and>
     (\<forall>a. a \<ge> new_addr r \<longrightarrow> objs r a = None) \<and>
     pool_ok (held r) (rbufs r) \<and>
     finite {a. \<exists>ob. open_at r a ob} \<and> cur_conns (tab r) = int (card {a. \<exists>ob. open_at r a ob}) \<and>
     distinct (pending @ queued r) \<and> (\<forall>fd \<in> set (pending @ queued r). fd_ok pollable (tab r) fd \<and> fresh_fd r fd) \<and>
     J (open_fds r) (rapp r)"

lemma server_invI:
  assumes "workers_ok r"
    and "\<And>l. loop_ref l r \<Longrightarrow> loop_ok (loop_at l r)"
    and "\<And>a ob. open_at r a ob \<Longrightarrow> obj_ok pollable r a ob"
    and "\<And>l fd ev. loop_ref l r \<Longrightarrow> io_evs (loop_at l r) fd = Some ev \<Longrightarrow> \<not> service_event l ev \<Longrightarrow>
        \<exists>a ob. open_at r a ob \<and> obj_fd ob = fd \<and> obj_loop ob = l"
    and "\<And>a. a \<ge> new_addr r \<Longrightarrow> objs r a = None"
    and "pool_ok (held r) (rbufs r)"
    and "finite {a. \<exists>ob. open_at r a ob}" and "cur_conns (tab r) = int (card {a. \<exists>ob. open_at r a ob})"
    and "distinct (pending @ queued r)"
    and "\<And>fd. fd \<in> set (pending @ queued r) \<Longrightarrow> fd_ok pollable (tab r) fd \<and> fresh_fd r fd"
    and "J (open_fds r) (rapp r)"
  shows "server_inv pollable J pending r"
  unfolding server_inv_def using assms by blast

lemma server_invD:
  assumes "server_inv pollable J pending r"
  shows "workers_ok r"
    and "loop_ref l r \<Longrightarrow> loop_ok (loop_at l r)"
    and "open_at r a ob \<Longrightarrow> obj_ok pollable r a ob"
    and "loop_ref l r \<Longrightarrow> io_evs (loop_at l r) fd = Some ev \<Longrightarrow> \<not> service_event l ev \<Longrightarrow>
        \<exists>a ob. open_at r a ob \<and> obj_fd ob = fd \<and> obj_loop ob = l"
    and "x \<ge> new_addr r \<Longrightarrow> objs r x = None"
    and "pool_ok (held r) (rbufs r)"
    and "finite {a. \<exists>ob. open_at r a ob}" and "cur_conns (tab r) = int (card {a. \<exists>ob. open_at r a ob})"
    and "distinct (pending @ queued r)"
    and "fd \<in> set (pending @ queued r) \<Longrightarrow> fd_ok pollable (tab r) fd \<and> fresh_fd r fd"
    and "J (open_fds r) (rapp r)"
  using assms unfolding server_inv_def by blast+

text \<open>Two open connections have different descriptors, and different buffers.\<close>

lemma open_fds_differ:
  assumes "server_inv pollable J pending r" and "open_at r a ob" and "open_at r b ob'" and "a \<noteq> b"
  shows "obj_fd ob \<noteq> obj_fd ob'"
  using server_invD(3) [OF assms(1,2)] server_invD(3) [OF assms(1,3)] assms(4) by (auto simp: obj_ok_def)

lemma load_fields [simp]:
  "ibuf (load_conn ob r) = obj_ibuf ob" "obuf (load_conn ob r) = obj_obuf ob" "bpool (load_conn ob r) = rbufs r"
  "connfd (load_conn ob r) = obj_fd ob" "conn_loop (load_conn ob r) = loop_at (obj_loop ob) r"
  "conn_tab (load_conn ob r) = tab r" "app (load_conn ob r) = rapp r"
  by (simp_all add: load_conn_def)

lemma conn_ok_bufs:
  assumes "conn_ok others s"
  shows "(set_option (ibuf s) \<union> set_option (obuf s)) \<inter> others = {}"
    and "pool_ok (others \<union> (set_option (ibuf s) \<union> set_option (obuf s))) (bpool s)"
  using assms unfolding conn_ok_def rb_ok_pool others_in_def others_out_def by (auto simp: ac_simps)

lemma open_bufs_apart:
  assumes "server_inv pollable J pending r" and "open_at r a ob" and "open_at r b ob'" and "a \<noteq> b"
  shows "bufs_of ob \<inter> bufs_of ob' = {}"
proof -
  have "conn_ok (others_of r a) (load_conn ob r)" using server_invD(3) [OF assms(1,2)] by (simp add: obj_ok_def)
  then have "bufs_of ob \<inter> others_of r a = {}" using conn_ok_bufs(1) by (fastforce simp: bufs_of_def)
  then show ?thesis using assms(3,4) by (auto simp: others_of_def)
qed


subsection \<open>An operation on one connection\<close>

lemma put_loop_fields [simp]:
  "workers (put_loop l el r) = workers r" "tab (put_loop l el r) = tab r" "rbufs (put_loop l el r) = rbufs r"
  "rapp (put_loop l el r) = rapp r" "objs (put_loop l el r) = objs r" "new_addr (put_loop l el r) = new_addr r"
  "length (loops (put_loop l el r)) = length (loops r)" "loop_ref l' (put_loop l el r) = loop_ref l' r"
  by (simp_all add: put_loop_def loop_ref_def split: option.split)

lemma loop_at_put: "loop_at l' (put_loop l el r) = (if l' = l \<and> loop_ref l r then el else loop_at l' r)"
  by (cases l; cases l') (auto simp: put_loop_def loop_at_def loop_ref_def list_update_beyond nth_list_update_neq)

lemma put_loop_same: "loop_ref l r \<Longrightarrow> put_loop l (loop_at l r) r = r"
  by (cases l) (simp_all add: put_loop_def loop_at_def loop_ref_def)

lemma store_fields [simp]:
  "workers (store_conn a l c r) = workers r" "tab (store_conn a l c r) = conn_tab c" "rbufs (store_conn a l c r) = bpool c"
  "rapp (store_conn a l c r) = app c" "new_addr (store_conn a l c r) = new_addr r"
  "objs (store_conn a l c r) = (objs r)(a \<mapsto> \<lparr>obj_fd = connfd c, obj_loop = l, obj_ibuf = ibuf c, obj_obuf = obuf c\<rparr>)"
  "length (loops (store_conn a l c r)) = length (loops r)" "loop_ref l' (store_conn a l c r) = loop_ref l' r"
  by (simp_all add: store_conn_def) (simp add: loop_ref_def cong: option.case_cong)

lemma loop_at_store: "loop_at l' (store_conn a l c r) = (if l' = l \<and> loop_ref l r then conn_loop c else loop_at l' r)"
proof -
  have "loop_at l' (r\<lparr>tab := t, rbufs := p, rapp := u, objs := h\<rparr>) = loop_at l' r"
    "loop_ref l (r\<lparr>tab := t, rbufs := p, rapp := u, objs := h\<rparr>) = loop_ref l r" for t p u h
    by (simp_all add: loop_at_def loop_ref_def cong: option.case_cong)
  then show ?thesis by (simp add: store_conn_def loop_at_put)
qed

lemma workers_ok_cong: "workers r' = workers r \<Longrightarrow> length (loops r') = length (loops r) \<Longrightarrow> workers_ok r' = workers_ok r"
proof -
  assume w: "workers r' = workers r" and n: "length (loops r') = length (loops r)"
  have "loops r' = [] \<longleftrightarrow> loops r = []" using arg_cong [OF n, of "\<lambda>n. n = 0"] by simp
  then show ?thesis unfolding workers_ok_def w n by (simp split: option.split)
qed

lemma workers_ok_put [simp]: "workers_ok (put_loop l el r) = workers_ok r" "workers_ok (store_conn a l c r) = workers_ok r"
  by (rule workers_ok_cong; simp)+

lemma queued_store [simp]: "queued (store_conn a l c r) = queued r"
  by (simp add: queued_def)

text \<open>The loop of a connection changed at the connection's descriptor only.\<close>

definition loop_frame :: "int32 \<Rightarrow> 'task io_loop \<Rightarrow> 'task io_loop \<Rightarrow> bool" where
  "loop_frame fd el el' \<longleftrightarrow> loop_ok el' \<and> (\<forall>fd'. fd' \<noteq> fd \<longrightarrow> io_evs el' fd' = io_evs el fd')"

text \<open>What an object sees is not touched by an operation on another one.\<close>

lemma conn_armed_cong:
  assumes "conn_armed pollable b c" and "loop_ok (conn_loop c')" and "connfd c' = connfd c"
    and "io_evs (conn_loop c') (connfd c) = io_evs (conn_loop c) (connfd c)" and "out_bytes c' = out_bytes c"
  shows "conn_armed pollable b c'"
  using assms by (auto simp: conn_armed_def armed_def ev_armed_def)

lemma load_same_bufs:
  assumes "same_others H (rbufs r) (bpool c)" and "bufs_of ob \<subseteq> H"
  shows "out_bytes (load_conn ob (store_conn a l c r)) = out_bytes (load_conn ob r)"
    and "front_in (load_conn ob (store_conn a l c r)) = front_in (load_conn ob r)"
    and "at_front (obj_obuf ob) (bpool c) = at_front (obj_obuf ob) (rbufs r)"
    and "in_bytes (load_conn ob (store_conn a l c r)) = in_bytes (load_conn ob r)"
proof -
  have "set_option (obj_ibuf ob) \<subseteq> H" "set_option (obj_obuf ob) \<subseteq> H" using assms(2) by (simp_all add: bufs_of_def)
  then have "buf_of (obj_ibuf ob) (bpool c) = buf_of (obj_ibuf ob) (rbufs r)"
    "buf_of (obj_obuf ob) (bpool c) = buf_of (obj_obuf ob) (rbufs r)"
    using same_others_buf_of [OF assms(1)] by blast+
  then show "out_bytes (load_conn ob (store_conn a l c r)) = out_bytes (load_conn ob r)"
      "front_in (load_conn ob (store_conn a l c r)) = front_in (load_conn ob r)"
      "at_front (obj_obuf ob) (bpool c) = at_front (obj_obuf ob) (rbufs r)"
      "in_bytes (load_conn ob (store_conn a l c r)) = in_bytes (load_conn ob r)"
    using content_cong [of "obj_obuf ob" "bpool c" "rbufs r"] content_cong [of "obj_ibuf ob" "bpool c" "rbufs r"] front_cong [of "obj_ibuf ob" "bpool c" "rbufs r"]
      front_cong [of "obj_obuf ob" "bpool c" "rbufs r"] by (simp_all add: out_bytes_def in_bytes_def front_in_def)
qed

lemma conn_okI:
  assumes "pool_ok H (bpool s)" and "H = others \<union> (set_option (ibuf s) \<union> set_option (obuf s))"
    and "(set_option (ibuf s) \<union> set_option (obuf s)) \<inter> others = {}" and "set_option (ibuf s) \<inter> set_option (obuf s) = {}"
    and "at_front (obuf s) (bpool s)"
  shows "conn_ok others s"
  using assms unfolding conn_ok_def rb_ok_pool others_in_def others_out_def by (auto simp: ac_simps)

lemma conn_ok_distinct: "conn_ok others s \<Longrightarrow> set_option (ibuf s) \<inter> set_option (obuf s) = {} \<and> at_front (obuf s) (bpool s)"
  unfolding conn_ok_def rb_ok_pool others_in_def by auto

lemma held_split: "open_at r a ob \<Longrightarrow> held r = others_of r a \<union> bufs_of ob"
  unfolding held_def others_of_def open_at_def by (auto, metis option.inject)

lemma open_at_store:
  "open_at (store_conn a l c r) b ob \<longleftrightarrow>
     (if b = a then ob = \<lparr>obj_fd = connfd c, obj_loop = l, obj_ibuf = ibuf c, obj_obuf = obuf c\<rparr> \<and> connfd c \<noteq> - 1
      else open_at r b ob)"
  by (auto simp: open_at_def)

lemma others_of_store_same [simp]: "others_of (store_conn a l c r) a = others_of r a"
  by (auto simp: others_of_def open_at_store)

text \<open>
  The other objects of the process after an operation on the object at \<open>a\<close> that changed only what is
  its own: \<open>new\<close> are the buffers it holds afterwards.
\<close>

lemma obj_ok_other:
  assumes inv: "server_inv pollable J pending r" and a: "open_at r a ob" and b: "open_at r b ob'" and "b \<noteq> a"
    and mine: "same_others (others_of r a) (rbufs r) (bpool c)"
      "loop_frame (obj_fd ob) (loop_at (obj_loop ob) r) (conn_loop c)"
    and pool: "pool_ok (held (store_conn a (obj_loop ob) c r)) (bpool c)"
    and apart: "(\<Union> (bufs_of ` {o'. open_at (store_conn a (obj_loop ob) c r) a o'})) \<inter> others_of r a = {}"
    and table: "length (conns (conn_tab c)) = length (conns (tab r))"
      "conns (conn_tab c) ! nat (sint (obj_fd ob')) = conns (tab r) ! nat (sint (obj_fd ob'))"
  shows "obj_ok pollable (store_conn a (obj_loop ob) c r) b ob'"
proof -
  let ?r = "store_conn a (obj_loop ob) c r"
  note ok = server_invD(3) [OF inv b, unfolded obj_ok_def]
  have fd: "obj_fd ob' \<noteq> obj_fd ob" using open_fds_differ [OF inv a b] \<open>b \<noteq> a\<close> by auto
  have sub: "bufs_of ob' \<subseteq> others_of r a" using b \<open>b \<noteq> a\<close> by (auto simp: others_of_def)
  note same = load_same_bufs(1,2) [where a = a and l = "obj_loop ob", OF mine(1) sub] load_same_bufs(3) [OF mine(1) sub]
  have lp: "loop_ok (loop_at (obj_loop ob') ?r)"
      "io_evs (loop_at (obj_loop ob') ?r) (obj_fd ob') = io_evs (loop_at (obj_loop ob') r) (obj_fd ob')"
    using server_invD(2) [OF inv, of "obj_loop ob'"] ok mine(2) fd by (auto simp: loop_at_store loop_frame_def)
  have b': "open_at ?r b ob'" using b \<open>b \<noteq> a\<close> by (simp add: open_at_store)
  have "bufs_of ob' \<inter> bufs_of ob'' = {}" if "open_at ?r b' ob''" "b' \<noteq> b" for b' ob''
    using that sub apart open_bufs_apart [OF inv b, of b' ob''] by (cases "b' = a") (fastforce simp: open_at_store)+
  then have "bufs_of ob' \<inter> others_of ?r b = {}" by (auto simp: others_of_def)
  then have "conn_ok (others_of ?r b) (load_conn ob' ?r)"
    using pool held_split [OF b'] same(3) conn_ok_distinct [of "others_of r b" "load_conn ob' r"] ok
    by (intro conn_okI [where H = "held ?r"]) (auto simp: bufs_of_def)
  moreover have "conn_armed pollable b (load_conn ob' ?r)"
    using conn_armed_cong [of pollable b "load_conn ob' r" "load_conn ob' ?r"] ok lp same(1) by simp
  ultimately show ?thesis using ok same(2) table by (simp add: obj_ok_def fd_ok_def)
qed


lemma load_store:
  "loop_ref l r \<Longrightarrow> load_conn \<lparr>obj_fd = connfd c, obj_loop = l, obj_ibuf = ibuf c, obj_obuf = obuf c\<rparr> (store_conn a l c r) = c"
  by (simp add: load_conn_def loop_at_store)

lemma open_event:
  assumes "server_inv pollable J pending r" and "open_at r a ob"
  shows "\<exists>ev. io_evs (loop_at (obj_loop ob) r) (obj_fd ob) = Some ev" and "loop_ref (obj_loop ob) r"
    and "loop_ok (loop_at (obj_loop ob) r)"
  using server_invD(3) [OF assms] by (auto simp: obj_ok_def conn_armed_def armed_def ev_armed_def)

lemma fresh_store:
  assumes "server_inv pollable J pending r" and "open_at r a ob"
    and "loop_frame (obj_fd ob) (loop_at (obj_loop ob) r) (conn_loop c)" and "fresh_fd r fd"
  shows "fresh_fd (store_conn a (obj_loop ob) c r) fd"
proof -
  have "fd \<noteq> obj_fd ob" using open_event [OF assms(1,2)] assms(4) by (auto simp: fresh_fd_def)
  then show ?thesis using assms(3,4) by (auto simp: fresh_fd_def loop_at_store loop_frame_def)
qed

text \<open>What holds of the loops and of their events after an operation on one connection.\<close>

lemma store_events:
  assumes "server_inv pollable J pending r" and "open_at r a ob"
    and "loop_frame (obj_fd ob) (loop_at (obj_loop ob) r) (conn_loop c)"
    and "loop_ref l (store_conn a (obj_loop ob) c r)"
  shows "loop_ok (loop_at l (store_conn a (obj_loop ob) c r))"
    and "io_evs (loop_at l (store_conn a (obj_loop ob) c r)) fd = Some ev \<Longrightarrow> \<not> service_event l ev \<Longrightarrow>
      l = obj_loop ob \<and> fd = obj_fd ob \<or> (\<exists>b ob'. b \<noteq> a \<and> open_at r b ob' \<and> obj_fd ob' = fd \<and> obj_loop ob' = l)"
proof -
  have l: "loop_ref l r" using assms(4) by simp
  show "loop_ok (loop_at l (store_conn a (obj_loop ob) c r))"
    using assms(3) server_invD(2) [OF assms(1) l] by (simp add: loop_at_store loop_frame_def)
  assume ev: "io_evs (loop_at l (store_conn a (obj_loop ob) c r)) fd = Some ev" "\<not> service_event l ev"
  show "l = obj_loop ob \<and> fd = obj_fd ob \<or> (\<exists>b ob'. b \<noteq> a \<and> open_at r b ob' \<and> obj_fd ob' = fd \<and> obj_loop ob' = l)"
  proof (cases "l = obj_loop ob \<and> fd = obj_fd ob")
    case False
    then have old: "io_evs (loop_at l r) fd = Some ev"
      using ev(1) assms(3) open_event(2) [OF assms(1,2)] by (auto simp: loop_at_store loop_frame_def split: if_splits)
    obtain b ob' where b: "open_at r b ob'" "obj_fd ob' = fd" "obj_loop ob' = l"
      using server_invD(4) [OF assms(1) l old ev(2)] by blast
    have "b \<noteq> a" using b False assms(2) by (auto simp: open_at_def)
    then show ?thesis using b by blast
  qed simp
qed

lemma store_kept:
  assumes inv: "server_inv pollable J pending r" and a: "open_at r a ob"
    and c: "conn_ok (others_of r a) c" "front_in c" "same_others (others_of r a) (rbufs r) (bpool c)"
      "conn_armed pollable a c" "connfd c = obj_fd ob" "conn_tab c = tab r"
      "loop_frame (obj_fd ob) (loop_at (obj_loop ob) r) (conn_loop c)" and app: "J (open_fds r) (app c)"
  shows "server_inv pollable J pending (store_conn a (obj_loop ob) c r)"
proof -
  let ?l = "obj_loop ob"
  let ?r = "store_conn a ?l c r"
  let ?ob = "\<lparr>obj_fd = connfd c, obj_loop = ?l, obj_ibuf = ibuf c, obj_obuf = obuf c\<rparr>"
  note ok = server_invD(3) [OF inv a, unfolded obj_ok_def]
  have fd: "obj_fd ob \<noteq> - 1" using a by (simp add: open_at_def)
  have new: "open_at ?r a ?ob" using c(5) fd by (simp add: open_at_store)
  have load: "load_conn ?ob ?r = c" using load_store ok by blast
  have bufs: "bufs_of ?ob = set_option (ibuf c) \<union> set_option (obuf c)" by (simp add: bufs_of_def)
  have heldr: "held ?r = others_of r a \<union> bufs_of ?ob" using held_split [OF new] by simp
  have pool: "pool_ok (held ?r) (bpool c)" using conn_ok_bufs(2) [OF c(1)] heldr bufs by simp
  have mem: "(\<exists>ob'. open_at ?r b ob') \<longleftrightarrow> (\<exists>ob'. open_at r b ob')" for b using new a by (auto simp: open_at_store)
  have fds: "open_fds ?r = open_fds r"
  proof -
    have "(\<exists>b ob'. open_at ?r b ob' \<and> obj_fd ob' = fd') \<longleftrightarrow> (\<exists>b ob'. open_at r b ob' \<and> obj_fd ob' = fd')" for fd'
    proof
      assume "\<exists>b ob'. open_at ?r b ob' \<and> obj_fd ob' = fd'"
      then obtain b ob' where "open_at ?r b ob'" "obj_fd ob' = fd'" by blast
      then show "\<exists>b ob'. open_at r b ob' \<and> obj_fd ob' = fd'" using a c(5) by (cases "b = a") (auto simp: open_at_store)
    next
      assume "\<exists>b ob'. open_at r b ob' \<and> obj_fd ob' = fd'"
      then obtain b ob' where "open_at r b ob'" "obj_fd ob' = fd'" by blast
      then show "\<exists>b ob'. open_at ?r b ob' \<and> obj_fd ob' = fd'"
        using a new c(5) by (cases "b = a") (auto simp: open_at_store open_at_def)
    qed
    then show ?thesis by (simp add: open_fds_def)
  qed
  have "\<Union> (bufs_of ` {o'. open_at ?r a o'}) \<inter> others_of r a = {}"
    using conn_ok_bufs(1) [OF c(1)] bufs by (auto simp: open_at_store)
  note other = obj_ok_other [OF inv a _ _ c(3,7) pool this]
  have self: "obj_ok pollable ?r a ?ob" using ok c load by (simp add: obj_ok_def fd_ok_def)
  show ?thesis
  proof (rule server_invI)
    fix b ob' assume b: "open_at ?r b ob'"
    show "obj_ok pollable ?r b ob'"
    proof (cases "b = a")
      case True
      then show ?thesis using b self by (simp add: open_at_store)
    next
      case False
      then show ?thesis using other [of b ob'] b c(6) by (simp add: open_at_store)
    qed
  next
    fix l fd' ev assume ev: "loop_ref l ?r" "io_evs (loop_at l ?r) fd' = Some ev" "\<not> service_event l ev"
    show "\<exists>b ob'. open_at ?r b ob' \<and> obj_fd ob' = fd' \<and> obj_loop ob' = l"
      using store_events(2) [OF inv a c(7) ev]
    proof (elim disjE exE conjE)
      assume "l = ?l" "fd' = obj_fd ob"
      then show ?thesis using new c(5) by (intro exI [of _ a] exI [of _ ?ob]) simp
    next
      fix b ob' assume "b \<noteq> a" "open_at r b ob'" "obj_fd ob' = fd'" "obj_loop ob' = l"
      then show ?thesis by (intro exI [of _ b] exI [of _ ob']) (simp add: open_at_store)
    qed
  next
    fix fd' assume "fd' \<in> set (pending @ queued ?r)"
    then show "fd_ok pollable (tab ?r) fd' \<and> fresh_fd ?r fd'"
      using server_invD(10) [OF inv, of fd'] fresh_store [OF inv a c(7)] c(6) by simp
  next
    fix l assume "loop_ref l ?r"
    then show "loop_ok (loop_at l ?r)" by (rule store_events(1) [OF inv a c(7)])
  next
    fix x assume "x \<ge> new_addr ?r"
    then show "objs ?r x = None" using server_invD(5) [OF inv, of x] ok by auto
  qed (use server_invD(1,7,8,9) [OF inv] pool c(6) mem fds app in simp_all)
qed


text \<open>The object closed itself: it has left the table and the loop, and holds no buffer.\<close>

lemma store_closed:
  assumes inv: "server_inv pollable J pending r" and a: "open_at r a ob"
    and c: "ibuf c = None" "obuf c = None" "pool_ok (others_of r a) (bpool c)" "same_others (others_of r a) (rbufs r) (bpool c)"
      "connfd c = - 1" "conns (conn_tab c) = (conns (tab r))[nat (sint (obj_fd ob)) := None]"
      "cur_conns (conn_tab c) = cur_conns (tab r) - 1"
      "loop_frame (obj_fd ob) (loop_at (obj_loop ob) r) (conn_loop c)" "io_evs (conn_loop c) (obj_fd ob) = None"
    and app: "J (open_fds r - {obj_fd ob}) (app c)"
  shows "server_inv pollable J pending (store_conn a (obj_loop ob) c r)"
proof -
  let ?l = "obj_loop ob"
  let ?r = "store_conn a ?l c r"
  note ok = server_invD(3) [OF inv a, unfolded obj_ok_def]
  have gone: "\<not> open_at ?r a ob'" for ob' using c(5) by (simp add: open_at_store)
  have still: "open_at ?r b ob' \<longleftrightarrow> b \<noteq> a \<and> open_at r b ob'" for b ob' using c(5) by (simp add: open_at_store)
  have heldr: "held ?r = others_of r a" by (auto simp: held_def others_of_def still)
  have fds: "open_fds ?r = open_fds r - {obj_fd ob}"
    using open_fds_differ [OF inv _ a] by (auto simp: open_fds_def still) (metis a option.inject open_at_def)
  have mem: "{b. \<exists>ob'. open_at ?r b ob'} = {b. \<exists>ob'. open_at r b ob'} - {a}" by (auto simp: still)
  have "a \<in> {b. \<exists>ob'. open_at r b ob'}" using a by blast
  then have count: "int (card {b. \<exists>ob'. open_at ?r b ob'}) = int (card {b. \<exists>ob'. open_at r b ob'}) - 1"
    using server_invD(7) [OF inv] mem by (simp add: card_Diff_singleton) (metis card_gt_0_iff empty_iff mem_Collect_eq One_nat_def Suc_leI of_nat_1 of_nat_diff)
  have pool: "pool_ok (held ?r) (bpool c)" using c(3) heldr by simp
  have entry: "(conns (tab r))[nat (sint (obj_fd ob)) := None] ! nat (sint (obj_fd ob')) = conns (tab r) ! nat (sint (obj_fd ob'))"
    if "open_at r b ob'" "b \<noteq> a" for b ob'
  proof -
    have "nat (sint (obj_fd ob)) \<noteq> nat (sint (obj_fd ob'))"
      using server_invD(3) [OF inv that(1)] ok that(2) by (auto simp: obj_ok_def)
    then show ?thesis by (rule nth_list_update_neq)
  qed
  have "\<Union> (bufs_of ` {o'. open_at ?r a o'}) \<inter> others_of r a = {}" using gone by simp
  note other = obj_ok_other [OF inv a _ _ c(4,8) pool this]
  show ?thesis
  proof (rule server_invI)
    fix b ob' assume "open_at ?r b ob'"
    then have b: "open_at r b ob'" "b \<noteq> a" unfolding still by simp_all
    then show "obj_ok pollable ?r b ob'" by (intro other) (simp_all add: c(6) entry)
  next
    fix l fd' ev assume ev: "loop_ref l ?r" "io_evs (loop_at l ?r) fd' = Some ev" "\<not> service_event l ev"
    have "\<not> (l = ?l \<and> fd' = obj_fd ob)" using ev(2) c(9) open_event(2) [OF inv a] by (auto simp: loop_at_store)
    then show "\<exists>b ob'. open_at ?r b ob' \<and> obj_fd ob' = fd' \<and> obj_loop ob' = l"
      using store_events(2) [OF inv a c(8) ev] still by blast
  next
    fix fd' assume "fd' \<in> set (pending @ queued ?r)"
    then show "fd_ok pollable (tab ?r) fd' \<and> fresh_fd ?r fd'"
      using server_invD(10) [OF inv, of fd'] fresh_store [OF inv a c(8)] c(6) by (simp add: fd_ok_def)
  next
    fix l assume "loop_ref l ?r"
    then show "loop_ok (loop_at l ?r)" by (rule store_events(1) [OF inv a c(8)])
  next
    fix x assume "x \<ge> new_addr ?r"
    then show "objs ?r x = None" using server_invD(5) [OF inv, of x] ok by auto
  next
    show "cur_conns (tab ?r) = int (card {b. \<exists>ob'. open_at ?r b ob'})"
      using count server_invD(8) [OF inv] c(7) by simp
  qed (use server_invD(1,7,9) [OF inv] pool mem fds app in simp_all)
qed


subsection \<open>What one connection does in its process\<close>

text \<open>
  A connection as its object's methods keep it: armed with its own address, under its descriptor, with
  the table as it was and its loop changed at its own descriptor only.
\<close>

definition conn_live :: "(int32 \<Rightarrow> bool) \<Rightarrow> addr \<Rightarrow> int32 \<Rightarrow> conn_table \<Rightarrow> 'task io_loop \<Rightarrow> ('task, 'u) tcp_conn \<Rightarrow> bool" where
  "conn_live pollable self fd t el c \<longleftrightarrow> conn_armed pollable self c \<and> connfd c = fd \<and> conn_tab c = t \<and>
     loop_frame fd el (conn_loop c)"

lemma queue_message_loop:
  assumes "queue_message data msgid c = Inr (ret, c')"
  shows "conn_loop c' = conn_loop c" and "connfd c' = connfd c"
  using assms by (auto simp: queue_message_def res_bind_eq_Inr Let_def split: if_splits prod.splits)

lemma conn_send_message_loop:
  assumes "conn_ok others c" and "conn_send_message pollable self data msgid c = Inr (0, c')"
  shows "conn_loop c' =
    (if out_bytes c = [] then add_io_event pollable (connfd c) Conn_Wt EPOLLOUT (Some self) (conn_loop c) else conn_loop c)"
  using assms(2) queue_message_loop [of data msgid c]
  by (auto simp: conn_send_message_def rb_length_out [OF assms(1)] res_bind_eq_Inr split: if_splits)

lemma conn_live_send:
  assumes ok: "conn_ok others c" and live: "conn_live pollable self fd t el c"
    and sent: "conn_send_message pollable self data msgid c = Inr (0, c')" "armed pollable c'" "connfd c' = connfd c"
      "conn_tab c' = conn_tab c" "out_bytes c' \<noteq> []"
  shows "conn_live pollable self fd t el c'"
proof -
  note loop = conn_send_message_loop [OF ok sent(1)]
  have lp: "loop_ok (conn_loop c)" "pollable (connfd c)"
    using live by (auto simp: conn_live_def conn_armed_def armed_def ev_armed_def)
  show ?thesis
  proof (cases "out_bytes c = []")
    case True
    then have evs: "io_evs (conn_loop c') = (io_evs (conn_loop c))
        (connfd c \<mapsto> registered (connfd c) Conn_Wt EPOLLOUT (Some self) (io_evs (conn_loop c) (connfd c)))"
      using loop add_io_event_ok_eq [where pollable = pollable, OF lp, of Conn_Wt EPOLLOUT "Some self"] by simp
    obtain ev where "io_evs (conn_loop c) (connfd c) = Some ev" "rcb_args ev = Some self"
      using live by (auto simp: conn_live_def conn_armed_def armed_def ev_armed_def)
    then show ?thesis
      using live sent evs by (auto simp: conn_live_def conn_armed_def loop_frame_def registered_def set_io_callback_def
          armed_def ev_armed_def lars_defs)
  next
    case False
    then show ?thesis using live sent loop by (simp add: conn_live_def conn_armed_def)
  qed
qed

interpretation tf: stream_sender "send_to pollable self" "conn_live pollable self fd t el" app set_app
  for pollable self fd t el
proof
  fix others s m
  assume a: "conn_ok others s" "conn_live pollable self fd t el s" "int (length (out_bytes s)) + int (length (frame m)) \<le> m8M"
  then have room: "int (length (out_bytes s)) + int (length (frame (fst m, snd m))) \<le> m8M" by simp
  have "armed pollable s" using a(2) by (simp add: conn_live_def conn_armed_def)
  from conn_send_message_ok [OF a(1) this room, of self]
  show "send_to pollable self m s = Inl Exited \<or>
      (\<exists>s'. send_to pollable self m s = Inr s' \<and> conn_ok others s' \<and> conn_live pollable self fd t el s' \<and> ibuf s' = ibuf s \<and>
         buf_of (ibuf s) (bpool s') = buf_of (ibuf s) (bpool s) \<and> same_others others (bpool s) (bpool s') \<and>
         out_bytes s' = out_bytes s @ frame m \<and> app s' = app s)"
  proof (elim disjE exE conjE)
    fix s'
    assume s': "conn_send_message pollable self (snd m) (fst m) s = Inr (0, s')" "conn_ok others s'" "armed pollable s'"
      "ibuf s' = ibuf s" "buf_of (ibuf s) (bpool s') = buf_of (ibuf s) (bpool s)" "same_others others (bpool s) (bpool s')"
      "out_bytes s' = out_bytes s @ frame (fst m, snd m)" "app s' = app s" "connfd s' = connfd s" "conn_tab s' = conn_tab s"
    have "frame (fst m, snd m) \<noteq> []" by simp
    then have "conn_live pollable self fd t el s'"
      using conn_live_send [OF a(1,2) s'(1,3,9,10)] s'(7) by simp
    then show ?thesis using s' by (auto simp: send_to_def)
  qed (simp add: send_to_def)
next
  fix s rp
  assume live: "conn_live pollable self fd t el s" and out: "out_bytes (put_in_buf rp s) = out_bytes s"
  have "conn_armed pollable self (put_in_buf rp s)"
    by (rule conn_armed_cong [of pollable self s])
      (use live out in \<open>auto simp: conn_live_def conn_armed_def armed_def ev_armed_def\<close>)
  then show "conn_live pollable self fd t el (put_in_buf rp s)" using live by (simp add: conn_live_def)
qed (simp_all add: set_app_def conn_live_def conn_armed_def)

lemma loaded_live:
  assumes "server_inv pollable J pending r" and "open_at r a ob"
  shows "conn_live pollable a (obj_fd ob) (tab r) (loop_at (obj_loop ob) r) (load_conn ob r)"
    and "conn_ok (others_of r a) (load_conn ob r)" and "front_in (load_conn ob r)"
  using server_invD(3) [OF assms] open_event(3) [OF assms] by (simp_all add: obj_ok_def conn_live_def loop_frame_def)

text \<open>
  What the process is after an operation on the object at \<open>a\<close>: in order again, and every other connection
  as it was, with the bytes it holds and its event.
\<close>

definition untouched :: "addr \<Rightarrow> ('task, 'u) reactor \<Rightarrow> ('task, 'u) reactor \<Rightarrow> bool" where
  "untouched a r r' \<longleftrightarrow> (\<forall>b ob. b \<noteq> a \<longrightarrow> open_at r b ob \<longrightarrow> open_at r' b ob \<and>
     in_bytes (load_conn ob r') = in_bytes (load_conn ob r) \<and> out_bytes (load_conn ob r') = out_bytes (load_conn ob r) \<and>
     io_evs (loop_at (obj_loop ob) r') (obj_fd ob) = io_evs (loop_at (obj_loop ob) r) (obj_fd ob))"

definition moved :: "(int32 \<Rightarrow> bool) \<Rightarrow> (int32 set \<Rightarrow> 'u \<Rightarrow> bool) \<Rightarrow> int32 list \<Rightarrow> addr \<Rightarrow> ('task, 'u) reactor \<Rightarrow> ('task, 'u) reactor \<Rightarrow> bool" where
  "moved pollable J pending a r r' \<longleftrightarrow> server_inv pollable J pending r' \<and> untouched a r r'"

lemma store_untouched:
  assumes inv: "server_inv pollable J pending r" and a: "open_at r a ob"
    and c: "same_others (others_of r a) (rbufs r) (bpool c)" "loop_frame (obj_fd ob) (loop_at (obj_loop ob) r) (conn_loop c)"
  shows "untouched a r (store_conn a (obj_loop ob) c r)"
  unfolding untouched_def
proof (intro allI impI)
  fix b ob' assume b: "b \<noteq> a" "open_at r b ob'"
  then have sub: "bufs_of ob' \<subseteq> others_of r a" by (auto simp: others_of_def)
  have "obj_fd ob' \<noteq> obj_fd ob" using open_fds_differ [OF inv b(2) a b(1)] .
  then show "open_at (store_conn a (obj_loop ob) c r) b ob' \<and>
      in_bytes (load_conn ob' (store_conn a (obj_loop ob) c r)) = in_bytes (load_conn ob' r) \<and>
      out_bytes (load_conn ob' (store_conn a (obj_loop ob) c r)) = out_bytes (load_conn ob' r) \<and>
      io_evs (loop_at (obj_loop ob') (store_conn a (obj_loop ob) c r)) (obj_fd ob') = io_evs (loop_at (obj_loop ob') r) (obj_fd ob')"
    using b c(2) load_same_bufs(1,4) [OF c(1) sub] by (simp add: open_at_store loop_at_store loop_frame_def)
qed

lemma live_stored:
  assumes "server_inv pollable J pending r" and "open_at r a ob"
    and "conn_ok (others_of r a) c" "front_in c" "same_others (others_of r a) (rbufs r) (bpool c)"
    and "conn_live pollable a (obj_fd ob) (tab r) (loop_at (obj_loop ob) r) c"
    and "J (open_fds r) (app c)"
  shows "moved pollable J pending a r (store_conn a (obj_loop ob) c r)"
  using store_kept [OF assms(1-5)] store_untouched [OF assms(1,2,5)] assms(6,7) by (simp add: conn_live_def moved_def)

text \<open>
  What a server relies on in its application: the hooks leave the connection itself alone, and with \<open>J\<close>
  the application has an invariant between its state and the set of open connections that its hooks and
  callbacks keep.
\<close>

locale server_application =
  fixes J :: "int32 set \<Rightarrow> 'u \<Rightarrow> bool" and sv :: "('task, 'u, 'a) server_app"
  assumes opens: "connfd c \<notin> F \<Longrightarrow> J F (app c) \<Longrightarrow>
      \<exists>u. call_hook (conn_start sv) c = Inr (c\<lparr>app := u\<rparr>) \<and> J (insert (connfd c) F) u"
    and closes: "connfd c \<in> F \<Longrightarrow> J F (app c) \<Longrightarrow>
      \<exists>u. call_hook (conn_close sv) c = Inr (c\<lparr>app := u\<rparr>) \<and> J (F - {connfd c}) u"
    and handles: "fd \<in> F \<Longrightarrow> J F u \<Longrightarrow> J F (handler_upd (app_router sv fd) i b u)"
begin

lemma handles_all: "fd \<in> F \<Longrightarrow> J F u \<Longrightarrow> J F (updates (handler_upd (app_router sv fd)) ms u)"
proof (induction ms arbitrary: u)
  case (Cons m ms)
  show ?case using Cons.IH [OF Cons.prems(1) handles [OF Cons.prems]] by (cases m) simp
qed simp

end

lemma open_fd: "open_at r a ob \<Longrightarrow> obj_fd ob \<in> open_fds r"
  by (auto simp: open_fds_def)

lemma clean_conn_loop:
  assumes "clean_conn pollable hook c = Inr c'" and "call_hook hook c = Inr (c\<lparr>app := u\<rparr>)"
  shows "conn_loop c' = del_io_event pollable (connfd c) (conn_loop c)"
    and "cur_conns (conn_tab c') = cur_conns (conn_tab c) - 1"
  using assms by (auto simp: clean_conn_def res_bind_eq_Inr Let_def decrease_conn_def set_conn_def split: if_splits)

lemma live_cleaned:
  assumes inv: "server_inv pollable J pending r" and a: "open_at r a ob" and hook: "server_application J sv" and app: "J (open_fds r) (app c)"
    and c: "conn_ok (others_of r a) c" "conn_live pollable a (obj_fd ob) (tab r) (loop_at (obj_loop ob) r) c"
      "same_others (others_of r a) (rbufs r) (bpool c)"
  shows "\<exists>c'. clean_conn pollable (conn_close sv) c = Inr c' \<and> ibuf c' = None \<and>
    moved pollable J pending a r (store_conn a (obj_loop ob) c' r)"
proof -
  have at: "armed pollable c" "connfd c = obj_fd ob" "conn_tab c = tab r" "loop_frame (obj_fd ob) (loop_at (obj_loop ob) r) (conn_loop c)"
    using c(2) by (simp_all add: conn_live_def conn_armed_def)
  have fd: "0 \<le> sint (connfd c)" "sint (connfd c) < int (length (conns (conn_tab c)))"
    using server_invD(3) [OF inv a] at by (simp_all add: obj_ok_def fd_ok_def)
  obtain u where u: "call_hook (conn_close sv) c = Inr (c\<lparr>app := u\<rparr>)" "J (open_fds r - {connfd c}) u"
    using server_application.closes [OF hook, of c "open_fds r"] app open_fd [OF a] at(2) by metis
  obtain c' where c': "clean_conn pollable (conn_close sv) c = Inr c'" "ibuf c' = None" "obuf c' = None"
      "pool_ok (others_of r a) (bpool c')" "same_others (others_of r a) (bpool c) (bpool c')" "connfd c' = - 1"
      "conns (conn_tab c') = (conns (conn_tab c))[nat (sint (connfd c)) := None]" "app c' = u"
    using clean_conn_ok [OF c(1) at(1) u(1) fd] by blast
  note loop = clean_conn_loop [OF c'(1) u(1)]
  have lp: "loop_ok (conn_loop c)" "pollable (connfd c)" using at(1) by (simp_all add: armed_def ev_armed_def)
  have "loop_frame (obj_fd ob) (loop_at (obj_loop ob) r) (conn_loop c')" "io_evs (conn_loop c') (obj_fd ob) = None"
    using at(2,4) loop(1) del_io_event_ok_eq [where pollable = pollable, OF lp] loop_ok_del [where pollable = pollable, OF lp]
    by (simp_all add: loop_frame_def)
  then have "moved pollable J pending a r (store_conn a (obj_loop ob) c' r)"
    using store_closed [OF inv a c'(2-4) same_others_trans [OF c(3) c'(5)] c'(6)] c'(7,8) loop(2) at(2,3) u(2)
      store_untouched [OF inv a same_others_trans [OF c(3) c'(5)]] by (simp add: moved_def)
  then show ?thesis using c'(1,2) by blast
qed

subsection \<open>Reading and writing\<close>

text \<open>
  What is assumed of the answers to a read: a number of announced bytes that fits in the largest
  buffer with what is there, then as many bytes, or an error or the end of the stream; of the peer:
  that its complete messages have bodies; of the application: that its answers fit.
\<close>

definition read_ok :: "('task, 'u, 'a) server_app \<Rightarrow> sys_answers \<Rightarrow> ('task, 'u) tcp_conn \<Rightarrow> bool" where
  "read_ok sv k c \<longleftrightarrow>
     (case sys_fionread k of
        None \<Rightarrow> True
      | Some n \<Rightarrow> 0 \<le> n \<and> int (length (in_bytes c)) + n \<le> m8M \<and>
          (case sys_read k of
             Io_Bytes bs \<Rightarrow> bs = [] \<or>
               (n = int (length bs) \<and>
                (case decode (in_bytes c @ bs) of (ms, _) \<Rightarrow>
                   (\<forall>m \<in> set ms. snd m \<noteq> []) \<and>
                   int (length (out_bytes c)) +
                     int (length (replies (handler_reply (app_router sv (connfd c))) (handler_upd (app_router sv (connfd c))) ms (app c))) \<le> m8M))
           | _ \<Rightarrow> True))"

lemma rb_data_end:
  assumes "rb_ok others rb p" and "at_front rb p" and "0 \<le> n" and "int (length (rb_content rb p)) + n \<le> m8M"
    and "case got of Io_Bytes bs \<Rightarrow> bs = [] | _ \<Rightarrow> True"
  shows "read_data (Some n) got (rb, p) = Inl Exited \<or>
    (\<exists>ret rb' p'. read_data (Some n) got (rb, p) = Inr (ret, rb', p') \<and> ret \<in> {- 1, 0} \<and>
       rb_ok others rb' p' \<and> same_others others p p')"
  using make_room_ok [OF assms(1-4)] assms(5) by (cases got) (auto simp: read_data_def)

lemma live_put_in:
  assumes "server_inv pollable J pending r" and "open_at r a ob"
    and "rb_ok (others_in (others_of r a) (load_conn ob r)) rb p"
    and "same_others (others_in (others_of r a) (load_conn ob r)) (rbufs r) p"
  shows "conn_ok (others_of r a) (put_in_buf (rb, p) (load_conn ob r))"
    and "conn_live pollable a (obj_fd ob) (tab r) (loop_at (obj_loop ob) r) (put_in_buf (rb, p) (load_conn ob r))"
    and "same_others (others_of r a) (rbufs r) p"
  using conn_ok_input [OF loaded_live(2) [OF assms(1,2)] assms(3)] assms(4) tf.inv_put [OF loaded_live(1) [OF assms(1,2)]]
  by simp_all

lemma store_put_same: "put_in_buf (ibuf c, bpool c) c = c"
  by (simp add: put_in_buf_def)

lemma rd_callback_run:
  assumes "open_at r a ob"
  shows "conn_rd_callback pollable sv k (Some a) r =
    map_option (\<lambda>res. res_bind res (\<lambda>c. Inr (store_conn a (obj_loop ob) c r)))
      (do_read (conn_call pollable a (app_router sv (obj_fd ob))) (clean_conn pollable (conn_close sv)) (sys_fionread k) (sys_read k)
        (load_conn ob r))"
  using assms by (simp add: conn_rd_callback_def conn_do_read_def open_at_def)

text \<open>Nothing was read: the connection closes itself.\<close>

lemma rd_callback_end:
  assumes inv: "server_inv pollable J pending r" and a: "open_at r a ob" and hook: "server_application J sv"
    and k: "read_ok sv k (load_conn ob r)"
    and no_data: "sys_fionread k = None \<or> (case sys_read k of Io_Bytes bs \<Rightarrow> bs = [] | _ \<Rightarrow> True)"
  shows "conn_rd_callback pollable sv k (Some a) r = Some (Inl Exited) \<or>
    (\<exists>r'. conn_rd_callback pollable sv k (Some a) r = Some (Inr r') \<and> moved pollable J pending a r r')"
proof -
  let ?c = "load_conn ob r" and ?H = "others_of r a" and ?clean = "clean_conn pollable (conn_close sv)"
  note live = loaded_live [OF inv a] and run = rd_callback_run [OF a, of pollable sv k]
  have rb: "rb_ok (others_in ?H ?c) (ibuf ?c) (bpool ?c)" "at_front (ibuf ?c) (bpool ?c)"
    using live(2,3) by (simp_all only: conn_ok_def front_in_def)
  show ?thesis
  proof (cases "sys_fionread k")
    case None
    have put: "put_in_buf (obj_ibuf ob, rbufs r) ?c = ?c" using store_put_same [of ?c] unfolding load_fields .
    obtain c' where "?clean ?c = Inr c'" "moved pollable J pending a r (store_conn a (obj_loop ob) c' r)"
      using live_cleaned [OF inv a hook _ live(2,1)] server_invD(11) [OF inv] by auto
    then show ?thesis using run None by (simp add: do_read_def read_data_def put)
  next
    case (Some n)
    have n: "0 \<le> n" "int (length (rb_content (ibuf ?c) (bpool ?c))) + n \<le> m8M"
      using k Some by (simp_all add: read_ok_def in_bytes_def)
    have none: "case sys_read k of Io_Bytes bs \<Rightarrow> bs = [] | _ \<Rightarrow> True" using no_data Some by simp
    from rb_data_end [OF rb n none] show ?thesis
    proof (elim disjE exE conjE)
      fix ret rb' p'
      assume one: "read_data (Some n) (sys_read k) (ibuf ?c, bpool ?c) = Inr (ret, rb', p')"
        "ret \<in> {- 1, 0}" "rb_ok (others_in ?H ?c) rb' p'" "same_others (others_in ?H ?c) (bpool ?c) p'"
      have same: "same_others (others_in ?H ?c) (rbufs r) p'" using one(4) by simp
      note put = live_put_in [OF inv a one(3) same]
      obtain c' where "?clean (put_in_buf (rb', p') ?c) = Inr c'" "moved pollable J pending a r (store_conn a (obj_loop ob) c' r)"
        using live_cleaned [OF inv a hook _ put(1,2)] put(3) server_invD(11) [OF inv] by auto
      then show ?thesis using run Some one(1,2) by (auto simp: do_read_def)
    qed (simp add: run Some do_read_def)
  qed
qed

text \<open>Bytes were read: the complete messages are handled, and a refused length closes the connection.\<close>

lemma rd_callback_data:
  assumes inv: "server_inv pollable J pending r" and a: "open_at r a ob" and hook: "server_application J sv"
    and k: "sys_fionread k = Some (int (length bs))" "sys_read k = Io_Bytes bs" "bs \<noteq> []"
    and bs: "int (length (in_bytes (load_conn ob r))) + int (length bs) \<le> m8M"
      "decode (in_bytes (load_conn ob r) @ bs) = (ms, rest, bad)" "\<forall>m \<in> set ms. snd m \<noteq> []"
      "int (length (out_bytes (load_conn ob r))) +
        int (length (replies (handler_reply (app_router sv (obj_fd ob))) (handler_upd (app_router sv (obj_fd ob))) ms (app (load_conn ob r)))) \<le> m8M"
  shows "conn_rd_callback pollable sv k (Some a) r = Some (Inl Exited) \<or>
    (\<exists>r'. conn_rd_callback pollable sv k (Some a) r = Some (Inr r') \<and> moved pollable J pending a r r')"
proof -
  let ?c = "load_conn ob r" and ?H = "others_of r a"
  let ?call = "conn_call pollable a (app_router sv (obj_fd ob))" and ?clean = "clean_conn pollable (conn_close sv)"
  note live = loaded_live [OF inv a] and run = rd_callback_run [OF a, of pollable sv k, unfolded k]
  have app: "J (open_fds r) (updates (handler_upd (app_router sv (obj_fd ob))) ms (app ?c))"
    using server_application.handles_all [OF hook open_fd [OF a]] server_invD(11) [OF inv] by simp
  show ?thesis
  proof (cases bad)
    case False
    then have dec: "decode (in_bytes ?c @ bs) = (ms, rest, False)" using bs(2) by simp
    from tf.cb.do_read_messages [OF live(2,3,1) k(3) bs(1) dec bs(3,4), of ?clean, folded conn_call_def] show ?thesis
    proof (elim disjE exE conjE)
      fix s'
      assume "do_read ?call ?clean (Some (int (length bs))) (Io_Bytes bs) ?c = Some (Inr s')" "conn_ok ?H s'" "front_in s'"
        "conn_live pollable a (obj_fd ob) (tab r) (loop_at (obj_loop ob) r) s'" "same_others ?H (bpool ?c) (bpool s')"
        "app s' = updates (handler_upd (app_router sv (obj_fd ob))) ms (app ?c)"
      then show ?thesis using run live_stored [OF inv a] app by simp
    qed (simp add: run)
  next
    case True
    then have dec: "decode (in_bytes ?c @ bs) = (ms, rest, True)" using bs(2) by simp
    from tf.cb.do_read_bad [OF live(2,3,1) k(3) bs(1) dec bs(3,4), of ?clean, folded conn_call_def] show ?thesis
    proof (elim disjE exE conjE)
      fix s'
      assume s': "do_read ?call ?clean (Some (int (length bs))) (Io_Bytes bs) ?c =
          Some (res_bind (?clean s') (\<lambda>s. res_bind (rb_adjust (ibuf s, bpool s)) (\<lambda>rp. Inr (put_in_buf rp s))))"
        "conn_ok ?H s'" "conn_live pollable a (obj_fd ob) (tab r) (loop_at (obj_loop ob) r) s'"
        "same_others ?H (bpool ?c) (bpool s')" "app s' = updates (handler_upd (app_router sv (obj_fd ob))) ms (app ?c)"
      obtain c' where c': "?clean s' = Inr c'" "ibuf c' = None" "moved pollable J pending a r (store_conn a (obj_loop ob) c' r)"
        using live_cleaned [OF inv a hook _ s'(2,3)] s'(4,5) app by auto
      have put: "put_in_buf (None, bpool c') c' = c'" using store_put_same [of c'] c'(2) by simp
      show ?thesis using run s'(1) c' by (simp add: rb_adjust_def put)
    qed (simp add: run)
  qed
qed

lemma rd_callback_ok:
  assumes inv: "server_inv pollable J pending r" and a: "open_at r a ob" and hook: "server_application J sv"
    and k: "read_ok sv k (load_conn ob r)"
  shows "conn_rd_callback pollable sv k (Some a) r = Some (Inl Exited) \<or>
    (\<exists>r'. conn_rd_callback pollable sv k (Some a) r = Some (Inr r') \<and> moved pollable J pending a r r')"
proof (cases "sys_fionread k = None \<or> (case sys_read k of Io_Bytes bs \<Rightarrow> bs = [] | _ \<Rightarrow> True)")
  case True
  then show ?thesis by (rule rd_callback_end [OF assms])
next
  case False
  then obtain n bs where "sys_fionread k = Some n" "sys_read k = Io_Bytes bs" "bs \<noteq> []" by (auto split: io_result.splits)
  then show ?thesis
    using rd_callback_data [OF inv a hook, of k bs] k
    by (cases "decode (in_bytes (load_conn ob r) @ bs)") (auto simp: read_ok_def)
qed


text \<open>The answers to the writes of one callback: they never take more than is there.\<close>

fun writes_ok :: "io_result list \<Rightarrow> nat \<Rightarrow> bool" where
  "writes_ok [] n \<longleftrightarrow> True"
| "writes_ok (Io_Written k # ws) n \<longleftrightarrow> k \<le> n \<and> writes_ok ws (n - k)"
| "writes_ok (w # ws) n \<longleftrightarrow> True"

text \<open>One \<open>write2fd\<close>, whatever the kernel answers.\<close>

lemma write2fd_any:
  assumes "rb_ok others (Some a) p" and "at_front (Some a) p" and "writes_ok [w] (length (rb_content (Some a) p))"
  shows "\<exists>ret p'. write2fd w (Some a, p) = Inr (ret, Some a, p') \<and> rb_ok others (Some a) p' \<and> same_others others p p' \<and>
    at_front (Some a) p' \<and> rb_content (Some a) p' = drop (nat ret) (rb_content (Some a) p) \<and> - 1 \<le> ret \<and>
    (0 < ret \<longrightarrow> w = Io_Written (nat ret))"
proof (cases w)
  case (Io_Written n)
  then show ?thesis using write2fd_ok [OF assms(1,2), of n] assms(3) by fastforce
qed (use rb_ok_Some [OF assms(1)] assms(1,2) in \<open>auto simp: write2fd_def deref_def at_front_def\<close>)

lemma write_out_any:
  assumes "conn_ok others s" and "writes_ok ws (length (out_bytes s))"
  shows "\<exists>fine rp. write_out ws s = Inr (fine, put_out_buf rp s) \<and> conn_ok others (put_out_buf rp s) \<and>
    buf_of (ibuf s) (snd rp) = buf_of (ibuf s) (bpool s) \<and> same_others others (bpool s) (snd rp) \<and>
    (out_bytes (put_out_buf rp s) \<noteq> [] \<longrightarrow> out_bytes s \<noteq> []) \<and> (fine \<or> out_bytes (put_out_buf rp s) \<noteq> [])"
  using assms
proof (induction ws arbitrary: s)
  case Nil
  obtain rp where "write_out [] s = Inr (True, put_out_buf rp s)" "conn_ok others (put_out_buf rp s)"
      "buf_of (ibuf s) (snd rp) = buf_of (ibuf s) (bpool s)" "same_others others (bpool s) (snd rp)"
      "out_bytes (put_out_buf rp s) = out_bytes s"
    using write_out_ok [OF Nil.prems(1), of "[]"] by auto
  then show ?case by (intro exI [of _ True] exI [of _ rp]) simp
next
  case (Cons w ws)
  have id: "put_out_buf (obuf s, bpool s) s = s" by (simp add: put_out_buf_def)
  show ?case
  proof (cases "out_bytes s = []")
    case True
    then show ?thesis
      using Cons.prems(1) id rb_length_out [OF Cons.prems(1)]
      by (intro exI [of _ True] exI [of _ "(obuf s, bpool s)"]) (simp add: write_out.simps)
  next
    case False
    then obtain a where a: "obuf s = Some a" using content_not_None [of "obuf s" "bpool s"] by (auto simp: out_bytes_def)
    have ok: "rb_ok (others_out others s) (Some a) (bpool s)" "at_front (Some a) (bpool s)"
      using Cons.prems(1) a by (simp_all add: conn_ok_def)
    have "writes_ok [w] (length (rb_content (Some a) (bpool s)))"
      using Cons.prems(2) a by (cases w) (simp_all add: out_bytes_def)
    from write2fd_any [OF ok this] obtain ret p1 where one: "write2fd w (Some a, bpool s) = Inr (ret, Some a, p1)"
        "rb_ok (others_out others s) (Some a) p1" "same_others (others_out others s) (bpool s) p1" "at_front (Some a) p1"
        "rb_content (Some a) p1 = drop (nat ret) (rb_content (Some a) (bpool s))" "- 1 \<le> ret"
        "0 < ret \<longrightarrow> w = Io_Written (nat ret)"
      by blast
    let ?s1 = "put_out_buf (Some a, p1) s"
    note s1 = conn_ok_output [OF Cons.prems(1) one(2,4,3)]
    have out: "out_bytes ?s1 = drop (nat ret) (out_bytes s)" using one(5) a by (simp add: out_bytes_def)
    have step: "write_out (w # ws) s =
        (if ret = - 1 then Inr (False, ?s1) else if ret = 0 then Inr (True, ?s1) else write_out ws ?s1)"
      using rb_length_out [OF Cons.prems(1)] False a one(1) by (subst write_out.simps) simp
    show ?thesis
    proof (cases "0 < ret")
      case False
      then have "ret = - 1 \<or> ret = 0" using one(6) by linarith
      then have "write_out (w # ws) s = Inr (ret = 0, ?s1)" "out_bytes ?s1 = out_bytes s" using step out by auto
      then show ?thesis
        using s1 \<open>out_bytes s \<noteq> []\<close> by (intro exI [of _ "ret = 0"] exI [of _ "(Some a, p1)"]) simp
    next
      case True
      have "writes_ok ws (length (out_bytes ?s1))" using Cons.prems(2) one(7) True out by simp
      from Cons.IH [OF s1(1) this] obtain fine rp where two: "write_out ws ?s1 = Inr (fine, put_out_buf rp ?s1)"
          "conn_ok others (put_out_buf rp ?s1)" "buf_of (ibuf s) (snd rp) = buf_of (ibuf s) p1"
          "same_others others p1 (snd rp)" "fine \<or> rb_content (fst rp) (snd rp) \<noteq> []"
        unfolding put_buf_simps snd_conv bytes_put by blast
      have "put_out_buf rp ?s1 = put_out_buf rp s" by (simp add: put_out_buf_def)
      then show ?thesis
        using True step two s1(2) same_others_trans [OF s1(4) two(4)] False
        by (intro exI [of _ fine] exI [of _ rp]) simp
    qed
  qed
qed


lemma io_evs_del_mask:
  assumes "loop_ok el" and "pollable fd"
  shows "fd' \<noteq> fd \<Longrightarrow> io_evs (del_io_mask pollable fd msk el) fd' = io_evs el fd'"
    and "io_evs (del_io_mask pollable fd msk el) fd = Some ev' \<Longrightarrow>
      \<exists>ev. io_evs el fd = Some ev \<and> rcb_args ev' = rcb_args ev"
  by (auto simp: del_io_mask_def del_io_event_def Let_def split: option.splits if_splits)

lemma conn_do_write_live:
  assumes "conn_ok others c" and "conn_live pollable self fd t el c" and "front_in c"
    and "writes_ok ws (length (out_bytes c))"
  shows "\<exists>c'. conn_ok others c' \<and> conn_live pollable self fd t el c' \<and> front_in c' \<and>
    same_others others (bpool c) (bpool c') \<and> app c' = app c \<and> conn_do_write pollable hook ws c \<in> {Inr c', clean_conn pollable hook c'}"
proof -
  obtain fine rp where w: "write_out ws c = Inr (fine, put_out_buf rp c)" "conn_ok others (put_out_buf rp c)"
      "buf_of (ibuf c) (snd rp) = buf_of (ibuf c) (bpool c)" "same_others others (bpool c) (snd rp)"
      "out_bytes (put_out_buf rp c) \<noteq> [] \<longrightarrow> out_bytes c \<noteq> []" "fine \<or> out_bytes (put_out_buf rp c) \<noteq> []"
    using write_out_any [OF assms(1,4)] by blast
  let ?c = "put_out_buf rp c"
  let ?d = "?c\<lparr>conn_loop := del_io_mask pollable (connfd c) EPOLLOUT (conn_loop c)\<rparr>"
  have front: "front_in ?c" using assms(3) front_cong [OF w(3)] by (simp add: front_in_def)
  have armed: "ev_armed Conn_Rd Conn_Wt pollable (connfd c) (conn_loop c) (out_bytes c)"
    and rest: "connfd c = fd" "conn_tab c = t" "loop_frame fd el (conn_loop c)"
    and args: "\<forall>ev. io_evs (conn_loop c) fd = Some ev \<longrightarrow> rcb_args ev = Some self \<and>
      (out_bytes c \<noteq> [] \<longrightarrow> wcb_args ev = Some self)"
    using assms(2) by (auto simp: conn_live_def conn_armed_def armed_def)
  have lp: "loop_ok (conn_loop c)" "pollable fd" using armed rest(1) by (simp_all add: ev_armed_def)
  note del = io_evs_del_mask [where pollable = pollable and msk = EPOLLOUT, OF lp]
  have d: "conn_live pollable self fd t el ?d" if "out_bytes ?c = []"
    using that ev_armed_del [OF armed] rest del(1) del(2) args
    by (fastforce simp: conn_live_def conn_armed_def armed_def loop_frame_def ev_armed_def)
  have c: "conn_live pollable self fd t el ?c" if "out_bytes ?c \<noteq> [] \<or> out_bytes c = []"
    using that w(5) armed rest args by (fastforce simp: conn_live_def conn_armed_def armed_def ev_armed_def)
  have len: "rb_length (fst rp) (snd rp) = Inr (int (length (out_bytes ?c)))" using rb_length_out [OF w(2)] by simp
  show ?thesis
  proof (cases "fine \<and> out_bytes ?c = []")
    case True
    then have "conn_do_write pollable hook ws c = Inr ?d" using w(1) len by (simp add: conn_do_write_def)
    then show ?thesis using d True w(2,4) front by (intro exI [of _ ?d]) simp
  next
    case False
    then have "conn_do_write pollable hook ws c \<in> {Inr ?c, clean_conn pollable hook ?c}" and "out_bytes ?c \<noteq> []"
      using w(1,6) len by (auto simp: conn_do_write_def)
    then show ?thesis using c w(2,4) front by (intro exI [of _ ?c]) simp
  qed
qed


lemma wt_callback_ok:
  assumes inv: "server_inv pollable J pending r" and a: "open_at r a ob" and hook: "server_application J sv"
    and k: "writes_ok (sys_writes k) (length (out_bytes (load_conn ob r)))"
  shows "\<exists>r'. conn_wt_callback pollable sv k (Some a) r = Inr r' \<and> moved pollable J pending a r r'"
proof -
  let ?c = "load_conn ob r" and ?H = "others_of r a"
  note live = loaded_live [OF inv a]
  obtain c' where c': "conn_ok ?H c'" "conn_live pollable a (obj_fd ob) (tab r) (loop_at (obj_loop ob) r) c'" "front_in c'"
      "same_others ?H (rbufs r) (bpool c')" "app c' = rapp r"
      "conn_do_write pollable (conn_close sv) (sys_writes k) ?c \<in> {Inr c', clean_conn pollable (conn_close sv) c'}"
    using conn_do_write_live [OF live(2,1,3) k, of "conn_close sv"] by auto
  have obj: "objs r a = Some ob" using a by (simp add: open_at_def)
  show ?thesis
    using c'(5,6) live_stored [OF inv a c'(1,3,4,2)] live_cleaned [OF inv a hook _ c'(1,2,4)] server_invD(11) [OF inv]
    by (auto simp: conn_wt_callback_def obj)
qed

text \<open>A message the application sends on an open connection, when it fits.\<close>

definition sent_on :: "addr \<Rightarrow> conn_obj \<Rightarrow> byte list \<Rightarrow> ('task, 'u) reactor \<Rightarrow> ('task, 'u) reactor \<Rightarrow> bool" where
  "sent_on a ob bs r r' \<longleftrightarrow> tab r' = tab r \<and> rapp r' = rapp r \<and> (\<forall>b o'. open_at r' b o' \<longrightarrow> (\<exists>o''. open_at r b o'')) \<and>
     (\<exists>ob'. open_at r' a ob' \<and> obj_fd ob' = obj_fd ob \<and> obj_loop ob' = obj_loop ob \<and>
        out_bytes (load_conn ob' r') = out_bytes (load_conn ob r) @ bs)"

lemma obj_send_ok:
  assumes inv: "server_inv pollable J pending r" and a: "open_at r a ob"
    and room: "int (length (out_bytes (load_conn ob r))) + int (length (frame (msgid, data))) \<le> m8M"
  shows "obj_send_message pollable a data msgid r = Inl Exited \<or>
    (\<exists>r'. obj_send_message pollable a data msgid r = Inr (0, r') \<and> moved pollable J pending a r r' \<and>
       sent_on a ob (frame (msgid, data)) r r')"
proof -
  note live = loaded_live [OF inv a]
  have obj: "objs r a = Some ob" "obj_fd ob \<noteq> - 1" using a by (simp_all add: open_at_def)
  have "armed pollable (load_conn ob r)" using live(1) by (simp add: conn_live_def conn_armed_def)
  from conn_send_message_ok [OF live(2) this room, of a] show ?thesis
  proof (elim disjE exE conjE)
    fix c'
    assume c': "conn_send_message pollable a data msgid (load_conn ob r) = Inr (0, c')" "conn_ok (others_of r a) c'"
      "armed pollable c'" "ibuf c' = ibuf (load_conn ob r)"
      "buf_of (ibuf (load_conn ob r)) (bpool c') = buf_of (ibuf (load_conn ob r)) (bpool (load_conn ob r))"
      "same_others (others_of r a) (bpool (load_conn ob r)) (bpool c')" "out_bytes c' = out_bytes (load_conn ob r) @ frame (msgid, data)"
      "connfd c' = connfd (load_conn ob r)" "conn_tab c' = conn_tab (load_conn ob r)"
      "app c' = app (load_conn ob r)"
    let ?r = "store_conn a (obj_loop ob) c' r"
    let ?ob = "\<lparr>obj_fd = connfd c', obj_loop = obj_loop ob, obj_ibuf = ibuf c', obj_obuf = obuf c'\<rparr>"
    have ne: "out_bytes c' \<noteq> []" unfolding c'(7) by simp
    have "front_in c'" using live(3) front_cong [OF c'(5)] c'(4) by (simp add: front_in_def)
    then have "moved pollable J pending a r ?r"
      using live_stored [OF inv a c'(2)] c'(6) conn_live_send [OF live(2,1) c'(1,3,8,9) ne] c'(10)
        server_invD(11) [OF inv] by simp
    moreover have "load_conn ?ob ?r = c'" by (rule load_store [OF open_event(2) [OF inv a]])
    then have "sent_on a ob (frame (msgid, data)) r ?r"
      unfolding sent_on_def using c'(7-10) obj(2) a
      by (intro conjI exI [of _ ?ob]) (auto simp: open_at_store split: if_splits)
    ultimately show ?thesis using c'(1) by (simp add: obj_send_message_def obj)
  qed (simp add: obj_send_message_def obj)
qed

end
