(* ===== verification/Server_Run.thy ===== *)
theory Server_Run
  imports Server_Process
begin

text \<open>
  The runs of a server process (\<open>lars_reactor/src/tcp_server.cpp\<close>, \<open>thread_pool.cpp\<close>, \<open>tcp_conn.cpp\<close>,
  \<open>event_loop.cpp\<close>): from its start, any sequence of events on the loops of its threads, of messages
  and of tasks. A step is one whole callback.
\<close>

subsection \<open>Opening connections\<close>

lemma fd_ok_inj: "fd_ok pollable t fd \<Longrightarrow> fd_ok pollable t fd' \<Longrightarrow> nat (sint fd) = nat (sint fd') \<longleftrightarrow> fd = fd'"
  unfolding fd_ok_def by (auto simp: eq_nat_nat_iff intro: signed_word_eqI)

text \<open>
  The process before and after the constructor ran on a fresh descriptor: a new object at an unused
  address, its event in its loop, its entry in the table.
\<close>

definition opened :: "(int32 \<Rightarrow> bool) \<Rightarrow> int32 \<Rightarrow> nat option \<Rightarrow> ('task, 'u) reactor \<Rightarrow> ('task, 'u) reactor \<Rightarrow> bool" where
  "opened pollable fd l r r' \<longleftrightarrow>
     objs r' = (objs r)(new_addr r \<mapsto> \<lparr>obj_fd = fd, obj_loop = l, obj_ibuf = None, obj_obuf = None\<rparr>) \<and>
     new_addr r' = Suc (new_addr r) \<and> rbufs r' = rbufs r \<and> workers r' = workers r \<and> length (loops r') = length (loops r) \<and>
     tab r' = tab r\<lparr>conns := (conns (tab r))[nat (sint fd) := Some (new_addr r)], cur_conns := cur_conns (tab r) + 1\<rparr> \<and>
     (\<forall>l'. loop_at l' r' = (if l' = l then add_io_event pollable fd Conn_Rd EPOLLIN (Some (new_addr r)) (loop_at l r) else loop_at l' r))"

lemma open_conn_opened:
  assumes "server_application J sv" and "loop_ref l r" and "fd_ok pollable (tab r) fd" and "fd \<notin> F" and "J F (rapp r)"
  shows "\<exists>el r'. open_conn pollable (conn_start sv) fd l loop r = Inr (el, r') \<and>
    opened pollable fd l (put_loop l loop r) (put_loop l el r') \<and> workers r' = workers r \<and> J (insert fd F) (rapp r')"
proof -
  let ?c = "\<lparr>ibuf = None, obuf = None, bpool = rbufs r, connfd = fd, conn_loop = loop, conn_tab = tab r, app = rapp r\<rparr>"
  obtain u where u: "call_hook (conn_start sv) ?c = Inr (?c\<lparr>app := u\<rparr>)" "J (insert fd F) u"
    using server_application.opens [OF assms(1), of ?c F] assms(4,5) by auto
  let ?el = "add_io_event pollable fd Conn_Rd EPOLLIN (Some (new_addr r)) loop"
  let ?t = "tab r\<lparr>conns := (conns (tab r))[nat (sint fd) := Some (new_addr r)], cur_conns := cur_conns (tab r) + 1\<rparr>"
  let ?r = "r\<lparr>tab := ?t, rbufs := rbufs r, rapp := u, new_addr := Suc (new_addr r),
    objs := (objs r)(new_addr r \<mapsto> \<lparr>obj_fd = fd, obj_loop = l, obj_ibuf = None, obj_obuf = None\<rparr>)\<rparr>"
  have "open_conn pollable (conn_start sv) fd l loop r = Inr (?el, ?r)"
    using assms(3) u by (simp add: open_conn_def new_tcp_conn_def increase_conn_def set_conn_def fd_ok_def)
  moreover have "loop_at l' ?r = loop_at l' r" "loop_ref l' ?r = loop_ref l' r" for l'
    by (simp_all add: loop_at_def loop_ref_def cong: option.case_cong)
  then have "opened pollable fd l (put_loop l loop r) (put_loop l ?el ?r)"
    using assms(2) by (simp add: opened_def loop_at_put)
  ultimately show ?thesis using u(2) by (intro exI [of _ ?el] exI [of _ ?r]) simp
qed


lemma opened_at:
  assumes "opened pollable fd l r r'" and "objs r (new_addr r) = None"
  shows "open_at r' c ob' \<longleftrightarrow> (if c = new_addr r then ob' = \<lparr>obj_fd = fd, obj_loop = l, obj_ibuf = None, obj_obuf = None\<rparr> \<and> fd \<noteq> - 1
      else open_at r c ob')"
    and "open_at r c ob' \<Longrightarrow> c \<noteq> new_addr r"
    and "held r' = held r" and "b \<noteq> new_addr r \<Longrightarrow> others_of r' b = others_of r b" and "others_of r' (new_addr r) = held r"
proof -
  show at: "open_at r' c ob' \<longleftrightarrow> (if c = new_addr r then ob' = \<lparr>obj_fd = fd, obj_loop = l, obj_ibuf = None, obj_obuf = None\<rparr> \<and> fd \<noteq> - 1
      else open_at r c ob')" for c ob'
    using assms(1) by (auto simp: opened_def open_at_def)
  show old: "open_at r c ob' \<Longrightarrow> c \<noteq> new_addr r" for c ob' using assms(2) by (auto simp: open_at_def)
  have key: "open_at r' c ob' \<and> x \<in> bufs_of ob' \<longleftrightarrow> open_at r c ob' \<and> x \<in> bufs_of ob'" for c ob' x
    using at [of c ob'] old [of c ob'] by (auto simp: bufs_of_def split: if_splits)
  show "held r' = held r" by (simp add: held_def key)
  show "others_of r' b = others_of r b" unfolding others_of_def using key by metis
  show "others_of r' (new_addr r) = held r" unfolding others_of_def held_def using key old by metis
qed

lemma opened_others:
  assumes inv: "server_inv pollable J (fd # pending) r" and op: "opened pollable fd l r r'" and l: "loop_ref l r"
    and b: "open_at r b ob"
  shows "obj_ok pollable r' b ob"
proof -
  let ?el = "loop_at l r"
  have fresh: "fresh_fd r fd" "fd_ok pollable (tab r) fd" using server_invD(10) [OF inv, of fd] by simp_all
  have new: "objs r (new_addr r) = None" using server_invD(5) [OF inv] by simp
  note ok = server_invD(3) [OF inv b, unfolded obj_ok_def]
  obtain ev where "io_evs (loop_at (obj_loop ob) r) (obj_fd ob) = Some ev" using open_event(1) [OF inv b] by blast
  then have ne: "obj_fd ob \<noteq> fd" using fresh(1) open_event(2) [OF inv b] by (auto simp: fresh_fd_def)
  have lp: "loop_ok ?el" using server_invD(2) [OF inv l] .
  have poll: "pollable fd" using fresh(2) by (simp add: fd_ok_def)
  have evs: "loop_ok (loop_at (obj_loop ob) r')"
      "io_evs (loop_at (obj_loop ob) r') (obj_fd ob) = io_evs (loop_at (obj_loop ob) r) (obj_fd ob)"
    using op ne loop_ok_add [where pollable = pollable, OF lp poll, of EPOLLIN] add_io_event_ok_eq [where pollable = pollable, OF lp poll]
      open_event(3) [OF inv b] by (auto simp: opened_def)
  have bufs: "others_of r' b = others_of r b" "rbufs r' = rbufs r"
    using op opened_at(2,4) [OF op new] b by (simp_all add: opened_def)
  have same: "out_bytes (load_conn ob r') = out_bytes (load_conn ob r)" "front_in (load_conn ob r') = front_in (load_conn ob r)"
      "conn_ok (others_of r' b) (load_conn ob r') = conn_ok (others_of r b) (load_conn ob r)"
    using bufs by (simp_all add: out_bytes_def front_in_def conn_ok_def others_in_def others_out_def)
  have "conn_armed pollable b (load_conn ob r')"
    using conn_armed_cong [of pollable b "load_conn ob r" "load_conn ob r'"] ok evs same(1) by simp
  moreover have "nat (sint fd) \<noteq> nat (sint (obj_fd ob))" using fd_ok_inj [OF fresh(2), of "obj_fd ob"] ok ne by auto
  ultimately show ?thesis
    using ok op same(2,3) by (cases "obj_loop ob") (auto simp: obj_ok_def opened_def fd_ok_def loop_ref_def)
qed

lemma opened_self:
  assumes inv: "server_inv pollable J (fd # pending) r" and op: "opened pollable fd l r r'" and l: "loop_ref l r"
  shows "obj_ok pollable r' (new_addr r) \<lparr>obj_fd = fd, obj_loop = l, obj_ibuf = None, obj_obuf = None\<rparr>"
    and "held r' = held r"
proof -
  let ?el = "loop_at l r" and ?ob = "\<lparr>obj_fd = fd, obj_loop = l, obj_ibuf = None, obj_obuf = None\<rparr>"
  have fresh: "fresh_fd r fd" "fd_ok pollable (tab r) fd" using server_invD(10) [OF inv, of fd] by simp_all
  have new: "objs r (new_addr r) = None" using server_invD(5) [OF inv] by simp
  have lp: "loop_ok ?el" using server_invD(2) [OF inv l] .
  have poll: "pollable fd" using fresh(2) by (simp add: fd_ok_def)
  have none: "io_evs ?el fd = None" using fresh(1) l by (simp add: fresh_fd_def)
  show "held r' = held r" by (rule opened_at(3) [OF op new])
  have others: "others_of r' (new_addr r) = held r" by (rule opened_at(5) [OF op new])
  have pool: "pool_ok (held r) (rbufs r')" using server_invD(6) [OF inv] op by (simp add: opened_def)
  have "loop_ok (loop_at l r')" "io_evs (loop_at l r') fd = Some (registered fd Conn_Rd EPOLLIN (Some (new_addr r)) None)"
    using op none loop_ok_add [where pollable = pollable, OF lp poll, of EPOLLIN] io_evs_add [of pollable fd Conn_Rd EPOLLIN _ ?el]
    by (auto simp: opened_def)
  then have "conn_armed pollable (new_addr r) (load_conn ?ob r')"
    using poll by (auto simp: conn_armed_def armed_def ev_armed_def out_bytes_def rb_content_def registered_def
        set_io_callback_def lars_defs)
  moreover have "conn_ok (others_of r' (new_addr r)) (load_conn ?ob r')"
    using pool others by (intro conn_okI [where H = "held r"]) (simp_all add: at_front_def)
  moreover have "front_in (load_conn ?ob r')" by (simp add: front_in_def at_front_def)
  moreover have "nat (sint fd) < length (conns (tab r))" using fresh(2) by (auto simp: fd_ok_def)
  ultimately show "obj_ok pollable r' (new_addr r) ?ob"
    using op fresh(2) l by (cases l) (simp_all add: obj_ok_def opened_def fd_ok_def loop_ref_def)
qed


lemma opened_inv:
  assumes inv: "server_inv pollable J (fd # pending) r" and op: "opened pollable fd l r r'" and l: "loop_ref l r"
    and fd: "fd \<noteq> - 1" and app: "J (insert fd (open_fds r)) (rapp r')"
  shows "server_inv pollable J pending r'"
proof -
  let ?ob = "\<lparr>obj_fd = fd, obj_loop = l, obj_ibuf = None, obj_obuf = None\<rparr>"
  have fresh: "fresh_fd r fd" "fd_ok pollable (tab r) fd" using server_invD(10) [OF inv, of fd] by simp_all
  have new: "objs r (new_addr r) = None" using server_invD(5) [OF inv] by simp
  note at = opened_at(1,2) [OF op new] and self = opened_self [OF inv op l]
  have lp: "loop_ok (loop_at l r)" "pollable fd" using server_invD(2) [OF inv l] fresh(2) by (simp_all add: fd_ok_def)
  note el = loop_ok_add [where pollable = pollable, OF lp, of EPOLLIN] add_io_event_ok_eq [where pollable = pollable, OF lp]
  have lr: "loop_ref l' r' = loop_ref l' r" for l' using op by (cases l') (simp_all add: loop_ref_def opened_def)
  have mem: "{a. \<exists>ob. open_at r' a ob} = insert (new_addr r) {a. \<exists>ob. open_at r a ob}" using at fd by auto
  have "new_addr r \<notin> {a. \<exists>ob. open_at r a ob}" using at(2) by blast
  then have count: "int (card {a. \<exists>ob. open_at r' a ob}) = int (card {a. \<exists>ob. open_at r a ob}) + 1"
    using mem server_invD(7) [OF inv] by simp
  have newob: "open_at r' (new_addr r) ?ob" using at(1) fd by simp
  have fds: "open_fds r' = insert fd (open_fds r)"
  proof (rule set_eqI, rule iffI)
    fix x assume "x \<in> open_fds r'"
    then obtain a ob where "open_at r' a ob" "obj_fd ob = x" by (auto simp: open_fds_def)
    then show "x \<in> insert fd (open_fds r)" using at(1) open_fd [of r a ob] by (cases "a = new_addr r") auto
  next
    fix x assume "x \<in> insert fd (open_fds r)"
    then consider "x = fd" | a ob where "open_at r a ob" "obj_fd ob = x" by (auto simp: open_fds_def)
    then show "x \<in> open_fds r'"
    proof cases
      case 1
      then show ?thesis using open_fd [OF newob] by simp
    next
      case 2
      then have "open_at r' a ob" using at by simp
      then show ?thesis using open_fd [of r' a ob] 2(2) by simp
    qed
  qed
  have evs: "io_evs (loop_at l' r') fd' = io_evs (loop_at l' r) fd'" if "fd' \<noteq> fd \<or> l' \<noteq> l" for l' fd'
    using op that el(2) by (auto simp: opened_def)
  have q: "queued r' = queued r" "workers r' = workers r" "length (loops r') = length (loops r)" "tab r' =
      tab r\<lparr>conns := (conns (tab r))[nat (sint fd) := Some (new_addr r)], cur_conns := cur_conns (tab r) + 1\<rparr>"
    using op by (simp_all add: opened_def queued_def)
  show ?thesis
  proof (rule server_invI)
    fix a ob assume "open_at r' a ob"
    then show "obj_ok pollable r' a ob" using at(1) self(1) opened_others [OF inv op l] by (cases "a = new_addr r") auto
  next
    fix l' fd' ev assume ev: "loop_ref l' r'" "io_evs (loop_at l' r') fd' = Some ev" "\<not> service_event l' ev"
    show "\<exists>a ob. open_at r' a ob \<and> obj_fd ob = fd' \<and> obj_loop ob = l'"
    proof (cases "fd' = fd \<and> l' = l")
      case True
      then show ?thesis using newob by (intro exI [of _ "new_addr r"] exI [of _ ?ob]) simp
    next
      case False
      then obtain a ob where "open_at r a ob" "obj_fd ob = fd'" "obj_loop ob = l'"
        using server_invD(4) [OF inv, of l' fd' ev] ev evs lr by auto
      then show ?thesis using at by (intro exI [of _ a] exI [of _ ob]) auto
    qed
  next
    fix fd' assume fd': "fd' \<in> set (pending @ queued r')"
    then have "fd' \<noteq> fd" "fd_ok pollable (tab r) fd'" "fresh_fd r fd'"
      using server_invD(9) [OF inv] server_invD(10) [OF inv, of fd'] q(1) by auto
    then show "fd_ok pollable (tab r') fd' \<and> fresh_fd r' fd'" using q(4) evs lr by (simp add: fd_ok_def fresh_fd_def)
  next
    fix l' assume "loop_ref l' r'"
    then show "loop_ok (loop_at l' r')" using op el(1) server_invD(2) [OF inv, of l'] lr by (simp add: opened_def)
  next
    fix x assume "x \<ge> new_addr r'"
    then show "objs r' x = None" using op server_invD(5) [OF inv, of x] by (auto simp: opened_def)
  next
    show "pool_ok (held r') (rbufs r')" using self(2) server_invD(6) [OF inv] op by (simp add: opened_def)
    show "cur_conns (tab r') = int (card {a. \<exists>ob. open_at r' a ob})" using count q(4) server_invD(8) [OF inv] by simp
    show "workers_ok r'" using workers_ok_cong [OF q(2,3)] server_invD(1) [OF inv] by simp
  qed (use server_invD(7,9) [OF inv] q(1) mem fds app in simp_all)
qed

lemma fresh_not_open: "server_inv pollable J pending r \<Longrightarrow> fresh_fd r fd \<Longrightarrow> fd \<notin> open_fds r"
  using open_event(1,2) by (fastforce simp: open_fds_def fresh_fd_def)

lemma open_conn_ok:
  assumes inv: "server_inv pollable J (fd # pending) (put_loop l loop r)" and l: "loop_ref l r" and sv: "server_application J sv"
  shows "\<exists>el r'. open_conn pollable (conn_start sv) fd l loop r = Inr (el, r') \<and> workers r' = workers r \<and>
    length (loops r') = length (loops r) \<and> server_inv pollable J pending (put_loop l el r')"
proof -
  have fd: "fd_ok pollable (tab r) fd" using server_invD(10) [OF inv, of fd] by simp
  then have "fd \<noteq> - 1" by (auto simp: fd_ok_def)
  moreover have "fd \<notin> open_fds (put_loop l loop r)" using fresh_not_open [OF inv] server_invD(10) [OF inv, of fd] by simp
  moreover have "J (open_fds (put_loop l loop r)) (rapp r)" using server_invD(11) [OF inv] by simp
  ultimately obtain el r' where "open_conn pollable (conn_start sv) fd l loop r = Inr (el, r')" "workers r' = workers r"
      "opened pollable fd l (put_loop l loop r) (put_loop l el r')" "J (insert fd (open_fds (put_loop l loop r))) (rapp r')"
    using open_conn_opened [OF sv l fd] by blast
  then show ?thesis using opened_inv [OF inv, of l "put_loop l el r'"] \<open>fd \<noteq> - 1\<close> l by (auto simp: opened_def)
qed

subsection \<open>The pool and the listening socket\<close>

text \<open>Nothing of the objects changes, and the loops keep their events.\<close>

lemma server_inv_cong:
  assumes inv: "server_inv pollable J pending r"
    and same: "objs r' = objs r" "new_addr r' = new_addr r" "rbufs r' = rbufs r" "tab r' = tab r"
      "length (loops r') = length (loops r)" "rapp r' = rapp r \<or> J (open_fds r) (rapp r')"
      "\<And>l. io_evs (loop_at l r') = io_evs (loop_at l r)" "\<And>l. loop_ok (loop_at l r') = loop_ok (loop_at l r)"
    and pool: "workers_ok r'" "distinct (pending' @ queued r')"
      "\<And>fd. fd \<in> set (pending' @ queued r') \<Longrightarrow> fd \<in> set (pending @ queued r) \<or> fd_ok pollable (tab r) fd \<and> fresh_fd r fd"
  shows "server_inv pollable J pending' r'"
proof -
  have at: "open_at r' = open_at r" by (intro ext) (simp add: open_at_def same(1))
  have lr: "loop_ref l r' = loop_ref l r" for l by (cases l) (simp_all add: loop_ref_def same(5))
  have held: "held r' = held r" "others_of r' a = others_of r a" for a by (simp_all add: held_def others_of_def at)
  have fresh: "fresh_fd r' fd = fresh_fd r fd" for fd by (simp add: fresh_fd_def lr same(7))
  have view: "out_bytes (load_conn ob r') = out_bytes (load_conn ob r)" "front_in (load_conn ob r') = front_in (load_conn ob r)"
      "conn_ok H (load_conn ob r') = conn_ok H (load_conn ob r)" for ob H
    by (simp_all add: out_bytes_def front_in_def conn_ok_def others_in_def others_out_def same(3))
  have armed: "conn_armed pollable a (load_conn ob r') = conn_armed pollable a (load_conn ob r)" for a ob
    by (simp add: conn_armed_def armed_def ev_armed_def view(1) same(7,8))
  have ok: "obj_ok pollable r' = obj_ok pollable r"
    by (intro ext) (simp add: obj_ok_def same(2,4) lr armed view held)
  show ?thesis
  proof (rule server_invI)
    fix fd assume "fd \<in> set (pending' @ queued r')"
    then show "fd_ok pollable (tab r') fd \<and> fresh_fd r' fd"
      using pool(3) [of fd] server_invD(10) [OF inv, of fd] by (auto simp: same(4) fresh)
  qed (use server_invD(2-8,11) [OF inv] pool(1,2) same(6) in \<open>auto simp: at lr held same(1-5,7,8) ok open_fds_def\<close>)
qed

lemma put_loop_put: "put_loop l el (put_loop l el' r) = put_loop l el r"
  by (cases l) (simp_all add: put_loop_def)

lemma queued_put [simp]: "queued (put_loop l el r) = queued r"
  by (simp add: queued_def)

lemma deal_tasks_ok:
  assumes "server_inv pollable J (conn_fds tasks) (put_loop (Some i) loop r)" and "i < length (loops r)" and "server_application J sv"
  shows "\<exists>loop' r'. res_fold (deal_task pollable (conn_start sv) i) tasks (loop, r) = Inr (loop', r') \<and>
    server_inv pollable J [] (put_loop (Some i) loop' r') \<and> length (loops r') = length (loops r)"
  using assms(1,2)
proof (induction tasks arbitrary: loop r)
  case (Cons t ts)
  show ?case
  proof (cases t)
    case (NEW_CONN fd)
    have "server_inv pollable J (fd # conn_fds ts) (put_loop (Some i) loop r)" using Cons.prems(1) NEW_CONN by simp
    then obtain el r1 where one: "open_conn pollable (conn_start sv) fd (Some i) loop r = Inr (el, r1)"
        "length (loops r1) = length (loops r)" "server_inv pollable J (conn_fds ts) (put_loop (Some i) el r1)"
      using open_conn_ok [of pollable J fd "conn_fds ts" "Some i" loop r sv] Cons.prems(2) assms(3) by (auto simp: loop_ref_def)
    then show ?thesis using Cons.IH [OF one(3)] Cons.prems(2) NEW_CONN by simp
  next
    case (NEW_TASK func args)
    have "server_inv pollable J (conn_fds ts) (put_loop (Some i) (add_task func args loop) r)"
      by (rule server_inv_cong [OF Cons.prems(1)])
        (use server_invD(1,9) [OF Cons.prems(1)] NEW_TASK in \<open>simp_all add: loop_at_put add_task_def loop_ok_def\<close>)
    then show ?thesis using Cons.IH [of "add_task func args loop" r] Cons.prems(2) NEW_TASK by simp
  qed
qed simp

lemma concat_update:
  assumes "i < length xs"
  shows "distinct (concat xs) \<Longrightarrow> distinct (xs ! i @ concat (xs[i := []]))"
    and "set (xs ! i @ concat (xs[i := []])) = set (concat xs)"
    and "distinct (concat xs) \<Longrightarrow> x \<notin> set (concat xs) \<Longrightarrow> distinct (concat (xs[i := xs ! i @ [x]]))"
    and "set (concat (xs[i := xs ! i @ [x]])) = insert x (set (concat xs))"
proof -
  define as bs where "as = take i xs" and "bs = drop (Suc i) xs"
  have xs: "concat xs = concat as @ xs ! i @ concat bs" "\<And>y. concat (xs[i := y]) = concat as @ y @ concat bs"
    using arg_cong [OF id_take_nth_drop [OF assms], of concat] assms by (simp_all add: as_def bs_def upd_conv_take_nth_drop)
  show "distinct (concat xs) \<Longrightarrow> distinct (xs ! i @ concat (xs[i := []]))"
    "set (xs ! i @ concat (xs[i := []])) = set (concat xs)"
    "distinct (concat xs) \<Longrightarrow> x \<notin> set (concat xs) \<Longrightarrow> distinct (concat (xs[i := xs ! i @ [x]]))"
    "set (concat (xs[i := xs ! i @ [x]])) = insert x (set (concat xs))"
    unfolding xs by (auto simp del: set_concat)
qed

lemma deal_task_message_ok:
  assumes inv: "server_inv pollable J [] r" and hook: "server_application J sv" and i: "i < length (loops r)"
  shows "\<exists>r'. deal_task_message pollable (conn_start sv) i r = Inr r' \<and> server_inv pollable J [] r'"
proof -
  obtain tp where tp: "workers r = Some tp" "pool_wf tp" "length (loops r) = length (tp_queues tp)"
    using server_invD(1) [OF inv] i by (auto simp: workers_ok_def split: option.splits)
  obtain tasks q where q: "tq_recv [] (tp_queues tp ! i) = (tasks, q)" by (cases "tq_recv [] (tp_queues tp ! i)")
  have tasks: "tasks = tq_queue (tp_queues tp ! i)" "tq_queue q = []"
    using q fst_tq_recv [of "[]" "tp_queues tp ! i"] tq_queue_recv [of "[]" "tp_queues tp ! i"] by auto
  have "tq_ok q" using tq_ok_recv [of "tp_queues tp ! i"] q tp(2,3) i by (simp add: pool_wf_def)
  let ?g = "\<lambda>q. conn_fds (tq_queue q)" and ?tp = "tp\<lparr>tp_queues := (tp_queues tp)[i := q]\<rparr>"
  let ?r = "r\<lparr>workers := Some ?tp\<rparr>" and ?xs = "map (\<lambda>q. conn_fds (tq_queue q)) (tp_queues tp)"
  have qs: "queued r = concat ?xs" "queued ?r = concat (?xs[i := []])" "conn_fds tasks = ?xs ! i" "i < length ?xs"
    using tp(1,3) tasks i by (simp_all add: queued_def map_update)
  have "pool_wf ?tp" using tp(2) \<open>tq_ok q\<close> by (auto simp: pool_wf_def dest!: subsetD [OF set_update_subset_insert])
  then have wk: "workers_ok ?r" using tp(3) by (simp add: workers_ok_def)
  have "server_inv pollable J (conn_fds tasks) ?r"
    using server_invD(9) [OF inv] concat_update [OF qs(4)]
    by (intro server_inv_cong [OF inv _ _ _ _ _ _ _ _ wk]) (simp_all add: qs(1-3) loop_at_def cong: option.case_cong)
  moreover have "put_loop (Some i) (loops r ! i) ?r = ?r" by (simp add: put_loop_def)
  ultimately obtain loop' r' where "res_fold (deal_task pollable (conn_start sv) i) tasks (loops r ! i, ?r) = Inr (loop', r')"
      "server_inv pollable J [] (put_loop (Some i) loop' r')"
    using deal_tasks_ok [of pollable J tasks i "loops r ! i" ?r sv] i hook by auto
  then show ?thesis using tp i q by (auto simp: deal_task_message_def put_loop_def)
qed


text \<open>
  What is assumed of the answers to \<open>accept\<close>: a new connection has a descriptor nothing uses, which the
  table has room for, and the calls end with something else than an interruption or a lack of descriptors.
\<close>

definition accepts_ok :: "(int32 \<Rightarrow> bool) \<Rightarrow> accept_result list \<Rightarrow> ('task, 'u) reactor \<Rightarrow> bool" where
  "accepts_ok pollable as r \<longleftrightarrow>
     (\<exists>a \<in> set as. a \<noteq> Acc_EINTR \<and> a \<noteq> Acc_EMFILE) \<and>
     (\<forall>fd. Accepted fd \<in> set as \<longrightarrow> fd_ok pollable (tab r) fd \<and> fresh_fd r fd \<and> fd \<notin> set (queued r))"

lemma conn_fds_append: "conn_fds (ts @ ts') = conn_fds ts @ conn_fds ts'"
  by (induction ts rule: conn_fds.induct) simp_all

lemma accept_conn_ok:
  assumes inv: "server_inv pollable J [] r" and hook: "server_application J sv"
    and fd: "fd_ok pollable (tab r) fd" "fresh_fd r fd" "fd \<notin> set (queued r)"
  shows "\<exists>r'. accept_conn pollable (conn_start sv) fd r = Inr r' \<and> server_inv pollable J [] r'"
proof (cases "get_conn_num (tab r) \<ge> max_conns (tab r)")
  case True
  then show ?thesis using inv by (simp add: accept_conn_def)
next
  case False
  show ?thesis
  proof (cases "workers r")
    case None
    have main: "put_loop None (main_loop r) r = r" by (simp add: put_loop_def)
    have "server_inv pollable J [fd] r"
      using server_invD(1,9) [OF inv] fd by (intro server_inv_cong [OF inv]) auto
    then obtain el r' where "open_conn pollable (conn_start sv) fd None (main_loop r) r = Inr (el, r')"
        "server_inv pollable J [] (put_loop None el r')"
      using open_conn_ok [of pollable J fd "[]" None "main_loop r" r sv] hook by (auto simp: main loop_ref_def)
    then show ?thesis using None False by (simp add: accept_conn_def put_loop_def)
  next
    case (Some tp)
    have tp: "pool_wf tp" "length (loops r) = length (tp_queues tp)"
      using server_invD(1) [OF inv] Some by (simp_all add: workers_ok_def)
    obtain tp' where tp': "accept_conn pollable (conn_start sv) fd r = Inr (r\<lparr>workers := Some tp'\<rparr>)" "pool_wf tp'"
        "length (tp_queues tp') = length (tp_queues tp)"
        "\<forall>j < length (tp_queues tp). tq_queue (tp_queues tp' ! j) =
           tq_queue (tp_queues tp ! j) @ (if j = turn tp then [NEW_CONN fd] else [])"
      using accept_conn_queues [OF Some tp(1), of pollable "conn_start sv" fd] False by auto
    let ?r = "r\<lparr>workers := Some tp'\<rparr>" and ?xs = "map (\<lambda>q. conn_fds (tq_queue q)) (tp_queues tp)"
    have i: "turn tp < length ?xs" using get_thread_turn [OF tp(1)] by auto
    have "map (\<lambda>q. conn_fds (tq_queue q)) (tp_queues tp') = ?xs[turn tp := ?xs ! turn tp @ [fd]]"
      by (rule nth_equalityI) (use tp'(3,4) i in \<open>auto simp: nth_list_update conn_fds_append\<close>)
    then have qs: "queued r = concat ?xs" "queued ?r = concat (?xs[turn tp := ?xs ! turn tp @ [fd]])"
      using Some by (simp_all add: queued_def)
    have wk: "workers_ok ?r" using tp(2) tp'(2,3) by (simp add: workers_ok_def)
    have "server_inv pollable J [] ?r"
    proof (rule server_inv_cong [OF inv _ _ _ _ _ _ _ _ wk])
      show "distinct ([] @ queued ?r)" using concat_update(3) [OF i, of fd] server_invD(9) [OF inv] fd(3) qs by simp
      show "fd' \<in> set ([] @ queued r) \<or> fd_ok pollable (tab r) fd' \<and> fresh_fd r fd'" if "fd' \<in> set ([] @ queued ?r)" for fd'
        using that concat_update(4) [OF i, of fd] fd(1,2) qs by auto
    qed (simp_all add: loop_at_def cong: option.case_cong)
    then show ?thesis using tp'(1) by blast
  qed
qed

lemma accept_callback_ok:
  assumes "server_inv pollable J [] r" and "server_application J sv" and "accepts_ok pollable (sys_accepts k) r"
  shows "accept_callback pollable sv k (Some x) r = Some (Inl Exited) \<or>
    (\<exists>r'. accept_callback pollable sv k (Some x) r = Some (Inr r') \<and> server_inv pollable J [] r')"
proof -
  have "do_accept pollable (conn_start sv) as r = Some (Inl Exited) \<or>
      (\<exists>r'. do_accept pollable (conn_start sv) as r = Some (Inr r') \<and> server_inv pollable J [] r')"
    if "accepts_ok pollable as r" for as
    using that
  proof (induction as)
    case (Cons a as)
    have rest: "accepts_ok pollable as r" if "a = Acc_EINTR \<or> a = Acc_EMFILE"
      using Cons.prems that by (auto simp: accepts_ok_def)
    show ?case
    proof (cases a)
      case (Accepted fd)
      then show ?thesis
        using accept_conn_ok [OF assms(1,2), of fd] Cons.prems by (auto simp: accepts_ok_def)
    qed (use Cons.IH rest assms(1) in auto)
  qed (simp add: accepts_ok_def)
  then show ?thesis using assms(3) by (simp add: accept_callback_def)
qed

subsection \<open>Every event\<close>

text \<open>The answers that fit the callback an event calls.\<close>

definition answers_ok :: "(int32 \<Rightarrow> bool) \<Rightarrow> ('task, 'u, 'a) server_app \<Rightarrow> sys_answers \<Rightarrow> io_cb \<Rightarrow> addr option \<Rightarrow>
    ('task, 'u) reactor \<Rightarrow> bool" where
  "answers_ok pollable sv k cb args r \<longleftrightarrow>
     (case (case args of None \<Rightarrow> None | Some self \<Rightarrow> objs r self) of
        None \<Rightarrow> cb = Accept_Cb \<longrightarrow> accepts_ok pollable (sys_accepts k) r
      | Some ob \<Rightarrow>
          (cb = Conn_Rd \<longrightarrow> read_ok sv k (load_conn ob r)) \<and>
          (cb = Conn_Wt \<longrightarrow> writes_ok (sys_writes k) (length (out_bytes (load_conn ob r)))) \<and>
          (cb = Accept_Cb \<longrightarrow> accepts_ok pollable (sys_accepts k) r))"

definition event_fits :: "(int32 \<Rightarrow> bool) \<Rightarrow> ('task, 'u, 'a) server_app \<Rightarrow> sys_answers \<Rightarrow> nat option \<Rightarrow> int32 \<times> int32 \<Rightarrow>
    ('task, 'u) reactor \<Rightarrow> bool" where
  "event_fits pollable sv k l fired r \<longleftrightarrow> loop_ref l r \<and> fired_ok (loop_at l r) fired \<and>
     (case picked pollable fired (loop_at l r) of
        Inr (Some (cb, args), _) \<Rightarrow> answers_ok pollable sv k cb args r
      | _ \<Rightarrow> True)"

text \<open>The callbacks an event can call, with their arguments.\<close>

lemma picked_cases:
  assumes inv: "server_inv pollable J [] r" and l: "loop_ref l r" and fired: "fired_ok (loop_at l r) (fd, events)"
  shows "\<exists>p. picked pollable (fd, events) (loop_at l r) = Inr (p, loop_at l r) \<and>
    (case p of
       None \<Rightarrow> True
     | Some (cb, args) \<Rightarrow>
         cb \<in> {Conn_Rd, Conn_Wt} \<and> (\<exists>a ob. args = Some a \<and> open_at r a ob \<and> obj_fd ob = fd \<and> obj_loop ob = l) \<or>
         cb = Accept_Cb \<and> args \<noteq> None \<or> cb = Deal_Task \<and> l \<noteq> None \<and> args = l)"
proof -
  obtain ev where ev: "io_evs (loop_at l r) fd = Some ev"
      "events AND EPOLLIN \<noteq> 0 \<longrightarrow> ev_mask ev AND EPOLLIN \<noteq> 0" "events AND EPOLLOUT \<noteq> 0 \<longrightarrow> ev_mask ev AND EPOLLOUT \<noteq> 0"
    using fired by (auto simp: fired_ok_def split: option.splits)
  show ?thesis
  proof (cases "service_event l ev")
    case True
    then show ?thesis
      using ev by (cases l) (auto simp: picked_def dispatch_event_def service_event_def lars_defs)
  next
    case False
    obtain a ob where a: "open_at r a ob" "obj_fd ob = fd" "obj_loop ob = l"
      using server_invD(4) [OF inv l ev(1) False] by blast
    have "conn_armed pollable a (load_conn ob r)" using server_invD(3) [OF inv a(1)] by (simp add: obj_ok_def)
    then have cbs: "read_callback ev = Some Conn_Rd" "rcb_args ev = Some a"
        "ev_mask ev = EPOLLIN \<or> ev_mask ev = EPOLLIN OR EPOLLOUT \<and> write_callback ev = Some Conn_Wt \<and> wcb_args ev = Some a"
      using ev(1) a(2,3) by (auto simp: conn_armed_def armed_def ev_armed_def split: if_splits)
    then show ?thesis
      using ev a by (auto simp: picked_def dispatch_event_def lars_defs)
  qed
qed

lemma server_event_ok:
  assumes inv: "server_inv pollable J [] r" and sv: "server_application J sv"
    and fits: "event_fits pollable sv k l fired r"
  shows "server_event pollable sv k l fired r = Some (Inl Exited) \<or>
    (\<exists>r'. server_event pollable sv k l fired r = Some (Inr r') \<and> server_inv pollable J [] r')"
proof -
  obtain fd events where f: "fired = (fd, events)" by (cases fired)
  have l: "loop_ref l r" "fired_ok (loop_at l r) (fd, events)" using fits f by (simp_all add: event_fits_def)
  obtain p where p: "picked pollable fired (loop_at l r) = Inr (p, loop_at l r)"
    and cbs: "case p of None \<Rightarrow> True
     | Some (cb, args) \<Rightarrow>
         cb \<in> {Conn_Rd, Conn_Wt} \<and> (\<exists>a ob. args = Some a \<and> open_at r a ob \<and> obj_fd ob = fd \<and> obj_loop ob = l) \<or>
         cb = Accept_Cb \<and> args \<noteq> None \<or> cb = Deal_Task \<and> l \<noteq> None \<and> args = l"
    using picked_cases [OF inv l] f by blast
  show ?thesis
  proof (cases p)
    case None
    then show ?thesis using p inv by (simp add: server_event_def put_loop_same [OF l(1)])
  next
    case (Some ca)
    obtain cb args where ca: "ca = (cb, args)" by (cases ca)
    have run: "server_event pollable sv k l fired r = server_callback pollable sv k cb args r"
      using p Some ca by (simp add: server_event_def put_loop_same [OF l(1)])
    have ans: "answers_ok pollable sv k cb args r" using fits p Some ca by (simp add: event_fits_def)
    consider (conn) a ob where "cb \<in> {Conn_Rd, Conn_Wt}" "args = Some a" "open_at r a ob"
      | (accept) x where "cb = Accept_Cb" "args = Some x" | (task) i where "cb = Deal_Task" "args = Some i" "l = Some i"
      using cbs Some ca by auto
    then show ?thesis
    proof cases
      case conn
      then show ?thesis
        using ans run rd_callback_ok [OF inv conn(3) sv, of k] wt_callback_ok [OF inv conn(3) sv, of k]
        by (auto simp: server_callback_def answers_ok_def open_at_def moved_def)
    next
      case accept
      then show ?thesis
        using ans run accept_callback_ok [OF inv sv, of k x] by (auto simp: server_callback_def answers_ok_def split: option.splits)
    next
      case task
      then show ?thesis
        using run deal_task_message_ok [OF inv sv, of i] l(1) by (auto simp: server_callback_def loop_ref_def)
    qed
  qed
qed

subsection \<open>The start of a server\<close>

text \<open>
  The constructor, then the start of each worker. The workers start while the constructor is still
  running; each touches only its own queue and loop.
\<close>

definition start_server :: "(int32 \<Rightarrow> bool) \<Rightarrow> listen_env \<Rightarrow> sections \<Rightarrow> (nat \<Rightarrow> int32 option) \<Rightarrow>
    (nat \<Rightarrow> addr option) \<Rightarrow> ('task, 'u) reactor \<Rightarrow> ('task, 'u) reactor res" where
  "start_server pollable env config evfd junk r =
     res_bind (new_tcp_server pollable env config evfd junk None r) (\<lambda>r.
       res_fold (thread_main pollable) [0..<length (loops r)] r)"

text \<open>No connection has been opened or accepted.\<close>

definition idle :: "(int32 \<Rightarrow> bool) \<Rightarrow> (int32 set \<Rightarrow> 'u \<Rightarrow> bool) \<Rightarrow> ('task, 'u) reactor \<Rightarrow> bool" where
  "idle pollable J r \<longleftrightarrow> workers_ok r \<and> objs r = Map.empty \<and> cur_conns (tab r) = 0 \<and> pool_ok {} (rbufs r) \<and> J {} (rapp r) \<and>
     (\<forall>tp. workers r = Some tp \<longrightarrow> (\<forall>q \<in> set (tp_queues tp). tq_queue q = [] \<and> pollable (tq_evfd q))) \<and>
     (\<forall>l. loop_ref l r \<longrightarrow> loop_ok (loop_at l r) \<and> (\<forall>fd ev. io_evs (loop_at l r) fd = Some ev \<longrightarrow> service_event l ev))"

lemma idle_inv:
  assumes "idle pollable J r"
  shows "server_inv pollable J [] r"
proof -
  have none: "\<not> open_at r a ob" for a ob using assms by (simp add: idle_def open_at_def)
  then have "held r = {}" "open_fds r = {}" by (simp_all add: held_def open_fds_def)
  moreover have "queued r = []" using assms by (auto simp: queued_def idle_def split: option.split)
  ultimately show ?thesis
    using assms none by (intro server_invI) (auto simp: idle_def)
qed

lemma first_event:
  fixes cb :: 'c and args :: "'d option" and ev :: "('c, 'd) io_event"
  assumes "pollable fd"
  shows "loop_ok (add_io_event pollable fd cb EPOLLIN args (new_event_loop :: ('c, 'd, 't) event_loop))"
    and "io_evs (add_io_event pollable fd cb EPOLLIN args (new_event_loop :: ('c, 'd, 't) event_loop)) fd' = Some ev \<Longrightarrow>
      ev_mask ev = EPOLLIN \<and> read_callback ev = Some cb \<and> rcb_args ev = args"
proof -
  show "loop_ok (add_io_event pollable fd cb EPOLLIN args (new_event_loop :: ('c, 'd, 't) event_loop))"
    by (rule loop_ok_add) (simp_all add: assms)
  have "io_evs (add_io_event pollable fd cb EPOLLIN args (new_event_loop :: ('c, 'd, 't) event_loop)) = [fd \<mapsto> registered fd cb EPOLLIN args None]"
    by (simp add: add_io_event_ok_eq [where pollable = pollable, OF loop_ok_new assms]) (simp add: new_event_loop_def)
  moreover assume "io_evs (add_io_event pollable fd cb EPOLLIN args (new_event_loop :: ('c, 'd, 't) event_loop)) fd' = Some ev"
  ultimately show "ev_mask ev = EPOLLIN \<and> read_callback ev = Some cb \<and> rcb_args ev = args"
    by (auto simp: registered_def set_io_callback_def lars_defs split: if_splits)
qed

lemma new_queues_evfd:
  "new_queues evfd is = Inr qs \<Longrightarrow> \<forall>i fd. evfd i = Some fd \<longrightarrow> pollable fd \<Longrightarrow> \<forall>q \<in> set qs. pollable (tq_evfd q)"
  by (induction "is" arbitrary: qs) (auto simp: res_bind_eq_Inr new_thread_queue_def split: option.splits)

lemma new_tcp_server_idle:
  fixes r :: "('task, 'u) reactor"
  assumes "new_tcp_server pollable env config evfd junk None r = Inr r'"
    and "main_loop r = new_event_loop" "objs r = Map.empty" "cur_conns (tab r) = 0" "pool_ok {} (rbufs r)" "J {} (rapp r)"
    and "\<forall>fd. env_sock env = Some fd \<longrightarrow> pollable fd" and "\<forall>i fd. evfd i = Some fd \<longrightarrow> pollable fd"
  shows "idle pollable J r'"
proof -
  define n where "n = sint (GetNumber config ''reactor'' ''threadNum'' 3)"
  define m where "m = sint (GetNumber config ''reactor'' ''maxConn'' 1000)"
  obtain sock wk where w: "env_sock env = Some sock"
      "(if n > 0 then res_bind (new_thread_pool evfd n) (\<lambda>tp. Inr (Some tp)) else Inr None) = Inr wk"
      "r' = r\<lparr>workers := wk, loops := replicate (nat n) new_event_loop,
        tab := \<lparr>conns = map junk [0..<nat (m + 5 + 2 * n)], cur_conns = cur_conns (tab r), max_conns = m\<rparr>,
        main_loop := add_io_event pollable sock Accept_Cb EPOLLIN (Some 0) (main_loop r)\<rparr>"
    using assms(1) by (auto simp: new_tcp_server_def Let_def res_bind_eq_Inr n_def [symmetric] m_def [symmetric] split: option.splits if_splits)
  have poll: "pollable sock" using w(1) assms(7) by simp
  have pool: "case wk of None \<Rightarrow> n \<le> 0 | Some tp \<Rightarrow> new_thread_pool evfd n = Inr tp"
    using w(2) by (auto simp: res_bind_eq_Inr split: if_splits)
  have "workers_ok r'" using pool w(3) new_thread_pool_wf [of evfd n] by (auto simp: workers_ok_def split: option.splits)
  moreover have "\<forall>q \<in> set (tp_queues tp). tq_queue q = [] \<and> pollable (tq_evfd q)" if "wk = Some tp" for tp
  proof -
    have tp: "new_thread_pool evfd n = Inr tp" using pool that by simp
    then have "new_queues evfd [0..<nat n] = Inr (tp_queues tp)"
      by (auto simp: new_thread_pool_def res_bind_eq_Inr split: if_splits)
    then show ?thesis using new_thread_pool_wf [OF tp] new_queues_evfd [OF _ assms(8)] by blast
  qed
  moreover have "loop_ok (add_io_event pollable sock Accept_Cb EPOLLIN (Some 0) (main_loop r))"
    using first_event(1) [where pollable = pollable, OF poll] assms(2) by simp
  moreover have "loop_at l r' = (case l of None \<Rightarrow> add_io_event pollable sock Accept_Cb EPOLLIN (Some 0) (main_loop r)
      | Some i \<Rightarrow> new_event_loop)" if "loop_ref l r'" for l
    using that w(3) by (cases l) (simp_all add: loop_at_def loop_ref_def)
  moreover have "service_event None ev" if "io_evs (add_io_event pollable sock Accept_Cb EPOLLIN (Some 0) (main_loop r)) fd = Some ev" for fd ev
    using first_event(2) [where pollable = pollable, OF poll that [unfolded assms(2)]] by (simp add: service_event_def)
  ultimately show ?thesis
    using w(3) assms(3-6) by (auto simp: idle_def new_event_loop_def loop_ok_def split: option.splits)
qed

lemma thread_main_idle:
  fixes r :: "('task, 'u) reactor"
  assumes "idle pollable J r" and "i < length (loops r)"
  shows "\<exists>r'. thread_main pollable i r = Inr r' \<and> idle pollable J r' \<and> length (loops r') = length (loops r)"
proof -
  obtain tp where tp: "workers r = Some tp" "pool_wf tp" "length (loops r) = length (tp_queues tp)"
    using assms by (auto simp: idle_def workers_ok_def split: option.splits)
  let ?q = "tq_set_loop (Some i) (tp_queues tp ! i)"
  let ?el = "add_io_event pollable (tq_evfd (tp_queues tp ! i)) Deal_Task EPOLLIN (Some i) (new_event_loop :: 'task io_loop)"
  let ?r = "r\<lparr>workers := Some (tp\<lparr>tp_queues := (tp_queues tp)[i := ?q]\<rparr>), loops := (loops r)[i := ?el]\<rparr>"
  have q: "tp_queues tp ! i \<in> set (tp_queues tp)" using assms(2) tp(3) by simp
  have poll: "pollable (tq_evfd (tp_queues tp ! i))" using assms(1) tp(1) q by (auto simp: idle_def)
  have "tq_ok (tp_queues tp ! i)" using tp(2) q by (simp add: pool_wf_def)
  then have "pool_wf (tp\<lparr>tp_queues := (tp_queues tp)[i := ?q]\<rparr>)"
    using tp(2) by (auto simp: pool_wf_def tq_set_loop_def tq_ok_def dest!: subsetD [OF set_update_subset_insert])
  moreover have "\<forall>q \<in> set ((tp_queues tp)[i := ?q]). tq_queue q = [] \<and> pollable (tq_evfd q)"
    using assms(1) tp(1) q by (auto simp: idle_def tq_set_loop_def dest!: subsetD [OF set_update_subset_insert])
  moreover have "loop_ok ?el" by (rule first_event(1) [where pollable = pollable, OF poll])
  moreover have "loop_at l ?r = (if l = Some i then ?el else loop_at l r)" for l
    using assms(2) by (cases l) (simp_all add: loop_at_def)
  moreover have "service_event (Some i) ev" if "io_evs ?el fd = Some ev" for fd ev
    using first_event(2) [where pollable = pollable, OF poll that] by (simp add: service_event_def)
  moreover have "loop_ref l ?r = loop_ref l r" for l by (cases l) (simp_all add: loop_ref_def)
  ultimately have "idle pollable J ?r" using assms(1) tp by (simp add: idle_def workers_ok_def)
  moreover have "thread_main pollable i r = Inr ?r"
    using tp assms(2) by (simp add: thread_main_def tq_set_callback_def tq_set_loop_def)
  ultimately show ?thesis by auto
qed

text \<open>A server that has just been started for its application, in a process that has done nothing else.\<close>

definition server_started :: "(int32 \<Rightarrow> bool) \<Rightarrow> (int32 set \<Rightarrow> 'u \<Rightarrow> bool) \<Rightarrow> ('task, 'u, 'a) server_app \<Rightarrow> ('task, 'u) reactor \<Rightarrow> bool" where
  "server_started pollable J sv r \<longleftrightarrow> server_application J sv \<and>
     (\<exists>env config evfd junk r0. start_server pollable env config evfd junk r0 = Inr r \<and>
        main_loop r0 = new_event_loop \<and> objs r0 = Map.empty \<and> cur_conns (tab r0) = 0 \<and> pool_ok {} (rbufs r0) \<and> J {} (rapp r0) \<and>
        (\<forall>fd. env_sock env = Some fd \<longrightarrow> pollable fd) \<and> (\<forall>i fd. evfd i = Some fd \<longrightarrow> pollable fd))"

lemma started_idle:
  assumes "server_started pollable J sv r"
  shows "idle pollable J r"
proof -
  obtain env config evfd junk r0 r1 where new: "new_tcp_server pollable env config evfd junk None r0 = Inr r1"
      "res_fold (thread_main pollable) [0..<length (loops r1)] r1 = Inr r"
      "main_loop r0 = new_event_loop" "objs r0 = Map.empty" "cur_conns (tab r0) = 0" "pool_ok {} (rbufs r0)" "J {} (rapp r0)"
      "\<forall>fd. env_sock env = Some fd \<longrightarrow> pollable fd" "\<forall>i fd. evfd i = Some fd \<longrightarrow> pollable fd"
    using assms by (auto simp: server_started_def start_server_def res_bind_eq_Inr)
  let ?P = "\<lambda>r. idle pollable J r \<and> length (loops r) = length (loops r1)"
  have "?P r1" using new_tcp_server_idle [where J = J, OF new(1,3-9)] by simp
  moreover have "?P s'" if "i \<in> set [0..<length (loops r1)]" "?P s" "thread_main pollable i s = Inr s'" for i s s'
    using thread_main_idle [of pollable J s i] that by auto
  ultimately have "?P r" by (rule res_fold_invariant [OF _ _ new(2)])
  then show ?thesis by simp
qed

subsection \<open>Runs\<close>

text \<open>
  One step of the process: an event of any loop, a message sent on an open connection (by a task or a
  hook of the application), a task given to all workers, the end of a round, when the tasks that ran
  are removed, or a change another thread makes to the application's state.
\<close>

inductive server_step :: "(int32 \<Rightarrow> bool) \<Rightarrow> (int32 set \<Rightarrow> 'u \<Rightarrow> bool) \<Rightarrow> ('task, 'u, 'a) server_app \<Rightarrow>
    ('task, 'u) reactor \<Rightarrow> ('task, 'u) reactor \<Rightarrow> bool"
  for pollable :: "int32 \<Rightarrow> bool" and J :: "int32 set \<Rightarrow> 'u \<Rightarrow> bool" and sv :: "('task, 'u, 'a) server_app" where
  step_event: "event_fits pollable sv k l fired r \<Longrightarrow> server_event pollable sv k l fired r = Some (Inr r') \<Longrightarrow>
    server_step pollable J sv r r'"
| step_send: "open_at r a ob \<Longrightarrow>
    int (length (out_bytes (load_conn ob r))) + int (length (frame (msgid, data))) \<le> m8M \<Longrightarrow>
    obj_send_message pollable a data msgid r = Inr (ret, r') \<Longrightarrow> server_step pollable J sv r r'"
| step_task: "workers r = Some tp \<Longrightarrow> send_task func args tp = Inr tp' \<Longrightarrow>
    server_step pollable J sv r (r\<lparr>workers := Some tp'\<rparr>)"
| step_round: "loop_ref l r \<Longrightarrow> server_step pollable J sv r (put_loop l ((loop_at l r)\<lparr>ready_tasks := []\<rparr>) r)"
| step_app: "J (open_fds r) u \<Longrightarrow> server_step pollable J sv r (r\<lparr>rapp := u\<rparr>)"

definition serving :: "(int32 \<Rightarrow> bool) \<Rightarrow> (int32 set \<Rightarrow> 'u \<Rightarrow> bool) \<Rightarrow> ('task, 'u, 'a) server_app \<Rightarrow> ('task, 'u) reactor \<Rightarrow> bool" where
  "serving pollable J sv r \<longleftrightarrow> server_application J sv \<and> server_inv pollable J [] r"

lemma send_task_inv:
  assumes inv: "server_inv pollable J [] r" and "workers r = Some tp" and "send_task func args tp = Inr tp'"
  shows "server_inv pollable J [] (r\<lparr>workers := Some tp'\<rparr>)"
proof -
  have tp: "pool_wf tp" "length (loops r) = length (tp_queues tp)"
    using server_invD(1) [OF inv] assms(2) by (simp_all add: workers_ok_def)
  have tp': "pool_wf tp'" "length (tp_queues tp') = length (tp_queues tp)"
      "\<forall>j < length (tp_queues tp). tq_queue (tp_queues tp' ! j) = tq_queue (tp_queues tp ! j) @ [NEW_TASK func args]"
    using send_task_ok [OF tp(1), of func args] assms(3) by auto
  have "map (\<lambda>q. conn_fds (tq_queue q)) (tp_queues tp') = map (\<lambda>q. conn_fds (tq_queue q)) (tp_queues tp)"
    by (rule nth_equalityI) (use tp'(2,3) in \<open>auto simp: conn_fds_append\<close>)
  then have "queued (r\<lparr>workers := Some tp'\<rparr>) = queued r" using assms(2) by (simp add: queued_def)
  moreover have "workers_ok (r\<lparr>workers := Some tp'\<rparr>)" using tp(2) tp'(1,2) by (simp add: workers_ok_def)
  ultimately show ?thesis
    using server_invD(9) [OF inv] by (intro server_inv_cong [OF inv]) (simp_all add: loop_at_def cong: option.case_cong)
qed

lemma serving_step:
  assumes "serving pollable J sv r" and "server_step pollable J sv r r'"
  shows "serving pollable J sv r'"
proof -
  have inv: "server_inv pollable J [] r" and sv: "server_application J sv"
    using assms(1) by (simp_all add: serving_def)
  from assms(2) have "server_inv pollable J [] r'"
  proof cases
    case (step_event k l fired)
    then show ?thesis using server_event_ok [OF inv sv, of k l fired] by auto
  next
    case (step_send a ob msgid data ret)
    then show ?thesis using obj_send_ok [OF inv step_send(1,2)] by (auto simp: moved_def)
  next
    case (step_task tp func args tp')
    then show ?thesis using send_task_inv [OF inv] by blast
  next
    case (step_round l)
    have "loop_ok ((loop_at l r)\<lparr>ready_tasks := []\<rparr>) = loop_ok (loop_at l r)" by (simp add: loop_ok_def)
    then show ?thesis
      unfolding step_round(1) by (intro server_inv_cong [OF inv]) (use server_invD(1,9) [OF inv] in \<open>auto simp: loop_at_put\<close>)
  next
    case (step_app u)
    then show ?thesis
      unfolding step_app(1) by (intro server_inv_cong [OF inv])
        (use server_invD(1,9) [OF inv] in \<open>simp_all add: workers_ok_def queued_def loop_at_def cong: option.case_cong\<close>)
  qed
  then show ?thesis using sv by (simp add: serving_def)
qed

lemma started_serving: "server_started pollable J sv r \<Longrightarrow> serving pollable J sv r"
  using idle_inv [OF started_idle] by (simp add: serving_def server_started_def)

interpretation sm: op_machine "server_started pollable J sv" "server_step pollable J sv" "serving pollable J sv"
  by unfold_locales (blast intro: started_serving serving_step)+

text \<open>
  C7: In every state a server process reaches, whatever events its threads get and whatever it sends,
  its tables describe the same connections: an open connection is in the table under its descriptor,
  its loop watches it with its own callbacks and its own address, for output exactly while it has
  something to send, no two share a descriptor or a buffer, and the count of connections, which the
  limit is tested against, is the number of open ones.
\<close>

theorem server_state_sound:
  assumes "server_started pollable J sv r0" and "rtranclp (server_step pollable J sv) r0 r"
    and "open_at r a ob"
  shows "conns (tab r) ! nat (sint (obj_fd ob)) = Some a \<and>
    (\<exists>ev. io_evs (loop_at (obj_loop ob) r) (obj_fd ob) = Some ev \<and> read_callback ev = Some Conn_Rd \<and> rcb_args ev = Some a \<and>
       (ev_mask ev AND EPOLLOUT \<noteq> 0 \<longleftrightarrow> out_bytes (load_conn ob r) \<noteq> []) \<and>
       (out_bytes (load_conn ob r) \<noteq> [] \<longrightarrow> write_callback ev = Some Conn_Wt \<and> wcb_args ev = Some a)) \<and>
    (\<forall>b ob'. open_at r b ob' \<and> b \<noteq> a \<longrightarrow> obj_fd ob' \<noteq> obj_fd ob \<and> bufs_of ob' \<inter> bufs_of ob = {}) \<and>
    get_conn_num (tab r) = int (card {b. \<exists>ob'. open_at r b ob'})"
proof -
  have inv: "server_inv pollable J [] r" using sm.inv_reachable [OF assms(1,2)] by (simp add: serving_def)
  note ok = server_invD(3) [OF inv assms(3), unfolded obj_ok_def]
  have "conn_armed pollable a (load_conn ob r)" using ok by blast
  then have "\<exists>ev. io_evs (loop_at (obj_loop ob) r) (obj_fd ob) = Some ev \<and> read_callback ev = Some Conn_Rd \<and> rcb_args ev = Some a \<and>
       (ev_mask ev AND EPOLLOUT \<noteq> 0 \<longleftrightarrow> out_bytes (load_conn ob r) \<noteq> []) \<and>
       (out_bytes (load_conn ob r) \<noteq> [] \<longrightarrow> write_callback ev = Some Conn_Wt \<and> wcb_args ev = Some a)"
    by (auto simp: conn_armed_def armed_def ev_armed_def lars_defs)
  moreover have "\<forall>b ob'. open_at r b ob' \<and> b \<noteq> a \<longrightarrow> obj_fd ob' \<noteq> obj_fd ob \<and> bufs_of ob' \<inter> bufs_of ob = {}"
    using open_fds_differ [OF inv _ assms(3)] open_bufs_apart [OF inv _ assms(3)] by blast
  ultimately show ?thesis using ok server_invD(8) [OF inv] unfolding get_conn_num_def by blast
qed

text \<open>
  C6: No event makes a running server fail: in every state it reaches, a reported event of any of its
  loops, whatever fitting answers the kernel gives to the calls its callback makes, is handled to the
  end, with no failed assertion, no access to a deleted object or outside an array and no endless
  loop, and the server is in a reachable state again; the only other outcome is its own \<open>exit\<close> when
  memory runs out or \<open>accept\<close> fails.
\<close>

theorem server_never_faults:
  assumes "server_started pollable J sv r0" and "rtranclp (server_step pollable J sv) r0 r"
    and "event_fits pollable sv k l fired r"
  shows "server_event pollable sv k l fired r = Some (Inl Exited) \<or>
    (\<exists>r'. server_event pollable sv k l fired r = Some (Inr r') \<and> rtranclp (server_step pollable J sv) r0 r')"
proof -
  have "serving pollable J sv r" by (rule sm.inv_reachable [OF assms(1,2)])
  then have "server_event pollable sv k l fired r = Some (Inl Exited) \<or>
      (\<exists>r'. server_event pollable sv k l fired r = Some (Inr r') \<and> server_inv pollable J [] r')"
    by (intro server_event_ok assms(3)) (simp_all add: serving_def)
  then show ?thesis using step_event [OF assms(3)] assms(2) by (metis rtranclp.rtrancl_into_rtrancl)
qed

text \<open>
  C16: Connections do not interfere: when an event of one connection is handled, by reading, with all the
  callbacks of the messages that came, or by writing, every other open connection is still open, with
  the bytes it has received and the bytes it has to send as they were, and its event unchanged; this
  holds although all of them share the buffer pool and, on one worker, the loop.
\<close>

theorem connections_do_not_interfere:
  assumes "server_started pollable J sv r0" and "rtranclp (server_step pollable J sv) r0 r"
    and "open_at r a ob" and "open_at r b ob'" and "b \<noteq> a"
    and "cb = Conn_Rd \<and> read_ok sv k (load_conn ob r) \<or>
      cb = Conn_Wt \<and> writes_ok (sys_writes k) (length (out_bytes (load_conn ob r)))"
    and "server_callback pollable sv k cb (Some a) r = Some (Inr r')"
  shows "open_at r' b ob' \<and> in_bytes (load_conn ob' r') = in_bytes (load_conn ob' r) \<and>
    out_bytes (load_conn ob' r') = out_bytes (load_conn ob' r) \<and>
    io_evs (loop_at (obj_loop ob') r') (obj_fd ob') = io_evs (loop_at (obj_loop ob') r) (obj_fd ob')"
proof -
  have "serving pollable J sv r" by (rule sm.inv_reachable [OF assms(1,2)])
  then have inv: "server_inv pollable J [] r" "server_application J sv" by (simp_all add: serving_def)
  have "moved pollable J [] a r r'"
    using rd_callback_ok [OF inv(1) assms(3) inv(2), of k] wt_callback_ok [OF inv(1) assms(3) inv(2), of k] assms(6,7)
    by (auto simp: server_callback_def)
  then show ?thesis using assms(4,5) unfolding moved_def untouched_def by blast
qed

subsection \<open>A concrete server\<close>

text \<open>The echo server without worker threads, started on descriptor 3; descriptors 5 and 6 connect.\<close>

definition ex_config :: sections where
  "ex_config = [''reactor'' \<mapsto> [''threadNum'' \<mapsto> ''0'', ''maxConn'' \<mapsto> ''10'']]"

definition ex_app :: "(nat, unit, unit) server_app" where
  "ex_app = \<lparr>conn_start = None, conn_close = None, app_router = (\<lambda>_. echo_router)\<rparr>"

definition ex_before :: "'u \<Rightarrow> (nat, 'u) reactor" where
  "ex_before u = \<lparr>main_loop = new_event_loop, loops = [], workers = None, tab = \<lparr>conns = [], cur_conns = 0, max_conns = 0\<rparr>,
     rbufs = ex_pool Map.empty, rapp = u, objs = Map.empty, new_addr = 0\<rparr>"

definition ex_loop :: "int32 list \<Rightarrow> nat io_loop" where
  "ex_loop fds = fold (\<lambda>(i, fd). add_io_event (\<lambda>_. True) fd Conn_Rd EPOLLIN (Some i)) (List.enumerate 0 fds)
     (add_io_event (\<lambda>_. True) 3 Accept_Cb EPOLLIN (Some 0) new_event_loop)"

definition ex_conns :: "'u \<Rightarrow> int32 list \<Rightarrow> (nat, 'u) reactor" where
  "ex_conns u fds = (ex_before u)\<lparr>main_loop := ex_loop fds, new_addr := length fds,
     tab := \<lparr>conns = fold (\<lambda>(i, fd) t. t[nat (sint fd) := Some i]) (List.enumerate 0 fds) (replicate 15 None),
       cur_conns = int (length fds), max_conns = 10\<rparr>,
     objs := (\<lambda>a. if a < length fds then Some \<lparr>obj_fd = fds ! a, obj_loop = None, obj_ibuf = None, obj_obuf = None\<rparr> else None)\<rparr>"

lemma ex_descriptors:
  "GetNumber ex_config ''reactor'' ''threadNum'' 3 = 0" "GetNumber ex_config ''reactor'' ''maxConn'' 1000 = 10"
  by code_simp+

lemma ex_application: "server_application (\<lambda>_ _. True) ex_app"
proof
  show "\<exists>u. call_hook (conn_start ex_app) c = Inr (c\<lparr>app := u\<rparr>) \<and> True"
    "\<exists>u. call_hook (conn_close ex_app) c = Inr (c\<lparr>app := u\<rparr>) \<and> True" for c :: "(nat, unit) tcp_conn"
    by (intro exI [of _ "app c"]; simp add: ex_app_def)+
qed simp

lemma ex_start:
  "start_server (\<lambda>_. True) \<lparr>env_sock = Some 3, env_bind = True, env_listen = True\<rparr> ex_config (\<lambda>_. None) (\<lambda>_. None) (ex_before u) =
    Inr (ex_conns u [])"
  by (simp add: start_server_def new_tcp_server_def ex_descriptors ex_conns_def ex_loop_def ex_before_def map_replicate_const)

lemma ex_started:
  assumes "server_application J sv" and "J {} u"
  shows "server_started (\<lambda>_. True) J sv (ex_conns u [])"
proof -
  have "pool_ok {} (ex_pool Map.empty)" by (rule ex_pool_ok) auto
  then have "main_loop (ex_before u) = new_event_loop \<and> objs (ex_before u) = Map.empty \<and> cur_conns (tab (ex_before u)) = 0 \<and>
      pool_ok {} (rbufs (ex_before u)) \<and> J {} (rapp (ex_before u))"
    using assms(2) by (simp add: ex_before_def)
  then show ?thesis unfolding server_started_def using assms(1) ex_start [of u] by blast
qed

definition ex_answers :: sys_answers where
  "ex_answers = \<lparr>sys_fionread = None, sys_read = Io_Again, sys_writes = [], sys_accepts = []\<rparr>"

lemma ex_picked:
  "picked (\<lambda>_. True) (3, EPOLLIN) (ex_loop []) = Inr (Some (Accept_Cb, Some 0), ex_loop [])"
  "picked (\<lambda>_. True) (3, EPOLLIN) (ex_loop [5]) = Inr (Some (Accept_Cb, Some 0), ex_loop [5])"
  "picked (\<lambda>_. True) (5, EPOLLIN) (ex_loop [5, 6]) = Inr (Some (Conn_Rd, Some 0), ex_loop [5, 6])"
  "fired_ok (ex_loop []) (3, EPOLLIN)" "fired_ok (ex_loop [5]) (3, EPOLLIN)" "fired_ok (ex_loop [5, 6]) (5, EPOLLIN)"
  by (simp_all add: picked_def dispatch_event_def fired_ok_def ex_loop_def add_io_event_def new_event_loop_def
      set_io_callback_def new_io_event_def lars_defs Let_def)

lemma ex_loop_at: "loop_at None (ex_conns u fds) = ex_loop fds" "loop_ref l (ex_conns u fds) = (l = None)"
    "put_loop None (ex_loop fds) (ex_conns u fds) = ex_conns u fds"
  by (cases l; simp add: loop_at_def loop_ref_def put_loop_def ex_conns_def ex_before_def)+

text \<open>The next connection, with a hook that changes the application's state from \<open>u\<close> to \<open>u'\<close>.\<close>

lemma ex_accepted:
  assumes "\<And>c. connfd c = fd \<Longrightarrow> app c = u \<Longrightarrow> call_hook hook c = Inr (c\<lparr>app := u'\<rparr>)" and "fds = [] \<and> fd = 5 \<or> fds = [5] \<and> fd = 6"
  shows "accept_conn (\<lambda>_. True) hook fd (ex_conns u fds) = Inr (ex_conns u' (fds @ [fd]))"
  using assms(2) by (auto simp: accept_conn_def get_conn_num_def open_conn_def new_tcp_conn_def assms(1) increase_conn_def set_conn_def
      ex_conns_def ex_before_def ex_loop_def fun_eq_iff less_Suc_eq)

lemma ex_fresh: "fd_ok (\<lambda>_. True) (tab (ex_conns u fds)) fd \<longleftrightarrow> 0 \<le> sint fd \<and> sint fd < 15" "queued (ex_conns u fds) = []"
    "fresh_fd (ex_conns u fds) fd \<longleftrightarrow> io_evs (ex_loop fds) fd = None"
proof -
  have "length (conns (tab (ex_conns u fds))) = 15"
  proof -
    have "length (fold (\<lambda>(i, fd) t. t[nat (sint (fd :: int32)) := Some (i :: nat)]) xs t) = length t" for xs t
      by (induction xs arbitrary: t) auto
    then show ?thesis by (simp add: ex_conns_def)
  qed
  then show "fd_ok (\<lambda>_. True) (tab (ex_conns u fds)) fd \<longleftrightarrow> 0 \<le> sint fd \<and> sint fd < 15" by (simp add: fd_ok_def)
  show "queued (ex_conns u fds) = []" by (simp add: queued_def ex_conns_def ex_before_def)
  show "fresh_fd (ex_conns u fds) fd \<longleftrightarrow> io_evs (ex_loop fds) fd = None" by (simp add: fresh_fd_def ex_loop_at)
qed

lemma ex_step:
  assumes "\<And>c. connfd c = fd \<Longrightarrow> app c = u \<Longrightarrow> call_hook (conn_start sv) c = Inr (c\<lparr>app := u'\<rparr>)" and "fds = [] \<and> fd = 5 \<or> fds = [5] \<and> fd = 6"
  shows "server_step (\<lambda>_. True) J sv (ex_conns u fds) (ex_conns u' (fds @ [fd]))"
proof (rule step_event)
  let ?k = "ex_answers\<lparr>sys_accepts := [Accepted fd]\<rparr>"
  have "accepts_ok (\<lambda>_. True) (sys_accepts ?k) (ex_conns u fds)"
    using assms(2) by (auto simp: accepts_ok_def ex_fresh ex_loop_def add_io_event_def new_event_loop_def Let_def)
  then have "answers_ok (\<lambda>_. True) sv ?k Accept_Cb (Some 0) (ex_conns u fds)"
    by (simp add: answers_ok_def split: option.split)
  then show "event_fits (\<lambda>_. True) sv ?k None (3, EPOLLIN) (ex_conns u fds)"
    using assms(2) ex_picked by (auto simp: event_fits_def ex_loop_at)
  have "picked (\<lambda>_. True) (3, EPOLLIN) (ex_loop fds) = Inr (Some (Accept_Cb, Some 0), ex_loop fds)" using assms(2) ex_picked by auto
  then show "server_event (\<lambda>_. True) sv ?k None (3, EPOLLIN) (ex_conns u fds) = Some (Inr (ex_conns u' (fds @ [fd])))"
    using ex_accepted [of fd u "conn_start sv" u' fds] assms by (simp add: server_event_def server_callback_def accept_callback_def ex_loop_at)
qed

lemma ex_run: "rtranclp (server_step (\<lambda>_. True) (\<lambda>_ _. True) ex_app) (ex_conns () []) (ex_conns () [5, 6])"
proof -
  have "call_hook (conn_start ex_app) c = Inr (c\<lparr>app := ()\<rparr>)" for c :: "(nat, unit) tcp_conn" by (simp add: ex_app_def)
  then show ?thesis
    using ex_step [of 5 "()" ex_app "()" "[]"] ex_step [of 6 "()" ex_app "()" "[5]"] by (intro rtranclp.rtrancl_into_rtrancl [OF r_into_rtranclp]) simp_all
qed

lemma ex_open:
  "open_at (ex_conns u (5 # fds)) 0 \<lparr>obj_fd = 5, obj_loop = None, obj_ibuf = None, obj_obuf = None\<rparr>"
  "open_at (ex_conns u [5, 6]) 1 \<lparr>obj_fd = 6, obj_loop = None, obj_ibuf = None, obj_obuf = None\<rparr>"
  by (simp_all add: open_at_def ex_conns_def)

text \<open>What the connections of the example hold: nothing yet.\<close>

lemma ex_bytes:
  "out_bytes (load_conn \<lparr>obj_fd = fd, obj_loop = None, obj_ibuf = None, obj_obuf = None\<rparr> r) = []"
  "in_bytes (load_conn \<lparr>obj_fd = fd, obj_loop = None, obj_ibuf = None, obj_obuf = None\<rparr> r) = []"
  by (simp_all add: out_bytes_def in_bytes_def rb_content_def)

theorem server_state_sound_witness:
  "conns (tab (ex_conns () [5, 6])) ! 6 = Some 1 \<and> get_conn_num (tab (ex_conns () [5, 6])) = int (card {b. \<exists>ob. open_at (ex_conns () [5, 6]) b ob})"
  using server_state_sound [OF ex_started [OF ex_application TrueI] ex_run ex_open(2)] by simp

theorem server_never_faults_witness:
  "\<exists>k. sys_read k = Io_Bytes (frame (3, [1, 2])) \<and>
    (server_event (\<lambda>_. True) ex_app k None (5, EPOLLIN) (ex_conns () [5, 6]) = Some (Inl Exited) \<or>
     (\<exists>r'. server_event (\<lambda>_. True) ex_app k None (5, EPOLLIN) (ex_conns () [5, 6]) = Some (Inr r')))"
proof -
  let ?k = "ex_answers\<lparr>sys_fionread := Some 10, sys_read := Io_Bytes (frame (3, [1, 2]))\<rparr>"
  have "decode (frame (3, [1, 2])) = ([(3, [1, 2])], [], False)"
    using decode_frames [of "[(3, [1, 2])]" "[]"] by (simp add: decode_short lars_defs)
  then have "read_ok ex_app ?k (load_conn \<lparr>obj_fd = 5, obj_loop = None, obj_ibuf = None, obj_obuf = None\<rparr> (ex_conns () [5, 6]))"
    by (simp add: read_ok_def ex_bytes ex_app_def handler_reply_def handled_echo m8M_def)
  moreover have "objs (ex_conns () [5, 6]) 0 = Some \<lparr>obj_fd = 5, obj_loop = None, obj_ibuf = None, obj_obuf = None\<rparr>"
    using ex_open(1) by (simp add: open_at_def)
  ultimately have "answers_ok (\<lambda>_. True) ex_app ?k Conn_Rd (Some 0) (ex_conns () [5, 6])" by (simp add: answers_ok_def)
  then have "event_fits (\<lambda>_. True) ex_app ?k None (5, EPOLLIN) (ex_conns () [5, 6])"
    using ex_picked by (simp add: event_fits_def ex_loop_at)
  from server_never_faults [OF ex_started [OF ex_application TrueI] ex_run this] show ?thesis by (intro exI [of _ ?k]) auto
qed

theorem connections_do_not_interfere_witness:
  "\<exists>r'. server_callback (\<lambda>_. True) ex_app ex_answers Conn_Wt (Some 0) (ex_conns () [5, 6]) = Some (Inr r') \<and>
    open_at r' 1 \<lparr>obj_fd = 6, obj_loop = None, obj_ibuf = None, obj_obuf = None\<rparr>"
proof -
  let ?ob = "\<lparr>obj_fd = 5, obj_loop = None, obj_ibuf = None, obj_obuf = None\<rparr>"
  have inv: "server_inv (\<lambda>_. True) (\<lambda>_ _. True) [] (ex_conns () [5, 6])" using sm.inv_reachable [OF ex_started [OF ex_application TrueI] ex_run] by (simp add: serving_def)
  have ws: "writes_ok (sys_writes ex_answers) (length (out_bytes (load_conn ?ob (ex_conns () [5, 6]))))" by (simp add: ex_answers_def)
  obtain r' where "conn_wt_callback (\<lambda>_. True) ex_app ex_answers (Some 0) (ex_conns () [5, 6]) = Inr r'"
    using wt_callback_ok [OF inv ex_open(1) ex_application ws] by blast
  then have run: "server_callback (\<lambda>_. True) ex_app ex_answers Conn_Wt (Some 0) (ex_conns () [5, 6]) = Some (Inr r')"
    by (simp add: server_callback_def)
  then show ?thesis
    using connections_do_not_interfere [OF ex_started [OF ex_application TrueI] ex_run ex_open, of Conn_Wt ex_answers r'] ws by auto
qed

end
