(* ===== verification/Dns_Route.thy ===== *)
theory Dns_Route
  imports Config_File
begin

text \<open>
  \<open>Route\<close> (\<open>lars_dns/src/dns_route.cpp\<close>): the table from modid/cmdid to hosts that the DNS service
  answers from, loaded from MySQL into one of two maps and swapped in whole, and the backend thread
  that watches the version number. The MySQL client is a parameter: \<open>query\<close> runs a statement text on
  a database state and gives the rows or one of the two ways to fail.
\<close>

subsection \<open>The database client\<close>

type_synonym row = "string list"

datatype query_result =
    Query_Failed       \<comment> \<open>\<open>mysql_real_query\<close> returns non-zero\<close>
  | Store_Failed       \<comment> \<open>\<open>mysql_store_result\<close> returns null\<close>
  | Rows "row list"

type_synonym 'db client = "string \<Rightarrow> 'db \<Rightarrow> query_result \<times> 'db"

text \<open>
  The buffer \<open>_sql\<close> of 1000 bytes: \<open>snprintf\<close> writes the text and a zero over its front and leaves the
  rest. \<open>strlen(_sql)\<close> bytes are the text; \<open>sizeof(_sql)\<close> bytes are the whole buffer.
\<close>

definition nul :: char where "nul = CHR 0x00"

definition snprintf_sql :: "nat \<Rightarrow> string \<Rightarrow> string \<Rightarrow> string" where
  "snprintf_sql cap txt buf = (let t = take (cap - 1) txt in t @ [nul] @ drop (length t + 1) buf)"

definition strlen_sql :: "string \<Rightarrow> string" where
  "strlen_sql buf = takeWhile (\<lambda>c. c \<noteq> nul) buf"

text \<open>\<open>%ld\<close>, and \<open>atoi\<close>, \<open>atol\<close>: \<open>strtol\<close> with the result cut to the type.\<close>

fun show_nat :: "nat \<Rightarrow> string" where
  "show_nat n = (if n < 10 then [char_of (48 + n)] else show_nat (n div 10) @ [char_of (48 + n mod 10)])"

declare show_nat.simps [simp del]

definition show_long :: "int \<Rightarrow> string" where
  "show_long v = (if v < 0 then CHR ''-'' # show_nat (nat (- v)) else show_nat (nat v))"

definition strtol :: "string \<Rightarrow> int" where
  "strtol s = max (- (2 ^ 63)) (min (2 ^ 63 - 1) (read_int s))"

definition atoi :: "string \<Rightarrow> int32" where
  "atoi s = word_of_int (strtol s)"

text \<open>A column of a row; a column the row does not have is outside the array.\<close>

definition col :: "row \<Rightarrow> nat \<Rightarrow> string res" where
  "col row i = (if i < length row then Inr (row ! i) else Inl Out_Of_Bounds)"

subsection \<open>The route table\<close>

text \<open>The hosts of a key are a hash set; they are walked in an order \<open>ord\<close> that nothing fixes.\<close>

type_synonym host_set = "uint64 set"
type_synonym route_map = "uint64 \<rightharpoonup> host_set"

record route =
  data_map :: route_map
  temp_map :: route_map
  version :: int
  sql :: string

definition add_host :: "uint64 \<Rightarrow> uint64 \<Rightarrow> route_map \<Rightarrow> route_map" where
  "add_host key v m = m(key \<mapsto> insert v (case m key of None \<Rightarrow> {} | Some s \<Rightarrow> s))"

text \<open>One row of \<open>RouteData\<close> (\<open>id, modid, cmdid, serverip, serverport\<close>) put into a map.\<close>

definition load_row :: "row \<Rightarrow> route_map \<Rightarrow> route_map res" where
  "load_row row m =
     res_bind (col row 1) (\<lambda>c1. res_bind (col row 2) (\<lambda>c2.
     res_bind (col row 3) (\<lambda>c3. res_bind (col row 4) (\<lambda>c4.
       (let modid = atoi c1; cmdid = atoi c2; ip = atoi c3; port = atoi c4
        in Inr (add_host (pack64 modid cmdid) (pack64 ip port) m))))))"

definition connect_db :: "(string \<Rightarrow> string \<Rightarrow> string \<Rightarrow> string \<Rightarrow> 16 word \<Rightarrow> 'db option) \<Rightarrow> sections \<Rightarrow> 'db res" where
  "connect_db real_connect c =
     (let db_host = GetString c ''mysql'' ''db_host'' ''127.0.0.1'';
          db_port = ucast (GetNumber c ''mysql'' ''db_port'' 3306);
          db_user = GetString c ''mysql'' ''db_user'' ''root'';
          db_passwd = GetString c ''mysql'' ''db_passwd'' ''passwd'';
          db_name = GetString c ''mysql'' ''db_name'' ''lars_dns''
      in case real_connect db_host db_user db_passwd db_name db_port of
           None \<Rightarrow> Inl Exited
         | Some db \<Rightarrow> Inr db)"

definition select_routes :: string where
  "select_routes = ''SELECT * FROM RouteData;''"

text \<open>\<open>build_maps\<close> does not look at what \<open>mysql_store_result\<close> returns.\<close>

definition build_maps :: "'db client \<Rightarrow> route \<times> 'db \<Rightarrow> (route \<times> 'db) res" where
  "build_maps query s =
     (case s of (r, db) \<Rightarrow>
        (let buf = snprintf_sql 1000 select_routes (sql r); r = r\<lparr>sql := buf\<rparr>
         in case query (strlen_sql buf) db of
              (Query_Failed, db) \<Rightarrow> Inl Exited
            | (Store_Failed, db) \<Rightarrow> Inl Null_Deref
            | (Rows rows, db) \<Rightarrow>
                res_bind (res_fold load_row rows (data_map r)) (\<lambda>m. Inr (r\<lparr>data_map := m\<rparr>, db))))"

text \<open>The constructor, run once by the first \<open>instance()\<close>; the buffer starts with whatever is there.\<close>

definition new_route :: "(string \<Rightarrow> string \<Rightarrow> string \<Rightarrow> string \<Rightarrow> 16 word \<Rightarrow> 'db option) \<Rightarrow> 'db client \<Rightarrow>
    sections \<Rightarrow> string \<Rightarrow> (route \<times> 'db) res" where
  "new_route real_connect query c garbage =
     res_bind (connect_db real_connect c) (\<lambda>db.
       build_maps query (\<lparr>data_map = Map.empty, temp_map = Map.empty, version = 0, sql = garbage\<rparr>, db))"

definition route_get_hosts :: "route \<Rightarrow> int32 \<Rightarrow> int32 \<Rightarrow> host_set" where
  "route_get_hosts r modid cmdid = (case data_map r (pack64 modid cmdid) of None \<Rightarrow> {} | Some hosts \<Rightarrow> hosts)"

definition select_version :: string where
  "select_version = ''SELECT version from RouteVersion WHERE id = 1;''"

definition load_version :: "'db client \<Rightarrow> route \<times> 'db \<Rightarrow> (int \<times> route \<times> 'db) res" where
  "load_version query s =
     (case s of (r, db) \<Rightarrow>
        (let buf = snprintf_sql 1000 select_version (sql r); r = r\<lparr>sql := buf\<rparr>
         in case query (strlen_sql buf) db of
              (Query_Failed, db) \<Rightarrow> Inr (- 1, r, db)
            | (Store_Failed, db) \<Rightarrow> Inr (- 1, r, db)
            | (Rows [], db) \<Rightarrow> Inr (- 1, r, db)
            | (Rows (row # _), db) \<Rightarrow>
                res_bind (col row 0) (\<lambda>c0.
                  (let new_version = strtol c0 in
                   if new_version = version r then Inr (0, r, db)
                   else Inr (1, r\<lparr>version := new_version\<rparr>, db)))))"

definition load_route_data :: "'db client \<Rightarrow> route \<times> 'db \<Rightarrow> (int \<times> route \<times> 'db) res" where
  "load_route_data query s =
     (case s of (r, db) \<Rightarrow>
        (let buf = snprintf_sql 100 select_routes (sql r);
             r = r\<lparr>temp_map := Map.empty, sql := buf\<rparr>
         in case query (strlen_sql buf) db of
              (Query_Failed, db) \<Rightarrow> Inr (- 1, r, db)
            | (Store_Failed, db) \<Rightarrow> Inr (- 1, r, db)
            | (Rows rows, db) \<Rightarrow>
                res_bind (res_fold load_row rows (temp_map r)) (\<lambda>m. Inr (0, r\<lparr>temp_map := m\<rparr>, db))))"

definition swap :: "route \<Rightarrow> route" where
  "swap r = r\<lparr>data_map := temp_map r, temp_map := data_map r\<rparr>"

text \<open>\<open>load_changes\<close> passes \<open>sizeof(_sql)\<close>: the statement followed by the rest of the buffer.\<close>

definition select_changes :: "int \<Rightarrow> string" where
  "select_changes v = ''SELECT modid,cmdid FROM RouteChange WHERE version <= '' @ show_long v @ '';''"

definition change_key :: "row \<Rightarrow> uint64 list \<Rightarrow> uint64 list res" where
  "change_key row ks =
     res_bind (col row 0) (\<lambda>c0. res_bind (col row 1) (\<lambda>c1. Inr (ks @ [pack64 (atoi c0) (atoi c1)])))"

definition load_changes :: "'db client \<Rightarrow> uint64 list \<Rightarrow> route \<times> 'db \<Rightarrow> (uint64 list \<times> route \<times> 'db) res" where
  "load_changes query change_list s =
     (case s of (r, db) \<Rightarrow>
        (let buf = snprintf_sql 1000 (select_changes (version r)) (sql r); r = r\<lparr>sql := buf\<rparr>
         in case query buf db of
              (Query_Failed, db) \<Rightarrow> Inr (change_list, r, db)
            | (Store_Failed, db) \<Rightarrow> Inr (change_list, r, db)
            | (Rows rows, db) \<Rightarrow> res_bind (res_fold change_key rows change_list) (\<lambda>ks. Inr (ks, r, db))))"

definition delete_changes :: "int \<Rightarrow> string" where
  "delete_changes v = ''DELETE FROM RouteChange WHERE version <= '' @ show_long v @ '';''"

definition remove_changes :: "'db client \<Rightarrow> bool \<Rightarrow> route \<times> 'db \<Rightarrow> route \<times> 'db" where
  "remove_changes query remove_all s =
     (case s of (r, db) \<Rightarrow>
        (let buf = snprintf_sql 1000
               (if \<not> remove_all then delete_changes (version r) else ''DELETE FROM RouteChange;'') (sql r)
         in (r\<lparr>sql := buf\<rparr>, snd (query (strlen_sql buf) db))))"

subsection \<open>The backend thread\<close>

text \<open>
  One turn of the loop of \<open>check_route_changes\<close>; \<open>publish\<close> is what \<open>SubscribeList::publish\<close> does to the
  rest of the service's state.
\<close>

definition check_route_turn :: "'db client \<Rightarrow> (uint64 list \<Rightarrow> 'p \<Rightarrow> 'p) \<Rightarrow> int \<Rightarrow>
    int \<times> 'p \<times> route \<times> 'db \<Rightarrow> (int \<times> 'p \<times> route \<times> 'db) res" where
  "check_route_turn query publish current_time s =
     (case s of (last_load_time, p, rdb) \<Rightarrow>
        res_bind (load_version query rdb) (\<lambda>(ret, rdb).
          if ret = 1 then
            res_bind (load_route_data query rdb) (\<lambda>(ret, r, db).
              (let last_load_time = (if ret = 0 then current_time else last_load_time);
                   r = (if ret = 0 then swap r else r)
               in res_bind (load_changes query [] (r, db)) (\<lambda>(changes, rdb).
                    Inr (last_load_time, publish changes p, remove_changes query False rdb))))
          else if current_time - last_load_time \<ge> 10 then
            res_bind (load_route_data query rdb) (\<lambda>(ret, r, db).
              if ret = 0 then Inr (current_time, p, swap r, db) else Inr (last_load_time, p, r, db))
          else Inr (last_load_time, p, rdb)))"

fun check_route_changes :: "'db client \<Rightarrow> (uint64 list \<Rightarrow> 'p \<Rightarrow> 'p) \<Rightarrow> int list \<Rightarrow>
    int \<times> 'p \<times> route \<times> 'db \<Rightarrow> (int \<times> 'p \<times> route \<times> 'db) res" where
  "check_route_changes query publish [] s = Inr s"
| "check_route_changes query publish (t # ts) s =
     res_bind (check_route_turn query publish t s) (check_route_changes query publish ts)"

definition start_route_checker :: "'db client \<Rightarrow> int \<Rightarrow> 'p \<times> route \<times> 'db \<Rightarrow> int \<times> 'p \<times> route \<times> 'db" where
  "start_route_checker query start_time s =
     (case s of (p, rdb) \<Rightarrow> (start_time, p, remove_changes query True rdb))"

subsection \<open>Statement texts\<close>

lemma strlen_snprintf:
  assumes "nul \<notin> set txt" and "length txt < cap"
  shows "strlen_sql (snprintf_sql cap txt buf) = txt"
  using assms by (simp add: strlen_sql_def snprintf_sql_def Let_def takeWhile_tail)
    (metis (mono_tags, lifting) takeWhile_append2 append.right_neutral takeWhile.simps(1))

lemma select_texts [simp]:
  "strlen_sql (snprintf_sql 1000 select_routes buf) = select_routes"
  "strlen_sql (snprintf_sql 100 select_routes buf) = select_routes"
  "strlen_sql (snprintf_sql 1000 select_version buf) = select_version"
  by (rule strlen_snprintf; simp add: select_routes_def select_version_def nul_def)+

lemma digit_not_nul: "d < 10 \<Longrightarrow> char_of (48 + d :: nat) \<noteq> nul"
proof
  assume "d < 10" and eq: "char_of (48 + d :: nat) = nul"
  then have "(of_char (char_of (48 + d :: nat)) :: nat) = of_char nul" by simp
  then show False using \<open>d < 10\<close> by (simp add: nul_def)
qed

lemma show_nat_no_nul: "nul \<notin> set (show_nat n)"
proof (induction n rule: show_nat.induct)
  case (1 n)
  then show ?case
    using digit_not_nul [of n] digit_not_nul [of "n mod 10"]
    by (subst show_nat.simps) auto
qed

lemma length_show_nat: "n < 10 ^ Suc k \<Longrightarrow> length (show_nat n) \<le> Suc k"
proof (induction k arbitrary: n)
  case 0
  then show ?case by (subst show_nat.simps) simp
next
  case (Suc k)
  then have "n div 10 < 10 ^ Suc k" by (simp add: less_mult_imp_div_less mult.commute)
  then show ?case using Suc.IH [of "n div 10"] by (subst show_nat.simps) simp
qed

lemma strtol_bounds: "- (2 ^ 63) \<le> strtol s" "strtol s < 2 ^ 63"
  by (auto simp: strtol_def)

lemma length_show_long: "- (2 ^ 63) \<le> v \<Longrightarrow> v < 2 ^ 63 \<Longrightarrow> length (show_long v) \<le> 20"
proof -
  assume "- (2 ^ 63) \<le> v" and "v < 2 ^ 63"
  then have "nat v < 10 ^ Suc 18" "nat (- v) < 10 ^ Suc 18" by simp_all
  from this [THEN length_show_nat] show ?thesis by (auto simp: show_long_def)
qed

lemma show_long_no_nul: "nul \<notin> set (show_long v)"
  using show_nat_no_nul by (auto simp: show_long_def nul_def)

lemma length_select_changes:
  assumes "- (2 ^ 63) \<le> v" and "v < 2 ^ 63"
  shows "length (select_changes v) < 1000"
  using length_show_long [OF assms] by (simp add: select_changes_def)

lemma change_texts:
  assumes "- (2 ^ 63) \<le> v" and "v < 2 ^ 63"
  shows "strlen_sql (snprintf_sql 1000 (select_changes v) buf) = select_changes v"
    and "strlen_sql (snprintf_sql 1000 (delete_changes v) buf) = delete_changes v"
proof -
  have "nul \<notin> set (select_changes v)" "nul \<notin> set (delete_changes v)"
    using show_long_no_nul [of v] by (simp_all add: select_changes_def delete_changes_def nul_def)
  moreover have "length (select_changes v) < 1000" "length (delete_changes v) < 1000"
    using length_show_long [OF assms] by (simp_all add: select_changes_def delete_changes_def)
  ultimately show "strlen_sql (snprintf_sql 1000 (select_changes v) buf) = select_changes v"
    "strlen_sql (snprintf_sql 1000 (delete_changes v) buf) = delete_changes v"
    by (auto intro: strlen_snprintf)
qed

subsection \<open>The table a load builds\<close>

definition row_key :: "row \<Rightarrow> uint64" where
  "row_key row = pack64 (atoi (row ! 1)) (atoi (row ! 2))"

definition row_host :: "row \<Rightarrow> uint64" where
  "row_host row = pack64 (atoi (row ! 3)) (atoi (row ! 4))"

definition hosts_in :: "route_map \<Rightarrow> uint64 \<Rightarrow> host_set" where
  "hosts_in m k = (case m k of None \<Rightarrow> {} | Some s \<Rightarrow> s)"

lemma load_rows:
  assumes "\<forall>row \<in> set rows. 5 \<le> length row"
  shows "res_fold load_row rows m = Inr (fold (\<lambda>row. add_host (row_key row) (row_host row)) rows m)"
  using assms
proof (induction rows arbitrary: m)
  case (Cons row rows)
  then have "load_row row m = Inr (add_host (row_key row) (row_host row) m)"
    by (simp add: load_row_def col_def row_key_def row_host_def Let_def)
  then show ?case using Cons by simp
qed simp

lemma hosts_in_fold:
  "hosts_in (fold (\<lambda>row. add_host (row_key row) (row_host row)) rows m) k =
    hosts_in m k \<union> {row_host row | row. row \<in> set rows \<and> row_key row = k}"
proof (induction rows arbitrary: m)
  case (Cons row rows)
  have "hosts_in (add_host (row_key row) (row_host row) m) k =
      hosts_in m k \<union> (if row_key row = k then {row_host row} else {})"
    by (simp add: hosts_in_def add_host_def split: option.split)
  then show ?case using Cons [of "add_host (row_key row) (row_host row) m"] by auto
qed simp

definition table_hosts :: "row list \<Rightarrow> int32 \<Rightarrow> int32 \<Rightarrow> host_set" where
  "table_hosts rows modid cmdid = {pack64 (atoi (row ! 3)) (atoi (row ! 4)) | row.
     row \<in> set rows \<and> atoi (row ! 1) = modid \<and> atoi (row ! 2) = cmdid}"

lemma load_route_data_rows:
  assumes "query select_routes db = (Rows rows, db')" and "\<forall>row \<in> set rows. 5 \<le> length row"
  shows "\<exists>r'. load_route_data query (r, db) = Inr (0, r', db') \<and> data_map r' = data_map r \<and>
    version r' = version r \<and> (\<forall>modid cmdid. route_get_hosts (swap r') modid cmdid = table_hosts rows modid cmdid)"
proof -
  let ?m = "fold (\<lambda>row. add_host (row_key row) (row_host row)) rows Map.empty"
  have "hosts_in ?m (pack64 modid cmdid) = table_hosts rows modid cmdid" for modid cmdid
    unfolding hosts_in_fold by (auto simp: hosts_in_def table_hosts_def row_key_def row_host_def)
  then show ?thesis
    using assms(1) load_rows [OF assms(2), of Map.empty]
    by (simp add: load_route_data_def Let_def route_get_hosts_def swap_def hosts_in_def)
qed

lemma load_route_data_fails:
  assumes "query select_routes db = (res, db')" and "\<forall>rows. res \<noteq> Rows rows"
  shows "\<exists>r'. load_route_data query (r, db) = Inr (- 1, r', db') \<and> data_map r' = data_map r \<and> version r' = version r"
  using assms by (cases res) (simp_all add: load_route_data_def Let_def)

text \<open>The text each step leaves in the shared buffer.\<close>

lemma load_version_keeps:
  "load_version query (r, db) = Inr (ret, r', db') \<Longrightarrow>
    data_map r' = data_map r \<and> sql r' = snprintf_sql 1000 select_version (sql r)"
  by (auto simp: load_version_def Let_def res_bind_eq_Inr split: prod.splits query_result.splits list.splits if_splits)

lemma load_route_data_sql:
  "load_route_data query (r, db) = Inr (ret, r', db') \<Longrightarrow> sql r' = snprintf_sql 100 select_routes (sql r)"
  by (auto simp: load_route_data_def Let_def res_bind_eq_Inr split: prod.splits query_result.splits)

lemma swap_sel: "sql (swap r) = sql r" "version (swap r) = version r"
  by (simp_all add: swap_def)

lemma route_get_hosts_cong: "data_map r' = data_map r \<Longrightarrow> route_get_hosts r' = route_get_hosts r"
  by (simp add: route_get_hosts_def fun_eq_iff)

text \<open>
  C22: Reloading reads the whole table and shows it at once, or not at all. Whatever the database answers to
  the question for the table, lookups are answered from the old table until the swap. When it answers with
  rows, the load succeeds and after the swap lookups get exactly the hosts of the rows of the pair, negative
  identifiers included; when the query or the storing of its result fails, the load reports it. In a turn of
  the backend thread that finds no new version and is due, the first outcome replaces the table and the time
  of the last load, and the second leaves both, so the next turn tries again.
\<close>

theorem reload_is_atomic:
  assumes "query select_routes db = (res, db')" and "\<forall>rows. res = Rows rows \<longrightarrow> (\<forall>row \<in> set rows. 5 \<le> length row)"
    and "load_version query (r0, db0) = Inr (new, r, db)" and "new \<noteq> 1" and "10 \<le> now - t0"
  shows "\<exists>ret r'. load_route_data query (r, db) = Inr (ret, r', db') \<and> route_get_hosts r' = route_get_hosts r \<and>
    version r' = version r \<and>
    (case res of Rows rows \<Rightarrow> ret = 0 \<and> route_get_hosts (swap r') = table_hosts rows | _ \<Rightarrow> ret = - 1) \<and>
    (\<exists>r''. check_route_turn query publish now (t0, p, r0, db0) = Inr (case res of Rows _ \<Rightarrow> now | _ \<Rightarrow> t0, p, r'', db') \<and>
       route_get_hosts r'' = (case res of Rows rows \<Rightarrow> table_hosts rows | _ \<Rightarrow> route_get_hosts r0))"
proof (cases "\<exists>rows. res = Rows rows")
  case True
  then obtain rows where rows: "res = Rows rows" by blast
  then have "\<exists>r'. load_route_data query (r, db) = Inr (0, r', db') \<and> data_map r' = data_map r \<and> version r' = version r \<and>
      (\<forall>modid cmdid. route_get_hosts (swap r') modid cmdid = table_hosts rows modid cmdid)"
    using load_route_data_rows [where query = query, of db rows db' r] assms(1,2) by blast
  then obtain r' where r': "load_route_data query (r, db) = Inr (0, r', db')" "data_map r' = data_map r" "version r' = version r"
      "route_get_hosts (swap r') = table_hosts rows"
    by (auto simp: fun_eq_iff)
  then have "check_route_turn query publish now (t0, p, r0, db0) = Inr (now, p, swap r', db')"
    using assms(3-5) by (simp add: check_route_turn_def)
  then show ?thesis
    using r' rows route_get_hosts_cong [OF r'(2)] by (intro exI [of _ 0] exI [of _ r'] conjI exI [of _ "swap r'"]) auto
next
  case False
  then obtain r' where r': "load_route_data query (r, db) = Inr (- 1, r', db')" "data_map r' = data_map r" "version r' = version r"
    using load_route_data_fails [where query = query, OF assms(1)] by blast
  then have "check_route_turn query publish now (t0, p, r0, db0) = Inr (t0, p, r', db')"
    using assms(3-5) by (simp add: check_route_turn_def)
  moreover have "route_get_hosts r' = route_get_hosts r" "route_get_hosts r' = route_get_hosts r0"
    using r'(2) load_version_keeps [OF assms(3)] by (auto intro: route_get_hosts_cong)
  ultimately show ?thesis using r' False by (cases res) auto
qed

subsection \<open>A turn of the backend thread\<close>

definition change_keys :: "row list \<Rightarrow> uint64 list" where
  "change_keys rows = map (\<lambda>row. pack64 (atoi (row ! 0)) (atoi (row ! 1))) rows"

lemma change_key_rows:
  assumes "\<forall>row \<in> set rows. 2 \<le> length row"
  shows "res_fold change_key rows ks = Inr (ks @ change_keys rows)"
  using assms
proof (induction rows arbitrary: ks)
  case (Cons row rows)
  have "Suc 0 < length row" "0 < length row" using Cons.prems by auto
  then show ?case using Cons by (simp add: change_key_def col_def change_keys_def)
qed (simp add: change_keys_def)

lemma load_version_new:
  assumes "query select_version db = (Rows ([v] # vs), db)" and "strtol v \<noteq> version r"
  shows "\<exists>r'. load_version query (r, db) = Inr (1, r', db) \<and> data_map r' = data_map r \<and> version r' = strtol v"
  using assms by (simp add: load_version_def Let_def col_def)

lemma load_version_same:
  assumes "query select_version db = (Rows ([v] # vs), db)" and "strtol v = version r"
  shows "\<exists>r'. load_version query (r, db) = Inr (0, r', db) \<and> data_map r' = data_map r \<and> version r' = version r"
  using assms by (simp add: load_version_def Let_def col_def)

text \<open>
  What \<open>load_changes\<close> hands to the server in a turn: all 1000 bytes of the buffer, which are the statement, its
  zero, and behind them what the two statements before it and the memory of the object left.
\<close>

definition changes_buffer :: "int \<Rightarrow> string \<Rightarrow> string" where
  "changes_buffer v buf =
     snprintf_sql 1000 (select_changes v) (snprintf_sql 100 select_routes (snprintf_sql 1000 select_version buf))"

lemma length_snprintf: "length txt < cap \<Longrightarrow> cap \<le> length buf \<Longrightarrow> length (snprintf_sql cap txt buf) = length buf"
  by (simp add: snprintf_sql_def Let_def)

lemma nul_in_snprintf: "nul \<in> set (snprintf_sql cap txt buf)"
  by (simp add: snprintf_sql_def Let_def)

lemma changes_buffer_text:
  "strlen_sql (changes_buffer (strtol v) buf) = select_changes (strtol v) \<and>
    (length buf = 1000 \<longrightarrow> length (changes_buffer (strtol v) buf) = 1000)"
  using change_texts(1) [OF strtol_bounds] length_select_changes [OF strtol_bounds]
  by (simp add: changes_buffer_def length_snprintf select_routes_def select_version_def)

text \<open>The keys a turn publishes: those of the rows, none when the server refuses the buffer.\<close>

definition answered_keys :: "query_result \<Rightarrow> uint64 list" where
  "answered_keys res = (case res of Rows rows \<Rightarrow> change_keys rows | _ \<Rightarrow> [])"

lemma load_changes_answer:
  assumes "query (snprintf_sql 1000 (select_changes (version r)) (sql r)) db = (res, db)"
    and "\<forall>rows. res = Rows rows \<longrightarrow> (\<forall>row \<in> set rows. 2 \<le> length row)"
  shows "\<exists>r'. load_changes query [] (r, db) = Inr (answered_keys res, r', db) \<and> data_map r' = data_map r \<and>
    version r' = version r"
  using assms change_key_rows [of _ "[]"] by (cases res) (simp_all add: load_changes_def Let_def answered_keys_def)

lemma remove_changes_eq:
  assumes "- (2 ^ 63) \<le> version r" and "version r < 2 ^ 63"
  shows "\<exists>r'. remove_changes query False (r, db) = (r', snd (query (delete_changes (version r)) db)) \<and>
    data_map r' = data_map r \<and> version r' = version r"
  using change_texts(2) [OF assms] by (simp add: remove_changes_def Let_def)

text \<open>
  C23: When the version in the database differs and the table loads, one turn publishes exactly the changed
  pairs that the database answers with, in their order, shows the new table, and has the records up to that
  version deleted. The question for the changes is not the statement but the whole buffer of 1000 bytes, the
  statement, its zero and what was behind it, since the code passes \<open>sizeof(_sql)\<close>. Nothing is assumed of what
  the server makes of those bytes: when it refuses them, the turn publishes nothing, deletes the records all
  the same and keeps the new version, so that no subscriber is told.
\<close>

theorem version_change_published:
  assumes "query select_version db = (Rows ([v] # vs), db)" and "strtol v \<noteq> version r"
    and "query select_routes db = (Rows rows, db)" and "\<forall>row \<in> set rows. 5 \<le> length row"
    and "query (changes_buffer (strtol v) (sql r)) db = (res, db)"
    and "\<forall>changes. res = Rows changes \<longrightarrow> (\<forall>row \<in> set changes. 2 \<le> length row)"
  shows "strlen_sql (changes_buffer (strtol v) (sql r)) = select_changes (strtol v) \<and>
    (length (sql r) = 1000 \<longrightarrow> length (changes_buffer (strtol v) (sql r)) = 1000) \<and>
    (\<exists>r'. check_route_turn query publish now (t0, p, r, db) =
       Inr (now, publish (case res of Rows changes \<Rightarrow> change_keys changes | _ \<Rightarrow> []) p, r',
         snd (query (delete_changes (strtol v)) db)) \<and>
     version r' = strtol v \<and> route_get_hosts r' = table_hosts rows)"
proof -
  obtain r1 where r1: "load_version query (r, db) = Inr (1, r1, db)" "version r1 = strtol v"
    using load_version_new [where query = query, OF assms(1,2)] by blast
  obtain r2 where r2: "load_route_data query (r1, db) = Inr (0, r2, db)" "version r2 = strtol v"
      "\<And>modid cmdid. route_get_hosts (swap r2) modid cmdid = table_hosts rows modid cmdid"
    using load_route_data_rows [where query = query, OF assms(3,4), of r1] r1(2) by auto
  have buf: "snprintf_sql 1000 (select_changes (version (swap r2))) (sql (swap r2)) = changes_buffer (strtol v) (sql r)"
    using load_version_keeps [OF r1(1)] load_route_data_sql [OF r2(1)] r2(2)
    by (simp add: changes_buffer_def swap_sel)
  obtain r3 where r3: "load_changes query [] (swap r2, db) = Inr (answered_keys res, r3, db)"
      "data_map r3 = data_map (swap r2)" "version r3 = strtol v"
    using load_changes_answer [where query = query, OF assms(5) [folded buf] assms(6)] r2(2) by (auto simp: swap_sel)
  obtain r4 where r4: "remove_changes query False (r3, db) = (r4, snd (query (delete_changes (strtol v)) db))"
      "data_map r4 = data_map r3" "version r4 = strtol v"
    using remove_changes_eq [of r3 query db] strtol_bounds [of v] r3(3) by auto
  have "route_get_hosts r4 = table_hosts rows"
    using route_get_hosts_cong [of r4 "swap r2"] r3(2) r4(2) r2(3) by (auto simp: fun_eq_iff)
  then show ?thesis
    using r1 r2(1) r3(1) r4 changes_buffer_text [of v "sql r"] by (simp add: check_route_turn_def answered_keys_def)
qed

text \<open>
  When the version differs but the table cannot be loaded, the turn still publishes the changed
  pairs, deletes them and keeps the new version number, with the old table in place: subscribers are
  told the old hosts, and the following turns see no change, so the new hosts are not pushed.
\<close>

theorem failed_reload_loses_change:
  assumes "query select_version db = (Rows ([v] # vs), db)" and "strtol v \<noteq> version r"
    and "query select_routes db = (Query_Failed, db)"
    and "query (changes_buffer (strtol v) (sql r)) db = (Rows changes, db)"
    and "\<forall>row \<in> set changes. 2 \<le> length row"
    and "query (delete_changes (strtol v)) db = (Rows [], db')"
    and "query select_version db' = (Rows ([v] # vs), db')" and "now' - t0 < 10"
  shows "\<exists>r1 r2. check_route_turn query publish now (t0, p, r, db) =
      Inr (t0, publish (change_keys changes) p, r1, db') \<and> route_get_hosts r1 = route_get_hosts r \<and>
    check_route_turn query publish now' (t0, p', r1, db') = Inr (t0, p', r2, db') \<and>
    route_get_hosts r2 = route_get_hosts r"
proof -
  obtain r1 where r1: "load_version query (r, db) = Inr (1, r1, db)" "data_map r1 = data_map r" "version r1 = strtol v"
    using load_version_new [where query = query, OF assms(1,2)] by blast
  obtain r2 where r2: "load_route_data query (r1, db) = Inr (- 1, r2, db)" "data_map r2 = data_map r"
      "version r2 = strtol v"
    using load_route_data_fails [where query = query, OF assms(3), of r1] r1(2,3) by auto
  have buf: "snprintf_sql 1000 (select_changes (version r2)) (sql r2) = changes_buffer (strtol v) (sql r)"
    using load_version_keeps [OF r1(1)] load_route_data_sql [OF r2(1)] r2(3) by (simp add: changes_buffer_def)
  obtain r3 where r3: "load_changes query [] (r2, db) = Inr (change_keys changes, r3, db)"
      "data_map r3 = data_map r2" "version r3 = strtol v"
    using load_changes_answer [where query = query, OF assms(4) [folded buf]] assms(5) r2(3) by (auto simp: answered_keys_def)
  obtain r4 where r4: "remove_changes query False (r3, db) = (r4, db')"
      "data_map r4 = data_map r3" "version r4 = strtol v"
    using remove_changes_eq [of r3 query db] strtol_bounds [of v] r3(3) assms(6) by auto
  obtain r5 where r5: "load_version query (r4, db') = Inr (0, r5, db')" "data_map r5 = data_map r4"
    using load_version_same [where query = query and r = r4, OF assms(7)] r4(3) by auto
  have "check_route_turn query publish now (t0, p, r, db) =
      Inr (t0, publish (change_keys changes) p, r4, db')"
    using r1 r2(1) r3(1) r4 by (simp add: check_route_turn_def)
  moreover have "check_route_turn query publish now' (t0, p', r4, db') = Inr (t0, p', r5, db')"
    using r5(1) assms(8) by (simp add: check_route_turn_def)
  moreover have "route_get_hosts r4 = route_get_hosts r" "route_get_hosts r5 = route_get_hosts r"
    using r2(2) r3(2) r4(2) r5(2) by (auto intro: route_get_hosts_cong)
  ultimately show ?thesis by blast
qed

subsection \<open>A concrete database\<close>

text \<open>Version 7, one changed pair, and the given answer to the question for the table.\<close>

definition ex_query :: "query_result \<Rightarrow> unit client" where
  "ex_query table txt db =
     (let t = strlen_sql txt in
      if t = select_version then (Rows [[''7'']], db)
      else if t = select_routes then (table, db)
      else if t = select_changes 7 then (Rows [[''1'', ''2'']], db)
      else (Rows [], db))"

definition ex_route :: route where
  "ex_route = \<lparr>data_map = [pack64 1 2 \<mapsto> {pack64 5 81}], temp_map = Map.empty, version = 0, sql = []\<rparr>"

lemma ex_texts:
  "strlen_sql select_version = select_version" "strlen_sql select_routes = select_routes"
  "strlen_sql (delete_changes 7) = delete_changes 7"
  "select_routes \<noteq> select_version" "select_changes 7 \<noteq> select_version" "select_changes 7 \<noteq> select_routes"
  "delete_changes 7 \<noteq> select_version" "delete_changes 7 \<noteq> select_routes" "delete_changes 7 \<noteq> select_changes 7"
  using digit_not_nul [of 7]
  by (simp_all add: strlen_sql_def nul_def select_version_def select_routes_def select_changes_def
      delete_changes_def show_long_def show_nat.simps)

lemma ex_query_answers:
  "ex_query tbl select_version db = (Rows [[''7'']], db)"
  "ex_query tbl select_routes db = (tbl, db)"
  "strlen_sql buf = select_changes 7 \<Longrightarrow> ex_query tbl buf db = (Rows [[''1'', ''2'']], db)"
  "ex_query tbl (delete_changes 7) db = (Rows [], db)"
  by (simp_all add: ex_query_def ex_texts Let_def)

lemma ex_numbers: "strtol ''7'' = 7" "atoi ''1'' = 1" "atoi ''2'' = 2" "atoi ''9'' = 9" "atoi ''80'' = 80"
  by (simp_all add: strtol_def atoi_def read_int_def is_space_def is_digit_def digits_value_def)

lemma ex_changes: "ex_query tbl (changes_buffer 7 buf) db = (Rows [[''1'', ''2'']], db)"
  using changes_buffer_text [of "''7''" buf] by (intro ex_query_answers(3)) (simp add: ex_numbers)

theorem reload_is_atomic_witness:
  "let rows = [[''1'', ''1'', ''2'', ''9'', ''80'']]; r = ex_route\<lparr>version := 7\<rparr>; stay = (\<lambda>ks p. p @ ks :: uint64 list) in
   (\<exists>r'. check_route_turn (ex_query (Rows rows)) stay 100 (90, [], r, ()) = Inr (100, [], r', ()) \<and>
      route_get_hosts r' 1 2 = {pack64 9 80}) \<and>
   (\<exists>r'. check_route_turn (ex_query Query_Failed) stay 100 (90, [], r, ()) = Inr (90, [], r', ()) \<and>
      route_get_hosts r' 1 2 = {pack64 5 81}) \<and>
   (\<exists>r'. check_route_turn (ex_query Store_Failed) stay 100 (90, [], r, ()) = Inr (90, [], r', ()) \<and>
      route_get_hosts r' 1 2 = {pack64 5 81})"
proof -
  let ?rows = "[[''1'', ''1'', ''2'', ''9'', ''80'']]" and ?r = "ex_route\<lparr>version := 7\<rparr>"
  have hosts: "route_get_hosts ?r 1 2 = {pack64 5 81}" "table_hosts ?rows 1 2 = {pack64 9 80}"
    by (auto simp: route_get_hosts_def ex_route_def table_hosts_def ex_numbers)
  have turn: "\<exists>r'. check_route_turn (ex_query res) (\<lambda>ks p. p @ ks :: uint64 list) 100 (90, [], ?r, ()) =
      Inr (case res of Rows _ \<Rightarrow> 100 | _ \<Rightarrow> 90, [], r', ()) \<and>
      route_get_hosts r' 1 2 = (case res of Rows rows \<Rightarrow> table_hosts rows | _ \<Rightarrow> route_get_hosts ?r) 1 2"
    if "res \<in> {Rows ?rows, Query_Failed, Store_Failed}" for res
  proof -
    obtain r where "load_version (ex_query res) (?r, ()) = Inr (0, r, ())"
      using load_version_same [of "ex_query res" "()" "''7''" "[]" ?r] by (auto simp: ex_query_answers ex_numbers)
    then show ?thesis
      using reload_is_atomic [where query = "ex_query res" and db = "()" and db' = "()" and res = res and ?r0.0 = ?r and ?db0.0 = "()" and new = 0
          and r = r and now = 100 and ?t0.0 = 90 and publish = "\<lambda>ks p. p @ ks" and p = "[] :: uint64 list"] that
      by (auto simp: ex_query_answers)
  qed
  from turn [of "Rows ?rows"] turn [of Query_Failed] turn [of Store_Failed] show ?thesis by (simp add: hosts)
qed

text \<open>A server that refuses a statement with a zero byte in it; \<open>ex_query\<close> reads up to the zero.\<close>

definition ex_strict :: "query_result \<Rightarrow> unit client" where
  "ex_strict table txt db = (if nul \<in> set txt then (Query_Failed, db) else ex_query table txt db)"

lemma ex_strict_answers:
  "ex_strict tbl select_version db = (Rows [[''7'']], db)"
  "ex_strict tbl select_routes db = (tbl, db)"
  "ex_strict tbl (changes_buffer v buf) db = (Query_Failed, db)"
  "ex_strict tbl (delete_changes 7) db = (Rows [], db)"
  using show_long_no_nul [of 7]
  by (simp_all add: ex_strict_def ex_query_answers changes_buffer_def nul_in_snprintf)
    (simp_all add: nul_def select_version_def select_routes_def delete_changes_def)

theorem version_change_published_witness:
  "let rows = [[''1'', ''1'', ''2'', ''9'', ''80'']] in
   (\<exists>r'. check_route_turn (ex_query (Rows rows)) (\<lambda>ks p. p @ ks) 100 (95, [], ex_route, ()) =
      Inr (100, [pack64 1 2], r', ()) \<and> route_get_hosts r' 1 2 = {pack64 9 80}) \<and>
   (\<exists>r'. check_route_turn (ex_strict (Rows rows)) (\<lambda>ks p. p @ ks) 100 (95, [], ex_route, ()) =
      Inr (100, [], r', ()) \<and> route_get_hosts r' 1 2 = {pack64 9 80})"
proof -
  let ?rows = "[[''1'', ''1'', ''2'', ''9'', ''80'']]"
  have t: "table_hosts ?rows 1 2 = {pack64 9 80}" by (auto simp: table_hosts_def ex_numbers)
  have v: "version ex_route = 0" by (simp add: ex_route_def)
  note turn = version_change_published [where db = "()" and v = "''7''" and vs = "[]" and r = ex_route and rows = ?rows and
      publish = "\<lambda>ks p. p @ ks" and now = 100 and ?t0.0 = 95 and p = "[]"]
  have "\<exists>r'. check_route_turn (ex_query (Rows ?rows)) (\<lambda>ks p. p @ ks) 100 (95, [], ex_route, ()) =
      Inr (100, [pack64 1 2], r', ()) \<and> version r' = 7 \<and> route_get_hosts r' = table_hosts ?rows"
    using turn [of "ex_query (Rows ?rows)" "Rows [[''1'', ''2'']]"]
    by (simp add: ex_query_answers ex_changes ex_numbers change_keys_def v)
  moreover have "\<exists>r'. check_route_turn (ex_strict (Rows ?rows)) (\<lambda>ks p. p @ ks) 100 (95, [], ex_route, ()) =
      Inr (100, [], r', ()) \<and> version r' = 7 \<and> route_get_hosts r' = table_hosts ?rows"
    using turn [of "ex_strict (Rows ?rows)" Query_Failed] by (simp add: ex_strict_answers ex_numbers v)
  ultimately show ?thesis unfolding Let_def by (metis t)
qed

theorem failed_reload_loses_change_witness:
  "\<exists>r1 r2. check_route_turn (ex_query Query_Failed) (\<lambda>ks p. p @ ks) 100 (95, [], ex_route, ()) =
      Inr (95, [pack64 1 2], r1, ()) \<and>
    check_route_turn (ex_query Query_Failed) (\<lambda>ks p. p @ ks) 101 (95, [], r1, ()) = Inr (95, [], r2, ())"
  using failed_reload_loses_change [of "ex_query Query_Failed" "()" "''7''" "[]" ex_route "[[''1'', ''2'']]" "()"
      101 95 "\<lambda>ks p. p @ ks" 100 "[]" "[]"]
  by (auto simp: ex_query_answers ex_changes ex_numbers ex_route_def change_keys_def)

end
