(* ===== verification/Lars_Proto.thy ===== *)
theory Lars_Proto
  imports Lars_Prelude
begin

text \<open>
  The messages of \<open>base/proto/lars.proto\<close> as records: a scalar field is its value (0 or false when
  it was never set), a \<open>repeated\<close> field a list, a message field an option.
\<close>

subsection \<open>Message and return codes\<close>

definition ID_UNKNOW :: int32 where [lars_defs]: "ID_UNKNOW = 0"
definition ID_GetRouteRequest :: int32 where [lars_defs]: "ID_GetRouteRequest = 1"
definition ID_GetRouteResponse :: int32 where [lars_defs]: "ID_GetRouteResponse = 2"
definition ID_ReportStatusRequest :: int32 where [lars_defs]: "ID_ReportStatusRequest = 3"
definition ID_GetHostRequest :: int32 where [lars_defs]: "ID_GetHostRequest = 4"
definition ID_GetHostResponse :: int32 where [lars_defs]: "ID_GetHostResponse = 5"
definition ID_ReportRequest :: int32 where [lars_defs]: "ID_ReportRequest = 6"

definition RET_SUCC :: int32 where [lars_defs]: "RET_SUCC = 0"
definition RET_OVERLOAD :: int32 where [lars_defs]: "RET_OVERLOAD = 1"
definition RET_SYSTEM_ERROR :: int32 where [lars_defs]: "RET_SYSTEM_ERROR = 2"
definition RET_NOEXIST :: int32 where [lars_defs]: "RET_NOEXIST = 3"

lemma ret_codes_distinct [simp]:
  "RET_SUCC \<noteq> RET_OVERLOAD" "RET_SUCC \<noteq> RET_NOEXIST" "RET_OVERLOAD \<noteq> RET_NOEXIST"
  "RET_OVERLOAD \<noteq> RET_SUCC" "RET_NOEXIST \<noteq> RET_SUCC" "RET_NOEXIST \<noteq> RET_OVERLOAD"
  "RET_SYSTEM_ERROR \<noteq> RET_SUCC" "RET_SUCC \<noteq> RET_SYSTEM_ERROR"
  by (simp_all add: lars_defs)

subsection \<open>Messages\<close>

record HostInfo =
  hinfo_ip :: int32
  hinfo_port :: int32

record GetRouteRequest =
  grq_modid :: int32
  grq_cmdid :: int32

record GetRouteResponse =
  grs_modid :: int32
  grs_cmdid :: int32
  grs_host :: "HostInfo list"

record HostCallResult =
  hcr_ip :: int32
  hcr_port :: int32
  hcr_succ :: uint32
  hcr_err :: uint32
  hcr_overload :: bool

record ReportStatusRequest =
  rsr_modid :: int32
  rsr_cmdid :: int32
  rsr_caller :: int32
  rsr_results :: "HostCallResult list"
  rsr_ts :: uint32

record GetHostRequest =
  ghq_seq :: uint32
  ghq_modid :: int32
  ghq_cmdid :: int32

record GetHostResponse =
  ghs_seq :: uint32
  ghs_modid :: int32
  ghs_cmdid :: int32
  ghs_retcode :: int32
  ghs_host :: "HostInfo option"

record ReportRequest =
  rrq_modid :: int32
  rrq_cmdid :: int32
  rrq_host :: "HostInfo option"
  rrq_retcode :: int32

text \<open>Reading a message field that is absent gives the default instance.\<close>

definition default_HostInfo :: HostInfo where
  "default_HostInfo = \<lparr>hinfo_ip = 0, hinfo_port = 0\<rparr>"

definition get_host_field :: "HostInfo option \<Rightarrow> HostInfo" where
  "get_host_field h = (case h of None \<Rightarrow> default_HostInfo | Some x \<Rightarrow> x)"

text \<open>The key of a host in the load balancer: \<open>((uint64_t)h.ip() << 32) + h.port()\<close>.\<close>

definition host_key :: "HostInfo \<Rightarrow> uint64" where
  "host_key h = pack64 (hinfo_ip h) (hinfo_port h)"

lemma host_key_inject [simp]: "host_key h = host_key h' \<longleftrightarrow> h = h'"
  by (cases h; cases h') (simp add: host_key_def)

end
