(* ===== verification/Subscribe.thy ===== *)
theory Subscribe
  imports Dns_Route Lars_Proto
begin

text \<open>
  \<open>SubscribeList\<close> (\<open>lars_dns/src/subscribe.cpp\<close>): which connections subscribed to which modid/cmdid,
  what is still to be pushed to which connection, and the task each reactor thread runs to push it.
  Hash sets and maps are sets and maps; wherever the code walks one, the order is an argument \<open>ord\<close>
  that lists each element of a finite set once.
\<close>

definition iterates :: "('a set \<Rightarrow> 'a list) \<Rightarrow> bool" where
  "iterates ord \<longleftrightarrow> (\<forall>A. finite A \<longrightarrow> set (ord A) = A \<and> distinct (ord A))"

lemma iteratesD: "iterates ord \<Longrightarrow> finite A \<Longrightarrow> set (ord A) = A \<and> distinct (ord A)"
  by (simp add: iterates_def)

lemma iterates_sorted: "iterates (sorted_list_of_set :: 'a :: linorder set \<Rightarrow> 'a list)"
  by (simp add: iterates_def)

subsection \<open>The two lists\<close>

record subscribe_list =
  sub_list :: "uint64 \<rightharpoonup> int32 set"
  pub_list :: "int32 \<rightharpoonup> uint64 set"

definition new_subscribe_list :: subscribe_list where
  "new_subscribe_list = \<lparr>sub_list = Map.empty, pub_list = Map.empty\<rparr>"

definition subscribe :: "uint64 \<Rightarrow> int32 \<Rightarrow> subscribe_list \<Rightarrow> subscribe_list" where
  "subscribe m fd s = s\<lparr>sub_list := (sub_list s)(m \<mapsto>
     insert fd (case sub_list s m of None \<Rightarrow> {} | Some fds \<Rightarrow> fds))\<rparr>"

definition unSubscribe :: "uint64 \<Rightarrow> int32 \<Rightarrow> subscribe_list \<Rightarrow> subscribe_list" where
  "unSubscribe m fd s =
     (case sub_list s m of
        None \<Rightarrow> s
      | Some fds \<Rightarrow>
          (let fds = fds - {fd}
           in s\<lparr>sub_list := (sub_list s)(m := (if fds = {} then None else Some fds))\<rparr>))"

text \<open>The part of \<open>publish\<close> under the two locks: the changed pairs go to their subscribers' lists.\<close>

definition publish_mod :: "uint64 \<Rightarrow> subscribe_list \<Rightarrow> subscribe_list" where
  "publish_mod m s =
     (case sub_list s m of
        None \<Rightarrow> s
      | Some fds \<Rightarrow> s\<lparr>pub_list := (\<lambda>fd. if fd \<in> fds
          then Some (insert m (case pub_list s fd of None \<Rightarrow> {} | Some ms \<Rightarrow> ms)) else pub_list s fd)\<rparr>)"

text \<open>\<open>send_task\<close> hands the push task to every reactor thread.\<close>

definition publish :: "(subscribe_list \<Rightarrow> 't \<Rightarrow> 't) \<Rightarrow> uint64 list \<Rightarrow> subscribe_list \<times> 't \<Rightarrow> subscribe_list \<times> 't" where
  "publish send_task change_mods st =
     (case st of (s, t) \<Rightarrow> (let s = fold publish_mod change_mods s in (s, send_task s t)))"

definition make_publish_map :: "int32 set \<Rightarrow> subscribe_list \<Rightarrow> (int32 \<rightharpoonup> uint64 set)" where
  "make_publish_map online_fds s =
     (\<lambda>fd. if fd \<in> online_fds
           then (case pub_list s fd of None \<Rightarrow> None | Some ms \<Rightarrow> if ms = {} then None else Some ms)
           else None)"

subsection \<open>Pushing\<close>

definition decode_host :: "uint64 \<Rightarrow> HostInfo" where
  "decode_host ip_port = \<lparr>hinfo_ip = hi32 ip_port, hinfo_port = lo32 ip_port\<rparr>"

definition route_response :: "(uint64 set \<Rightarrow> uint64 list) \<Rightarrow> route \<Rightarrow> int32 \<Rightarrow> int32 \<Rightarrow> GetRouteResponse" where
  "route_response ord r modid cmdid =
     \<lparr>grs_modid = modid, grs_cmdid = cmdid, grs_host = map decode_host (ord (route_get_hosts r modid cmdid))\<rparr>"

text \<open>
  The body of the inner loop: the answer for one pair, sent when the connection table has an object
  for the descriptor, and the descriptor's entry erased from \<open>pub_list\<close> (without its lock).
\<close>

definition push_mod :: "(uint64 set \<Rightarrow> uint64 list) \<Rightarrow> route \<Rightarrow> (int32 \<Rightarrow> bool) \<Rightarrow> int32 \<Rightarrow> uint64 \<Rightarrow>
    subscribe_list \<times> (int32 \<times> GetRouteResponse) list \<Rightarrow> subscribe_list \<times> (int32 \<times> GetRouteResponse) list" where
  "push_mod ord r conns fd hs st =
     (case st of (s, sent) \<Rightarrow>
        (let modid = hi32 hs; cmdid = lo32 hs; rsp = route_response ord r modid cmdid
         in (s\<lparr>pub_list := (pub_list s)(fd := None)\<rparr>,
             if conns fd then sent @ [(fd, rsp)] else sent)))"

definition push_all :: "(int32 set \<Rightarrow> int32 list) \<Rightarrow> (uint64 set \<Rightarrow> uint64 list) \<Rightarrow> route \<Rightarrow> (int32 \<Rightarrow> bool) \<Rightarrow>
    (int32 \<rightharpoonup> uint64 set) \<Rightarrow> subscribe_list \<times> (int32 \<times> GetRouteResponse) list \<Rightarrow>
    subscribe_list \<times> (int32 \<times> GetRouteResponse) list" where
  "push_all ordf ord r conns need_publish =
     fold (\<lambda>fd. fold (push_mod ord r conns fd) (ord (the (need_publish fd)))) (ordf (dom need_publish))"

definition push_change_task :: "(int32 set \<Rightarrow> int32 list) \<Rightarrow> (uint64 set \<Rightarrow> uint64 list) \<Rightarrow> route \<Rightarrow>
    (int32 \<Rightarrow> bool) \<Rightarrow> int32 set \<Rightarrow> subscribe_list \<times> (int32 \<times> GetRouteResponse) list \<Rightarrow>
    subscribe_list \<times> (int32 \<times> GetRouteResponse) list" where
  "push_change_task ordf ord r conns online_fds st =
     push_all ordf ord r conns (make_publish_map online_fds (fst st)) st"

subsection \<open>What is subscribed and what is pending\<close>

definition subscribers :: "subscribe_list \<Rightarrow> uint64 \<Rightarrow> int32 set" where
  "subscribers s m = (case sub_list s m of None \<Rightarrow> {} | Some fds \<Rightarrow> fds)"

definition pending :: "subscribe_list \<Rightarrow> int32 \<Rightarrow> uint64 set" where
  "pending s fd = (case pub_list s fd of None \<Rightarrow> {} | Some ms \<Rightarrow> ms)"

lemma subscribers_subscribe:
  "subscribers (subscribe m fd s) m' = (if m' = m then insert fd (subscribers s m) else subscribers s m')"
  by (simp add: subscribers_def subscribe_def)

lemma subscribers_unSubscribe:
  "subscribers (unSubscribe m fd s) m' = (if m' = m then subscribers s m - {fd} else subscribers s m')"
  by (simp add: subscribers_def unSubscribe_def Let_def split: option.split)

lemma pending_subscribe [simp]: "pending (subscribe m fd s) = pending s" "pending (unSubscribe m fd s) = pending s"
  by (auto simp: pending_def subscribe_def unSubscribe_def Let_def fun_eq_iff split: option.split)

lemma subscribers_publish_mod [simp]: "subscribers (publish_mod m s) = subscribers s"
  by (auto simp: subscribers_def publish_mod_def fun_eq_iff split: option.split)

lemma pending_publish_mod: "pending (publish_mod m s) fd = pending s fd \<union> (if fd \<in> subscribers s m then {m} else {})"
  by (auto simp: pending_def subscribers_def publish_mod_def split: option.split)

lemma fold_publish_mod:
  "subscribers (fold publish_mod ms s) = subscribers s \<and>
   pending (fold publish_mod ms s) fd = pending s fd \<union> {m \<in> set ms. fd \<in> subscribers s m}"
  by (induction ms arbitrary: s) (auto simp: pending_publish_mod)

text \<open>
  Publishing adds exactly the changed pairs to what is pending for each of their subscribers, and
  changes nothing else.
\<close>

theorem publish_reaches_subscribers:
  "pending (fst (publish send_task change_mods (s, t))) fd =
     pending s fd \<union> {m \<in> set change_mods. fd \<in> subscribers s m} \<and>
   subscribers (fst (publish send_task change_mods (s, t))) = subscribers s"
  using fold_publish_mod [of change_mods s fd] by (simp add: publish_def Let_def)

subsection \<open>What a push sends\<close>

definition drop_fds :: "int32 set \<Rightarrow> subscribe_list \<Rightarrow> subscribe_list" where
  "drop_fds A s = s\<lparr>pub_list := (\<lambda>fd. if fd \<in> A then None else pub_list s fd)\<rparr>"

lemma drop_fds_simps [simp]:
  "drop_fds {} s = s" "drop_fds A (drop_fds B s) = drop_fds (A \<union> B) s"
  "sub_list (drop_fds A s) = sub_list s"
proof -
  have "(\<lambda>fd. if fd \<in> A then None else if fd \<in> B then None else pub_list s fd) =
      (\<lambda>fd. if fd \<in> A \<union> B then None else pub_list s fd)" by (rule ext) simp
  then show "drop_fds A (drop_fds B s) = drop_fds (A \<union> B) s" by (simp add: drop_fds_def cong: if_cong)
qed (simp_all add: drop_fds_def)

lemma pending_drop [simp]: "pending (drop_fds A s) fd = (if fd \<in> A then {} else pending s fd)"
  by (simp add: pending_def drop_fds_def)

lemma push_mod_step:
  "push_mod ord r conns fd m (s, sent) =
    (drop_fds {fd} s, sent @ (if conns fd then [(fd, route_response ord r (hi32 m) (lo32 m))] else []))"
proof -
  have "(pub_list s)(fd := None) = (\<lambda>f. if f \<in> {fd} then None else pub_list s f)" by (rule ext) simp
  then show ?thesis by (simp add: push_mod_def Let_def drop_fds_def)
qed

lemma push_mods:
  "fold (push_mod ord r conns fd) ms (s, sent) =
    (if ms = [] then (s, sent) else (drop_fds {fd} s,
     sent @ (if conns fd then map (\<lambda>m. (fd, route_response ord r (hi32 m) (lo32 m))) ms else [])))"
proof (induction ms arbitrary: s sent)
  case (Cons m ms)
  show ?case by (simp add: push_mod_step Cons)
qed simp

definition messages :: "(uint64 set \<Rightarrow> uint64 list) \<Rightarrow> route \<Rightarrow> (int32 \<Rightarrow> bool) \<Rightarrow> (int32 \<rightharpoonup> uint64 set) \<Rightarrow>
    int32 \<Rightarrow> (int32 \<times> GetRouteResponse) list" where
  "messages ord r conns need fd =
     (if conns fd then map (\<lambda>m. (fd, route_response ord r (hi32 m) (lo32 m))) (ord (the (need fd))) else [])"

lemma push_fds:
  assumes "\<forall>fd \<in> set fds. ord (the (need fd)) \<noteq> []"
  shows "fold (\<lambda>fd. fold (push_mod ord r conns fd) (ord (the (need fd)))) fds (s, sent) =
    (drop_fds (set fds) s, sent @ concat (map (messages ord r conns need) fds))"
  using assms
proof (induction fds arbitrary: s sent)
  case (Cons fd fds)
  have "fold (push_mod ord r conns fd) (ord (the (need fd))) (s, sent) =
      (drop_fds {fd} s, sent @ messages ord r conns need fd)"
    using Cons.prems by (simp add: push_mods messages_def)
  then show ?case using Cons by (simp add: Un_commute)
qed simp

lemma make_publish_map_eq:
  "make_publish_map online s fd = (if fd \<in> online \<and> pending s fd \<noteq> {} then Some (pending s fd) else None)"
  by (simp add: make_publish_map_def pending_def split: option.split)

definition due_fds :: "int32 set \<Rightarrow> subscribe_list \<Rightarrow> int32 set" where
  "due_fds online s = {fd \<in> online. pending s fd \<noteq> {}}"

lemma dom_make_publish_map: "dom (make_publish_map online s) = due_fds online s"
  by (simp add: dom_def make_publish_map_eq due_fds_def)

text \<open>The push of a copied map, whatever happened to the lists since the copy.\<close>

lemma push_all_eq:
  assumes "iterates ord" and "iterates ordf"
  shows "push_all ordf ord r conns (make_publish_map online s) (s1, sent) =
    (drop_fds (due_fds online s) s1, sent @ concat (map (messages ord r conns (make_publish_map online s))
       (ordf (due_fds online s))))"
proof -
  have fds: "set (ordf (due_fds online s)) = due_fds online s"
    using iteratesD [OF assms(2)] by (metis finite)
  have "ord (the (make_publish_map online s fd)) \<noteq> []" if "fd \<in> due_fds online s" for fd
    using that iteratesD [OF assms(1), of "pending s fd"]
    by (auto simp: due_fds_def make_publish_map_eq)
  then show ?thesis
    using push_fds [of "ordf (due_fds online s)" ord "make_publish_map online s" r conns s1 sent] fds
    by (simp add: push_all_def dom_make_publish_map)
qed

lemma set_messages:
  assumes "iterates ord" and "iterates ordf"
  shows "set (concat (map (messages ord r conns (make_publish_map online s)) (ordf (due_fds online s)))) =
    {(fd, route_response ord r (hi32 m) (lo32 m)) | fd m. fd \<in> online \<and> conns fd \<and> m \<in> pending s fd}"
proof -
  have fds: "set (ordf (due_fds online s)) = due_fds online s"
    using iteratesD [OF assms(2)] by (metis finite)
  have "set (messages ord r conns (make_publish_map online s) fd) =
      {(fd, route_response ord r (hi32 m) (lo32 m)) | m. conns fd \<and> m \<in> pending s fd}"
    if "fd \<in> due_fds online s" for fd
    using that iteratesD [OF assms(1), of "pending s fd"]
    by (auto simp: messages_def due_fds_def make_publish_map_eq)
  moreover have "pending s fd = {}" if "fd \<in> online" "fd \<notin> due_fds online s" for fd
    using that by (simp add: due_fds_def)
  ultimately show ?thesis
    unfolding set_concat set_map fds using due_fds_def by fastforce
qed

text \<open>
  A push task sends, for every connection of its thread that has an object, one message per
  pending pair, each with the hosts of the pair as the key's halves name it, and empties the pending
  list of the thread's connections; what is pending for the connections of other threads stays.
\<close>

theorem push_task_delivers:
  assumes "iterates ord" and "iterates ordf"
    and "push_change_task ordf ord r conns online (s, []) = (s', sent)"
  shows "set sent = {(fd, route_response ord r (hi32 m) (lo32 m)) | fd m.
      fd \<in> online \<and> conns fd \<and> m \<in> pending s fd} \<and>
    (\<forall>fd. pending s' fd = (if fd \<in> online then {} else pending s fd)) \<and> sub_list s' = sub_list s"
proof -
  have eq: "s' = drop_fds (due_fds online s) s"
    "sent = concat (map (messages ord r conns (make_publish_map online s)) (ordf (due_fds online s)))"
    using push_all_eq [OF assms(1,2), of r conns online s s "[]"] assms(3) by (simp_all add: push_change_task_def)
  have "pending s' fd = (if fd \<in> online then {} else pending s fd)" for fd
    by (simp add: eq(1) due_fds_def)
  then show ?thesis unfolding eq(2) set_messages [OF assms(1,2)] by (simp add: eq(1))
qed

text \<open>
  The copy and the erasure of the pending list are two steps with the lock released in between. A
  pair that becomes pending for a connection in that moment is erased without being sent.
\<close>

theorem publish_during_push_is_lost:
  assumes "iterates ord" and "iterates ordf" and "fd \<in> online"
    and "pending s fd \<noteq> {}" and "fd \<in> subscribers s m" and "m \<notin> pending s fd"
    and "push_all ordf ord r conns (make_publish_map online s) (publish_mod m s, []) = (s', sent)"
  shows "m \<in> pending (publish_mod m s) fd \<and> pending s' fd = {} \<and>
    (\<forall>rsp. (fd, rsp) \<in> set sent \<longrightarrow> (\<exists>m' \<in> pending s fd. rsp = route_response ord r (hi32 m') (lo32 m')))"
proof -
  have eq: "s' = drop_fds (due_fds online s) (publish_mod m s)"
    "sent = concat (map (messages ord r conns (make_publish_map online s)) (ordf (due_fds online s)))"
    using push_all_eq [OF assms(1,2), of r conns online s "publish_mod m s" "[]"] assms(7) by simp_all
  have "pending s' fd = {}" using assms(3,4) by (simp add: eq(1) due_fds_def)
  moreover have "m \<in> pending (publish_mod m s) fd" using assms(5) by (simp add: pending_publish_mod)
  moreover have "\<exists>m' \<in> pending s fd. rsp = route_response ord r (hi32 m') (lo32 m')"
    if "(fd, rsp) \<in> set sent" for rsp
    using that unfolding eq(2) set_messages [OF assms(1,2)] by blast
  ultimately show ?thesis by blast
qed

end
