(* ===== verification/Dns_Service.thy ===== *)
theory Dns_Service
  imports Subscribe
begin

text \<open>
  The DNS service process (\<open>lars_dns/src/dns_service.cpp\<close>): the hooks that run when a connection is
  made and closed, the handler of route requests, and the backend thread of \<open>Dns_Route\<close> publishing
  into \<open>Subscribe\<close>. \<open>conn->param\<close> is the set of pairs the connection asked for, or null.
\<close>

subsection \<open>State and handlers\<close>

record dns_service =
  dns_route :: route
  dns_subs :: subscribe_list
  conn_param :: "int32 \<rightharpoonup> uint64 set"

definition new_dns_service :: "route \<Rightarrow> dns_service" where
  "new_dns_service r = \<lparr>dns_route = r, dns_subs = new_subscribe_list, conn_param = Map.empty\<rparr>"

definition create_subscribe :: "int32 \<Rightarrow> dns_service \<Rightarrow> dns_service" where
  "create_subscribe fd d = d\<lparr>conn_param := (conn_param d)(fd \<mapsto> {})\<rparr>"

definition clear_subscribe :: "(uint64 set \<Rightarrow> uint64 list) \<Rightarrow> int32 \<Rightarrow> dns_service \<Rightarrow> dns_service res" where
  "clear_subscribe ord fd d =
     (case conn_param d fd of
        None \<Rightarrow> Inl Null_Deref
      | Some mods \<Rightarrow>
          Inr (d\<lparr>dns_subs := fold (\<lambda>m. unSubscribe m fd) (ord mods) (dns_subs d),
                conn_param := (conn_param d)(fd := None)\<rparr>))"

definition get_request :: "(uint64 set \<Rightarrow> uint64 list) \<Rightarrow> int32 \<Rightarrow> GetRouteRequest \<Rightarrow> dns_service \<Rightarrow>
    GetRouteResponse \<times> dns_service" where
  "get_request ord fd req d =
     (let modid = grq_modid req; cmdid = grq_cmdid req; m = pack64 modid cmdid;
          d = (case conn_param d fd of
                 None \<Rightarrow> d
               | Some mods \<Rightarrow>
                   if m \<in> mods then d
                   else d\<lparr>conn_param := (conn_param d)(fd \<mapsto> insert m mods),
                          dns_subs := subscribe m fd (dns_subs d)\<rparr>)
      in (route_response ord (dns_route d) modid cmdid, d))"

text \<open>\<open>main\<close> up to the event loop: the configuration it reads. \<open>short port\<close> cuts the number.\<close>

definition dns_main_config :: "string option \<Rightarrow> sections option \<Rightarrow> (string \<times> 16 word) res" where
  "dns_main_config file config =
     res_bind (setPath file config) (\<lambda>(_, config).
       res_bind (config_instance config) (\<lambda>c.
         Inr (GetString c ''reactor'' ''ip'' ''0.0.0.0'', ucast (GetNumber c ''reactor'' ''port'' 7778))))"

subsection \<open>Subscriptions of connections\<close>

text \<open>A connection's own set and the subscription table say the same.\<close>

definition mods_of :: "dns_service \<Rightarrow> int32 \<Rightarrow> uint64 set" where
  "mods_of d fd = (case conn_param d fd of None \<Rightarrow> {} | Some mods \<Rightarrow> mods)"

definition dns_ok :: "dns_service \<Rightarrow> bool" where
  "dns_ok d \<longleftrightarrow> (\<forall>fd m. m \<in> mods_of d fd \<longleftrightarrow> fd \<in> subscribers (dns_subs d) m) \<and>
     (\<forall>fd. finite (mods_of d fd))"

inductive dns_step :: "(uint64 set \<Rightarrow> uint64 list) \<Rightarrow> dns_service \<Rightarrow> dns_service \<Rightarrow> bool"
  for ord :: "uint64 set \<Rightarrow> uint64 list" where
  connected: "conn_param d fd = None \<Longrightarrow> dns_step ord d (create_subscribe fd d)"
| closed: "clear_subscribe ord fd d = Inr d' \<Longrightarrow> dns_step ord d d'"
| requested: "dns_step ord d (snd (get_request ord fd req d))"
| published: "dns_step ord d (d\<lparr>dns_subs := fold publish_mod changes (dns_subs d), dns_route := r\<rparr>)"
| pushed: "push_change_task ordf ord (dns_route d) conns online (dns_subs d, []) = (s', sent) \<Longrightarrow>
    iterates ordf \<Longrightarrow> dns_step ord d (d\<lparr>dns_subs := s'\<rparr>)"

lemma subscribers_fold_unSubscribe:
  "subscribers (fold (\<lambda>m. unSubscribe m fd) ms s) m =
    (if m \<in> set ms then subscribers s m - {fd} else subscribers s m)"
  by (induction ms arbitrary: s) (auto simp: subscribers_unSubscribe)

lemma mods_of_update [simp]:
  "mods_of (d\<lparr>conn_param := (conn_param d)(fd \<mapsto> ms)\<rparr>) fd' = (if fd' = fd then ms else mods_of d fd')"
  "mods_of (d\<lparr>conn_param := (conn_param d)(fd := None)\<rparr>) fd' = (if fd' = fd then {} else mods_of d fd')"
  "mods_of (d\<lparr>dns_subs := s\<rparr>) = mods_of d" "mods_of (d\<lparr>dns_route := r\<rparr>) = mods_of d"
  by (auto simp: mods_of_def)

lemma dns_ok_create: "dns_ok d \<Longrightarrow> conn_param d fd = None \<Longrightarrow> dns_ok (create_subscribe fd d)"
proof -
  assume ok: "dns_ok d" and new: "conn_param d fd = None"
  then have "mods_of d fd = {}" by (simp add: mods_of_def)
  then have "mods_of (create_subscribe fd d) = mods_of d"
    by (simp add: create_subscribe_def fun_eq_iff)
  then show ?thesis using ok by (simp add: dns_ok_def create_subscribe_def)
qed

lemma clear_subscribe_effect:
  assumes "dns_ok d" and "iterates ord" and "clear_subscribe ord fd d = Inr d'"
  shows "dns_ok d'" and "\<forall>m. fd \<notin> subscribers (dns_subs d') m"
proof -
  obtain mods where mods: "conn_param d fd = Some mods"
    and d': "d' = d\<lparr>dns_subs := fold (\<lambda>m. unSubscribe m fd) (ord mods) (dns_subs d),
                conn_param := (conn_param d)(fd := None)\<rparr>"
    using assms(3) by (auto simp: clear_subscribe_def split: option.splits)
  have own: "mods_of d fd = mods" using mods by (simp add: mods_of_def)
  have "finite mods" using assms(1) own by (auto simp: dns_ok_def)
  then have set: "set (ord mods) = mods" using iteratesD [OF assms(2)] by blast
  have subs: "subscribers (dns_subs d') m = subscribers (dns_subs d) m - {fd}" for m
    using assms(1) own by (auto simp: d' subscribers_fold_unSubscribe set dns_ok_def)
  then show "\<forall>m. fd \<notin> subscribers (dns_subs d') m" by simp
  have "mods_of d' fd' = (if fd' = fd then {} else mods_of d fd')" for fd'
    by (simp add: d' mods_of_def)
  then show "dns_ok d'" using assms(1) by (auto simp: dns_ok_def subs)
qed

lemma get_request_effect:
  assumes "dns_ok d"
  shows "dns_ok (snd (get_request ord fd req d))"
proof (cases "conn_param d fd")
  case None
  then show ?thesis using assms by (simp add: get_request_def Let_def)
next
  case (Some mods)
  let ?m = "pack64 (grq_modid req) (grq_cmdid req)"
  have own: "mods_of d fd = mods" using Some by (simp add: mods_of_def)
  show ?thesis
  proof (cases "?m \<in> mods")
    case True
    then show ?thesis using Some assms by (simp add: get_request_def Let_def)
  next
    case False
    let ?d = "snd (get_request ord fd req d)"
    have "?d = d\<lparr>conn_param := (conn_param d)(fd \<mapsto> insert ?m mods), dns_subs := subscribe ?m fd (dns_subs d)\<rparr>"
      using Some False by (simp add: get_request_def Let_def)
    then have "mods_of ?d fd' = (if fd' = fd then insert ?m mods else mods_of d fd')"
      and "subscribers (dns_subs ?d) m' = (if m' = ?m then insert fd (subscribers (dns_subs d) ?m)
        else subscribers (dns_subs d) m')" for fd' m'
      by (simp_all add: mods_of_def subscribers_subscribe)
    then show ?thesis using assms own by (auto simp: dns_ok_def)
  qed
qed

lemma dns_ok_same_subs:
  "dns_ok d \<Longrightarrow> subscribers s' = subscribers (dns_subs d) \<Longrightarrow> dns_ok (d\<lparr>dns_subs := s', dns_route := r\<rparr>)"
  by (simp add: dns_ok_def)

lemma subscribers_push:
  assumes "iterates ord" and "iterates ordf" and "push_change_task ordf ord r conns online (s, []) = (s', sent)"
  shows "subscribers s' = subscribers s"
  using push_all_eq [OF assms(1,2), of r conns online s s "[]"] assms(3)
  by (auto simp: push_change_task_def subscribers_def fun_eq_iff)

lemma dns_ok_step:
  assumes "dns_step ord d d'" and "iterates ord" and "dns_ok d"
  shows "dns_ok d'"
  using assms
proof (induction rule: dns_step.induct)
  case (published d r changes)
  then show ?case using fold_publish_mod [of changes "dns_subs d"] by (simp add: dns_ok_same_subs)
next
  case (pushed ordf d conns online s' sent)
  then have "subscribers s' = subscribers (dns_subs d)" by (blast intro: subscribers_push)
  then show ?case using dns_ok_same_subs [of d s' "dns_route d"] pushed.prems by simp
qed (auto intro: dns_ok_create get_request_effect clear_subscribe_effect(1))

lemma dns_ok_reachable:
  assumes "rtranclp (dns_step ord) (new_dns_service r) d" and "iterates ord"
  shows "dns_ok d"
  using assms
proof (induction rule: rtranclp_induct)
  case base
  then show ?case by (simp add: dns_ok_def new_dns_service_def mods_of_def subscribers_def new_subscribe_list_def)
qed (blast intro: dns_ok_step)

text \<open>
  C24: In every state of the service a descriptor is subscribed to a pair exactly when its open
  connection asked for the pair; so closing a connection leaves no subscription of its descriptor behind.
\<close>

theorem subscriptions_match_connections:
  assumes "rtranclp (dns_step ord) (new_dns_service r) d" and "iterates ord"
  shows "(\<forall>fd m. fd \<in> subscribers (dns_subs d) m \<longleftrightarrow> m \<in> mods_of d fd) \<and>
    (\<forall>fd d'. clear_subscribe ord fd d = Inr d' \<longrightarrow> (\<forall>m. fd \<notin> subscribers (dns_subs d') m))"
proof -
  have "dns_ok d" by (rule dns_ok_reachable [OF assms])
  then show ?thesis using clear_subscribe_effect(2) [OF _ assms(2)] by (auto simp: dns_ok_def)
qed

subsection \<open>What a client is told\<close>

lemma decode_encode: "0 \<le> sint port \<Longrightarrow> decode_host (pack64 ip port) = \<lparr>hinfo_ip = ip, hinfo_port = port\<rparr>"
  by (simp add: decode_host_def hi32_pack64)

lemma finite_table_hosts: "finite (table_hosts rows modid cmdid)"
proof -
  have "table_hosts rows modid cmdid \<subseteq> (\<lambda>row. pack64 (atoi (row ! 3)) (atoi (row ! 4))) ` set rows"
    by (auto simp: table_hosts_def)
  then show ?thesis by (rule finite_subset) simp
qed

lemma route_response_table:
  assumes "route_get_hosts r = table_hosts rows" and "iterates ord"
    and "\<forall>row \<in> set rows. 0 \<le> sint (atoi (row ! 4))"
  shows "set (grs_host (route_response ord r modid cmdid)) = {\<lparr>hinfo_ip = atoi (row ! 3), hinfo_port = atoi (row ! 4)\<rparr> | row.
    row \<in> set rows \<and> atoi (row ! 1) = modid \<and> atoi (row ! 2) = cmdid}"
proof -
  have "set (ord (table_hosts rows modid cmdid)) = table_hosts rows modid cmdid"
    using iteratesD [OF assms(2) finite_table_hosts] by blast
  then have "set (grs_host (route_response ord r modid cmdid)) = decode_host ` table_hosts rows modid cmdid"
    by (simp add: route_response_def assms(1))
  also have "\<dots> = {\<lparr>hinfo_ip = atoi (row ! 3), hinfo_port = atoi (row ! 4)\<rparr> | row.
    row \<in> set rows \<and> atoi (row ! 1) = modid \<and> atoi (row ! 2) = cmdid}"
    using assms(3) by (auto simp: table_hosts_def decode_encode image_iff) (metis decode_encode)
  finally show ?thesis .
qed

lemma request_subscribes:
  assumes "conn_param d fd \<noteq> None" and "dns_ok d"
  shows "\<exists>d'. get_request ord fd \<lparr>grq_modid = modid, grq_cmdid = cmdid\<rparr> d = (route_response ord (dns_route d) modid cmdid, d') \<and>
    dns_ok d' \<and> dns_route d' = dns_route d \<and> pack64 modid cmdid \<in> mods_of d' fd"
proof -
  obtain mods where "conn_param d fd = Some mods" using assms(1) by auto
  then show ?thesis
    using get_request_effect [OF assms(2), of ord fd "\<lparr>grq_modid = modid, grq_cmdid = cmdid\<rparr>"]
    by (auto simp: get_request_def Let_def mods_of_def)
qed

text \<open>
  C25: The answer to a route request lists exactly the hosts the loaded table has for the pair, with
  the addresses and ports of the table (ports are not negative), and the connection is subscribed to
  the pair from then on.
\<close>

theorem route_request_answer:
  assumes "route_get_hosts (dns_route d) = table_hosts rows" and "iterates ord"
    and "\<forall>row \<in> set rows. 0 \<le> sint (atoi (row ! 4))" and "conn_param d fd \<noteq> None" and "dns_ok d"
    and "get_request ord fd \<lparr>grq_modid = modid, grq_cmdid = cmdid\<rparr> d = (rsp, d')"
  shows "grs_modid rsp = modid \<and> grs_cmdid rsp = cmdid \<and>
    set (grs_host rsp) = {\<lparr>hinfo_ip = atoi (row ! 3), hinfo_port = atoi (row ! 4)\<rparr> | row.
      row \<in> set rows \<and> atoi (row ! 1) = modid \<and> atoi (row ! 2) = cmdid} \<and>
    fd \<in> subscribers (dns_subs d') (pack64 modid cmdid)"
  using request_subscribes [OF assms(4,5), of ord modid cmdid] route_response_table [OF assms(1-3)] assms(6)
  by (auto simp: dns_ok_def route_response_def)

text \<open>
  A change of the table reaches the subscribers: once the backend thread has loaded the new table
  and published the changed pairs, the push task of the thread that serves a subscribed connection
  sends it the new hosts of every changed pair. The pair's cmdid must not be negative.
\<close>

theorem change_reaches_subscriber:
  assumes "route_get_hosts r = table_hosts rows" and "iterates ord" and "iterates ordf"
    and "\<forall>row \<in> set rows. 0 \<le> sint (atoi (row ! 4))"
    and "pack64 modid cmdid \<in> set changes" and "0 \<le> sint cmdid"
    and "fd \<in> subscribers s (pack64 modid cmdid)" and "fd \<in> online" and "conns fd"
    and "push_change_task ordf ord r conns online (fold publish_mod changes s, []) = (s', sent)"
  shows "\<exists>rsp. (fd, rsp) \<in> set sent \<and> grs_modid rsp = modid \<and> grs_cmdid rsp = cmdid \<and>
    set (grs_host rsp) = {\<lparr>hinfo_ip = atoi (row ! 3), hinfo_port = atoi (row ! 4)\<rparr> | row.
      row \<in> set rows \<and> atoi (row ! 1) = modid \<and> atoi (row ! 2) = cmdid}"
proof -
  let ?s = "fold publish_mod changes s" and ?m = "pack64 modid cmdid"
  have "?m \<in> pending ?s fd" using fold_publish_mod [of changes s fd] assms(5,7) by auto
  moreover have "set sent = {(fd, route_response ord r (hi32 m) (lo32 m)) | fd m.
      fd \<in> online \<and> conns fd \<and> m \<in> pending ?s fd}"
    using push_all_eq [OF assms(2,3), of r conns online ?s ?s "[]"] assms(10)
      set_messages [OF assms(2,3), of r conns online] by (auto simp: push_change_task_def)
  ultimately have "(fd, route_response ord r (hi32 ?m) (lo32 ?m)) \<in> set sent"
    using assms(8,9) by blast
  moreover have "hi32 ?m = modid" "lo32 ?m = cmdid" using assms(6) by (simp_all add: hi32_pack64)
  ultimately have "(fd, route_response ord r modid cmdid) \<in> set sent" by simp
  then show ?thesis
    using route_response_table [OF assms(1,2,4), of modid cmdid]
    by (intro exI conjI) (assumption | simp add: route_response_def)+
qed

text \<open>
  For a negative cmdid the key's upper half is one less than the modid, so the push task looks up
  and announces another pair than the one that changed.
\<close>

theorem negative_cmdid_pushed_wrong:
  assumes "sint cmdid < 0"
  shows "push_mod ord r conns fd (pack64 modid cmdid) (s, sent) =
    (drop_fds {fd} s, sent @ (if conns fd then [(fd, route_response ord r (modid - 1) cmdid)] else []))"
  using assms by (simp add: push_mod_step hi32_pack64)

subsection \<open>Concrete states\<close>

text \<open>Descriptor 5 subscribed to the pair 1/2, which is pending for it.\<close>

definition ex_subs :: subscribe_list where
  "ex_subs = \<lparr>sub_list = [pack64 1 2 \<mapsto> {5}, pack64 1 3 \<mapsto> {5}], pub_list = [5 \<mapsto> {pack64 1 2}]\<rparr>"

lemma ex_subs_sets [simp]:
  "pending ex_subs 5 = {pack64 1 2}" "subscribers ex_subs (pack64 1 2) = {5}"
  "subscribers ex_subs (pack64 1 3) = {5}"
  by (simp_all add: ex_subs_def pending_def subscribers_def)

theorem push_task_delivers_witness:
  "(5, route_response sorted_list_of_set ex_route 1 2) \<in>
    set (snd (push_change_task sorted_list_of_set sorted_list_of_set ex_route (\<lambda>_. True) {5, 6} (ex_subs, [])))"
proof -
  obtain s' sent where run: "push_change_task sorted_list_of_set sorted_list_of_set ex_route (\<lambda>_. True) {5, 6}
      (ex_subs, []) = (s', sent)" by fastforce
  have "hi32 (pack64 1 2) = 1" by (simp add: hi32_pack64)
  then show ?thesis
    using push_task_delivers [OF iterates_sorted iterates_sorted run] run by force
qed

theorem publish_during_push_is_lost_witness:
  "\<exists>s' sent. push_all sorted_list_of_set sorted_list_of_set ex_route (\<lambda>_. True) (make_publish_map {5} ex_subs)
      (publish_mod (pack64 1 3) ex_subs, []) = (s', sent) \<and> pending s' 5 = {}"
proof -
  obtain s' sent where run: "push_all sorted_list_of_set sorted_list_of_set ex_route (\<lambda>_. True)
      (make_publish_map {5} ex_subs) (publish_mod (pack64 1 3) ex_subs, []) = (s', sent)" by fastforce
  show ?thesis
    using publish_during_push_is_lost [OF iterates_sorted iterates_sorted _ _ _ _ run] run by auto
qed

theorem subscriptions_match_connections_witness:
  "5 \<in> subscribers (dns_subs (snd (get_request sorted_list_of_set 5 \<lparr>grq_modid = 1, grq_cmdid = 2\<rparr>
    (create_subscribe 5 (new_dns_service ex_route))))) (pack64 1 2)"
proof -
  let ?ord = "sorted_list_of_set :: uint64 set \<Rightarrow> uint64 list"
  let ?d = "create_subscribe 5 (new_dns_service ex_route)"
  let ?d' = "snd (get_request ?ord 5 \<lparr>grq_modid = 1, grq_cmdid = 2\<rparr> ?d)"
  have "dns_step ?ord (new_dns_service ex_route) ?d"
    by (rule connected) (simp add: new_dns_service_def)
  then have "rtranclp (dns_step ?ord) (new_dns_service ex_route) ?d'"
    by (meson requested converse_rtranclp_into_rtranclp r_into_rtranclp)
  from subscriptions_match_connections [OF this iterates_sorted]
  show ?thesis
    by (simp add: mods_of_def get_request_def create_subscribe_def new_dns_service_def Let_def)
qed

theorem route_request_answer_witness:
  "\<exists>r. grs_modid (fst (get_request sorted_list_of_set 5 \<lparr>grq_modid = 1, grq_cmdid = 2\<rparr>
      (create_subscribe 5 (new_dns_service r)))) = 1 \<and>
    set (grs_host (fst (get_request sorted_list_of_set 5 \<lparr>grq_modid = 1, grq_cmdid = 2\<rparr>
      (create_subscribe 5 (new_dns_service r))))) = {\<lparr>hinfo_ip = 9, hinfo_port = 80\<rparr>}"
proof -
  let ?rows = "[[''1'', ''1'', ''2'', ''9'', ''80'']]" and ?req = "\<lparr>grq_modid = 1, grq_cmdid = 2\<rparr>"
  obtain r where r: "route_get_hosts r = table_hosts ?rows"
    using load_route_data_rows [of "ex_query (Rows ?rows)" "()" ?rows "()" ex_route]
    by (auto simp: ex_query_answers fun_eq_iff)
  let ?d = "create_subscribe 5 (new_dns_service r)"
  have d: "dns_route ?d = r" "conn_param ?d 5 \<noteq> None"
    by (simp_all add: create_subscribe_def new_dns_service_def)
  have ok: "dns_ok ?d"
    by (rule dns_ok_create) (auto simp: dns_ok_def new_dns_service_def mods_of_def subscribers_def new_subscribe_list_def)
  obtain rsp d' where get: "get_request sorted_list_of_set 5 ?req ?d = (rsp, d')" by fastforce
  have "{\<lparr>hinfo_ip = atoi (row ! 3), hinfo_port = atoi (row ! 4)\<rparr> | row.
      row \<in> set ?rows \<and> atoi (row ! 1) = 1 \<and> atoi (row ! 2) = 2} = {\<lparr>hinfo_ip = 9, hinfo_port = 80\<rparr>}"
    by (simp add: ex_numbers)
  then show ?thesis
    using route_request_answer [OF _ iterates_sorted _ d(2) ok get, of ?rows] get r d(1)
    by (intro exI [of _ r]) (simp add: ex_numbers)
qed

theorem change_reaches_subscriber_witness:
  "\<exists>r sent rsp. snd (push_change_task sorted_list_of_set sorted_list_of_set r (\<lambda>_. True) {5}
      (fold publish_mod [pack64 1 2] ex_subs, [])) = sent \<and> (5, rsp) \<in> set sent \<and> grs_modid rsp = 1"
proof -
  let ?rows = "[[''1'', ''1'', ''2'', ''9'', ''80'']]"
  obtain r where r: "route_get_hosts r = table_hosts ?rows"
    using load_route_data_rows [of "ex_query (Rows ?rows)" "()" ?rows "()" ex_route]
    by (auto simp: ex_query_answers fun_eq_iff)
  obtain s' sent where run: "push_change_task sorted_list_of_set sorted_list_of_set r (\<lambda>_. True) {5}
      (fold publish_mod [pack64 1 2] ex_subs, []) = (s', sent)" by fastforce
  obtain rsp where "(5, rsp) \<in> set sent" "grs_modid rsp = 1"
    using change_reaches_subscriber [OF r iterates_sorted iterates_sorted _ _ _ _ _ _ run, of 1 2 5]
    by (auto simp: ex_numbers)
  then show ?thesis using run by (metis snd_conv)
qed

theorem negative_cmdid_pushed_wrong_witness:
  "snd (push_mod sorted_list_of_set ex_route (\<lambda>_. True) 5 (pack64 1 (- 1)) (ex_subs, [])) =
    [(5, route_response sorted_list_of_set ex_route 0 (- 1))]"
  using negative_cmdid_pushed_wrong [of "- 1" sorted_list_of_set ex_route "\<lambda>_. True" 5 1 ex_subs "[]"]
  by simp

end
