(* ===== verification/Dns_Server.thy ===== *)
theory Dns_Server
  imports Server_Run Dns_Service
begin

text \<open>
  The DNS service on its TCP server (\<open>lars_dns/src/dns_service.cpp\<close>, \<open>subscribe.cpp\<close>): its hooks and its
  handler as the application of \<open>Server_Process\<close>, and the push task of \<open>subscribe.cpp\<close> as a thread runs it on
  the objects of the process. The subscriptions are those of the open connections, and what a push
  queues on each of them is known to the byte.
\<close>

subsection \<open>The application\<close>

definition start_hook :: "('task, dns_service) conn_hook" where
  "start_hook = Some (\<lambda>c. Inr (c\<lparr>app := create_subscribe (connfd c) (app c)\<rparr>))"

definition close_hook :: "(uint64 set \<Rightarrow> uint64 list) \<Rightarrow> ('task, dns_service) conn_hook" where
  "close_hook ord = Some (\<lambda>c. res_bind (clear_subscribe ord (connfd c) (app c)) (\<lambda>d. Inr (c\<lparr>app := d\<rparr>)))"

text \<open>\<open>get_request\<close> as a callback: the request is parsed, the answer serialized and sent.\<close>

definition get_request_cb :: "(uint64 set \<Rightarrow> uint64 list) \<Rightarrow> (byte list \<Rightarrow> GetRouteRequest) \<Rightarrow> (GetRouteResponse \<Rightarrow> byte list) \<Rightarrow>
    int32 \<Rightarrow> (unit, dns_service) handler" where
  "get_request_cb ord parse ser fd arg msgid body d =
     (case get_request ord fd (parse body) d of (rsp, d) \<Rightarrow> ([(ID_GetRouteResponse, ser rsp)], d))"

text \<open>What \<open>main\<close> gives to the server.\<close>

definition dns_app :: "(uint64 set \<Rightarrow> uint64 list) \<Rightarrow> (byte list \<Rightarrow> GetRouteRequest) \<Rightarrow> (GetRouteResponse \<Rightarrow> byte list) \<Rightarrow>
    ('task, dns_service, unit) server_app" where
  "dns_app ord parse ser =
     (let hooks = set_conn_close (close_hook ord) (set_conn_start start_hook (None, None))
      in \<lparr>conn_start = fst hooks, conn_close = snd hooks,
          app_router = (\<lambda>fd. add_msg_router ID_GetRouteRequest (get_request_cb ord parse ser fd) None new_msg_router)\<rparr>)"

lemma dns_app_fields [simp]:
  "conn_start (dns_app ord parse ser) = start_hook" "conn_close (dns_app ord parse ser) = close_hook ord"
  "app_router (dns_app ord parse ser) fd = add_msg_router ID_GetRouteRequest (get_request_cb ord parse ser fd) None new_msg_router"
  by (simp_all add: dns_app_def set_conn_start_def set_conn_close_def)

lemma handled_dns:
  "handled (add_msg_router ID_GetRouteRequest (get_request_cb ord parse ser fd) None new_msg_router) i b d =
    (if i = ID_GetRouteRequest then get_request_cb ord parse ser fd None i b d else ([], d))"
  by (simp add: handled_def add_msg_router_def regist_msg_router_def new_msg_router_def)

text \<open>The connections with a \<open>param\<close> are the open ones, and their sets and the subscriptions agree.\<close>

definition dns_inv :: "int32 set \<Rightarrow> dns_service \<Rightarrow> bool" where
  "dns_inv F d \<longleftrightarrow> dns_ok d \<and> dom (conn_param d) = F"

lemma dns_inv_create: "dns_inv F d \<Longrightarrow> fd \<notin> F \<Longrightarrow> dns_inv (insert fd F) (create_subscribe fd d)"
  using dns_ok_create [of d fd] by (auto simp: dns_inv_def create_subscribe_def)

lemma dns_inv_clear:
  assumes "dns_inv F d" and "fd \<in> F" and "iterates ord"
  shows "\<exists>d'. clear_subscribe ord fd d = Inr d' \<and> dns_inv (F - {fd}) d'"
proof -
  obtain mods where "conn_param d fd = Some mods" using assms(1,2) by (auto simp: dns_inv_def)
  then obtain d' where d': "clear_subscribe ord fd d = Inr d'" "conn_param d' = (conn_param d)(fd := None)"
    by (simp add: clear_subscribe_def)
  have "dns_ok d" using assms(1) by (simp add: dns_inv_def)
  then show ?thesis using clear_subscribe_effect(1) [OF _ assms(3) d'(1)] assms(1) d' by (auto simp: dns_inv_def)
qed

lemma dns_inv_request: "dns_inv F d \<Longrightarrow> dns_inv F (snd (get_request ord fd req d))"
  using get_request_effect [of d ord fd req]
  by (auto simp: dns_inv_def get_request_def Let_def split: option.splits)

lemma dns_application:
  assumes "iterates ord"
  shows "server_application dns_inv (dns_app ord parse ser)"
proof
  fix c :: "('a, dns_service) tcp_conn" and F
  show "\<exists>u. call_hook (conn_start (dns_app ord parse ser)) c = Inr (c\<lparr>app := u\<rparr>) \<and> dns_inv (insert (connfd c) F) u"
    if "connfd c \<notin> F" "dns_inv F (app c)"
    using dns_inv_create [OF that(2,1)] by (simp add: start_hook_def) blast
  show "\<exists>u. call_hook (conn_close (dns_app ord parse ser)) c = Inr (c\<lparr>app := u\<rparr>) \<and> dns_inv (F - {connfd c}) u"
    if "connfd c \<in> F" "dns_inv F (app c)"
    using dns_inv_clear [OF that(2,1) assms] by (auto simp: close_hook_def)
next
  fix fd F u i b
  assume "fd \<in> F" "dns_inv F u"
  then show "dns_inv F (handler_upd (app_router (dns_app ord parse ser) fd) i b u)"
    using dns_inv_request [of F u ord fd "parse b"]
    by (auto simp: handler_upd_def handled_dns get_request_cb_def split: prod.split)
qed

text \<open>The code's hash sets are walked in some order that lists each element once; sorted order is one.\<close>

interpretation ds: server_application dns_inv "dns_app sorted_list_of_set parse ser" for parse ser
  by (rule dns_application) (rule iterates_sorted)


subsection \<open>The push\<close>

text \<open>
  The inner loop's body: the pair's hosts in a message, sent on the table's object for the descriptor,
  if there is one, and the descriptor's entry erased.
\<close>

definition push_route :: "(int32 \<Rightarrow> bool) \<Rightarrow> (uint64 set \<Rightarrow> uint64 list) \<Rightarrow> (GetRouteResponse \<Rightarrow> byte list) \<Rightarrow> int32 \<Rightarrow> uint64 \<Rightarrow>
    ('task, dns_service) reactor \<Rightarrow> ('task, dns_service) reactor res" where
  "push_route pollable ord ser fd hs r =
     (let rsp = route_response ord (dns_route (rapp r)) (hi32 hs) (lo32 hs)
      in if sint fd < 0 \<or> int (length (conns (tab r))) \<le> sint fd then Inl Out_Of_Bounds
         else res_bind (case conns (tab r) ! nat (sint fd) of
                          None \<Rightarrow> Inr (0, r)
                        | Some conn \<Rightarrow> obj_send_message pollable conn (ser rsp) ID_GetRouteResponse r)
                (\<lambda>(_, r). Inr (r\<lparr>rapp := (rapp r)\<lparr>dns_subs := (dns_subs (rapp r))\<lparr>pub_list := (pub_list (dns_subs (rapp r)))(fd := None)\<rparr>\<rparr>\<rparr>)))"

text \<open>The task on the thread of loop \<open>l\<close>: its online descriptors are those its loop watches.\<close>

definition push_routes :: "(int32 \<Rightarrow> bool) \<Rightarrow> (int32 set \<Rightarrow> int32 list) \<Rightarrow> (uint64 set \<Rightarrow> uint64 list) \<Rightarrow> (GetRouteResponse \<Rightarrow> byte list) \<Rightarrow>
    nat option \<Rightarrow> ('task, dns_service) reactor \<Rightarrow> ('task, dns_service) reactor res" where
  "push_routes pollable ordf ord ser l r =
     (let need_publish = make_publish_map (get_listen_fds (loop_at l r)) (dns_subs (rapp r))
      in res_fold (\<lambda>fd. res_fold (push_route pollable ord ser fd) (ord (the (need_publish fd)))) (ordf (dom need_publish)) r)"

text \<open>What a push queues for a connection.\<close>

definition pushed_bytes :: "(uint64 set \<Rightarrow> uint64 list) \<Rightarrow> (GetRouteResponse \<Rightarrow> byte list) \<Rightarrow> route \<Rightarrow> uint64 list \<Rightarrow> byte list" where
  "pushed_bytes ord ser rt ms =
     concat (map (\<lambda>m. frame (ID_GetRouteResponse, ser (route_response ord rt (hi32 m) (lo32 m)))) ms)"

lemma pushed_bytes_simps [simp]:
  "pushed_bytes ord ser rt [] = []"
  "pushed_bytes ord ser rt (m # ms) =
    frame (ID_GetRouteResponse, ser (route_response ord rt (hi32 m) (lo32 m))) @ pushed_bytes ord ser rt ms"
  by (simp_all add: pushed_bytes_def)

text \<open>
  The process after bytes were queued on its connections and descriptors were erased from the pending
  list: \<open>extra\<close> says which bytes on which descriptor. The process is in a state it can reach by steps, and
  every connection is still open under its descriptor on its loop.
\<close>

definition queued_more :: "(int32 \<Rightarrow> byte list) \<Rightarrow> ('task, 'u) reactor \<Rightarrow> ('task, 'u) reactor \<Rightarrow> bool" where
  "queued_more extra r r' \<longleftrightarrow> (\<forall>a ob'. open_at r' a ob' \<longrightarrow> (\<exists>ob. open_at r a ob)) \<and>
     (\<forall>a ob. open_at r a ob \<longrightarrow> (\<exists>ob'. open_at r' a ob' \<and> obj_fd ob' = obj_fd ob \<and> obj_loop ob' = obj_loop ob \<and>
        out_bytes (load_conn ob' r') = out_bytes (load_conn ob r) @ extra (obj_fd ob)))"

definition pushed :: "(int32 \<Rightarrow> bool) \<Rightarrow> ('task, dns_service, 'a) server_app \<Rightarrow> (int32 \<Rightarrow> byte list) \<Rightarrow> int32 set \<Rightarrow>
    ('task, dns_service) reactor \<Rightarrow> ('task, dns_service) reactor \<Rightarrow> bool" where
  "pushed pollable sv extra A r r' \<longleftrightarrow> serving pollable dns_inv sv r' \<and> rtranclp (server_step pollable dns_inv sv) r r' \<and>
     queued_more extra r r' \<and> rapp r' = (rapp r)\<lparr>dns_subs := drop_fds A (dns_subs (rapp r))\<rparr>"

lemma queued_moreD:
  assumes "queued_more extra r r'"
  shows "open_at r' a ob' \<Longrightarrow> \<exists>ob. open_at r a ob"
    and "open_at r a ob \<Longrightarrow> \<exists>ob'. open_at r' a ob' \<and> obj_fd ob' = obj_fd ob \<and> obj_loop ob' = obj_loop ob \<and>
      out_bytes (load_conn ob' r') = out_bytes (load_conn ob r) @ extra (obj_fd ob)"
  using assms unfolding queued_more_def by blast+

lemma pushed_refl: "serving pollable dns_inv sv r \<Longrightarrow> pushed pollable sv (\<lambda>_. []) {} r r"
  by (auto simp: pushed_def queued_more_def)

lemma queued_more_trans:
  assumes "queued_more e1 r r1" and "queued_more e2 r1 r2" and "\<And>fd. e fd = e1 fd @ e2 fd"
  shows "queued_more e r r2"
  unfolding queued_more_def
proof (intro conjI allI impI)
  fix a ob
  assume "open_at r a ob"
  then obtain o1 where o1: "open_at r1 a o1" "obj_fd o1 = obj_fd ob" "obj_loop o1 = obj_loop ob"
      "out_bytes (load_conn o1 r1) = out_bytes (load_conn ob r) @ e1 (obj_fd ob)"
    using queued_moreD(2) [OF assms(1)] by blast
  then obtain o2 where "open_at r2 a o2" "obj_fd o2 = obj_fd o1" "obj_loop o2 = obj_loop o1"
      "out_bytes (load_conn o2 r2) = out_bytes (load_conn o1 r1) @ e2 (obj_fd o1)"
    using queued_moreD(2) [OF assms(2)] by blast
  then show "\<exists>ob'. open_at r2 a ob' \<and> obj_fd ob' = obj_fd ob \<and> obj_loop ob' = obj_loop ob \<and>
      out_bytes (load_conn ob' r2) = out_bytes (load_conn ob r) @ e (obj_fd ob)"
    using o1(2-4) by (intro exI [of _ o2]) (simp add: assms(3))
qed (use assms(1,2) in \<open>unfold queued_more_def, blast\<close>)

lemma pushed_trans:
  assumes "pushed pollable sv e1 A r r1" and "pushed pollable sv e2 B r1 r2" and "\<And>fd. e fd = e1 fd @ e2 fd"
  shows "pushed pollable sv e (A \<union> B) r r2"
proof -
  have "queued_more e r r2"
    by (rule queued_more_trans [of e1 r r1 e2 r2]) (use assms in \<open>simp_all add: pushed_def\<close>)
  then show ?thesis using assms(1,2) by (auto simp: pushed_def Un_commute)
qed

lemma with_rapp [simp]:
  "open_at (r\<lparr>rapp := u\<rparr>) = open_at r" "open_fds (r\<lparr>rapp := u\<rparr>) = open_fds r"
  "out_bytes (load_conn ob (r\<lparr>rapp := u\<rparr>)) = out_bytes (load_conn ob r)" "loop_at l (r\<lparr>rapp := u\<rparr>) = loop_at l r"
  by (simp_all add: open_at_def open_fds_def out_bytes_def fun_eq_iff loop_at_def cong: option.case_cong)

text \<open>The room there must be on every connection for what is pushed.\<close>

definition push_room :: "(int32 \<Rightarrow> byte list) \<Rightarrow> ('task, 'u) reactor \<Rightarrow> bool" where
  "push_room extra r \<longleftrightarrow>
     (\<forall>a ob. open_at r a ob \<longrightarrow> int (length (out_bytes (load_conn ob r))) + int (length (extra (obj_fd ob))) \<le> m8M)"

lemma open_fdD:
  assumes "server_inv pollable J todo r" and "fd \<in> open_fds r"
  obtains a ob where "open_at r a ob" "obj_fd ob = fd" "conns (tab r) ! nat (sint fd) = Some a"
    "0 \<le> sint fd" "sint fd < int (length (conns (tab r)))" "\<And>b ob'. open_at r b ob' \<Longrightarrow> b \<noteq> a \<Longrightarrow> obj_fd ob' \<noteq> fd"
proof -
  obtain a ob where a: "open_at r a ob" "obj_fd ob = fd" using assms(2) by (auto simp: open_fds_def)
  have "obj_ok pollable r a ob" by (rule server_invD(3) [OF assms(1) a(1)])
  then show ?thesis
    using a open_fds_differ [OF assms(1) _ a(1)] by (intro that [of a ob]) (auto simp: obj_ok_def fd_ok_def)
qed

lemma push_route_ok:
  assumes run: "serving pollable dns_inv sv r" and fd: "fd \<in> open_fds r"
    and room: "push_room (\<lambda>x. if x = fd then frame (ID_GetRouteResponse, ser (route_response ord (dns_route (rapp r)) (hi32 m) (lo32 m))) else []) r"
  shows "push_route pollable ord ser fd m r = Inl Exited \<or>
    (\<exists>r'. push_route pollable ord ser fd m r = Inr r' \<and>
       pushed pollable sv (\<lambda>x. if x = fd then pushed_bytes ord ser (dns_route (rapp r)) [m] else []) {fd} r r')"
proof -
  let ?data = "ser (route_response ord (dns_route (rapp r)) (hi32 m) (lo32 m))"
  have inv: "server_inv pollable dns_inv [] r" using run by (simp add: serving_def)
  obtain a ob where a: "open_at r a ob" "obj_fd ob = fd" "conns (tab r) ! nat (sint fd) = Some a"
      "0 \<le> sint fd" "sint fd < int (length (conns (tab r)))" "\<And>b ob'. open_at r b ob' \<Longrightarrow> b \<noteq> a \<Longrightarrow> obj_fd ob' \<noteq> fd"
    using open_fdD [OF inv fd] by metis
  have fits: "int (length (out_bytes (load_conn ob r))) + int (length (frame (ID_GetRouteResponse, ?data))) \<le> m8M"
    using room [unfolded push_room_def, rule_format, OF a(1)] a(2) by simp
  from obj_send_ok [OF inv a(1) fits] show ?thesis
  proof (elim disjE exE conjE)
    fix r1
    assume r1: "obj_send_message pollable a ?data ID_GetRouteResponse r = Inr (0, r1)" "moved pollable dns_inv [] a r r1"
      "sent_on a ob (frame (ID_GetRouteResponse, ?data)) r r1"
    let ?d = "(rapp r)\<lparr>dns_subs := drop_fds {fd} (dns_subs (rapp r))\<rparr>"
    have erase: "(dns_subs (rapp r1))\<lparr>pub_list := (pub_list (dns_subs (rapp r1)))(fd := None)\<rparr> = drop_fds {fd} (dns_subs (rapp r))"
      using r1(3) by (auto simp: sent_on_def drop_fds_def fun_upd_def)
    have one: "push_route pollable ord ser fd m r = Inr (r1\<lparr>rapp := ?d\<rparr>)"
      using a r1(1,3) erase by (simp add: push_route_def Let_def sent_on_def)
    have "dns_inv (open_fds r1) (rapp r)" using r1(2,3) server_invD(11) by (fastforce simp: moved_def sent_on_def)
    then have "dns_inv (open_fds r1) ?d"
      using dns_ok_same_subs [of "rapp r" "drop_fds {fd} (dns_subs (rapp r))" "dns_route (rapp r)"]
      by (simp add: dns_inv_def subscribers_def fun_eq_iff)
    from step_app [where J = dns_inv, OF this] have "server_step pollable dns_inv sv r1 (r1\<lparr>rapp := ?d\<rparr>)" .
    moreover have "server_step pollable dns_inv sv r r1" by (rule step_send [OF a(1) fits r1(1)])
    ultimately have steps: "rtranclp (server_step pollable dns_inv sv) r (r1\<lparr>rapp := ?d\<rparr>)"
      by (meson converse_rtranclp_into_rtranclp r_into_rtranclp)
    have "serving pollable dns_inv sv (r1\<lparr>rapp := ?d\<rparr>)"
      using steps run by (induction rule: rtranclp_induct) (auto intro: serving_step)
    moreover have "queued_more (\<lambda>x. if x = fd then pushed_bytes ord ser (dns_route (rapp r)) [m] else []) r (r1\<lparr>rapp := ?d\<rparr>)"
      unfolding queued_more_def
    proof (intro conjI allI impI)
      fix b ob'
      assume b: "open_at r b ob'"
      show "\<exists>o'. open_at (r1\<lparr>rapp := ?d\<rparr>) b o' \<and> obj_fd o' = obj_fd ob' \<and> obj_loop o' = obj_loop ob' \<and>
          out_bytes (load_conn o' (r1\<lparr>rapp := ?d\<rparr>)) = out_bytes (load_conn ob' r) @
            (if obj_fd ob' = fd then pushed_bytes ord ser (dns_route (rapp r)) [m] else [])"
      proof (cases "b = a")
        case True
        then have "ob' = ob" using a(1) b by (simp add: open_at_def)
        then show ?thesis using True r1(3) a(2) by (auto simp: sent_on_def)
      next
        case False
        then show ?thesis
          using b a(6) r1(2) unfolding moved_def untouched_def by (intro exI [of _ ob']) auto
      qed
    qed (use r1(3) in \<open>unfold sent_on_def with_rapp, blast\<close>)
    ultimately show ?thesis using one steps by (auto simp: pushed_def)
  qed (use a in \<open>simp add: push_route_def Let_def\<close>)
qed


lemma push_room_rest:
  assumes "push_room e r" and "queued_more e1 r r1" and "\<And>fd. length (e1 fd) + length (e2 fd) \<le> length (e fd)"
  shows "push_room e2 r1"
  unfolding push_room_def
proof (intro allI impI)
  fix a o1
  assume a: "open_at r1 a o1"
  then obtain ob where ob: "open_at r a ob" using queued_moreD(1) [OF assms(2)] by blast
  then obtain o2 where o2: "open_at r1 a o2" "obj_fd o2 = obj_fd ob"
      "out_bytes (load_conn o2 r1) = out_bytes (load_conn ob r) @ e1 (obj_fd ob)"
    using queued_moreD(2) [OF assms(2)] by blast
  have "o1 = o2" using a o2(1) by (simp add: open_at_def)
  moreover have "int (length (out_bytes (load_conn ob r))) + int (length (e (obj_fd ob))) \<le> m8M"
    using assms(1) ob by (simp add: push_room_def)
  ultimately show "int (length (out_bytes (load_conn o1 r1))) + int (length (e2 (obj_fd o1))) \<le> m8M"
    using o2(2,3) assms(3) [of "obj_fd ob"] by simp
qed

lemma push_room_le: "push_room e r \<Longrightarrow> (\<And>fd. length (e2 fd) \<le> length (e fd)) \<Longrightarrow> push_room e2 r"
  unfolding push_room_def by (meson add_left_mono nat_int_comparison(3) order_trans)

lemma queued_more_fds: "queued_more e r r' \<Longrightarrow> open_fds r \<subseteq> open_fds r'"
  unfolding queued_more_def open_fds_def by fastforce

text \<open>The pairs of one descriptor, then all descriptors.\<close>

lemma push_mods_ok:
  assumes "serving pollable dns_inv sv r" and "fd \<in> open_fds r" and "dns_route (rapp r) = rt"
    and "push_room (\<lambda>x. if x = fd then pushed_bytes ord ser rt ms else []) r"
  shows "res_fold (push_route pollable ord ser fd) ms r = Inl Exited \<or>
    (\<exists>r'. res_fold (push_route pollable ord ser fd) ms r = Inr r' \<and>
       pushed pollable sv (\<lambda>x. if x = fd then pushed_bytes ord ser rt ms else []) (if ms = [] then {} else {fd}) r r')"
  using assms
proof (induction ms arbitrary: r)
  case Nil
  have "(\<lambda>x. if x = fd then pushed_bytes ord ser rt [] else []) = (\<lambda>_. [])" by (simp add: fun_eq_iff)
  then show ?case using pushed_refl [OF Nil.prems(1)] by simp
next
  case (Cons m ms)
  have "push_room (\<lambda>x. if x = fd then frame (ID_GetRouteResponse, ser (route_response ord (dns_route (rapp r)) (hi32 m) (lo32 m))) else []) r"
    by (rule push_room_le [OF Cons.prems(4)]) (simp add: Cons.prems(3))
  from push_route_ok [where ord = ord and ser = ser and m = m, OF Cons.prems(1,2) this] show ?case
  proof (elim disjE exE conjE)
    fix r1
    assume r1: "push_route pollable ord ser fd m r = Inr r1"
      "pushed pollable sv (\<lambda>x. if x = fd then pushed_bytes ord ser (dns_route (rapp r)) [m] else []) {fd} r r1"
    let ?e1 = "\<lambda>x. if x = fd then pushed_bytes ord ser (dns_route (rapp r)) [m] else []"
    have q: "queued_more ?e1 r r1" "dns_route (rapp r1) = rt" "serving pollable dns_inv sv r1"
      using r1(2) Cons.prems(3) by (simp_all add: pushed_def)
    have "push_room (\<lambda>x. if x = fd then pushed_bytes ord ser rt ms else []) r1"
      by (rule push_room_rest [OF Cons.prems(4) q(1)]) (simp add: Cons.prems(3))
    from Cons.IH [OF q(3) subsetD [OF queued_more_fds [OF q(1)] Cons.prems(2)] q(2) this] show ?thesis
    proof (elim disjE exE conjE)
      fix r2
      assume r2: "res_fold (push_route pollable ord ser fd) ms r1 = Inr r2"
        "pushed pollable sv (\<lambda>x. if x = fd then pushed_bytes ord ser rt ms else []) (if ms = [] then {} else {fd}) r1 r2"
      have "pushed pollable sv (\<lambda>x. if x = fd then pushed_bytes ord ser rt (m # ms) else []) ({fd} \<union> (if ms = [] then {} else {fd})) r r2"
        by (rule pushed_trans [OF r1(2) r2(2)]) (simp add: Cons.prems(3))
      moreover have "{fd} \<union> (if ms = [] then {} else {fd}) = {fd}" by simp
      ultimately have "pushed pollable sv (\<lambda>x. if x = fd then pushed_bytes ord ser rt (m # ms) else []) {fd} r r2" by (simp only:)
      then show ?thesis using r1(1) r2(1) by simp
    qed (simp add: r1(1))
  qed simp
qed


lemma push_fds_ok:
  assumes "serving pollable dns_inv sv r" and "set fds \<subseteq> open_fds r" and "distinct fds" and "dns_route (rapp r) = rt"
    and "\<forall>fd \<in> set fds. todo fd \<noteq> []" and "push_room (\<lambda>x. if x \<in> set fds then pushed_bytes ord ser rt (todo x) else []) r"
  shows "res_fold (\<lambda>fd. res_fold (push_route pollable ord ser fd) (todo fd)) fds r = Inl Exited \<or>
    (\<exists>r'. res_fold (\<lambda>fd. res_fold (push_route pollable ord ser fd) (todo fd)) fds r = Inr r' \<and>
       pushed pollable sv (\<lambda>x. if x \<in> set fds then pushed_bytes ord ser rt (todo x) else []) (set fds) r r')"
  using assms
proof (induction fds arbitrary: r)
  case Nil
  then show ?case using pushed_refl [OF Nil.prems(1)] by simp
next
  case (Cons fd fds)
  let ?e = "\<lambda>x. if x \<in> set (fd # fds) then pushed_bytes ord ser rt (todo x) else []"
  let ?e1 = "\<lambda>x. if x = fd then pushed_bytes ord ser rt (todo fd) else []"
  let ?e2 = "\<lambda>x. if x \<in> set fds then pushed_bytes ord ser rt (todo x) else []"
  have fd: "fd \<in> open_fds r" using Cons.prems(2) by simp
  have "push_room ?e1 r" by (rule push_room_le [OF Cons.prems(6)]) simp
  from push_mods_ok [where ord = ord and ser = ser and ms = "todo fd", OF Cons.prems(1) fd Cons.prems(4) this]
  show ?case
  proof (elim disjE exE conjE)
    fix r1
    assume r1: "res_fold (push_route pollable ord ser fd) (todo fd) r = Inr r1"
      "pushed pollable sv ?e1 (if todo fd = [] then {} else {fd}) r r1"
    have q: "queued_more ?e1 r r1" "dns_route (rapp r1) = rt" "serving pollable dns_inv sv r1"
      using r1(2) Cons.prems(4) by (simp_all add: pushed_def)
    have "push_room ?e2 r1"
      by (rule push_room_rest [OF Cons.prems(6) q(1)]) (use Cons.prems(3) in simp)
    moreover have "set fds \<subseteq> open_fds r1" using queued_more_fds [OF q(1)] Cons.prems(2) by auto
    ultimately have "res_fold (\<lambda>fd. res_fold (push_route pollable ord ser fd) (todo fd)) fds r1 = Inl Exited \<or>
        (\<exists>r2. res_fold (\<lambda>fd. res_fold (push_route pollable ord ser fd) (todo fd)) fds r1 = Inr r2 \<and> pushed pollable sv ?e2 (set fds) r1 r2)"
      by (intro Cons.IH [OF q(3) _ _ q(2)]) (use Cons.prems(3,5) in simp_all)
    then show ?thesis
    proof (elim disjE exE conjE)
      fix r2
      assume r2: "res_fold (\<lambda>fd. res_fold (push_route pollable ord ser fd) (todo fd)) fds r1 = Inr r2"
        "pushed pollable sv ?e2 (set fds) r1 r2"
      have "pushed pollable sv ?e ((if todo fd = [] then {} else {fd}) \<union> set fds) r r2"
        by (rule pushed_trans [OF r1(2) r2(2)]) (use Cons.prems(3) in auto)
      then show ?thesis using r1(1) r2(1) Cons.prems(5) by simp
    qed (simp add: r1(1))
  qed simp
qed


subsection \<open>What subscribers get\<close>

lemma listens:
  assumes "server_inv pollable J todo r" and "open_at r a ob"
  shows "obj_fd ob \<in> get_listen_fds (loop_at (obj_loop ob) r)"
  using open_event(1,3) [OF assms] by (auto simp: loop_ok_def get_listen_fds_def)

lemma subscriber_open: "dns_inv F d \<Longrightarrow> fd \<in> subscribers (dns_subs d) m \<Longrightarrow> fd \<in> F"
  by (auto simp: dns_inv_def dns_ok_def mods_of_def split: option.splits)

text \<open>
  C17: Subscriptions are those of open connections: in every state the DNS service process reaches, a
  descriptor that is subscribed to a pair belongs to an open connection whose object is the one the
  table has for it, on whose thread's loop it is online; so a push finds every subscriber, and never a
  deleted object.
\<close>

theorem subscribers_are_connections:
  assumes "server_started pollable dns_inv (dns_app ord parse ser) r0"
    and "rtranclp (server_step pollable dns_inv (dns_app ord parse ser)) r0 r"
    and "fd \<in> subscribers (dns_subs (rapp r)) m"
  shows "\<exists>a ob. open_at r a ob \<and> obj_fd ob = fd \<and> conns (tab r) ! nat (sint fd) = Some a \<and>
    fd \<in> get_listen_fds (loop_at (obj_loop ob) r) \<and> m \<in> mods_of (rapp r) fd"
proof -
  have inv: "server_inv pollable dns_inv [] r" using sm.inv_reachable [OF assms(1,2)] by (simp add: serving_def)
  have d: "dns_inv (open_fds r) (rapp r)" by (rule server_invD(11) [OF inv])
  obtain a ob where "open_at r a ob" "obj_fd ob = fd" "conns (tab r) ! nat (sint fd) = Some a"
    using open_fdD [OF inv subscriber_open [OF d assms(3)]] by metis
  moreover have "m \<in> mods_of (rapp r) fd" using d assms(3) by (simp add: dns_inv_def dns_ok_def)
  ultimately show ?thesis using listens [OF inv] by blast
qed

text \<open>The push on a serving process whose pending lists are for open connections.\<close>

lemma push_queues:
  assumes run: "serving pollable dns_inv sv r" and ord: "iterates ord" "iterates ordf"
    and stale: "\<forall>fd \<in> get_listen_fds (loop_at l r). pending (dns_subs (rapp r)) fd \<noteq> {} \<longrightarrow> fd \<in> open_fds r"
    and room: "push_room (\<lambda>fd. if fd \<in> get_listen_fds (loop_at l r)
      then pushed_bytes ord ser (dns_route (rapp r)) (ord (pending (dns_subs (rapp r)) fd)) else []) r"
  shows "push_routes pollable ordf ord ser l r = Inl Exited \<or>
    (\<exists>r'. push_routes pollable ordf ord ser l r = Inr r' \<and> rtranclp (server_step pollable dns_inv sv) r r' \<and>
       (\<forall>a ob. open_at r a ob \<and> obj_loop ob = l \<longrightarrow>
          (\<exists>ob'. open_at r' a ob' \<and> obj_fd ob' = obj_fd ob \<and> out_bytes (load_conn ob' r') =
             out_bytes (load_conn ob r) @ pushed_bytes ord ser (dns_route (rapp r)) (ord (pending (dns_subs (rapp r)) (obj_fd ob)))) \<and>
          pending (dns_subs (rapp r')) (obj_fd ob) = {}))"
proof -
  let ?on = "get_listen_fds (loop_at l r)" and ?subs = "dns_subs (rapp r)" and ?rt = "dns_route (rapp r)"
  let ?due = "due_fds ?on ?subs"
  let ?todo = "\<lambda>fd. ord (the (make_publish_map ?on ?subs fd))"
  let ?e = "\<lambda>x. if x \<in> set (ordf ?due) then pushed_bytes ord ser ?rt (?todo x) else []"
  have inv: "server_inv pollable dns_inv [] r" using run by (simp add: serving_def)
  have fds: "set (ordf ?due) = ?due" "distinct (ordf ?due)" using iteratesD [OF ord(2)] by (metis finite)+
  have sub: "set (ordf ?due) \<subseteq> open_fds r" using stale fds(1) by (auto simp: due_fds_def)
  have todo: "?todo fd = ord (pending ?subs fd) \<and> ?todo fd \<noteq> []" if "fd \<in> ?due" for fd
    using that iteratesD [OF ord(1), of "pending ?subs fd"] by (auto simp: due_fds_def make_publish_map_eq)
  have fits: "push_room ?e r"
    by (rule push_room_le [OF room]) (use todo fds(1) in \<open>auto simp: due_fds_def\<close>)
  have ne: "\<forall>fd \<in> set (ordf ?due). ?todo fd \<noteq> []" using todo fds(1) by blast
  have eq: "push_routes pollable ordf ord ser l r = res_fold (\<lambda>fd. res_fold (push_route pollable ord ser fd) (?todo fd)) (ordf ?due) r"
    by (simp add: push_routes_def Let_def dom_make_publish_map)
  from push_fds_ok [OF run sub fds(2) refl ne fits] show ?thesis
  proof (elim disjE exE conjE)
    fix r'
    assume r': "res_fold (\<lambda>fd. res_fold (push_route pollable ord ser fd) (?todo fd)) (ordf ?due) r = Inr r'"
      "pushed pollable sv ?e (set (ordf ?due)) r r'"
    have more: "queued_more ?e r r'" and rapp: "dns_subs (rapp r') = drop_fds (set (ordf ?due)) ?subs"
      and on_way: "rtranclp (server_step pollable dns_inv sv) r r'"
      using r'(2) by (simp_all add: pushed_def)
    have "(\<exists>ob'. open_at r' a ob' \<and> obj_fd ob' = obj_fd ob \<and> out_bytes (load_conn ob' r') =
          out_bytes (load_conn ob r) @ pushed_bytes ord ser ?rt (ord (pending ?subs (obj_fd ob)))) \<and>
        pending (dns_subs (rapp r')) (obj_fd ob) = {}" if a: "open_at r a ob \<and> obj_loop ob = l" for a ob
    proof -
      have on: "obj_fd ob \<in> ?on" using listens [OF inv conjunct1 [OF a]] a by simp
      have bytes: "?e (obj_fd ob) = pushed_bytes ord ser ?rt (ord (pending ?subs (obj_fd ob)))"
        using todo [of "obj_fd ob"] fds(1) on iteratesD [OF ord(1), of "{}"] by (auto simp: due_fds_def)
      obtain ob' where "open_at r' a ob'" "obj_fd ob' = obj_fd ob"
          "out_bytes (load_conn ob' r') = out_bytes (load_conn ob r) @ pushed_bytes ord ser ?rt (ord (pending ?subs (obj_fd ob)))"
        using queued_moreD(2) [OF more conjunct1 [OF a]] bytes by auto
      moreover have "pending (dns_subs (rapp r')) (obj_fd ob) = {}"
        using on fds(1) rapp by (simp add: due_fds_def)
      ultimately show ?thesis by blast
    qed
    then show ?thesis using on_way by (intro disjI2 exI [of _ r'] conjI) (simp_all only: eq r'(1), blast)
  qed (intro disjI1, simp only: eq)
qed

text \<open>The states of the process after the backend thread has loaded a table and published changes.\<close>

definition published_to :: "route \<Rightarrow> uint64 list \<Rightarrow> dns_service \<Rightarrow> dns_service" where
  "published_to rt changes d = d\<lparr>dns_subs := fold publish_mod changes (dns_subs d), dns_route := rt\<rparr>"

lemma published_fields [simp]:
  "dns_route (published_to rt changes d) = rt"
  "pending (dns_subs (published_to rt changes d)) fd = pending (dns_subs d) fd \<union> {m \<in> set changes. fd \<in> subscribers (dns_subs d) m}"
  "subscribers (dns_subs (published_to rt changes d)) = subscribers (dns_subs d)"
  using fold_publish_mod [of changes "dns_subs d"] by (simp_all add: published_to_def)

lemma published_inv: "dns_inv F d \<Longrightarrow> dns_inv F (published_to rt changes d)"
  using fold_publish_mod [of changes "dns_subs d"] dns_ok_same_subs [of d "fold publish_mod changes (dns_subs d)" rt]
  by (simp add: dns_inv_def published_to_def)

lemma published_step: "serving pollable dns_inv sv r \<Longrightarrow>
    server_step pollable dns_inv sv r (r\<lparr>rapp := published_to rt changes (rapp r)\<rparr>)"
  by (rule step_app, rule published_inv) (auto simp: serving_def dest: server_invD(11))

lemma published_queues:
  assumes run: "serving pollable dns_inv sv r" and ord: "iterates ord" "iterates ordf"
    and d': "d' = published_to rt changes (rapp r)"
    and stale: "\<forall>fd \<in> get_listen_fds (loop_at l r). pending (dns_subs (rapp r)) fd \<noteq> {} \<longrightarrow> fd \<in> open_fds r"
    and room: "push_room (\<lambda>fd. if fd \<in> get_listen_fds (loop_at l r) then pushed_bytes ord ser rt (ord (pending (dns_subs d') fd)) else []) r"
  shows "push_routes pollable ordf ord ser l (r\<lparr>rapp := d'\<rparr>) = Inl Exited \<or>
    (\<exists>r'. push_routes pollable ordf ord ser l (r\<lparr>rapp := d'\<rparr>) = Inr r' \<and> rtranclp (server_step pollable dns_inv sv) r r' \<and>
       (\<forall>a ob. open_at r a ob \<and> obj_loop ob = l \<longrightarrow>
          (\<exists>ob'. open_at r' a ob' \<and> obj_fd ob' = obj_fd ob \<and> out_bytes (load_conn ob' r') =
             out_bytes (load_conn ob r) @ pushed_bytes ord ser rt (ord (pending (dns_subs d') (obj_fd ob)))) \<and>
          pending (dns_subs (rapp r')) (obj_fd ob) = {}))"
proof -
  let ?r = "r\<lparr>rapp := d'\<rparr>"
  have rt': "dns_route d' = rt" and now: "rapp ?r = d'" by (simp_all add: d')
  have step: "server_step pollable dns_inv sv r ?r" unfolding d' by (rule published_step [OF run])
  have "dns_inv (open_fds r) (rapp r)" using run by (auto simp: serving_def dest: server_invD(11))
  then have "\<forall>fd \<in> get_listen_fds (loop_at l ?r). pending (dns_subs (rapp ?r)) fd \<noteq> {} \<longrightarrow> fd \<in> open_fds ?r"
    using stale subscriber_open by (auto simp: d')
  moreover have "push_room (\<lambda>fd. if fd \<in> get_listen_fds (loop_at l ?r)
      then pushed_bytes ord ser (dns_route (rapp ?r)) (ord (pending (dns_subs (rapp ?r)) fd)) else []) ?r"
    using room unfolding push_room_def with_rapp now rt' .
  ultimately have "push_routes pollable ordf ord ser l ?r = Inl Exited \<or>
    (\<exists>r'. push_routes pollable ordf ord ser l ?r = Inr r' \<and> rtranclp (server_step pollable dns_inv sv) ?r r' \<and>
       (\<forall>a ob. open_at ?r a ob \<and> obj_loop ob = l \<longrightarrow>
          (\<exists>ob'. open_at r' a ob' \<and> obj_fd ob' = obj_fd ob \<and> out_bytes (load_conn ob' r') =
             out_bytes (load_conn ob ?r) @ pushed_bytes ord ser (dns_route (rapp ?r)) (ord (pending (dns_subs (rapp ?r)) (obj_fd ob)))) \<and>
          pending (dns_subs (rapp r')) (obj_fd ob) = {}))"
    by (rule push_queues [OF serving_step [OF run step] ord])
  then show ?thesis using converse_rtranclp_into_rtranclp [where r = "server_step pollable dns_inv sv", OF step]
    by (simp add: rt') blast
qed

text \<open>
  C14: A change reaches the output of every subscriber: when the backend thread has loaded the new table
  and published the changed pairs, the push task on a thread queues on each connection of the thread,
  behind what it still had to send, exactly one framed answer for every pair that is pending for it,
  among them every changed pair it subscribed to, each with the new table's hosts; nothing is pending
  for it afterwards, and the process is in a state it can reach. There must be room for the bytes, and
  what was pending already must be for open connections.
\<close>

theorem published_change_is_queued:
  assumes "server_started pollable dns_inv (dns_app ord parse ser) r0"
    and "rtranclp (server_step pollable dns_inv (dns_app ord parse ser)) r0 r"
    and "iterates ord" and "iterates ordf" and "d' = published_to rt changes (rapp r)"
    and "\<forall>fd \<in> get_listen_fds (loop_at l r). pending (dns_subs (rapp r)) fd \<noteq> {} \<longrightarrow> fd \<in> open_fds r"
    and "push_room (\<lambda>fd. if fd \<in> get_listen_fds (loop_at l r) then pushed_bytes ord ser rt (ord (pending (dns_subs d') fd)) else []) r"
  shows "push_routes pollable ordf ord ser l (r\<lparr>rapp := d'\<rparr>) = Inl Exited \<or>
    (\<exists>r'. push_routes pollable ordf ord ser l (r\<lparr>rapp := d'\<rparr>) = Inr r' \<and>
       rtranclp (server_step pollable dns_inv (dns_app ord parse ser)) r0 r' \<and>
       (\<forall>a ob. open_at r a ob \<and> obj_loop ob = l \<longrightarrow>
          (\<exists>ob'. open_at r' a ob' \<and> obj_fd ob' = obj_fd ob \<and> out_bytes (load_conn ob' r') =
             out_bytes (load_conn ob r) @ pushed_bytes ord ser rt (ord (pending (dns_subs d') (obj_fd ob)))) \<and>
          {m \<in> set changes. obj_fd ob \<in> subscribers (dns_subs (rapp r)) m} \<subseteq> pending (dns_subs d') (obj_fd ob) \<and>
          pending (dns_subs (rapp r')) (obj_fd ob) = {}))"
proof -
  have changed: "{m \<in> set changes. obj_fd ob \<in> subscribers (dns_subs (rapp r)) m} \<subseteq> pending (dns_subs d') (obj_fd ob)" for ob
    by (auto simp: assms(5))
  from published_queues [OF sm.inv_reachable [OF assms(1,2)] assms(3-7)] show ?thesis
  proof (elim disjE exE conjE)
    fix r'
    assume "push_routes pollable ordf ord ser l (r\<lparr>rapp := d'\<rparr>) = Inr r'"
      "rtranclp (server_step pollable dns_inv (dns_app ord parse ser)) r r'"
      "\<forall>a ob. open_at r a ob \<and> obj_loop ob = l \<longrightarrow>
          (\<exists>ob'. open_at r' a ob' \<and> obj_fd ob' = obj_fd ob \<and> out_bytes (load_conn ob' r') =
             out_bytes (load_conn ob r) @ pushed_bytes ord ser rt (ord (pending (dns_subs d') (obj_fd ob)))) \<and>
          pending (dns_subs (rapp r')) (obj_fd ob) = {}"
    then show ?thesis using changed rtranclp_trans [OF assms(2)] by (intro disjI2 exI [of _ r'] conjI) (assumption | blast)+
  qed simp
qed

text \<open>
  Closing a connection leaves its descriptor's pending list: when the next connection gets the same
  descriptor before a push on the old one's thread has emptied the list, it is sent answers for pairs
  it never asked for.
\<close>

lemma stale_pending_pushed:
  assumes "iterates ord" and "iterates ordf" and "dns_ok d" and "clear_subscribe ord fd d = Inr d1" and "d2 = create_subscribe fd d1"
    and "m \<in> pending (dns_subs d) fd" and "fd \<in> online" and "has_conn fd"
    and "push_change_task ordf ord r has_conn online (dns_subs d2, []) = (s', msgs)"
  shows "mods_of d2 fd = {} \<and> (fd, route_response ord r (hi32 m) (lo32 m)) \<in> set msgs"
proof -
  have keeps: "pending (fold (\<lambda>m. unSubscribe m fd) ms s) = pending s" for ms s by (induction ms arbitrary: s) simp_all
  have "m \<in> pending (dns_subs d2) fd"
    using assms(4-6) keeps by (auto simp: clear_subscribe_def create_subscribe_def split: option.splits)
  moreover have "set msgs = {(fd, route_response ord r (hi32 m) (lo32 m)) | fd m. fd \<in> online \<and> has_conn fd \<and> m \<in> pending (dns_subs d2) fd}"
    using push_all_eq [OF assms(1,2), of r has_conn online "dns_subs d2" "dns_subs d2" "[]"] assms(9)
      set_messages [OF assms(1,2), of r has_conn online] by (auto simp: push_change_task_def)
  ultimately show ?thesis using assms(5,7,8) by (auto simp: mods_of_def create_subscribe_def)
qed

subsection \<open>A concrete service\<close>

text \<open>Descriptor 5 connects and asks for the pair 1/2.\<close>

definition ex_dns :: dns_service where
  "ex_dns = create_subscribe 5 (new_dns_service ex_route)"

definition ex_asked :: dns_service where
  "ex_asked = snd (get_request sorted_list_of_set 5 \<lparr>grq_modid = 1, grq_cmdid = 2\<rparr> ex_dns)"

abbreviation ex_dns_app :: "(byte list \<Rightarrow> GetRouteRequest) \<Rightarrow> (GetRouteResponse \<Rightarrow> byte list) \<Rightarrow> (nat, dns_service, unit) server_app" where
  "ex_dns_app \<equiv> dns_app sorted_list_of_set"

lemma ex_asked_subs:
  "subscribers (dns_subs ex_asked) m = (if m = pack64 1 2 then {5} else {})" "pending (dns_subs ex_asked) fd = {}"
proof -
  have "dns_subs ex_asked = subscribe (pack64 1 2) 5 new_subscribe_list"
    by (simp add: ex_asked_def ex_dns_def get_request_def create_subscribe_def new_dns_service_def Let_def)
  then show "subscribers (dns_subs ex_asked) m = (if m = pack64 1 2 then {5} else {})" "pending (dns_subs ex_asked) fd = {}"
    by (simp_all add: subscribers_subscribe) (simp_all add: subscribers_def pending_def new_subscribe_list_def)
qed

lemma ex_dns_started: "server_started (\<lambda>_. True) dns_inv (ex_dns_app parse ser) (ex_conns (new_dns_service ex_route) [])"
  by (rule ex_started [OF ds.server_application_axioms])
    (auto simp: dns_inv_def dns_ok_def new_dns_service_def mods_of_def subscribers_def new_subscribe_list_def)

lemma ex_dns_run: "rtranclp (server_step (\<lambda>_. True) dns_inv (ex_dns_app parse ser)) (ex_conns (new_dns_service ex_route) []) (ex_conns ex_asked [5])"
proof -
  have "call_hook (conn_start (ex_dns_app parse ser)) c = Inr (c\<lparr>app := ex_dns\<rparr>)"
    if "connfd c = 5" "app c = new_dns_service ex_route" for c :: "(nat, dns_service) tcp_conn"
    using that by (simp add: start_hook_def ex_dns_def)
  then have "server_step (\<lambda>_. True) dns_inv (ex_dns_app parse ser) (ex_conns (new_dns_service ex_route) []) (ex_conns ex_dns [5])"
    using ex_step [of 5 "new_dns_service ex_route" "ex_dns_app parse ser" ex_dns "[]"] by simp
  then have run: "rtranclp (server_step (\<lambda>_. True) dns_inv (ex_dns_app parse ser)) (ex_conns (new_dns_service ex_route) []) (ex_conns ex_dns [5])" by simp
  have "serving (\<lambda>_. True) dns_inv (ex_dns_app parse ser) (ex_conns ex_dns [5])" by (rule sm.inv_reachable [OF ex_dns_started run])
  then have "dns_inv (open_fds (ex_conns ex_dns [5])) (rapp (ex_conns ex_dns [5]))" by (auto simp: serving_def dest: server_invD(11))
  then have "dns_inv (open_fds (ex_conns ex_dns [5])) ex_asked"
    unfolding ex_asked_def by (intro dns_inv_request) (simp add: ex_conns_def ex_before_def)
  from step_app [where J = dns_inv and sv = "ex_dns_app parse ser", OF this] have
    "server_step (\<lambda>_. True) dns_inv (ex_dns_app parse ser) (ex_conns ex_dns [5]) (ex_conns ex_asked [5])"
    by (simp add: ex_conns_def ex_before_def)
  with run show ?thesis by (rule rtranclp.rtrancl_into_rtrancl)
qed

theorem subscribers_are_connections_witness:
  "\<exists>a ob. open_at (ex_conns ex_asked [5]) a ob \<and> obj_fd ob = 5 \<and> conns (tab (ex_conns ex_asked [5])) ! 5 = Some a"
proof -
  have "5 \<in> subscribers (dns_subs (rapp (ex_conns ex_asked [5]))) (pack64 1 2)"
    using ex_asked_subs(1) by (simp add: ex_conns_def ex_before_def)
  from subscribers_are_connections [OF ex_dns_started ex_dns_run this]
  show ?thesis by auto
qed

theorem published_change_is_queued_witness:
  "push_routes (\<lambda>_. True) sorted_list_of_set sorted_list_of_set (\<lambda>_. [8]) None
      ((ex_conns ex_asked [5])\<lparr>rapp := published_to ex_route [pack64 1 2] ex_asked\<rparr>) = Inl Exited \<or>
    (\<exists>r' ob'. push_routes (\<lambda>_. True) sorted_list_of_set sorted_list_of_set (\<lambda>_. [8]) None
        ((ex_conns ex_asked [5])\<lparr>rapp := published_to ex_route [pack64 1 2] ex_asked\<rparr>) = Inr r' \<and>
      open_at r' 0 ob' \<and> out_bytes (load_conn ob' r') = frame (ID_GetRouteResponse, [8]))"
proof -
  let ?r = "ex_conns ex_asked [5]" and ?d = "published_to ex_route [pack64 1 2] ex_asked"
  let ?ord = "sorted_list_of_set :: uint64 set \<Rightarrow> uint64 list"
  have pend: "pending (dns_subs ?d) fd = (if fd = 5 then {pack64 1 2} else {})" for fd
    by (simp add: ex_asked_subs)
  have u: "rapp ?r = ex_asked" by (simp add: ex_conns_def ex_before_def)
  have only: "open_at ?r a ob \<Longrightarrow> ob = \<lparr>obj_fd = 5, obj_loop = None, obj_ibuf = None, obj_obuf = None\<rparr>" for a ob
    by (auto simp: open_at_def ex_conns_def split: if_splits)
  have "push_room (\<lambda>fd. if fd \<in> get_listen_fds (loop_at None ?r) then pushed_bytes ?ord (\<lambda>_. [8]) ex_route (?ord (pending (dns_subs ?d) fd)) else []) ?r"
    unfolding push_room_def by (auto dest!: only simp: ex_bytes pend m8M_def simp del: published_fields)
  with published_change_is_queued [where ser = "\<lambda>_. [8]", OF ex_dns_started ex_dns_run
      iterates_sorted iterates_sorted, of ?d ex_route "[pack64 1 2]" None]
  show ?thesis
    using ex_open(1) [of ex_asked "[]"] by (fastforce simp: u ex_asked_subs pend ex_bytes)
qed

end
