(* ===== verification/Pb_Wire.thy ===== *)
theory Pb_Wire
  imports Lars_Prelude
begin

text \<open>
  What the generated message code calls of the protobuf runtime, as a record of functions that every
  definition over it takes as an argument. The laws are the documented wire format: a field is a tag
  and a value, numbers are base-128 varints, an \<open>int32\<close> is sign-extended to 64 bits, an embedded
  message has its length in front. Positions are the bytes that are left, up to the limit of the
  message being read; \<open>None\<close> is a null pointer.
\<close>

subsection \<open>The runtime\<close>

record pb_runtime =
  ReadTag :: "byte list \<Rightarrow> (uint32 \<times> byte list) option"
  ReadVarint32 :: "byte list \<Rightarrow> (uint32 \<times> byte list) option"
  ReadVarint64 :: "byte list \<Rightarrow> (uint64 \<times> byte list) option"
  ReadDelimited :: "byte list \<Rightarrow> (byte list \<times> byte list) option"
  UnknownFieldParse :: "uint32 \<Rightarrow> byte list \<Rightarrow> (byte list \<times> byte list) option"
  DataAvailable :: "byte list \<Rightarrow> bool"
  ExpectTag :: "uint32 \<Rightarrow> byte list \<Rightarrow> bool"
  WriteInt32ToArray :: "nat \<Rightarrow> int32 \<Rightarrow> byte list"
  WriteUInt32ToArray :: "nat \<Rightarrow> uint32 \<Rightarrow> byte list"
  WriteBoolToArray :: "nat \<Rightarrow> bool \<Rightarrow> byte list"
  WriteMessageHead :: "nat \<Rightarrow> nat \<Rightarrow> byte list"
  Int32SizePlusOne :: "int32 \<Rightarrow> nat"
  UInt32SizePlusOne :: "uint32 \<Rightarrow> nat"
  LengthDelimitedSize :: "nat \<Rightarrow> nat"

text \<open>
  \<open>ReadDelimited\<close> is the part of \<open>ParseContext::ParseMessage\<close> that reads a length and sets the limit:
  the bytes of the embedded message and those after it. \<open>UnknownFieldParse\<close> gives the bytes it keeps.
  \<open>WriteMessageHead\<close> is the part of \<open>InternalWriteMessage\<close> before the embedded message: its tag and the
  size that \<open>ByteSizeLong\<close> has cached. Field numbers below 16 have tags of one byte.
\<close>

locale wire_format =
  fixes rt :: pb_runtime
  assumes int32_field: "0 < n \<Longrightarrow> n < 16 \<Longrightarrow>
      \<exists>p. ReadTag rt (WriteInt32ToArray rt n v @ bs) = Some (word_of_nat (8 * n), p) \<and> ReadVarint32 rt p = Some (v, bs)"
    and uint32_field: "0 < n \<Longrightarrow> n < 16 \<Longrightarrow>
      \<exists>p. ReadTag rt (WriteUInt32ToArray rt n v @ bs) = Some (word_of_nat (8 * n), p) \<and> ReadVarint32 rt p = Some (v, bs)"
    and bool_field: "0 < n \<Longrightarrow> n < 16 \<Longrightarrow>
      \<exists>p. ReadTag rt (WriteBoolToArray rt n b @ bs) = Some (word_of_nat (8 * n), p) \<and>
        ReadVarint64 rt p = Some (if b then 1 else 0, bs)"
    and message_field: "0 < n \<Longrightarrow> n < 16 \<Longrightarrow> length body < 2 ^ 31 \<Longrightarrow>
      \<exists>p. ReadTag rt (WriteMessageHead rt n (length body) @ body @ bs) = Some (word_of_nat (8 * n + 2), p) \<and>
        ReadDelimited rt p = Some (body, bs)"
    and expect_tag: "ExpectTag rt t p \<Longrightarrow> t < 128 \<Longrightarrow> ReadTag rt p = Some (t, drop 1 p)"
    and read_tag_less: "ReadTag rt p = Some (t, p') \<Longrightarrow> length p' < length p"
    and read_varint32_less: "ReadVarint32 rt p = Some (v, p') \<Longrightarrow> length p' < length p"
    and read_varint64_less: "ReadVarint64 rt p = Some (w, p') \<Longrightarrow> length p' < length p"
    and read_delimited_less: "ReadDelimited rt p = Some (body, p') \<Longrightarrow> length p' < length p"
    and unknown_le: "UnknownFieldParse rt t p = Some (u, p') \<Longrightarrow> length p' \<le> length p"
    and int32_size: "0 < n \<Longrightarrow> n < 16 \<Longrightarrow> length (WriteInt32ToArray rt n v) = Int32SizePlusOne rt v"
    and uint32_size: "0 < n \<Longrightarrow> n < 16 \<Longrightarrow> length (WriteUInt32ToArray rt n v) = UInt32SizePlusOne rt v"
    and bool_size: "0 < n \<Longrightarrow> n < 16 \<Longrightarrow> length (WriteBoolToArray rt n b) = 2"
    and message_size: "0 < n \<Longrightarrow> n < 16 \<Longrightarrow> length (WriteMessageHead rt n k) + k = 1 + LengthDelimitedSize rt k"
    and int32_size_le: "Int32SizePlusOne rt v \<le> 11"
    and uint32_size_le: "UInt32SizePlusOne rt v \<le> 6"
begin

lemma read_tag_Nil: "ReadTag rt [] = None"
  using read_tag_less [of "[]"] by (cases "ReadTag rt []") auto

lemma expect_tag_ne: "ExpectTag rt t p \<Longrightarrow> t < 128 \<Longrightarrow> p \<noteq> []"
  using expect_tag [of t p] read_tag_Nil by auto

end

subsection \<open>The documented encoding\<close>

text \<open>A varint: seven bits per byte, the lowest first, the top bit set on all but the last byte.\<close>

fun varint :: "nat \<Rightarrow> byte list" where
  "varint n = (if n < 128 then [word_of_nat n] else word_of_nat (128 + n mod 128) # varint (n div 128))"

declare varint.simps [simp del]

fun read_varint :: "nat \<Rightarrow> byte list \<Rightarrow> (nat \<times> byte list) option" where
  "read_varint 0 p = None"
| "read_varint (Suc k) [] = None"
| "read_varint (Suc k) (b # p) =
     (if unat b < 128 then Some (unat b, p)
      else (case read_varint k p of None \<Rightarrow> None | Some (v, p) \<Rightarrow> Some (unat b - 128 + 128 * v, p)))"

lemma varint_ne [simp]: "varint n \<noteq> []"
  by (subst varint.simps) simp

lemma read_varint_less: "read_varint k p = Some (v, p') \<Longrightarrow> length p' < length p"
  by (induction k p arbitrary: v p' rule: read_varint.induct) (auto split: if_splits option.splits intro: less_SucI)

lemma read_varint_Suc: "n < 128 ^ Suc k \<Longrightarrow> read_varint (Suc k) (varint n @ p) = Some (n, p)"
proof (induction k arbitrary: n)
  case 0
  then show ?case by (subst varint.simps) (simp add: unat_of_nat)
next
  case (Suc k)
  show ?case
  proof (cases "n < 128")
    case True
    then show ?thesis by (subst varint.simps) (simp add: unat_of_nat)
  next
    case False
    have u: "unat (word_of_nat (128 + n mod 128) :: byte) = 128 + n mod 128"
      using mod_less_divisor [of 128 n] by (simp add: unat_of_nat del: of_nat_add)
    have "n div 128 < 128 ^ Suc k" using Suc.prems by (simp add: less_mult_imp_div_less mult.commute)
    then have IH: "read_varint (Suc k) (varint (n div 128) @ p) = Some (n div 128, p)" by (rule Suc.IH)
    have "varint n = word_of_nat (128 + n mod 128) # varint (n div 128)" using False by (subst varint.simps) simp
    then show ?thesis by (simp only: append_Cons read_varint.simps(3) u IH) simp
  qed
qed

lemma read_varint: "n < 128 ^ k \<Longrightarrow> 0 < k \<Longrightarrow> read_varint k (varint n @ p) = Some (n, p)"
  by (cases k) (simp_all add: read_varint_Suc del: read_varint.simps)

lemma length_varint: "n < 128 ^ Suc k \<Longrightarrow> length (varint n) \<le> Suc k"
proof (induction k arbitrary: n)
  case 0
  then show ?case by (subst varint.simps) simp
next
  case (Suc k)
  then have "n div 128 < 128 ^ Suc k" by (simp add: less_mult_imp_div_less mult.commute)
  then show ?case using Suc.IH [of "n div 128"] by (subst varint.simps) simp
qed

text \<open>An \<open>int32\<close> is written as the 64-bit number with the same value, and read back by cutting to 32 bits.\<close>

definition int32_bits :: "int32 \<Rightarrow> nat" where
  "int32_bits v = unat (scast v :: uint64)"

definition varint32 :: "byte list \<Rightarrow> (uint32 \<times> byte list) option" where
  "varint32 p = map_option (\<lambda>(v, p). (word_of_nat v, p)) (read_varint 10 p)"

definition delimited :: "byte list \<Rightarrow> (byte list \<times> byte list) option" where
  "delimited p =
     (case read_varint 5 p of
        None \<Rightarrow> None
      | Some (k, p) \<Rightarrow> if k \<le> length p then Some (take k p, drop k p) else None)"

text \<open>The bytes of a field nobody knows: its tag and, by the wire type, a varint, 8 or 4 bytes, or a length and so many bytes.\<close>

definition skip_value :: "uint32 \<Rightarrow> byte list \<Rightarrow> byte list option" where
  "skip_value tag p =
     (let kind = unat tag mod 8
      in if kind = 0 then map_option snd (read_varint 10 p)
         else if kind = 1 then (if 8 \<le> length p then Some (drop 8 p) else None)
         else if kind = 2 then map_option snd (delimited p)
         else if kind = 5 then (if 4 \<le> length p then Some (drop 4 p) else None)
         else None)"

definition pb_wire :: pb_runtime where
  "pb_wire =
     \<lparr>ReadTag = (\<lambda>p. map_option (\<lambda>(v, p). (word_of_nat v, p)) (read_varint 5 p)),
      ReadVarint32 = varint32,
      ReadVarint64 = (\<lambda>p. map_option (\<lambda>(v, p). (word_of_nat v, p)) (read_varint 10 p)),
      ReadDelimited = delimited,
      UnknownFieldParse = (\<lambda>tag p. map_option (\<lambda>p'. (varint (unat tag) @ take (length p - length p') p, p')) (skip_value tag p)),
      DataAvailable = (\<lambda>p. p \<noteq> []),
      ExpectTag = (\<lambda>tag p. case p of [] \<Rightarrow> False | b # _ \<Rightarrow> ucast b = tag),
      WriteInt32ToArray = (\<lambda>n v. varint (8 * n) @ varint (int32_bits v)),
      WriteUInt32ToArray = (\<lambda>n v. varint (8 * n) @ varint (unat v)),
      WriteBoolToArray = (\<lambda>n b. varint (8 * n) @ varint (if b then 1 else 0)),
      WriteMessageHead = (\<lambda>n k. varint (8 * n + 2) @ varint k),
      Int32SizePlusOne = (\<lambda>v. 1 + length (varint (int32_bits v))),
      UInt32SizePlusOne = (\<lambda>v. 1 + length (varint (unat v))),
      LengthDelimitedSize = (\<lambda>k. length (varint k) + k)\<rparr>"

lemma int32_bits_less: "int32_bits v < 128 ^ 10"
proof -
  have "int32_bits v < 2 ^ LENGTH(64)" unfolding int32_bits_def by (rule unsigned_less)
  then show ?thesis by simp
qed

lemma uint32_less: "unat (v :: uint32) < 2 ^ 32"
  using unsigned_less [of v, where ?'a = nat] by simp

lemma int32_bits_cut: "word_of_nat (int32_bits v) = v"
proof -
  have "word_of_nat (int32_bits v) = (ucast (scast v :: uint64) :: int32)" by (simp add: int32_bits_def)
  also have "\<dots> = v"
  proof (rule bit_word_eqI)
    fix n :: nat
    assume "n < LENGTH(32)"
    then have "n < 31 \<or> n = 31" by auto
    then show "bit (ucast (scast v :: uint64) :: int32) n = bit v n" by (auto simp: bit_ucast_iff bit_signed_iff)
  qed
  finally show ?thesis .
qed

lemma one_byte_varint: "n < 128 \<Longrightarrow> varint n = [word_of_nat n]"
  by (subst varint.simps) simp

lemma pb_wire_sel:
  "WriteInt32ToArray pb_wire n v = varint (8 * n) @ varint (int32_bits v)"
  "WriteUInt32ToArray pb_wire n w = varint (8 * n) @ varint (unat w)"
  "WriteBoolToArray pb_wire n b = varint (8 * n) @ varint (if b then 1 else 0)"
  "WriteMessageHead pb_wire n k = varint (8 * n + 2) @ varint k"
  "ReadVarint32 pb_wire = varint32" "ReadDelimited pb_wire = delimited"
  "ReadVarint64 pb_wire p = map_option (\<lambda>(v, p). (word_of_nat v, p)) (read_varint 10 p)"
  by (simp_all add: pb_wire_def)

lemma pb_wire_tag:
  assumes "n < 128"
  shows "ReadTag pb_wire (varint n @ p) = Some (word_of_nat n, p)"
  using read_varint [of n 5 p] assms by (simp add: pb_wire_def)

interpretation pw: wire_format pb_wire
proof
  fix n k :: nat and v w :: int32 and b :: bool and bs body p p' u :: "byte list" and t :: uint32 and x :: uint64
  show "ReadTag pb_wire p = Some (t, p') \<Longrightarrow> length p' < length p"
    "ReadVarint32 pb_wire p = Some (v, p') \<Longrightarrow> length p' < length p"
    "ReadVarint64 pb_wire p = Some (x, p') \<Longrightarrow> length p' < length p"
    by (auto simp: pb_wire_def varint32_def dest: read_varint_less)
  show "ReadDelimited pb_wire p = Some (body, p') \<Longrightarrow> length p' < length p"
    by (auto simp: pb_wire_def delimited_def split: option.splits if_splits dest!: read_varint_less)
  show "UnknownFieldParse pb_wire t p = Some (u, p') \<Longrightarrow> length p' \<le> length p"
    by (auto simp: pb_wire_def skip_value_def delimited_def Let_def split: option.splits if_splits dest!: read_varint_less)
  show "Int32SizePlusOne pb_wire v \<le> 11"
    using length_varint [of "int32_bits v" 9] int32_bits_less [of v] by (simp add: pb_wire_def)
  show "UInt32SizePlusOne pb_wire v \<le> 6"
    using length_varint [of "unat v" 4] uint32_less [of v] by (simp add: pb_wire_def)
  show "ExpectTag pb_wire t p \<Longrightarrow> t < 128 \<Longrightarrow> ReadTag pb_wire p = Some (t, drop 1 p)"
  proof (cases p)
    case (Cons c cs)
    assume e: "ExpectTag pb_wire t p" and "t < 128"
    then have c: "word_of_nat (unat c) = t" using Cons by (simp add: pb_wire_def)
    have "unat c < 2 ^ LENGTH(8)" by (rule unsigned_less)
    then have "unat (word_of_nat (unat c) :: uint32) = unat c" by (subst unat_of_nat) simp
    then have "unat c < 128" using c \<open>t < 128\<close> by (simp add: word_less_nat_alt)
    then show ?thesis using Cons c by (simp add: pb_wire_def numeral_eq_Suc)
  qed (simp add: pb_wire_def)
  assume n: "0 < n" "n < 16"
  show "length (WriteInt32ToArray pb_wire n v) = Int32SizePlusOne pb_wire v"
    "length (WriteUInt32ToArray pb_wire n v) = UInt32SizePlusOne pb_wire v"
    "length (WriteBoolToArray pb_wire n b) = 2"
    "length (WriteMessageHead pb_wire n k) + k = 1 + LengthDelimitedSize pb_wire k"
    using n by (simp_all add: pb_wire_def one_byte_varint)
  show "\<exists>p. ReadTag pb_wire (WriteInt32ToArray pb_wire n v @ bs) = Some (word_of_nat (8 * n), p) \<and> ReadVarint32 pb_wire p = Some (v, bs)"
    using pb_wire_tag [of "8 * n" "varint (int32_bits v) @ bs"] read_varint [OF int32_bits_less, of v bs] n
    by (intro exI [of _ "varint (int32_bits v) @ bs"]) (simp add: pb_wire_sel varint32_def int32_bits_cut)
  show "\<exists>p. ReadTag pb_wire (WriteUInt32ToArray pb_wire n v @ bs) = Some (word_of_nat (8 * n), p) \<and> ReadVarint32 pb_wire p = Some (v, bs)"
    using pb_wire_tag [of "8 * n" "varint (unat v) @ bs"] read_varint [of "unat v" 10 bs] uint32_less [of v] n
    by (intro exI [of _ "varint (unat v) @ bs"]) (simp add: pb_wire_sel varint32_def)
  show "\<exists>p. ReadTag pb_wire (WriteBoolToArray pb_wire n b @ bs) = Some (word_of_nat (8 * n), p) \<and>
      ReadVarint64 pb_wire p = Some (if b then 1 else 0, bs)"
    using pb_wire_tag [of "8 * n" "varint (if b then 1 else 0) @ bs"] read_varint [of "if b then 1 else 0" 10 bs] n
    by (intro exI [of _ "varint (if b then 1 else 0) @ bs"]) (simp add: pb_wire_sel)
  assume "length body < 2 ^ 31"
  then show "\<exists>p. ReadTag pb_wire (WriteMessageHead pb_wire n (length body) @ body @ bs) = Some (word_of_nat (8 * n + 2), p) \<and>
      ReadDelimited pb_wire p = Some (body, bs)"
    using pb_wire_tag [of "8 * n + 2" "varint (length body) @ body @ bs"] read_varint [of "length body" 5 "body @ bs"] n
    by (intro exI [of _ "varint (length body) @ body @ bs"]) (simp add: pb_wire_sel delimited_def)
qed

end
