(* ===== verification/Pb_Message.thy ===== *)
theory Pb_Message
  imports Pb_Wire
begin

text \<open>
  The shape all generated message classes of \<open>base/proto/lars.pb.cpp\<close> share: the loop of
  \<open>_InternalParse\<close> over the fields, the cases of its \<open>switch\<close>, embedded and repeated messages. A class
  is its \<open>switch\<close>; what holds of the loop is proved here once.
\<close>

subsection \<open>One field\<close>

text \<open>How a case of the \<open>switch\<close> ends: \<open>continue\<close>, \<open>goto handle_unusual\<close>, \<open>goto failure\<close>.\<close>

datatype 'm field = Parsed 'm "byte list" | Unusual | Failure

definition read32 :: "pb_runtime \<Rightarrow> (uint32 \<Rightarrow> 'm) \<Rightarrow> byte list \<Rightarrow> 'm field option" where
  "read32 rt put ptr = Some (case ReadVarint32 rt ptr of None \<Rightarrow> Failure | Some (v, ptr) \<Rightarrow> Parsed (put v) ptr)"

definition read_bool :: "pb_runtime \<Rightarrow> (bool \<Rightarrow> 'm) \<Rightarrow> byte list \<Rightarrow> 'm field option" where
  "read_bool rt put ptr = Some (case ReadVarint64 rt ptr of None \<Rightarrow> Failure | Some (v, ptr) \<Rightarrow> Parsed (put (v \<noteq> 0)) ptr)"

text \<open>
  What a parse gives: \<open>None\<close> when it does not end, \<open>Some None\<close> for a null pointer, else the message, the
  bytes left and the tag it stopped at, if it did not stop at the limit. An embedded message has to stop
  at its limit.
\<close>

type_synonym 'm parser = "byte list \<Rightarrow> 'm \<Rightarrow> ('m \<times> byte list \<times> uint32 option) option option"

definition ParseMessage :: "pb_runtime \<Rightarrow> 'a parser \<Rightarrow> ('a \<Rightarrow> 'm) \<Rightarrow> 'a \<Rightarrow> byte list \<Rightarrow> 'm field option" where
  "ParseMessage rt parse put a ptr =
     (case ReadDelimited rt ptr of
        None \<Rightarrow> Some Failure
      | Some (body, ptr) \<Rightarrow>
          Option.bind (parse body a) (\<lambda>r. Some (case r of Some (a, _, None) \<Rightarrow> Parsed (put a) ptr | _ \<Rightarrow> Failure)))"

text \<open>The \<open>do\<close> loop over a run of embedded messages with the same tag.\<close>

partial_function (option) parse_repeated :: "pb_runtime \<Rightarrow> uint32 \<Rightarrow> (byte list \<Rightarrow> 'm \<Rightarrow> 'm field option) \<Rightarrow>
    byte list \<Rightarrow> 'm \<Rightarrow> 'm field option" where
  "parse_repeated rt tag elem ptr m =
     Option.bind (elem ptr m) (\<lambda>f. case f of
        Parsed m ptr \<Rightarrow>
          if \<not> DataAvailable rt ptr \<or> \<not> ExpectTag rt tag ptr then Some (Parsed m ptr)
          else parse_repeated rt tag elem (drop 1 ptr) m
      | Unusual \<Rightarrow> Some Unusual
      | Failure \<Rightarrow> Some Failure)"

subsection \<open>The loop over the fields\<close>

text \<open>A tag that cannot be read is 0 with a null pointer, which is a failure; \<open>unk\<close> keeps an unknown field.\<close>

partial_function (option) parse_loop :: "pb_runtime \<Rightarrow> (uint32 \<Rightarrow> byte list \<Rightarrow> 'm \<Rightarrow> 'm field option) \<Rightarrow>
    (byte list \<Rightarrow> 'm \<Rightarrow> 'm) \<Rightarrow> byte list \<Rightarrow> 'm \<Rightarrow> ('m \<times> byte list \<times> uint32 option) option option" where
  "parse_loop rt field unk ptr m =
     (if ptr = [] then Some (Some (m, [], None))
      else (case ReadTag rt ptr of
              None \<Rightarrow> Some None
            | Some (tag, ptr) \<Rightarrow>
                Option.bind (field tag ptr m) (\<lambda>f. case f of
                   Parsed m ptr \<Rightarrow> parse_loop rt field unk ptr m
                 | Failure \<Rightarrow> Some None
                 | Unusual \<Rightarrow>
                     if tag = 0 \<or> tag AND 7 = 4 then Some (Some (m, ptr, Some tag))
                     else (case UnknownFieldParse rt tag ptr of
                             None \<Rightarrow> Some None
                           | Some (u, ptr) \<Rightarrow> parse_loop rt field unk ptr (unk u m)))))"

text \<open>\<open>ParseFromArray\<close> clears the message and succeeds when the whole array is a message.\<close>

definition ParseFromArray :: "('m \<Rightarrow> 'm) \<Rightarrow> 'm parser \<Rightarrow> byte list \<Rightarrow> 'm \<Rightarrow> 'm option" where
  "ParseFromArray clear parse data m =
     (case parse data (clear m) of Some (Some (m, _, None)) \<Rightarrow> Some m | _ \<Rightarrow> None)"

subsection \<open>Laws of the loop\<close>

text \<open>The cases of a \<open>switch\<close> end, and none goes back in the input.\<close>

definition field_ends :: "(uint32 \<Rightarrow> byte list \<Rightarrow> 'm \<Rightarrow> 'm field option) \<Rightarrow> bool" where
  "field_ends field \<longleftrightarrow> (\<forall>tag ptr m. \<exists>f. field tag ptr m = Some f \<and> (\<forall>m' ptr'. f = Parsed m' ptr' \<longrightarrow> length ptr' \<le> length ptr))"

lemma field_endsD:
  "field_ends field \<Longrightarrow> \<exists>f. field tag ptr m = Some f \<and> (\<forall>m' ptr'. f = Parsed m' ptr' \<longrightarrow> length ptr' \<le> length ptr)"
  by (auto simp: field_ends_def)

definition parser_ends :: "'m parser \<Rightarrow> bool" where
  "parser_ends parse \<longleftrightarrow> (\<forall>ptr m. \<exists>r. parse ptr m = Some r)"

context wire_format
begin

lemma loop_tag:
  assumes "ReadTag rt ptr = Some (tag, p)"
  shows "parse_loop rt field unk ptr m =
    Option.bind (field tag p m) (\<lambda>f. case f of
       Parsed m ptr \<Rightarrow> parse_loop rt field unk ptr m
     | Failure \<Rightarrow> Some None
     | Unusual \<Rightarrow>
         if tag = 0 \<or> tag AND 7 = 4 then Some (Some (m, p, Some tag))
         else (case UnknownFieldParse rt tag p of
                 None \<Rightarrow> Some None
               | Some (u, ptr) \<Rightarrow> parse_loop rt field unk ptr (unk u m)))"
proof -
  have "ptr \<noteq> []" using assms read_tag_Nil by auto
  then show ?thesis by (subst parse_loop.simps) (simp add: assms)
qed

lemma loop_step:
  assumes "ReadTag rt ptr = Some (tag, p)" and "field tag p m = Some (Parsed m' p')"
  shows "parse_loop rt field unk ptr m = parse_loop rt field unk p' m'"
  by (simp add: loop_tag [OF assms(1)] assms(2))

lemma loop_Nil [simp]: "parse_loop rt field unk [] m = Some (Some (m, [], None))"
  by (subst parse_loop.simps) simp

text \<open>A written field, if it is there, is read into the message.\<close>

lemma int32_step:
  assumes "\<And>p m. field (word_of_nat (8 * n)) p m = read32 rt (\<lambda>v. put v m) p" and "0 < n" and "n < 16"
  shows "parse_loop rt field unk ((if v \<noteq> 0 then WriteInt32ToArray rt n v else []) @ bs) m =
    parse_loop rt field unk bs (if v \<noteq> 0 then put v m else m)"
proof -
  obtain p where p: "ReadTag rt (WriteInt32ToArray rt n v @ bs) = Some (word_of_nat (8 * n), p)" "ReadVarint32 rt p = Some (v, bs)"
    using int32_field [OF assms(2,3)] by blast
  have "parse_loop rt field unk (WriteInt32ToArray rt n v @ bs) m = parse_loop rt field unk bs (put v m)"
    by (rule loop_step [OF p(1)]) (simp only: assms(1) read32_def p(2) option.case prod.case)
  then show ?thesis by simp
qed

lemma uint32_step:
  assumes "\<And>p m. field (word_of_nat (8 * n)) p m = read32 rt (\<lambda>v. put v m) p" and "0 < n" and "n < 16"
  shows "parse_loop rt field unk ((if v \<noteq> 0 then WriteUInt32ToArray rt n v else []) @ bs) m =
    parse_loop rt field unk bs (if v \<noteq> 0 then put v m else m)"
proof -
  obtain p where p: "ReadTag rt (WriteUInt32ToArray rt n v @ bs) = Some (word_of_nat (8 * n), p)" "ReadVarint32 rt p = Some (v, bs)"
    using uint32_field [OF assms(2,3)] by blast
  have "parse_loop rt field unk (WriteUInt32ToArray rt n v @ bs) m = parse_loop rt field unk bs (put v m)"
    by (rule loop_step [OF p(1)]) (simp only: assms(1) read32_def p(2) option.case prod.case)
  then show ?thesis by simp
qed

lemma bool_step:
  assumes "\<And>p m. field (word_of_nat (8 * n)) p m = read_bool rt (\<lambda>v. put v m) p" and "0 < n" and "n < 16"
  shows "parse_loop rt field unk ((if b then WriteBoolToArray rt n b else []) @ bs) m =
    parse_loop rt field unk bs (if b then put b m else m)"
proof -
  obtain p where p: "ReadTag rt (WriteBoolToArray rt n b @ bs) = Some (word_of_nat (8 * n), p)"
      "ReadVarint64 rt p = Some (if b then 1 else 0, bs)"
    using bool_field [OF assms(2,3)] by blast
  have "parse_loop rt field unk (WriteBoolToArray rt n b @ bs) m = parse_loop rt field unk bs (put b m)"
    by (rule loop_step [OF p(1)]) (simp only: assms(1) read_bool_def p(2) option.case prod.case, simp)
  then show ?thesis by (cases b) simp_all
qed

lemma message_step:
  assumes "\<And>p m. field (word_of_nat (8 * n + 2)) p m = ParseMessage rt parse (put m) (get m) p" and "0 < n" and "n < 16"
    and "length body < 2 ^ 31" and "parse body (get m) = Some (Some (a, [], None))"
  shows "parse_loop rt field unk (WriteMessageHead rt n (length body) @ body @ bs) m = parse_loop rt field unk bs (put m a)"
proof -
  obtain p where p: "ReadTag rt (WriteMessageHead rt n (length body) @ body @ bs) = Some (word_of_nat (8 * n + 2), p)"
      "ReadDelimited rt p = Some (body, bs)"
    using message_field [OF assms(2-4)] by blast
  show ?thesis by (rule loop_step [OF p(1)]) (simp only: assms(1,5) ParseMessage_def p(2) option.case prod.case, simp)
qed

text \<open>Parsing ends.\<close>

lemma read32_ends: "\<exists>f. read32 rt put p = Some f \<and> (\<forall>m' p'. f = Parsed m' p' \<longrightarrow> length p' \<le> length p)"
  using read_varint32_less [of p] by (fastforce simp: read32_def split: option.split)

lemma read_bool_ends: "\<exists>f. read_bool rt put p = Some f \<and> (\<forall>m' p'. f = Parsed m' p' \<longrightarrow> length p' \<le> length p)"
  using read_varint64_less [of p] by (fastforce simp: read_bool_def split: option.split)

lemma ParseMessage_ends:
  assumes "parser_ends parse"
  shows "\<exists>f. ParseMessage rt parse put a p = Some f \<and> (\<forall>m' p'. f = Parsed m' p' \<longrightarrow> length p' \<le> length p)"
proof (cases "ReadDelimited rt p")
  case (Some x)
  obtain body p' where x: "x = (body, p')" by (cases x)
  obtain r where "parse body a = Some r" using assms by (auto simp: parser_ends_def)
  moreover have "length p' \<le> length p" using read_delimited_less Some x by fastforce
  ultimately show ?thesis using Some x by (auto simp: ParseMessage_def split: option.split)
qed (simp add: ParseMessage_def)

lemma loop_ends:
  assumes "field_ends field"
  shows "\<exists>r. parse_loop rt field unk ptr m = Some r"
proof (induction "length ptr" arbitrary: ptr m rule: less_induct)
  case less
  show ?case
  proof (cases "ReadTag rt ptr")
    case None
    then show ?thesis by (subst parse_loop.simps) simp
  next
    case (Some x)
    then obtain tag p where x: "ReadTag rt ptr = Some (tag, p)" by (cases x) auto
    then have p: "length p < length ptr" by (rule read_tag_less)
    obtain f where f: "field tag p m = Some f" "\<forall>m' p'. f = Parsed m' p' \<longrightarrow> length p' \<le> length p"
      using field_endsD [OF assms, of tag p m] by blast
    have u: "\<exists>r. parse_loop rt field unk p' m' = Some r" if "length p' \<le> length p" for p' m'
      using less [of p' m'] that p by simp
    show ?thesis
      using f u unknown_le [of tag p]
      by (cases f) (auto simp: loop_tag [OF x] split: option.split)
  qed
qed

lemma parser_ends_loop: "field_ends field \<Longrightarrow> parser_ends (parse_loop rt field unk)"
  by (simp add: parser_ends_def loop_ends)

text \<open>Reading a run of embedded messages at once is the same as reading them one tag at a time.\<close>

lemma repeated_run:
  assumes "\<And>p m. field1 tag p m = elem p m" and "field_ends field1" and "tag < 128" and "\<And>p m. elem p m \<noteq> Some Unusual"
    and "\<And>p m. length p < n \<Longrightarrow> parse_loop rt field unk p m = parse_loop rt field1 unk p m" and "length q < n"
  shows "Option.bind (parse_repeated rt tag elem q m) (\<lambda>f. case f of
        Parsed m q \<Rightarrow> parse_loop rt field unk q m | Failure \<Rightarrow> Some None | Unusual \<Rightarrow> K) =
      Option.bind (elem q m) (\<lambda>f. case f of
        Parsed m q \<Rightarrow> parse_loop rt field1 unk q m | Failure \<Rightarrow> Some None | Unusual \<Rightarrow> K')"
  using assms(6)
proof (induction "length q" arbitrary: q m K' rule: less_induct)
  case (less q)
  obtain f where f: "elem q m = Some f" "\<forall>m' p'. f = Parsed m' p' \<longrightarrow> length p' \<le> length q"
    using field_endsD [OF assms(2), of tag q m] assms(1) by auto
  show ?case
  proof (cases f)
    case (Parsed m' q')
    then have q': "length q' \<le> length q" using f(2) by simp
    show ?thesis
    proof (cases "DataAvailable rt q' \<and> ExpectTag rt tag q'")
      case False
      then show ?thesis
        using assms(5) [of q' m'] less.prems q' by (subst parse_repeated.simps) (auto simp: f Parsed)
    next
      case True
      then have "ReadTag rt q' = Some (tag, drop 1 q')" "q' \<noteq> []" using expect_tag expect_tag_ne assms(3) by blast+
      moreover have "length (drop 1 q') < length q" using \<open>q' \<noteq> []\<close> q' by (cases q') auto
      ultimately show ?thesis
        using True less.hyps [of "drop 1 q'" m'] less.prems
        by (subst parse_repeated.simps) (auto simp: f Parsed loop_tag assms(1))
    qed
  next
    case Unusual
    then show ?thesis using assms(4) [of q m] f by simp
  next
    case Failure
    then show ?thesis by (subst parse_repeated.simps) (simp add: f)
  qed
qed

lemma repeated_loop:
  assumes "\<And>p m. field tag p m = parse_repeated rt tag elem p m" and "\<And>p m. field1 tag p m = elem p m"
    and "\<And>t p m. t \<noteq> tag \<Longrightarrow> field t p m = field1 t p m" and "field_ends field1" and "tag < 128"
    and "\<And>p m. elem p m \<noteq> Some Unusual"
  shows "parse_loop rt field unk ptr m = parse_loop rt field1 unk ptr m"
proof (induction "length ptr" arbitrary: ptr m rule: less_induct)
  case less
  show ?case
  proof (cases "ReadTag rt ptr")
    case None
    then show ?thesis by (subst (1 2) parse_loop.simps) simp
  next
    case (Some x)
    then obtain t p where x: "ReadTag rt ptr = Some (t, p)" by (cases x) auto
    then have p: "length p < length ptr" by (rule read_tag_less)
    show ?thesis
    proof (cases "t = tag")
      case False
      obtain f where f: "field1 t p m = Some f" "\<forall>m' p'. f = Parsed m' p' \<longrightarrow> length p' \<le> length p"
        using field_endsD [OF assms(4), of t p m] by blast
      have u: "parse_loop rt field unk p' m' = parse_loop rt field1 unk p' m'" if "length p' \<le> length p" for p' m'
        using less [of p' m'] that p by simp
      show ?thesis
        using f u unknown_le [of t p] False
        by (cases f) (auto simp: loop_tag [OF x] assms(3) split: option.split)
    next
      case True
      then show ?thesis
        using repeated_run [OF assms(2,4,5,6) less p]
        by (simp add: loop_tag [OF x] assms(1,2))
    qed
  qed
qed

end

end
