(* ===== verification/Lars_Pb.thy ===== *)
theory Lars_Pb
  imports Pb_Message Lars_Proto
begin

text \<open>
  The message classes of \<open>base/proto/lars.pb.cpp\<close>: for each its default instance, \<open>Clear\<close>,
  \<open>_InternalParse\<close>, \<open>ByteSizeLong\<close>, \<open>_InternalSerialize\<close>, \<open>MergeFrom\<close> and \<open>CopyFrom\<close>. An object has the
  fields of the message and the bytes of the fields its reader did not know; \<open>_msg\<close> and \<open>_wire\<close> go to
  and from the messages the programs work with, which carry none.
\<close>

subsection \<open>\<open>HostInfo\<close>\<close>

text \<open>Two numbers.\<close>

record HostInfo_pb = HostInfo +
  hinfo_unknown :: "byte list"

definition HostInfo_default :: HostInfo_pb where
  "HostInfo_default = \<lparr>hinfo_ip = 0, hinfo_port = 0, hinfo_unknown = []\<rparr>"

definition HostInfo_Clear :: "HostInfo_pb \<Rightarrow> HostInfo_pb" where
  "HostInfo_Clear m = m\<lparr>hinfo_ip := 0, hinfo_port := 0, hinfo_unknown := []\<rparr>"

definition HostInfo_field :: "pb_runtime \<Rightarrow> uint32 \<Rightarrow> byte list \<Rightarrow> HostInfo_pb \<Rightarrow> HostInfo_pb field option" where
  "HostInfo_field rt tag ptr m =
     (let number = drop_bit 3 tag in
      if number = 1 then (if (ucast tag :: byte) = 8 then read32 rt (\<lambda>v. m\<lparr>hinfo_ip := v\<rparr>) ptr else Some Unusual) else
      if number = 2 then (if (ucast tag :: byte) = 16 then read32 rt (\<lambda>v. m\<lparr>hinfo_port := v\<rparr>) ptr else Some Unusual) else
      Some Unusual)"

definition HostInfo_InternalParse :: "pb_runtime \<Rightarrow> HostInfo_pb parser" where
  "HostInfo_InternalParse rt = parse_loop rt (HostInfo_field rt) (\<lambda>u m. m\<lparr>hinfo_unknown := hinfo_unknown m @ u\<rparr>)"

definition HostInfo_ByteSizeLong :: "pb_runtime \<Rightarrow> HostInfo_pb \<Rightarrow> nat" where
  "HostInfo_ByteSizeLong rt m =
     (if hinfo_ip m \<noteq> 0 then Int32SizePlusOne rt (hinfo_ip m) else 0) +
     (if hinfo_port m \<noteq> 0 then Int32SizePlusOne rt (hinfo_port m) else 0) +
     length (hinfo_unknown m)"

definition HostInfo_InternalSerialize :: "pb_runtime \<Rightarrow> HostInfo_pb \<Rightarrow> byte list" where
  "HostInfo_InternalSerialize rt m =
     (if hinfo_ip m \<noteq> 0 then WriteInt32ToArray rt 1 (hinfo_ip m) else []) @
     (if hinfo_port m \<noteq> 0 then WriteInt32ToArray rt 2 (hinfo_port m) else []) @
     hinfo_unknown m"

definition HostInfo_MergeFrom :: "HostInfo_pb \<Rightarrow> HostInfo_pb \<Rightarrow> HostInfo_pb" where
  "HostInfo_MergeFrom src m =
     (let m = if hinfo_ip src \<noteq> 0 then m\<lparr>hinfo_ip := hinfo_ip src\<rparr> else m;
          m = if hinfo_port src \<noteq> 0 then m\<lparr>hinfo_port := hinfo_port src\<rparr> else m
      in m\<lparr>hinfo_unknown := hinfo_unknown m @ hinfo_unknown src\<rparr>)"

definition HostInfo_CopyFrom :: "HostInfo_pb \<Rightarrow> HostInfo_pb \<Rightarrow> HostInfo_pb" where
  "HostInfo_CopyFrom src m = HostInfo_MergeFrom src (HostInfo_Clear m)"

definition HostInfo_msg :: "HostInfo_pb \<Rightarrow> HostInfo" where
  "HostInfo_msg m = \<lparr>hinfo_ip = hinfo_ip m, hinfo_port = hinfo_port m\<rparr>"

definition HostInfo_wire :: "HostInfo \<Rightarrow> HostInfo_pb" where
  "HostInfo_wire m = \<lparr>hinfo_ip = hinfo_ip m, hinfo_port = hinfo_port m, hinfo_unknown = []\<rparr>"

definition encode_HostInfo :: "pb_runtime \<Rightarrow> HostInfo \<Rightarrow> byte list" where
  "encode_HostInfo rt m = HostInfo_InternalSerialize rt (HostInfo_wire m)"

definition decode_HostInfo :: "pb_runtime \<Rightarrow> byte list \<Rightarrow> HostInfo option" where
  "decode_HostInfo rt data = map_option HostInfo_msg (ParseFromArray HostInfo_Clear (HostInfo_InternalParse rt) data HostInfo_default)"

subsection \<open>\<open>GetRouteRequest\<close>\<close>

text \<open>Two numbers.\<close>

record GetRouteRequest_pb = GetRouteRequest +
  grq_unknown :: "byte list"

definition GetRouteRequest_default :: GetRouteRequest_pb where
  "GetRouteRequest_default = \<lparr>grq_modid = 0, grq_cmdid = 0, grq_unknown = []\<rparr>"

definition GetRouteRequest_Clear :: "GetRouteRequest_pb \<Rightarrow> GetRouteRequest_pb" where
  "GetRouteRequest_Clear m = m\<lparr>grq_modid := 0, grq_cmdid := 0, grq_unknown := []\<rparr>"

definition GetRouteRequest_field :: "pb_runtime \<Rightarrow> uint32 \<Rightarrow> byte list \<Rightarrow> GetRouteRequest_pb \<Rightarrow> GetRouteRequest_pb field option" where
  "GetRouteRequest_field rt tag ptr m =
     (let number = drop_bit 3 tag in
      if number = 1 then (if (ucast tag :: byte) = 8 then read32 rt (\<lambda>v. m\<lparr>grq_modid := v\<rparr>) ptr else Some Unusual) else
      if number = 2 then (if (ucast tag :: byte) = 16 then read32 rt (\<lambda>v. m\<lparr>grq_cmdid := v\<rparr>) ptr else Some Unusual) else
      Some Unusual)"

definition GetRouteRequest_InternalParse :: "pb_runtime \<Rightarrow> GetRouteRequest_pb parser" where
  "GetRouteRequest_InternalParse rt = parse_loop rt (GetRouteRequest_field rt) (\<lambda>u m. m\<lparr>grq_unknown := grq_unknown m @ u\<rparr>)"

definition GetRouteRequest_ByteSizeLong :: "pb_runtime \<Rightarrow> GetRouteRequest_pb \<Rightarrow> nat" where
  "GetRouteRequest_ByteSizeLong rt m =
     (if grq_modid m \<noteq> 0 then Int32SizePlusOne rt (grq_modid m) else 0) +
     (if grq_cmdid m \<noteq> 0 then Int32SizePlusOne rt (grq_cmdid m) else 0) +
     length (grq_unknown m)"

definition GetRouteRequest_InternalSerialize :: "pb_runtime \<Rightarrow> GetRouteRequest_pb \<Rightarrow> byte list" where
  "GetRouteRequest_InternalSerialize rt m =
     (if grq_modid m \<noteq> 0 then WriteInt32ToArray rt 1 (grq_modid m) else []) @
     (if grq_cmdid m \<noteq> 0 then WriteInt32ToArray rt 2 (grq_cmdid m) else []) @
     grq_unknown m"

definition GetRouteRequest_MergeFrom :: "GetRouteRequest_pb \<Rightarrow> GetRouteRequest_pb \<Rightarrow> GetRouteRequest_pb" where
  "GetRouteRequest_MergeFrom src m =
     (let m = if grq_modid src \<noteq> 0 then m\<lparr>grq_modid := grq_modid src\<rparr> else m;
          m = if grq_cmdid src \<noteq> 0 then m\<lparr>grq_cmdid := grq_cmdid src\<rparr> else m
      in m\<lparr>grq_unknown := grq_unknown m @ grq_unknown src\<rparr>)"

definition GetRouteRequest_CopyFrom :: "GetRouteRequest_pb \<Rightarrow> GetRouteRequest_pb \<Rightarrow> GetRouteRequest_pb" where
  "GetRouteRequest_CopyFrom src m = GetRouteRequest_MergeFrom src (GetRouteRequest_Clear m)"

definition GetRouteRequest_msg :: "GetRouteRequest_pb \<Rightarrow> GetRouteRequest" where
  "GetRouteRequest_msg m = \<lparr>grq_modid = grq_modid m, grq_cmdid = grq_cmdid m\<rparr>"

definition GetRouteRequest_wire :: "GetRouteRequest \<Rightarrow> GetRouteRequest_pb" where
  "GetRouteRequest_wire m = \<lparr>grq_modid = grq_modid m, grq_cmdid = grq_cmdid m, grq_unknown = []\<rparr>"

definition encode_GetRouteRequest :: "pb_runtime \<Rightarrow> GetRouteRequest \<Rightarrow> byte list" where
  "encode_GetRouteRequest rt m = GetRouteRequest_InternalSerialize rt (GetRouteRequest_wire m)"

definition decode_GetRouteRequest :: "pb_runtime \<Rightarrow> byte list \<Rightarrow> GetRouteRequest option" where
  "decode_GetRouteRequest rt data = map_option GetRouteRequest_msg (ParseFromArray GetRouteRequest_Clear (GetRouteRequest_InternalParse rt) data GetRouteRequest_default)"

subsection \<open>\<open>GetRouteResponse\<close>\<close>

text \<open>Two numbers and the hosts.\<close>

record GetRouteResponse_pb =
  gr_modid :: int32
  gr_cmdid :: int32
  gr_host :: "HostInfo_pb list"
  gr_unknown :: "byte list"

definition GetRouteResponse_default :: GetRouteResponse_pb where
  "GetRouteResponse_default = \<lparr>gr_modid = 0, gr_cmdid = 0, gr_host = [], gr_unknown = []\<rparr>"

definition GetRouteResponse_Clear :: "GetRouteResponse_pb \<Rightarrow> GetRouteResponse_pb" where
  "GetRouteResponse_Clear m = m\<lparr>gr_modid := 0, gr_cmdid := 0, gr_host := [], gr_unknown := []\<rparr>"

definition GetRouteResponse_field :: "pb_runtime \<Rightarrow> uint32 \<Rightarrow> byte list \<Rightarrow> GetRouteResponse_pb \<Rightarrow> GetRouteResponse_pb field option" where
  "GetRouteResponse_field rt tag ptr m =
     (let number = drop_bit 3 tag in
      if number = 1 then (if (ucast tag :: byte) = 8 then read32 rt (\<lambda>v. m\<lparr>gr_modid := v\<rparr>) ptr else Some Unusual) else
      if number = 2 then (if (ucast tag :: byte) = 16 then read32 rt (\<lambda>v. m\<lparr>gr_cmdid := v\<rparr>) ptr else Some Unusual) else
      if number = 3 then (if (ucast tag :: byte) = 26 then 
           parse_repeated rt 26 (\<lambda>ptr m. ParseMessage rt (HostInfo_InternalParse rt) (\<lambda>a. m\<lparr>gr_host := gr_host m @ [a]\<rparr>) HostInfo_default ptr) ptr m else Some Unusual) else
      Some Unusual)"

definition GetRouteResponse_InternalParse :: "pb_runtime \<Rightarrow> GetRouteResponse_pb parser" where
  "GetRouteResponse_InternalParse rt = parse_loop rt (GetRouteResponse_field rt) (\<lambda>u m. m\<lparr>gr_unknown := gr_unknown m @ u\<rparr>)"

definition GetRouteResponse_ByteSizeLong :: "pb_runtime \<Rightarrow> GetRouteResponse_pb \<Rightarrow> nat" where
  "GetRouteResponse_ByteSizeLong rt m =
     1 * length (gr_host m) + sum_list (map (\<lambda>h. LengthDelimitedSize rt (HostInfo_ByteSizeLong rt h)) (gr_host m)) +
     (if gr_modid m \<noteq> 0 then Int32SizePlusOne rt (gr_modid m) else 0) +
     (if gr_cmdid m \<noteq> 0 then Int32SizePlusOne rt (gr_cmdid m) else 0) +
     length (gr_unknown m)"

definition GetRouteResponse_InternalSerialize :: "pb_runtime \<Rightarrow> GetRouteResponse_pb \<Rightarrow> byte list" where
  "GetRouteResponse_InternalSerialize rt m =
     (if gr_modid m \<noteq> 0 then WriteInt32ToArray rt 1 (gr_modid m) else []) @
     (if gr_cmdid m \<noteq> 0 then WriteInt32ToArray rt 2 (gr_cmdid m) else []) @
     concat (map (\<lambda>h. WriteMessageHead rt 3 (HostInfo_ByteSizeLong rt h) @ HostInfo_InternalSerialize rt h) (gr_host m)) @
     gr_unknown m"

definition GetRouteResponse_MergeFrom :: "GetRouteResponse_pb \<Rightarrow> GetRouteResponse_pb \<Rightarrow> GetRouteResponse_pb" where
  "GetRouteResponse_MergeFrom src m =
     (let m = m\<lparr>gr_host := gr_host m @ gr_host src\<rparr>;
          m = if gr_modid src \<noteq> 0 then m\<lparr>gr_modid := gr_modid src\<rparr> else m;
          m = if gr_cmdid src \<noteq> 0 then m\<lparr>gr_cmdid := gr_cmdid src\<rparr> else m
      in m\<lparr>gr_unknown := gr_unknown m @ gr_unknown src\<rparr>)"

definition GetRouteResponse_CopyFrom :: "GetRouteResponse_pb \<Rightarrow> GetRouteResponse_pb \<Rightarrow> GetRouteResponse_pb" where
  "GetRouteResponse_CopyFrom src m = GetRouteResponse_MergeFrom src (GetRouteResponse_Clear m)"

definition GetRouteResponse_msg :: "GetRouteResponse_pb \<Rightarrow> GetRouteResponse" where
  "GetRouteResponse_msg m = \<lparr>grs_modid = gr_modid m, grs_cmdid = gr_cmdid m, grs_host = map HostInfo_msg (gr_host m)\<rparr>"

definition GetRouteResponse_wire :: "GetRouteResponse \<Rightarrow> GetRouteResponse_pb" where
  "GetRouteResponse_wire m = \<lparr>gr_modid = grs_modid m, gr_cmdid = grs_cmdid m, gr_host = map HostInfo_wire (grs_host m), gr_unknown = []\<rparr>"

definition encode_GetRouteResponse :: "pb_runtime \<Rightarrow> GetRouteResponse \<Rightarrow> byte list" where
  "encode_GetRouteResponse rt m = GetRouteResponse_InternalSerialize rt (GetRouteResponse_wire m)"

definition decode_GetRouteResponse :: "pb_runtime \<Rightarrow> byte list \<Rightarrow> GetRouteResponse option" where
  "decode_GetRouteResponse rt data = map_option GetRouteResponse_msg (ParseFromArray GetRouteResponse_Clear (GetRouteResponse_InternalParse rt) data GetRouteResponse_default)"

subsection \<open>\<open>HostCallResult\<close>\<close>

text \<open>Five numbers, the last one a flag.\<close>

record HostCallResult_pb = HostCallResult +
  hcr_unknown :: "byte list"

definition HostCallResult_default :: HostCallResult_pb where
  "HostCallResult_default = \<lparr>hcr_ip = 0, hcr_port = 0, hcr_succ = 0, hcr_err = 0, hcr_overload = False, hcr_unknown = []\<rparr>"

definition HostCallResult_Clear :: "HostCallResult_pb \<Rightarrow> HostCallResult_pb" where
  "HostCallResult_Clear m = m\<lparr>hcr_ip := 0, hcr_port := 0, hcr_succ := 0, hcr_err := 0, hcr_overload := False, hcr_unknown := []\<rparr>"

definition HostCallResult_field :: "pb_runtime \<Rightarrow> uint32 \<Rightarrow> byte list \<Rightarrow> HostCallResult_pb \<Rightarrow> HostCallResult_pb field option" where
  "HostCallResult_field rt tag ptr m =
     (let number = drop_bit 3 tag in
      if number = 1 then (if (ucast tag :: byte) = 8 then read32 rt (\<lambda>v. m\<lparr>hcr_ip := v\<rparr>) ptr else Some Unusual) else
      if number = 2 then (if (ucast tag :: byte) = 16 then read32 rt (\<lambda>v. m\<lparr>hcr_port := v\<rparr>) ptr else Some Unusual) else
      if number = 3 then (if (ucast tag :: byte) = 24 then read32 rt (\<lambda>v. m\<lparr>hcr_succ := v\<rparr>) ptr else Some Unusual) else
      if number = 4 then (if (ucast tag :: byte) = 32 then read32 rt (\<lambda>v. m\<lparr>hcr_err := v\<rparr>) ptr else Some Unusual) else
      if number = 5 then (if (ucast tag :: byte) = 40 then read_bool rt (\<lambda>v. m\<lparr>hcr_overload := v\<rparr>) ptr else Some Unusual) else
      Some Unusual)"

definition HostCallResult_InternalParse :: "pb_runtime \<Rightarrow> HostCallResult_pb parser" where
  "HostCallResult_InternalParse rt = parse_loop rt (HostCallResult_field rt) (\<lambda>u m. m\<lparr>hcr_unknown := hcr_unknown m @ u\<rparr>)"

definition HostCallResult_ByteSizeLong :: "pb_runtime \<Rightarrow> HostCallResult_pb \<Rightarrow> nat" where
  "HostCallResult_ByteSizeLong rt m =
     (if hcr_ip m \<noteq> 0 then Int32SizePlusOne rt (hcr_ip m) else 0) +
     (if hcr_port m \<noteq> 0 then Int32SizePlusOne rt (hcr_port m) else 0) +
     (if hcr_succ m \<noteq> 0 then UInt32SizePlusOne rt (hcr_succ m) else 0) +
     (if hcr_err m \<noteq> 0 then UInt32SizePlusOne rt (hcr_err m) else 0) +
     (if hcr_overload m then 1 + 1 else 0) +
     length (hcr_unknown m)"

definition HostCallResult_InternalSerialize :: "pb_runtime \<Rightarrow> HostCallResult_pb \<Rightarrow> byte list" where
  "HostCallResult_InternalSerialize rt m =
     (if hcr_ip m \<noteq> 0 then WriteInt32ToArray rt 1 (hcr_ip m) else []) @
     (if hcr_port m \<noteq> 0 then WriteInt32ToArray rt 2 (hcr_port m) else []) @
     (if hcr_succ m \<noteq> 0 then WriteUInt32ToArray rt 3 (hcr_succ m) else []) @
     (if hcr_err m \<noteq> 0 then WriteUInt32ToArray rt 4 (hcr_err m) else []) @
     (if hcr_overload m then WriteBoolToArray rt 5 (hcr_overload m) else []) @
     hcr_unknown m"

definition HostCallResult_MergeFrom :: "HostCallResult_pb \<Rightarrow> HostCallResult_pb \<Rightarrow> HostCallResult_pb" where
  "HostCallResult_MergeFrom src m =
     (let m = if hcr_ip src \<noteq> 0 then m\<lparr>hcr_ip := hcr_ip src\<rparr> else m;
          m = if hcr_port src \<noteq> 0 then m\<lparr>hcr_port := hcr_port src\<rparr> else m;
          m = if hcr_succ src \<noteq> 0 then m\<lparr>hcr_succ := hcr_succ src\<rparr> else m;
          m = if hcr_err src \<noteq> 0 then m\<lparr>hcr_err := hcr_err src\<rparr> else m;
          m = if hcr_overload src then m\<lparr>hcr_overload := hcr_overload src\<rparr> else m
      in m\<lparr>hcr_unknown := hcr_unknown m @ hcr_unknown src\<rparr>)"

definition HostCallResult_CopyFrom :: "HostCallResult_pb \<Rightarrow> HostCallResult_pb \<Rightarrow> HostCallResult_pb" where
  "HostCallResult_CopyFrom src m = HostCallResult_MergeFrom src (HostCallResult_Clear m)"

definition HostCallResult_msg :: "HostCallResult_pb \<Rightarrow> HostCallResult" where
  "HostCallResult_msg m = \<lparr>hcr_ip = hcr_ip m, hcr_port = hcr_port m, hcr_succ = hcr_succ m, hcr_err = hcr_err m, hcr_overload = hcr_overload m\<rparr>"

definition HostCallResult_wire :: "HostCallResult \<Rightarrow> HostCallResult_pb" where
  "HostCallResult_wire m = \<lparr>hcr_ip = hcr_ip m, hcr_port = hcr_port m, hcr_succ = hcr_succ m, hcr_err = hcr_err m, hcr_overload = hcr_overload m, hcr_unknown = []\<rparr>"

definition encode_HostCallResult :: "pb_runtime \<Rightarrow> HostCallResult \<Rightarrow> byte list" where
  "encode_HostCallResult rt m = HostCallResult_InternalSerialize rt (HostCallResult_wire m)"

definition decode_HostCallResult :: "pb_runtime \<Rightarrow> byte list \<Rightarrow> HostCallResult option" where
  "decode_HostCallResult rt data = map_option HostCallResult_msg (ParseFromArray HostCallResult_Clear (HostCallResult_InternalParse rt) data HostCallResult_default)"

subsection \<open>\<open>ReportStatusRequest\<close>\<close>

text \<open>Four numbers and the results.\<close>

record ReportStatusRequest_pb =
  rs_modid :: int32
  rs_cmdid :: int32
  rs_caller :: int32
  rs_results :: "HostCallResult_pb list"
  rs_ts :: uint32
  rs_unknown :: "byte list"

definition ReportStatusRequest_default :: ReportStatusRequest_pb where
  "ReportStatusRequest_default = \<lparr>rs_modid = 0, rs_cmdid = 0, rs_caller = 0, rs_results = [], rs_ts = 0, rs_unknown = []\<rparr>"

definition ReportStatusRequest_Clear :: "ReportStatusRequest_pb \<Rightarrow> ReportStatusRequest_pb" where
  "ReportStatusRequest_Clear m = m\<lparr>rs_modid := 0, rs_cmdid := 0, rs_caller := 0, rs_results := [], rs_ts := 0, rs_unknown := []\<rparr>"

definition ReportStatusRequest_field :: "pb_runtime \<Rightarrow> uint32 \<Rightarrow> byte list \<Rightarrow> ReportStatusRequest_pb \<Rightarrow> ReportStatusRequest_pb field option" where
  "ReportStatusRequest_field rt tag ptr m =
     (let number = drop_bit 3 tag in
      if number = 1 then (if (ucast tag :: byte) = 8 then read32 rt (\<lambda>v. m\<lparr>rs_modid := v\<rparr>) ptr else Some Unusual) else
      if number = 2 then (if (ucast tag :: byte) = 16 then read32 rt (\<lambda>v. m\<lparr>rs_cmdid := v\<rparr>) ptr else Some Unusual) else
      if number = 3 then (if (ucast tag :: byte) = 24 then read32 rt (\<lambda>v. m\<lparr>rs_caller := v\<rparr>) ptr else Some Unusual) else
      if number = 4 then (if (ucast tag :: byte) = 34 then 
           parse_repeated rt 34 (\<lambda>ptr m. ParseMessage rt (HostCallResult_InternalParse rt) (\<lambda>a. m\<lparr>rs_results := rs_results m @ [a]\<rparr>) HostCallResult_default ptr) ptr m else Some Unusual) else
      if number = 5 then (if (ucast tag :: byte) = 40 then read32 rt (\<lambda>v. m\<lparr>rs_ts := v\<rparr>) ptr else Some Unusual) else
      Some Unusual)"

definition ReportStatusRequest_InternalParse :: "pb_runtime \<Rightarrow> ReportStatusRequest_pb parser" where
  "ReportStatusRequest_InternalParse rt = parse_loop rt (ReportStatusRequest_field rt) (\<lambda>u m. m\<lparr>rs_unknown := rs_unknown m @ u\<rparr>)"

definition ReportStatusRequest_ByteSizeLong :: "pb_runtime \<Rightarrow> ReportStatusRequest_pb \<Rightarrow> nat" where
  "ReportStatusRequest_ByteSizeLong rt m =
     1 * length (rs_results m) + sum_list (map (\<lambda>h. LengthDelimitedSize rt (HostCallResult_ByteSizeLong rt h)) (rs_results m)) +
     (if rs_modid m \<noteq> 0 then Int32SizePlusOne rt (rs_modid m) else 0) +
     (if rs_cmdid m \<noteq> 0 then Int32SizePlusOne rt (rs_cmdid m) else 0) +
     (if rs_caller m \<noteq> 0 then Int32SizePlusOne rt (rs_caller m) else 0) +
     (if rs_ts m \<noteq> 0 then UInt32SizePlusOne rt (rs_ts m) else 0) +
     length (rs_unknown m)"

definition ReportStatusRequest_InternalSerialize :: "pb_runtime \<Rightarrow> ReportStatusRequest_pb \<Rightarrow> byte list" where
  "ReportStatusRequest_InternalSerialize rt m =
     (if rs_modid m \<noteq> 0 then WriteInt32ToArray rt 1 (rs_modid m) else []) @
     (if rs_cmdid m \<noteq> 0 then WriteInt32ToArray rt 2 (rs_cmdid m) else []) @
     (if rs_caller m \<noteq> 0 then WriteInt32ToArray rt 3 (rs_caller m) else []) @
     concat (map (\<lambda>h. WriteMessageHead rt 4 (HostCallResult_ByteSizeLong rt h) @ HostCallResult_InternalSerialize rt h) (rs_results m)) @
     (if rs_ts m \<noteq> 0 then WriteUInt32ToArray rt 5 (rs_ts m) else []) @
     rs_unknown m"

definition ReportStatusRequest_MergeFrom :: "ReportStatusRequest_pb \<Rightarrow> ReportStatusRequest_pb \<Rightarrow> ReportStatusRequest_pb" where
  "ReportStatusRequest_MergeFrom src m =
     (let m = m\<lparr>rs_results := rs_results m @ rs_results src\<rparr>;
          m = if rs_modid src \<noteq> 0 then m\<lparr>rs_modid := rs_modid src\<rparr> else m;
          m = if rs_cmdid src \<noteq> 0 then m\<lparr>rs_cmdid := rs_cmdid src\<rparr> else m;
          m = if rs_caller src \<noteq> 0 then m\<lparr>rs_caller := rs_caller src\<rparr> else m;
          m = if rs_ts src \<noteq> 0 then m\<lparr>rs_ts := rs_ts src\<rparr> else m
      in m\<lparr>rs_unknown := rs_unknown m @ rs_unknown src\<rparr>)"

definition ReportStatusRequest_CopyFrom :: "ReportStatusRequest_pb \<Rightarrow> ReportStatusRequest_pb \<Rightarrow> ReportStatusRequest_pb" where
  "ReportStatusRequest_CopyFrom src m = ReportStatusRequest_MergeFrom src (ReportStatusRequest_Clear m)"

definition ReportStatusRequest_msg :: "ReportStatusRequest_pb \<Rightarrow> ReportStatusRequest" where
  "ReportStatusRequest_msg m = \<lparr>rsr_modid = rs_modid m, rsr_cmdid = rs_cmdid m, rsr_caller = rs_caller m, rsr_results = map HostCallResult_msg (rs_results m), rsr_ts = rs_ts m\<rparr>"

definition ReportStatusRequest_wire :: "ReportStatusRequest \<Rightarrow> ReportStatusRequest_pb" where
  "ReportStatusRequest_wire m = \<lparr>rs_modid = rsr_modid m, rs_cmdid = rsr_cmdid m, rs_caller = rsr_caller m, rs_results = map HostCallResult_wire (rsr_results m), rs_ts = rsr_ts m, rs_unknown = []\<rparr>"

definition encode_ReportStatusRequest :: "pb_runtime \<Rightarrow> ReportStatusRequest \<Rightarrow> byte list" where
  "encode_ReportStatusRequest rt m = ReportStatusRequest_InternalSerialize rt (ReportStatusRequest_wire m)"

definition decode_ReportStatusRequest :: "pb_runtime \<Rightarrow> byte list \<Rightarrow> ReportStatusRequest option" where
  "decode_ReportStatusRequest rt data = map_option ReportStatusRequest_msg (ParseFromArray ReportStatusRequest_Clear (ReportStatusRequest_InternalParse rt) data ReportStatusRequest_default)"

subsection \<open>\<open>GetHostRequest\<close>\<close>

text \<open>Three numbers.\<close>

record GetHostRequest_pb = GetHostRequest +
  ghq_unknown :: "byte list"

definition GetHostRequest_default :: GetHostRequest_pb where
  "GetHostRequest_default = \<lparr>ghq_seq = 0, ghq_modid = 0, ghq_cmdid = 0, ghq_unknown = []\<rparr>"

definition GetHostRequest_Clear :: "GetHostRequest_pb \<Rightarrow> GetHostRequest_pb" where
  "GetHostRequest_Clear m = m\<lparr>ghq_seq := 0, ghq_modid := 0, ghq_cmdid := 0, ghq_unknown := []\<rparr>"

definition GetHostRequest_field :: "pb_runtime \<Rightarrow> uint32 \<Rightarrow> byte list \<Rightarrow> GetHostRequest_pb \<Rightarrow> GetHostRequest_pb field option" where
  "GetHostRequest_field rt tag ptr m =
     (let number = drop_bit 3 tag in
      if number = 1 then (if (ucast tag :: byte) = 8 then read32 rt (\<lambda>v. m\<lparr>ghq_seq := v\<rparr>) ptr else Some Unusual) else
      if number = 2 then (if (ucast tag :: byte) = 16 then read32 rt (\<lambda>v. m\<lparr>ghq_modid := v\<rparr>) ptr else Some Unusual) else
      if number = 3 then (if (ucast tag :: byte) = 24 then read32 rt (\<lambda>v. m\<lparr>ghq_cmdid := v\<rparr>) ptr else Some Unusual) else
      Some Unusual)"

definition GetHostRequest_InternalParse :: "pb_runtime \<Rightarrow> GetHostRequest_pb parser" where
  "GetHostRequest_InternalParse rt = parse_loop rt (GetHostRequest_field rt) (\<lambda>u m. m\<lparr>ghq_unknown := ghq_unknown m @ u\<rparr>)"

definition GetHostRequest_ByteSizeLong :: "pb_runtime \<Rightarrow> GetHostRequest_pb \<Rightarrow> nat" where
  "GetHostRequest_ByteSizeLong rt m =
     (if ghq_seq m \<noteq> 0 then UInt32SizePlusOne rt (ghq_seq m) else 0) +
     (if ghq_modid m \<noteq> 0 then Int32SizePlusOne rt (ghq_modid m) else 0) +
     (if ghq_cmdid m \<noteq> 0 then Int32SizePlusOne rt (ghq_cmdid m) else 0) +
     length (ghq_unknown m)"

definition GetHostRequest_InternalSerialize :: "pb_runtime \<Rightarrow> GetHostRequest_pb \<Rightarrow> byte list" where
  "GetHostRequest_InternalSerialize rt m =
     (if ghq_seq m \<noteq> 0 then WriteUInt32ToArray rt 1 (ghq_seq m) else []) @
     (if ghq_modid m \<noteq> 0 then WriteInt32ToArray rt 2 (ghq_modid m) else []) @
     (if ghq_cmdid m \<noteq> 0 then WriteInt32ToArray rt 3 (ghq_cmdid m) else []) @
     ghq_unknown m"

definition GetHostRequest_MergeFrom :: "GetHostRequest_pb \<Rightarrow> GetHostRequest_pb \<Rightarrow> GetHostRequest_pb" where
  "GetHostRequest_MergeFrom src m =
     (let m = if ghq_seq src \<noteq> 0 then m\<lparr>ghq_seq := ghq_seq src\<rparr> else m;
          m = if ghq_modid src \<noteq> 0 then m\<lparr>ghq_modid := ghq_modid src\<rparr> else m;
          m = if ghq_cmdid src \<noteq> 0 then m\<lparr>ghq_cmdid := ghq_cmdid src\<rparr> else m
      in m\<lparr>ghq_unknown := ghq_unknown m @ ghq_unknown src\<rparr>)"

definition GetHostRequest_CopyFrom :: "GetHostRequest_pb \<Rightarrow> GetHostRequest_pb \<Rightarrow> GetHostRequest_pb" where
  "GetHostRequest_CopyFrom src m = GetHostRequest_MergeFrom src (GetHostRequest_Clear m)"

definition GetHostRequest_msg :: "GetHostRequest_pb \<Rightarrow> GetHostRequest" where
  "GetHostRequest_msg m = \<lparr>ghq_seq = ghq_seq m, ghq_modid = ghq_modid m, ghq_cmdid = ghq_cmdid m\<rparr>"

definition GetHostRequest_wire :: "GetHostRequest \<Rightarrow> GetHostRequest_pb" where
  "GetHostRequest_wire m = \<lparr>ghq_seq = ghq_seq m, ghq_modid = ghq_modid m, ghq_cmdid = ghq_cmdid m, ghq_unknown = []\<rparr>"

definition encode_GetHostRequest :: "pb_runtime \<Rightarrow> GetHostRequest \<Rightarrow> byte list" where
  "encode_GetHostRequest rt m = GetHostRequest_InternalSerialize rt (GetHostRequest_wire m)"

definition decode_GetHostRequest :: "pb_runtime \<Rightarrow> byte list \<Rightarrow> GetHostRequest option" where
  "decode_GetHostRequest rt data = map_option GetHostRequest_msg (ParseFromArray GetHostRequest_Clear (GetHostRequest_InternalParse rt) data GetHostRequest_default)"

subsection \<open>\<open>GetHostResponse\<close>\<close>

text \<open>Four numbers and, perhaps, a host.\<close>

record GetHostResponse_pb =
  gh_seq :: uint32
  gh_modid :: int32
  gh_cmdid :: int32
  gh_retcode :: int32
  gh_host :: "HostInfo_pb option"
  gh_unknown :: "byte list"

definition GetHostResponse_default :: GetHostResponse_pb where
  "GetHostResponse_default = \<lparr>gh_seq = 0, gh_modid = 0, gh_cmdid = 0, gh_retcode = 0, gh_host = None, gh_unknown = []\<rparr>"

definition GetHostResponse_Clear :: "GetHostResponse_pb \<Rightarrow> GetHostResponse_pb" where
  "GetHostResponse_Clear m = m\<lparr>gh_seq := 0, gh_modid := 0, gh_cmdid := 0, gh_retcode := 0, gh_host := None, gh_unknown := []\<rparr>"

definition GetHostResponse_field :: "pb_runtime \<Rightarrow> uint32 \<Rightarrow> byte list \<Rightarrow> GetHostResponse_pb \<Rightarrow> GetHostResponse_pb field option" where
  "GetHostResponse_field rt tag ptr m =
     (let number = drop_bit 3 tag in
      if number = 1 then (if (ucast tag :: byte) = 8 then read32 rt (\<lambda>v. m\<lparr>gh_seq := v\<rparr>) ptr else Some Unusual) else
      if number = 2 then (if (ucast tag :: byte) = 16 then read32 rt (\<lambda>v. m\<lparr>gh_modid := v\<rparr>) ptr else Some Unusual) else
      if number = 3 then (if (ucast tag :: byte) = 24 then read32 rt (\<lambda>v. m\<lparr>gh_cmdid := v\<rparr>) ptr else Some Unusual) else
      if number = 4 then (if (ucast tag :: byte) = 32 then read32 rt (\<lambda>v. m\<lparr>gh_retcode := v\<rparr>) ptr else Some Unusual) else
      if number = 5 then (if (ucast tag :: byte) = 42 then 
           ParseMessage rt (HostInfo_InternalParse rt) (\<lambda>a. m\<lparr>gh_host := Some a\<rparr>) (case gh_host m of None \<Rightarrow> HostInfo_default | Some a \<Rightarrow> a) ptr else Some Unusual) else
      Some Unusual)"

definition GetHostResponse_InternalParse :: "pb_runtime \<Rightarrow> GetHostResponse_pb parser" where
  "GetHostResponse_InternalParse rt = parse_loop rt (GetHostResponse_field rt) (\<lambda>u m. m\<lparr>gh_unknown := gh_unknown m @ u\<rparr>)"

definition GetHostResponse_ByteSizeLong :: "pb_runtime \<Rightarrow> GetHostResponse_pb \<Rightarrow> nat" where
  "GetHostResponse_ByteSizeLong rt m =
     (case gh_host m of None \<Rightarrow> 0 | Some h \<Rightarrow> 1 + LengthDelimitedSize rt (HostInfo_ByteSizeLong rt h)) +
     (if gh_seq m \<noteq> 0 then UInt32SizePlusOne rt (gh_seq m) else 0) +
     (if gh_modid m \<noteq> 0 then Int32SizePlusOne rt (gh_modid m) else 0) +
     (if gh_cmdid m \<noteq> 0 then Int32SizePlusOne rt (gh_cmdid m) else 0) +
     (if gh_retcode m \<noteq> 0 then Int32SizePlusOne rt (gh_retcode m) else 0) +
     length (gh_unknown m)"

definition GetHostResponse_InternalSerialize :: "pb_runtime \<Rightarrow> GetHostResponse_pb \<Rightarrow> byte list" where
  "GetHostResponse_InternalSerialize rt m =
     (if gh_seq m \<noteq> 0 then WriteUInt32ToArray rt 1 (gh_seq m) else []) @
     (if gh_modid m \<noteq> 0 then WriteInt32ToArray rt 2 (gh_modid m) else []) @
     (if gh_cmdid m \<noteq> 0 then WriteInt32ToArray rt 3 (gh_cmdid m) else []) @
     (if gh_retcode m \<noteq> 0 then WriteInt32ToArray rt 4 (gh_retcode m) else []) @
     (case gh_host m of None \<Rightarrow> [] | Some h \<Rightarrow> WriteMessageHead rt 5 (HostInfo_ByteSizeLong rt h) @ HostInfo_InternalSerialize rt h) @
     gh_unknown m"

definition GetHostResponse_MergeFrom :: "GetHostResponse_pb \<Rightarrow> GetHostResponse_pb \<Rightarrow> GetHostResponse_pb" where
  "GetHostResponse_MergeFrom src m =
     (let m = (case gh_host src of None \<Rightarrow> m
             | Some h \<Rightarrow> m\<lparr>gh_host := Some (HostInfo_MergeFrom h (case gh_host m of None \<Rightarrow> HostInfo_default | Some a \<Rightarrow> a))\<rparr>);
          m = if gh_seq src \<noteq> 0 then m\<lparr>gh_seq := gh_seq src\<rparr> else m;
          m = if gh_modid src \<noteq> 0 then m\<lparr>gh_modid := gh_modid src\<rparr> else m;
          m = if gh_cmdid src \<noteq> 0 then m\<lparr>gh_cmdid := gh_cmdid src\<rparr> else m;
          m = if gh_retcode src \<noteq> 0 then m\<lparr>gh_retcode := gh_retcode src\<rparr> else m
      in m\<lparr>gh_unknown := gh_unknown m @ gh_unknown src\<rparr>)"

definition GetHostResponse_CopyFrom :: "GetHostResponse_pb \<Rightarrow> GetHostResponse_pb \<Rightarrow> GetHostResponse_pb" where
  "GetHostResponse_CopyFrom src m = GetHostResponse_MergeFrom src (GetHostResponse_Clear m)"

definition GetHostResponse_msg :: "GetHostResponse_pb \<Rightarrow> GetHostResponse" where
  "GetHostResponse_msg m = \<lparr>ghs_seq = gh_seq m, ghs_modid = gh_modid m, ghs_cmdid = gh_cmdid m, ghs_retcode = gh_retcode m, ghs_host = map_option HostInfo_msg (gh_host m)\<rparr>"

definition GetHostResponse_wire :: "GetHostResponse \<Rightarrow> GetHostResponse_pb" where
  "GetHostResponse_wire m = \<lparr>gh_seq = ghs_seq m, gh_modid = ghs_modid m, gh_cmdid = ghs_cmdid m, gh_retcode = ghs_retcode m, gh_host = map_option HostInfo_wire (ghs_host m), gh_unknown = []\<rparr>"

definition encode_GetHostResponse :: "pb_runtime \<Rightarrow> GetHostResponse \<Rightarrow> byte list" where
  "encode_GetHostResponse rt m = GetHostResponse_InternalSerialize rt (GetHostResponse_wire m)"

definition decode_GetHostResponse :: "pb_runtime \<Rightarrow> byte list \<Rightarrow> GetHostResponse option" where
  "decode_GetHostResponse rt data = map_option GetHostResponse_msg (ParseFromArray GetHostResponse_Clear (GetHostResponse_InternalParse rt) data GetHostResponse_default)"
end
