(* ===== verification/Lars_Pb_Laws.thy ===== *)
theory Lars_Pb_Laws
  imports Lars_Pb
begin

text \<open>
  What the message classes promise under the laws of the wire format: reading what was written merges
  it into the message, the size computed is the size written, reading ends on every input, and the
  inner loop over repeated messages is only faster.
\<close>

subsection \<open>References for repeated fields\<close>

text \<open>The \<open>switch\<close> that reads one embedded message per tag.\<close>

definition GetRouteResponse_field1 :: "pb_runtime \<Rightarrow> uint32 \<Rightarrow> byte list \<Rightarrow> GetRouteResponse_pb \<Rightarrow> GetRouteResponse_pb field option" where
  "GetRouteResponse_field1 rt tag ptr m =
     (if tag = 26 then ParseMessage rt (HostInfo_InternalParse rt) (\<lambda>a. m\<lparr>gr_host := gr_host m @ [a]\<rparr>) HostInfo_default ptr
      else GetRouteResponse_field rt tag ptr m)"

definition GetRouteResponse_Parse1 :: "pb_runtime \<Rightarrow> GetRouteResponse_pb parser" where
  "GetRouteResponse_Parse1 rt = parse_loop rt (GetRouteResponse_field1 rt) (\<lambda>u m. m\<lparr>gr_unknown := gr_unknown m @ u\<rparr>)"

definition ReportStatusRequest_field1 :: "pb_runtime \<Rightarrow> uint32 \<Rightarrow> byte list \<Rightarrow> ReportStatusRequest_pb \<Rightarrow> ReportStatusRequest_pb field option" where
  "ReportStatusRequest_field1 rt tag ptr m =
     (if tag = 34 then ParseMessage rt (HostCallResult_InternalParse rt) (\<lambda>a. m\<lparr>rs_results := rs_results m @ [a]\<rparr>) HostCallResult_default ptr
      else ReportStatusRequest_field rt tag ptr m)"

definition ReportStatusRequest_Parse1 :: "pb_runtime \<Rightarrow> ReportStatusRequest_pb parser" where
  "ReportStatusRequest_Parse1 rt = parse_loop rt (ReportStatusRequest_field1 rt) (\<lambda>u m. m\<lparr>rs_unknown := rs_unknown m @ u\<rparr>)"

lemma drop_bit_3: "drop_bit 3 (tag :: uint32) = number \<Longrightarrow> unat tag div 8 = unat number"
  by (auto simp: drop_bit_eq_div unat_div)

text \<open>A tag is its field number and its low byte.\<close>

lemma tag_eq:
  assumes "drop_bit 3 (tag :: uint32) = number" and "(ucast tag :: byte) = b" and "unat number < 16"
  shows "unat tag = unat b"
proof -
  have "unat tag div 8 = unat number" using assms(1) by (rule drop_bit_3)
  then have "unat tag div 8 < 16" using assms(3) by simp
  then have "unat tag < 2 ^ 8" by simp
  moreover have "unat b = unat tag mod 2 ^ 8"
    unfolding assms(2) [symmetric] by (simp add: unsigned_ucast_eq take_bit_eq_mod)
  ultimately show ?thesis by simp
qed

subsection \<open>Copying and merging\<close>

text \<open>A copy is the original, and so is what a fresh message becomes by merging.\<close>

lemma HostInfo_copy: "HostInfo_CopyFrom src m = src" "HostInfo_MergeFrom src HostInfo_default = src"
  unfolding HostInfo_CopyFrom_def HostInfo_MergeFrom_def HostInfo_Clear_def HostInfo_default_def Let_def
  by (rule HostInfo_pb.equality; simp)+

lemma GetRouteRequest_copy: "GetRouteRequest_CopyFrom src m = src" "GetRouteRequest_MergeFrom src GetRouteRequest_default = src"
  unfolding GetRouteRequest_CopyFrom_def GetRouteRequest_MergeFrom_def GetRouteRequest_Clear_def GetRouteRequest_default_def Let_def
  by (rule GetRouteRequest_pb.equality; simp)+

lemma HostCallResult_copy: "HostCallResult_CopyFrom src m = src" "HostCallResult_MergeFrom src HostCallResult_default = src"
  unfolding HostCallResult_CopyFrom_def HostCallResult_MergeFrom_def HostCallResult_Clear_def HostCallResult_default_def Let_def
  by (rule HostCallResult_pb.equality; simp)+

lemma GetHostRequest_copy: "GetHostRequest_CopyFrom src m = src" "GetHostRequest_MergeFrom src GetHostRequest_default = src"
  unfolding GetHostRequest_CopyFrom_def GetHostRequest_MergeFrom_def GetHostRequest_Clear_def GetHostRequest_default_def Let_def
  by (rule GetHostRequest_pb.equality; simp)+

lemma GetRouteResponse_copy: "GetRouteResponse_CopyFrom src m = src" "GetRouteResponse_MergeFrom src GetRouteResponse_default = src"
  unfolding GetRouteResponse_CopyFrom_def GetRouteResponse_MergeFrom_def GetRouteResponse_Clear_def GetRouteResponse_default_def Let_def
  by (rule GetRouteResponse_pb.equality; simp)+

lemma ReportStatusRequest_copy: "ReportStatusRequest_CopyFrom src m = src" "ReportStatusRequest_MergeFrom src ReportStatusRequest_default = src"
  unfolding ReportStatusRequest_CopyFrom_def ReportStatusRequest_MergeFrom_def ReportStatusRequest_Clear_def ReportStatusRequest_default_def Let_def
  by (rule ReportStatusRequest_pb.equality; simp)+

lemma GetHostResponse_copy: "GetHostResponse_CopyFrom src m = src" "GetHostResponse_MergeFrom src GetHostResponse_default = src"
  unfolding GetHostResponse_CopyFrom_def GetHostResponse_MergeFrom_def GetHostResponse_Clear_def GetHostResponse_default_def Let_def
  by (rule GetHostResponse_pb.equality; simp add: HostInfo_copy(2) split: option.split)+

context wire_format
begin

subsection \<open>Messages of numbers\<close>

lemma HostInfo_steps:
  "parse_loop rt (HostInfo_field rt) unk ((if v \<noteq> 0 then WriteInt32ToArray rt 1 v else []) @ bs) m =
     parse_loop rt (HostInfo_field rt) unk bs (if v \<noteq> 0 then m\<lparr>hinfo_ip := v\<rparr> else m)"
  "parse_loop rt (HostInfo_field rt) unk ((if v \<noteq> 0 then WriteInt32ToArray rt 2 v else []) @ bs) m =
     parse_loop rt (HostInfo_field rt) unk bs (if v \<noteq> 0 then m\<lparr>hinfo_port := v\<rparr> else m)"
  by ((rule int32_step); simp add: HostInfo_field_def)+

lemma HostInfo_merge:
  assumes "hinfo_unknown b = []"
  shows "HostInfo_InternalParse rt (HostInfo_InternalSerialize rt b @ bs) m = HostInfo_InternalParse rt bs (HostInfo_MergeFrom b m)"
  unfolding HostInfo_InternalParse_def HostInfo_InternalSerialize_def append_assoc HostInfo_steps
  by (simp add: assms HostInfo_MergeFrom_def Let_def)

lemma HostInfo_ends: "field_ends (HostInfo_field rt)"
  by (simp add: field_ends_def HostInfo_field_def Let_def read32_ends read_bool_ends)

lemma HostInfo_size: "HostInfo_ByteSizeLong rt m = length (HostInfo_InternalSerialize rt m)"
  by (simp add: HostInfo_ByteSizeLong_def HostInfo_InternalSerialize_def int32_size uint32_size bool_size)

lemma GetRouteRequest_steps:
  "parse_loop rt (GetRouteRequest_field rt) unk ((if v \<noteq> 0 then WriteInt32ToArray rt 1 v else []) @ bs) m =
     parse_loop rt (GetRouteRequest_field rt) unk bs (if v \<noteq> 0 then m\<lparr>grq_modid := v\<rparr> else m)"
  "parse_loop rt (GetRouteRequest_field rt) unk ((if v \<noteq> 0 then WriteInt32ToArray rt 2 v else []) @ bs) m =
     parse_loop rt (GetRouteRequest_field rt) unk bs (if v \<noteq> 0 then m\<lparr>grq_cmdid := v\<rparr> else m)"
  by ((rule int32_step); simp add: GetRouteRequest_field_def)+

lemma GetRouteRequest_merge:
  assumes "grq_unknown b = []"
  shows "GetRouteRequest_InternalParse rt (GetRouteRequest_InternalSerialize rt b @ bs) m = GetRouteRequest_InternalParse rt bs (GetRouteRequest_MergeFrom b m)"
  unfolding GetRouteRequest_InternalParse_def GetRouteRequest_InternalSerialize_def append_assoc GetRouteRequest_steps
  by (simp add: assms GetRouteRequest_MergeFrom_def Let_def)

lemma GetRouteRequest_ends: "field_ends (GetRouteRequest_field rt)"
  by (simp add: field_ends_def GetRouteRequest_field_def Let_def read32_ends read_bool_ends)

lemma GetRouteRequest_size: "GetRouteRequest_ByteSizeLong rt m = length (GetRouteRequest_InternalSerialize rt m)"
  by (simp add: GetRouteRequest_ByteSizeLong_def GetRouteRequest_InternalSerialize_def int32_size uint32_size bool_size)

lemma HostCallResult_steps:
  "parse_loop rt (HostCallResult_field rt) unk ((if v \<noteq> 0 then WriteInt32ToArray rt 1 v else []) @ bs) m =
     parse_loop rt (HostCallResult_field rt) unk bs (if v \<noteq> 0 then m\<lparr>hcr_ip := v\<rparr> else m)"
  "parse_loop rt (HostCallResult_field rt) unk ((if v \<noteq> 0 then WriteInt32ToArray rt 2 v else []) @ bs) m =
     parse_loop rt (HostCallResult_field rt) unk bs (if v \<noteq> 0 then m\<lparr>hcr_port := v\<rparr> else m)"
  "parse_loop rt (HostCallResult_field rt) unk ((if v \<noteq> 0 then WriteUInt32ToArray rt 3 v else []) @ bs) m =
     parse_loop rt (HostCallResult_field rt) unk bs (if v \<noteq> 0 then m\<lparr>hcr_succ := v\<rparr> else m)"
  "parse_loop rt (HostCallResult_field rt) unk ((if v \<noteq> 0 then WriteUInt32ToArray rt 4 v else []) @ bs) m =
     parse_loop rt (HostCallResult_field rt) unk bs (if v \<noteq> 0 then m\<lparr>hcr_err := v\<rparr> else m)"
  "parse_loop rt (HostCallResult_field rt) unk ((if b then WriteBoolToArray rt 5 b else []) @ bs) m =
     parse_loop rt (HostCallResult_field rt) unk bs (if b then m\<lparr>hcr_overload := b\<rparr> else m)"
  by ((rule int32_step | rule uint32_step | rule bool_step); simp add: HostCallResult_field_def)+

lemma HostCallResult_merge:
  assumes "hcr_unknown b = []"
  shows "HostCallResult_InternalParse rt (HostCallResult_InternalSerialize rt b @ bs) m = HostCallResult_InternalParse rt bs (HostCallResult_MergeFrom b m)"
  unfolding HostCallResult_InternalParse_def HostCallResult_InternalSerialize_def append_assoc HostCallResult_steps
  by (simp add: assms HostCallResult_MergeFrom_def Let_def)

lemma HostCallResult_ends: "field_ends (HostCallResult_field rt)"
  by (simp add: field_ends_def HostCallResult_field_def Let_def read32_ends read_bool_ends)

lemma HostCallResult_size: "HostCallResult_ByteSizeLong rt m = length (HostCallResult_InternalSerialize rt m)"
  by (simp add: HostCallResult_ByteSizeLong_def HostCallResult_InternalSerialize_def int32_size uint32_size bool_size)

lemma GetHostRequest_steps:
  "parse_loop rt (GetHostRequest_field rt) unk ((if v \<noteq> 0 then WriteUInt32ToArray rt 1 v else []) @ bs) m =
     parse_loop rt (GetHostRequest_field rt) unk bs (if v \<noteq> 0 then m\<lparr>ghq_seq := v\<rparr> else m)"
  "parse_loop rt (GetHostRequest_field rt) unk ((if v \<noteq> 0 then WriteInt32ToArray rt 2 v else []) @ bs) m =
     parse_loop rt (GetHostRequest_field rt) unk bs (if v \<noteq> 0 then m\<lparr>ghq_modid := v\<rparr> else m)"
  "parse_loop rt (GetHostRequest_field rt) unk ((if v \<noteq> 0 then WriteInt32ToArray rt 3 v else []) @ bs) m =
     parse_loop rt (GetHostRequest_field rt) unk bs (if v \<noteq> 0 then m\<lparr>ghq_cmdid := v\<rparr> else m)"
  by ((rule uint32_step | rule int32_step); simp add: GetHostRequest_field_def)+

lemma GetHostRequest_merge:
  assumes "ghq_unknown b = []"
  shows "GetHostRequest_InternalParse rt (GetHostRequest_InternalSerialize rt b @ bs) m = GetHostRequest_InternalParse rt bs (GetHostRequest_MergeFrom b m)"
  unfolding GetHostRequest_InternalParse_def GetHostRequest_InternalSerialize_def append_assoc GetHostRequest_steps
  by (simp add: assms GetHostRequest_MergeFrom_def Let_def)

lemma GetHostRequest_ends: "field_ends (GetHostRequest_field rt)"
  by (simp add: field_ends_def GetHostRequest_field_def Let_def read32_ends read_bool_ends)

lemma GetHostRequest_size: "GetHostRequest_ByteSizeLong rt m = length (GetHostRequest_InternalSerialize rt m)"
  by (simp add: GetHostRequest_ByteSizeLong_def GetHostRequest_InternalSerialize_def int32_size uint32_size bool_size)

lemma HostInfo_bound: "hinfo_unknown m = [] \<Longrightarrow> length (HostInfo_InternalSerialize rt m) < 2 ^ 31"
  using int32_size_le [of "hinfo_ip m"] int32_size_le [of "hinfo_port m"]
  by (simp add: HostInfo_size [symmetric] HostInfo_ByteSizeLong_def)

lemma HostCallResult_bound: "hcr_unknown m = [] \<Longrightarrow> length (HostCallResult_InternalSerialize rt m) < 2 ^ 31"
  using int32_size_le [of "hcr_ip m"] int32_size_le [of "hcr_port m"] uint32_size_le [of "hcr_succ m"] uint32_size_le [of "hcr_err m"]
  by (simp add: HostCallResult_size [symmetric] HostCallResult_ByteSizeLong_def)

lemma HostInfo_embedded:
  "hinfo_unknown b = [] \<Longrightarrow> HostInfo_InternalParse rt (HostInfo_InternalSerialize rt b) m = Some (Some (HostInfo_MergeFrom b m, [], None))"
  using HostInfo_merge [of b "[]" m] by (simp add: HostInfo_InternalParse_def)

lemma HostCallResult_embedded:
  "hcr_unknown b = [] \<Longrightarrow> HostCallResult_InternalParse rt (HostCallResult_InternalSerialize rt b) m = Some (Some (HostCallResult_MergeFrom b m, [], None))"
  using HostCallResult_merge [of b "[]" m] by (simp add: HostCallResult_InternalParse_def)

subsection \<open>Messages with repeated messages\<close>

lemma tag_is:
  assumes "drop_bit 3 (tag :: uint32) = number" and "(ucast tag :: byte) = b" and "unat number < 16"
  shows "tag = word_of_nat (unat b)"
  unfolding tag_eq [OF assms, symmetric] by simp

lemma GetRouteResponse_steps:
  "parse_loop rt (GetRouteResponse_field1 rt) unk ((if v \<noteq> 0 then WriteInt32ToArray rt 1 v else []) @ bs) m =
     parse_loop rt (GetRouteResponse_field1 rt) unk bs (if v \<noteq> 0 then m\<lparr>gr_modid := v\<rparr> else m)"
  "parse_loop rt (GetRouteResponse_field1 rt) unk ((if v \<noteq> 0 then WriteInt32ToArray rt 2 v else []) @ bs) m =
     parse_loop rt (GetRouteResponse_field1 rt) unk bs (if v \<noteq> 0 then m\<lparr>gr_cmdid := v\<rparr> else m)"
  by ((rule int32_step); simp add: GetRouteResponse_field1_def GetRouteResponse_field_def)+

lemma GetRouteResponse_ends1: "field_ends (GetRouteResponse_field1 rt)"
proof -
  have "parser_ends (HostInfo_InternalParse rt)"
    unfolding HostInfo_InternalParse_def by (rule parser_ends_loop [OF HostInfo_ends])
  then have e: "\<exists>f. ParseMessage rt (HostInfo_InternalParse rt) put a p = Some f \<and> (\<forall>m' p'. f = Parsed m' p' \<longrightarrow> length p' \<le> length p)"
    for put :: "HostInfo_pb \<Rightarrow> GetRouteResponse_pb" and a and p :: "byte list"
    by (rule ParseMessage_ends)
  show ?thesis
    unfolding field_ends_def
  proof (intro allI)
    fix tag ptr m
    show "\<exists>f. GetRouteResponse_field1 rt tag ptr m = Some f \<and> (\<forall>m' p'. f = Parsed m' p' \<longrightarrow> length p' \<le> length ptr)"
    proof (cases "tag = 26")
      case True
      then show ?thesis unfolding GetRouteResponse_field1_def by (simp add: e)
    next
      case False
      then have "drop_bit 3 tag = 3 \<Longrightarrow> (ucast tag :: byte) \<noteq> 26"
        using tag_is [of tag 3 26] by auto
      then show ?thesis using False unfolding GetRouteResponse_field1_def GetRouteResponse_field_def Let_def by (simp add: read32_ends)
    qed
  qed
qed

lemma GetRouteResponse_same: "GetRouteResponse_InternalParse rt ptr m = GetRouteResponse_Parse1 rt ptr m"
  unfolding GetRouteResponse_InternalParse_def GetRouteResponse_Parse1_def
proof (rule repeated_loop)
  show "GetRouteResponse_field rt 26 p m = parse_repeated rt 26 (\<lambda>p m. ParseMessage rt (HostInfo_InternalParse rt) (\<lambda>a. m\<lparr>gr_host := gr_host m @ [a]\<rparr>) HostInfo_default p) p m" for p m
    by (simp add: GetRouteResponse_field_def)
  show "GetRouteResponse_field1 rt 26 p m = ParseMessage rt (HostInfo_InternalParse rt) (\<lambda>a. m\<lparr>gr_host := gr_host m @ [a]\<rparr>) HostInfo_default p" for p m
    by (simp add: GetRouteResponse_field1_def)
  show "ParseMessage rt (HostInfo_InternalParse rt) (\<lambda>a. m\<lparr>gr_host := gr_host m @ [a]\<rparr>) HostInfo_default p \<noteq> Some Unusual" for p and m :: GetRouteResponse_pb
    by (auto simp: ParseMessage_def split: option.splits bind_splits)
qed (simp_all add: GetRouteResponse_ends1 GetRouteResponse_field1_def)

lemma GetRouteResponse_elements:
  assumes "\<forall>h \<in> set hs. hinfo_unknown h = []"
  shows "parse_loop rt (GetRouteResponse_field1 rt) unk (concat (map (\<lambda>h. WriteMessageHead rt 3 (HostInfo_ByteSizeLong rt h) @ HostInfo_InternalSerialize rt h) hs) @ bs) m =
    parse_loop rt (GetRouteResponse_field1 rt) unk bs (m\<lparr>gr_host := gr_host m @ hs\<rparr>)"
  using assms
proof (induction hs arbitrary: m)
  case (Cons h hs)
  have "parse_loop rt (GetRouteResponse_field1 rt) unk (WriteMessageHead rt 3 (length (HostInfo_InternalSerialize rt h)) @ HostInfo_InternalSerialize rt h @ cs) m =
      parse_loop rt (GetRouteResponse_field1 rt) unk cs (m\<lparr>gr_host := gr_host m @ [h]\<rparr>)" for cs
    by (rule message_step [where parse = "HostInfo_InternalParse rt" and get = "\<lambda>_. HostInfo_default"])
      (use Cons.prems in \<open>simp_all add: GetRouteResponse_field1_def HostInfo_bound [simplified] HostInfo_embedded HostInfo_copy\<close>)
  then show ?case using Cons by (simp add: HostInfo_size)
qed simp

lemma GetRouteResponse_merge:
  assumes "gr_unknown b = []" and "\<forall>h \<in> set (gr_host b). hinfo_unknown h = []"
  shows "GetRouteResponse_InternalParse rt (GetRouteResponse_InternalSerialize rt b @ bs) m = GetRouteResponse_InternalParse rt bs (GetRouteResponse_MergeFrom b m)"
  unfolding GetRouteResponse_same GetRouteResponse_Parse1_def GetRouteResponse_InternalSerialize_def append_assoc GetRouteResponse_steps GetRouteResponse_elements [OF assms(2)] assms(1) append_Nil
  by (rule arg_cong [where f = "parse_loop rt (GetRouteResponse_field1 rt) _ bs"], unfold GetRouteResponse_MergeFrom_def Let_def, rule GetRouteResponse_pb.equality)
    (simp_all add: assms(1))

lemma GetRouteResponse_size: "GetRouteResponse_ByteSizeLong rt m = length (GetRouteResponse_InternalSerialize rt m)"
proof -
  have "length (concat (map (\<lambda>h. WriteMessageHead rt 3 (HostInfo_ByteSizeLong rt h) @ HostInfo_InternalSerialize rt h) hs)) =
      length hs + sum_list (map (\<lambda>h. LengthDelimitedSize rt (HostInfo_ByteSizeLong rt h)) hs)" for hs
    using message_size [of 3] by (induction hs) (simp_all add: HostInfo_size [symmetric] add.assoc)
  then show ?thesis by (simp add: GetRouteResponse_ByteSizeLong_def GetRouteResponse_InternalSerialize_def int32_size uint32_size)
qed

lemma ReportStatusRequest_steps:
  "parse_loop rt (ReportStatusRequest_field1 rt) unk ((if v \<noteq> 0 then WriteInt32ToArray rt 1 v else []) @ bs) m =
     parse_loop rt (ReportStatusRequest_field1 rt) unk bs (if v \<noteq> 0 then m\<lparr>rs_modid := v\<rparr> else m)"
  "parse_loop rt (ReportStatusRequest_field1 rt) unk ((if v \<noteq> 0 then WriteInt32ToArray rt 2 v else []) @ bs) m =
     parse_loop rt (ReportStatusRequest_field1 rt) unk bs (if v \<noteq> 0 then m\<lparr>rs_cmdid := v\<rparr> else m)"
  "parse_loop rt (ReportStatusRequest_field1 rt) unk ((if v \<noteq> 0 then WriteInt32ToArray rt 3 v else []) @ bs) m =
     parse_loop rt (ReportStatusRequest_field1 rt) unk bs (if v \<noteq> 0 then m\<lparr>rs_caller := v\<rparr> else m)"
  "parse_loop rt (ReportStatusRequest_field1 rt) unk ((if v \<noteq> 0 then WriteUInt32ToArray rt 5 v else []) @ bs) m =
     parse_loop rt (ReportStatusRequest_field1 rt) unk bs (if v \<noteq> 0 then m\<lparr>rs_ts := v\<rparr> else m)"
  by ((rule int32_step | rule uint32_step); simp add: ReportStatusRequest_field1_def ReportStatusRequest_field_def)+

lemma ReportStatusRequest_ends1: "field_ends (ReportStatusRequest_field1 rt)"
proof -
  have "parser_ends (HostCallResult_InternalParse rt)"
    unfolding HostCallResult_InternalParse_def by (rule parser_ends_loop [OF HostCallResult_ends])
  then have e: "\<exists>f. ParseMessage rt (HostCallResult_InternalParse rt) put a p = Some f \<and> (\<forall>m' p'. f = Parsed m' p' \<longrightarrow> length p' \<le> length p)"
    for put :: "HostCallResult_pb \<Rightarrow> ReportStatusRequest_pb" and a and p :: "byte list"
    by (rule ParseMessage_ends)
  show ?thesis
    unfolding field_ends_def
  proof (intro allI)
    fix tag ptr m
    show "\<exists>f. ReportStatusRequest_field1 rt tag ptr m = Some f \<and> (\<forall>m' p'. f = Parsed m' p' \<longrightarrow> length p' \<le> length ptr)"
    proof (cases "tag = 34")
      case True
      then show ?thesis unfolding ReportStatusRequest_field1_def by (simp add: e)
    next
      case False
      then have "drop_bit 3 tag = 4 \<Longrightarrow> (ucast tag :: byte) \<noteq> 34"
        using tag_is [of tag 4 34] by auto
      then show ?thesis using False unfolding ReportStatusRequest_field1_def ReportStatusRequest_field_def Let_def by (simp add: read32_ends)
    qed
  qed
qed

lemma ReportStatusRequest_same: "ReportStatusRequest_InternalParse rt ptr m = ReportStatusRequest_Parse1 rt ptr m"
  unfolding ReportStatusRequest_InternalParse_def ReportStatusRequest_Parse1_def
proof (rule repeated_loop)
  show "ReportStatusRequest_field rt 34 p m = parse_repeated rt 34 (\<lambda>p m. ParseMessage rt (HostCallResult_InternalParse rt) (\<lambda>a. m\<lparr>rs_results := rs_results m @ [a]\<rparr>) HostCallResult_default p) p m" for p m
    by (simp add: ReportStatusRequest_field_def)
  show "ReportStatusRequest_field1 rt 34 p m = ParseMessage rt (HostCallResult_InternalParse rt) (\<lambda>a. m\<lparr>rs_results := rs_results m @ [a]\<rparr>) HostCallResult_default p" for p m
    by (simp add: ReportStatusRequest_field1_def)
  show "ParseMessage rt (HostCallResult_InternalParse rt) (\<lambda>a. m\<lparr>rs_results := rs_results m @ [a]\<rparr>) HostCallResult_default p \<noteq> Some Unusual" for p and m :: ReportStatusRequest_pb
    by (auto simp: ParseMessage_def split: option.splits bind_splits)
qed (simp_all add: ReportStatusRequest_ends1 ReportStatusRequest_field1_def)

lemma ReportStatusRequest_elements:
  assumes "\<forall>h \<in> set hs. hcr_unknown h = []"
  shows "parse_loop rt (ReportStatusRequest_field1 rt) unk (concat (map (\<lambda>h. WriteMessageHead rt 4 (HostCallResult_ByteSizeLong rt h) @ HostCallResult_InternalSerialize rt h) hs) @ bs) m =
    parse_loop rt (ReportStatusRequest_field1 rt) unk bs (m\<lparr>rs_results := rs_results m @ hs\<rparr>)"
  using assms
proof (induction hs arbitrary: m)
  case (Cons h hs)
  have "parse_loop rt (ReportStatusRequest_field1 rt) unk (WriteMessageHead rt 4 (length (HostCallResult_InternalSerialize rt h)) @ HostCallResult_InternalSerialize rt h @ cs) m =
      parse_loop rt (ReportStatusRequest_field1 rt) unk cs (m\<lparr>rs_results := rs_results m @ [h]\<rparr>)" for cs
    by (rule message_step [where parse = "HostCallResult_InternalParse rt" and get = "\<lambda>_. HostCallResult_default"])
      (use Cons.prems in \<open>simp_all add: ReportStatusRequest_field1_def HostCallResult_bound [simplified] HostCallResult_embedded HostCallResult_copy\<close>)
  then show ?case using Cons by (simp add: HostCallResult_size)
qed simp

lemma ReportStatusRequest_merge:
  assumes "rs_unknown b = []" and "\<forall>h \<in> set (rs_results b). hcr_unknown h = []"
  shows "ReportStatusRequest_InternalParse rt (ReportStatusRequest_InternalSerialize rt b @ bs) m = ReportStatusRequest_InternalParse rt bs (ReportStatusRequest_MergeFrom b m)"
  unfolding ReportStatusRequest_same ReportStatusRequest_Parse1_def ReportStatusRequest_InternalSerialize_def append_assoc ReportStatusRequest_steps ReportStatusRequest_elements [OF assms(2)] assms(1) append_Nil
  by (rule arg_cong [where f = "parse_loop rt (ReportStatusRequest_field1 rt) _ bs"], unfold ReportStatusRequest_MergeFrom_def Let_def, rule ReportStatusRequest_pb.equality)
    (simp_all add: assms(1))

lemma ReportStatusRequest_size: "ReportStatusRequest_ByteSizeLong rt m = length (ReportStatusRequest_InternalSerialize rt m)"
proof -
  have "length (concat (map (\<lambda>h. WriteMessageHead rt 4 (HostCallResult_ByteSizeLong rt h) @ HostCallResult_InternalSerialize rt h) hs)) =
      length hs + sum_list (map (\<lambda>h. LengthDelimitedSize rt (HostCallResult_ByteSizeLong rt h)) hs)" for hs
    using message_size [of 4] by (induction hs) (simp_all add: HostCallResult_size [symmetric] add.assoc)
  then show ?thesis by (simp add: ReportStatusRequest_ByteSizeLong_def ReportStatusRequest_InternalSerialize_def int32_size uint32_size)
qed

subsection \<open>The answer with a host\<close>

lemma GetHostResponse_steps:
  "parse_loop rt (GetHostResponse_field rt) unk ((if v \<noteq> 0 then WriteUInt32ToArray rt 1 v else []) @ bs) m =
     parse_loop rt (GetHostResponse_field rt) unk bs (if v \<noteq> 0 then m\<lparr>gh_seq := v\<rparr> else m)"
  "parse_loop rt (GetHostResponse_field rt) unk ((if v \<noteq> 0 then WriteInt32ToArray rt 2 v else []) @ bs) m =
     parse_loop rt (GetHostResponse_field rt) unk bs (if v \<noteq> 0 then m\<lparr>gh_modid := v\<rparr> else m)"
  "parse_loop rt (GetHostResponse_field rt) unk ((if v \<noteq> 0 then WriteInt32ToArray rt 3 v else []) @ bs) m =
     parse_loop rt (GetHostResponse_field rt) unk bs (if v \<noteq> 0 then m\<lparr>gh_cmdid := v\<rparr> else m)"
  "parse_loop rt (GetHostResponse_field rt) unk ((if v \<noteq> 0 then WriteInt32ToArray rt 4 v else []) @ bs) m =
     parse_loop rt (GetHostResponse_field rt) unk bs (if v \<noteq> 0 then m\<lparr>gh_retcode := v\<rparr> else m)"
  by ((rule uint32_step | rule int32_step); simp add: GetHostResponse_field_def)+

lemma GetHostResponse_embedded:
  assumes "\<forall>h \<in> set_option x. hinfo_unknown h = []"
  shows "parse_loop rt (GetHostResponse_field rt) unk
      ((case x of None \<Rightarrow> [] | Some h \<Rightarrow> WriteMessageHead rt 5 (HostInfo_ByteSizeLong rt h) @ HostInfo_InternalSerialize rt h) @ bs) m =
    parse_loop rt (GetHostResponse_field rt) unk bs
      (case x of None \<Rightarrow> m
       | Some h \<Rightarrow> m\<lparr>gh_host := Some (HostInfo_MergeFrom h (case gh_host m of None \<Rightarrow> HostInfo_default | Some a \<Rightarrow> a))\<rparr>)"
proof (cases x)
  case (Some h)
  have "parse_loop rt (GetHostResponse_field rt) unk
      (WriteMessageHead rt 5 (length (HostInfo_InternalSerialize rt h)) @ HostInfo_InternalSerialize rt h @ bs) m =
    parse_loop rt (GetHostResponse_field rt) unk bs
      (m\<lparr>gh_host := Some (HostInfo_MergeFrom h (case gh_host m of None \<Rightarrow> HostInfo_default | Some a \<Rightarrow> a))\<rparr>)"
    by (rule message_step [where parse = "HostInfo_InternalParse rt" and get = "\<lambda>m. case gh_host m of None \<Rightarrow> HostInfo_default | Some a \<Rightarrow> a"])
      (use assms Some in \<open>simp_all add: GetHostResponse_field_def HostInfo_bound [simplified] HostInfo_embedded\<close>)
  then show ?thesis using Some by (simp add: HostInfo_size)
qed simp

lemma GetHostResponse_merge:
  assumes "gh_unknown b = []" and "\<forall>h \<in> set_option (gh_host b). hinfo_unknown h = []"
  shows "GetHostResponse_InternalParse rt (GetHostResponse_InternalSerialize rt b @ bs) m =
    GetHostResponse_InternalParse rt bs (GetHostResponse_MergeFrom b m)"
  unfolding GetHostResponse_InternalParse_def GetHostResponse_InternalSerialize_def append_assoc GetHostResponse_steps
    GetHostResponse_embedded [OF assms(2)] assms(1) append_Nil
  by (rule arg_cong [where f = "parse_loop rt (GetHostResponse_field rt) _ bs"], unfold GetHostResponse_MergeFrom_def Let_def,
      rule GetHostResponse_pb.equality) (simp_all add: assms(1) split: option.split)

lemma GetHostResponse_ends: "field_ends (GetHostResponse_field rt)"
proof -
  have "parser_ends (HostInfo_InternalParse rt)"
    unfolding HostInfo_InternalParse_def by (rule parser_ends_loop [OF HostInfo_ends])
  then have "\<exists>f. ParseMessage rt (HostInfo_InternalParse rt) put a p = Some f \<and> (\<forall>m' p'. f = Parsed m' p' \<longrightarrow> length p' \<le> length p)"
    for put :: "HostInfo_pb \<Rightarrow> GetHostResponse_pb" and a and p :: "byte list"
    by (rule ParseMessage_ends)
  then show ?thesis by (simp add: field_ends_def GetHostResponse_field_def Let_def read32_ends)
qed

lemma GetHostResponse_size: "GetHostResponse_ByteSizeLong rt m = length (GetHostResponse_InternalSerialize rt m)"
  using message_size [of 5]
  by (simp add: GetHostResponse_ByteSizeLong_def GetHostResponse_InternalSerialize_def int32_size uint32_size HostInfo_size [symmetric]
      split: option.split)

end

subsection \<open>Reading back\<close>

text \<open>The conversions lose nothing, and a message of the programs has no unknown fields.\<close>

lemma msg_wire [simp]:
  "HostInfo_msg (HostInfo_wire h) = h" "GetRouteRequest_msg (GetRouteRequest_wire q) = q"
  "HostCallResult_msg (HostCallResult_wire r) = r" "GetHostRequest_msg (GetHostRequest_wire g) = g"
  by (simp_all add: HostInfo_msg_def HostInfo_wire_def GetRouteRequest_msg_def GetRouteRequest_wire_def
      HostCallResult_msg_def HostCallResult_wire_def GetHostRequest_msg_def GetHostRequest_wire_def)

lemma msg_wire_nested [simp]:
  "GetRouteResponse_msg (GetRouteResponse_wire a) = a" "ReportStatusRequest_msg (ReportStatusRequest_wire b) = b"
  "GetHostResponse_msg (GetHostResponse_wire c) = c"
  by (simp_all add: GetRouteResponse_msg_def GetRouteResponse_wire_def ReportStatusRequest_msg_def ReportStatusRequest_wire_def
      GetHostResponse_msg_def GetHostResponse_wire_def option.map_comp comp_def option.map_ident)

lemma wire_known [simp]:
  "hinfo_unknown (HostInfo_wire h) = []" "grq_unknown (GetRouteRequest_wire q) = []" "hcr_unknown (HostCallResult_wire r) = []"
  "ghq_unknown (GetHostRequest_wire g) = []" "gr_unknown (GetRouteResponse_wire a) = []"
  "rs_unknown (ReportStatusRequest_wire b) = []" "gh_unknown (GetHostResponse_wire c) = []"
  by (simp_all add: HostInfo_wire_def GetRouteRequest_wire_def HostCallResult_wire_def GetHostRequest_wire_def
      GetRouteResponse_wire_def ReportStatusRequest_wire_def GetHostResponse_wire_def)

lemma clear_default [simp]:
  "HostInfo_Clear HostInfo_default = HostInfo_default" "GetRouteRequest_Clear GetRouteRequest_default = GetRouteRequest_default"
  "HostCallResult_Clear HostCallResult_default = HostCallResult_default" "GetHostRequest_Clear GetHostRequest_default = GetHostRequest_default"
  "GetRouteResponse_Clear GetRouteResponse_default = GetRouteResponse_default"
  "ReportStatusRequest_Clear ReportStatusRequest_default = ReportStatusRequest_default"
  "GetHostResponse_Clear GetHostResponse_default = GetHostResponse_default"
  by (simp_all add: HostInfo_Clear_def HostInfo_default_def GetRouteRequest_Clear_def GetRouteRequest_default_def
      HostCallResult_Clear_def HostCallResult_default_def GetHostRequest_Clear_def GetHostRequest_default_def
      GetRouteResponse_Clear_def GetRouteResponse_default_def ReportStatusRequest_Clear_def ReportStatusRequest_default_def
      GetHostResponse_Clear_def GetHostResponse_default_def)

context wire_format
begin

lemma InternalParse_Nil [simp]:
  "HostInfo_InternalParse rt [] h = Some (Some (h, [], None))" "GetRouteRequest_InternalParse rt [] q = Some (Some (q, [], None))"
  "HostCallResult_InternalParse rt [] r = Some (Some (r, [], None))" "GetHostRequest_InternalParse rt [] g = Some (Some (g, [], None))"
  "GetRouteResponse_InternalParse rt [] a = Some (Some (a, [], None))"
  "ReportStatusRequest_InternalParse rt [] b = Some (Some (b, [], None))"
  "GetHostResponse_InternalParse rt [] c = Some (Some (c, [], None))"
  by (simp_all add: HostInfo_InternalParse_def GetRouteRequest_InternalParse_def HostCallResult_InternalParse_def
      GetHostRequest_InternalParse_def GetRouteResponse_InternalParse_def ReportStatusRequest_InternalParse_def GetHostResponse_InternalParse_def)

lemma HostInfo_back: "decode_HostInfo rt (encode_HostInfo rt m) = Some m"
  using HostInfo_merge [of "HostInfo_wire m" "[]" HostInfo_default]
  by (simp add: decode_HostInfo_def encode_HostInfo_def ParseFromArray_def HostInfo_copy)

lemma GetRouteRequest_back: "decode_GetRouteRequest rt (encode_GetRouteRequest rt m) = Some m"
  using GetRouteRequest_merge [of "GetRouteRequest_wire m" "[]" GetRouteRequest_default]
  by (simp add: decode_GetRouteRequest_def encode_GetRouteRequest_def ParseFromArray_def GetRouteRequest_copy)

lemma HostCallResult_back: "decode_HostCallResult rt (encode_HostCallResult rt m) = Some m"
  using HostCallResult_merge [of "HostCallResult_wire m" "[]" HostCallResult_default]
  by (simp add: decode_HostCallResult_def encode_HostCallResult_def ParseFromArray_def HostCallResult_copy)

lemma GetHostRequest_back: "decode_GetHostRequest rt (encode_GetHostRequest rt m) = Some m"
  using GetHostRequest_merge [of "GetHostRequest_wire m" "[]" GetHostRequest_default]
  by (simp add: decode_GetHostRequest_def encode_GetHostRequest_def ParseFromArray_def GetHostRequest_copy)

lemma GetRouteResponse_back: "decode_GetRouteResponse rt (encode_GetRouteResponse rt m) = Some m"
proof -
  have "\<forall>h \<in> set (gr_host (GetRouteResponse_wire m)). hinfo_unknown h = []" by (auto simp: GetRouteResponse_wire_def)
  from GetRouteResponse_merge [OF _ this, of "[]" GetRouteResponse_default] show ?thesis
    by (simp add: decode_GetRouteResponse_def encode_GetRouteResponse_def ParseFromArray_def GetRouteResponse_copy)
qed

lemma ReportStatusRequest_back: "decode_ReportStatusRequest rt (encode_ReportStatusRequest rt m) = Some m"
proof -
  have "\<forall>h \<in> set (rs_results (ReportStatusRequest_wire m)). hcr_unknown h = []" by (auto simp: ReportStatusRequest_wire_def)
  from ReportStatusRequest_merge [OF _ this, of "[]" ReportStatusRequest_default] show ?thesis
    by (simp add: decode_ReportStatusRequest_def encode_ReportStatusRequest_def ParseFromArray_def ReportStatusRequest_copy)
qed

lemma GetHostResponse_back: "decode_GetHostResponse rt (encode_GetHostResponse rt m) = Some m"
proof -
  have "\<forall>h \<in> set_option (gh_host (GetHostResponse_wire m)). hinfo_unknown h = []" by (auto simp: GetHostResponse_wire_def)
  from GetHostResponse_merge [OF _ this, of "[]" GetHostResponse_default] show ?thesis
    by (simp add: decode_GetHostResponse_def encode_GetHostResponse_def ParseFromArray_def GetHostResponse_copy)
qed

end

subsection \<open>The protocol\<close>

lemmas pb_round_trips = wire_format.HostInfo_back wire_format.GetRouteRequest_back wire_format.GetRouteResponse_back
  wire_format.HostCallResult_back wire_format.ReportStatusRequest_back wire_format.GetHostRequest_back wire_format.GetHostResponse_back

text \<open>
  C20: Every message of the protocol survives the wire: what is written for a message, negative numbers,
  absent and repeated parts included, is read back as the same message.
\<close>

theorem messages_roundtrip:
  assumes "wire_format rt"
  shows "(\<forall>m. decode_HostInfo rt (encode_HostInfo rt m) = Some m) \<and>
    (\<forall>m. decode_GetRouteRequest rt (encode_GetRouteRequest rt m) = Some m) \<and>
    (\<forall>m. decode_GetRouteResponse rt (encode_GetRouteResponse rt m) = Some m) \<and>
    (\<forall>m. decode_HostCallResult rt (encode_HostCallResult rt m) = Some m) \<and>
    (\<forall>m. decode_ReportStatusRequest rt (encode_ReportStatusRequest rt m) = Some m) \<and>
    (\<forall>m. decode_GetHostRequest rt (encode_GetHostRequest rt m) = Some m) \<and>
    (\<forall>m. decode_GetHostResponse rt (encode_GetHostResponse rt m) = Some m)"
  by (simp add: pb_round_trips [OF assms])

theorem messages_roundtrip_witness:
  "wire_format pb_wire \<and>
   decode_GetRouteResponse pb_wire (encode_GetRouteResponse pb_wire
     \<lparr>grs_modid = - 1, grs_cmdid = 300, grs_host = [\<lparr>hinfo_ip = 9, hinfo_port = 80\<rparr>, \<lparr>hinfo_ip = 0, hinfo_port = 0\<rparr>]\<rparr>) =
   Some \<lparr>grs_modid = - 1, grs_cmdid = 300, grs_host = [\<lparr>hinfo_ip = 9, hinfo_port = 80\<rparr>, \<lparr>hinfo_ip = 0, hinfo_port = 0\<rparr>]\<rparr>"
  using messages_roundtrip [OF pw.wire_format_axioms] pw.wire_format_axioms by blast

text \<open>
  C34: The size a message computes for itself is the number of bytes it writes, unknown fields and
  embedded messages included: the lengths written before embedded messages are right, and the array
  allocated for the whole is filled exactly.
\<close>

theorem message_sizes:
  assumes "wire_format rt"
  shows "(\<forall>m. HostInfo_ByteSizeLong rt m = length (HostInfo_InternalSerialize rt m)) \<and>
    (\<forall>m. GetRouteRequest_ByteSizeLong rt m = length (GetRouteRequest_InternalSerialize rt m)) \<and>
    (\<forall>m. GetRouteResponse_ByteSizeLong rt m = length (GetRouteResponse_InternalSerialize rt m)) \<and>
    (\<forall>m. HostCallResult_ByteSizeLong rt m = length (HostCallResult_InternalSerialize rt m)) \<and>
    (\<forall>m. ReportStatusRequest_ByteSizeLong rt m = length (ReportStatusRequest_InternalSerialize rt m)) \<and>
    (\<forall>m. GetHostRequest_ByteSizeLong rt m = length (GetHostRequest_InternalSerialize rt m)) \<and>
    (\<forall>m. GetHostResponse_ByteSizeLong rt m = length (GetHostResponse_InternalSerialize rt m))"
  using assms
  by (simp add: wire_format.HostInfo_size wire_format.GetRouteRequest_size wire_format.GetRouteResponse_size
      wire_format.HostCallResult_size wire_format.ReportStatusRequest_size wire_format.GetHostRequest_size wire_format.GetHostResponse_size)

theorem message_sizes_witness:
  "GetHostRequest_ByteSizeLong pb_wire (GetHostRequest_wire \<lparr>ghq_seq = 300, ghq_modid = - 1, ghq_cmdid = 0\<rparr>) =
   length (GetHostRequest_InternalSerialize pb_wire (GetHostRequest_wire \<lparr>ghq_seq = 300, ghq_modid = - 1, ghq_cmdid = 0\<rparr>))"
  using message_sizes [OF pw.wire_format_axioms] by blast

text \<open>
  C33: Reading a message ends on every input, whatever bytes a peer sends: each class returns with a
  message or with an error.
\<close>

theorem parsing_ends:
  assumes "wire_format rt"
  shows "(\<exists>r. HostInfo_InternalParse rt data m1 = Some r) \<and> (\<exists>r. GetRouteRequest_InternalParse rt data m2 = Some r) \<and>
    (\<exists>r. GetRouteResponse_InternalParse rt data m3 = Some r) \<and> (\<exists>r. HostCallResult_InternalParse rt data m4 = Some r) \<and>
    (\<exists>r. ReportStatusRequest_InternalParse rt data m5 = Some r) \<and> (\<exists>r. GetHostRequest_InternalParse rt data m6 = Some r) \<and>
    (\<exists>r. GetHostResponse_InternalParse rt data m7 = Some r)"
  using assms
  by (simp add: wire_format.GetRouteResponse_same wire_format.ReportStatusRequest_same HostInfo_InternalParse_def
      GetRouteRequest_InternalParse_def HostCallResult_InternalParse_def GetHostRequest_InternalParse_def GetHostResponse_InternalParse_def
      GetRouteResponse_Parse1_def ReportStatusRequest_Parse1_def wire_format.loop_ends wire_format.HostInfo_ends wire_format.GetRouteRequest_ends
      wire_format.HostCallResult_ends wire_format.GetHostRequest_ends wire_format.GetHostResponse_ends wire_format.GetRouteResponse_ends1
      wire_format.ReportStatusRequest_ends1)

theorem parsing_ends_witness:
  "\<exists>r. ReportStatusRequest_InternalParse pb_wire [34, 3, 8, 1, 99, 34, 200] ReportStatusRequest_default = Some r"
  using parsing_ends [OF pw.wire_format_axioms] by blast

text \<open>
  The inner loop over a run of embedded messages changes nothing but speed: hosts and results are
  read as by the plain loop that reads the tag of each, wherever the runtime says that no more data is
  at hand.
\<close>

theorem repeated_fast_path:
  assumes "wire_format rt"
  shows "GetRouteResponse_InternalParse rt data m = GetRouteResponse_Parse1 rt data m \<and>
    ReportStatusRequest_InternalParse rt data m' = ReportStatusRequest_Parse1 rt data m'"
  using assms by (simp add: wire_format.GetRouteResponse_same wire_format.ReportStatusRequest_same)

theorem repeated_fast_path_witness:
  "GetRouteResponse_InternalParse pb_wire [26, 2, 8, 9, 26, 2, 16, 80] GetRouteResponse_default =
   GetRouteResponse_Parse1 pb_wire [26, 2, 8, 9, 26, 2, 16, 80] GetRouteResponse_default"
  using repeated_fast_path [OF pw.wire_format_axioms] by blast

text \<open>
  Reading one encoding after another into the same object merges them: later numbers replace earlier
  ones unless they are 0, hosts and results are appended.
\<close>

lemma concatenation_merges:
  assumes "wire_format rt" and "rs_unknown a = []" and "rs_unknown b = []"
    and "\<forall>h \<in> set (rs_results a) \<union> set (rs_results b). hcr_unknown h = []"
  shows "ReportStatusRequest_InternalParse rt (ReportStatusRequest_InternalSerialize rt a @ ReportStatusRequest_InternalSerialize rt b)
      ReportStatusRequest_default = Some (Some (ReportStatusRequest_MergeFrom b a, [], None))"
  using wire_format.ReportStatusRequest_merge [OF assms(1), of a "ReportStatusRequest_InternalSerialize rt b" ReportStatusRequest_default]
    wire_format.ReportStatusRequest_merge [OF assms(1), of b "[]" a] wire_format.InternalParse_Nil(6) [OF assms(1)] assms(2-4)
  by (simp add: ReportStatusRequest_copy)

text \<open>A message whose fields all have their defaults is written as no bytes at all.\<close>

lemma default_is_empty:
  "encode_GetRouteRequest rt \<lparr>grq_modid = 0, grq_cmdid = 0\<rparr> = []"
  "encode_GetHostRequest rt \<lparr>ghq_seq = 0, ghq_modid = 0, ghq_cmdid = 0\<rparr> = []"
  by (simp_all add: encode_GetRouteRequest_def GetRouteRequest_InternalSerialize_def GetRouteRequest_wire_def
      encode_GetHostRequest_def GetHostRequest_InternalSerialize_def GetHostRequest_wire_def)

end
