(* ===== verification/Lars_Pb_Access.thy ===== *)
theory Lars_Pb_Access
  imports Lars_Pb_Laws
begin

text \<open>
  How programs fill the message classes: the accessors of \<open>base/proto/lars.pb.h\<close> (\<open>set_\<close>, \<open>clear_\<close>,
  \<open>add_\<close>, \<open>mutable_\<close> and the rest; reading a scalar is the record's selector), and the copy
  constructors and swaps of \<open>lars.pb.cpp\<close>. The programs create all messages without an arena, so
  the arena branches of the code are the null ones. An accessor that returns a pointer into the message
  takes what the caller does through the pointer as the argument \<open>change\<close>.
\<close>

subsection \<open>\<open>HostInfo\<close>\<close>

definition HostInfo_set_ip :: "int32 \<Rightarrow> HostInfo_pb \<Rightarrow> HostInfo_pb" where
  "HostInfo_set_ip v m = m\<lparr>hinfo_ip := v\<rparr>"

definition HostInfo_clear_ip :: "HostInfo_pb \<Rightarrow> HostInfo_pb" where
  "HostInfo_clear_ip m = m\<lparr>hinfo_ip := 0\<rparr>"

definition HostInfo_set_port :: "int32 \<Rightarrow> HostInfo_pb \<Rightarrow> HostInfo_pb" where
  "HostInfo_set_port v m = m\<lparr>hinfo_port := v\<rparr>"

definition HostInfo_clear_port :: "HostInfo_pb \<Rightarrow> HostInfo_pb" where
  "HostInfo_clear_port m = m\<lparr>hinfo_port := 0\<rparr>"

definition HostInfo_from :: "HostInfo_pb \<Rightarrow> HostInfo_pb" where
  "HostInfo_from src =
     \<lparr>hinfo_ip = hinfo_ip src, hinfo_port = hinfo_port src, hinfo_unknown = hinfo_unknown src\<rparr>"

definition HostInfo_InternalSwap :: "HostInfo_pb \<times> HostInfo_pb \<Rightarrow> HostInfo_pb \<times> HostInfo_pb" where
  "HostInfo_InternalSwap mo =
     (case mo of (m, other) \<Rightarrow>
        (m\<lparr>hinfo_unknown := hinfo_unknown other, hinfo_ip := hinfo_ip other, hinfo_port := hinfo_port other\<rparr>,
         other\<lparr>hinfo_unknown := hinfo_unknown m, hinfo_ip := hinfo_ip m, hinfo_port := hinfo_port m\<rparr>))"

subsection \<open>\<open>GetRouteRequest\<close>\<close>

definition GetRouteRequest_set_modid :: "int32 \<Rightarrow> GetRouteRequest_pb \<Rightarrow> GetRouteRequest_pb" where
  "GetRouteRequest_set_modid v m = m\<lparr>grq_modid := v\<rparr>"

definition GetRouteRequest_clear_modid :: "GetRouteRequest_pb \<Rightarrow> GetRouteRequest_pb" where
  "GetRouteRequest_clear_modid m = m\<lparr>grq_modid := 0\<rparr>"

definition GetRouteRequest_set_cmdid :: "int32 \<Rightarrow> GetRouteRequest_pb \<Rightarrow> GetRouteRequest_pb" where
  "GetRouteRequest_set_cmdid v m = m\<lparr>grq_cmdid := v\<rparr>"

definition GetRouteRequest_clear_cmdid :: "GetRouteRequest_pb \<Rightarrow> GetRouteRequest_pb" where
  "GetRouteRequest_clear_cmdid m = m\<lparr>grq_cmdid := 0\<rparr>"

definition GetRouteRequest_from :: "GetRouteRequest_pb \<Rightarrow> GetRouteRequest_pb" where
  "GetRouteRequest_from src =
     \<lparr>grq_modid = grq_modid src, grq_cmdid = grq_cmdid src, grq_unknown = grq_unknown src\<rparr>"

definition GetRouteRequest_InternalSwap :: "GetRouteRequest_pb \<times> GetRouteRequest_pb \<Rightarrow> GetRouteRequest_pb \<times> GetRouteRequest_pb" where
  "GetRouteRequest_InternalSwap mo =
     (case mo of (m, other) \<Rightarrow>
        (m\<lparr>grq_unknown := grq_unknown other, grq_modid := grq_modid other, grq_cmdid := grq_cmdid other\<rparr>,
         other\<lparr>grq_unknown := grq_unknown m, grq_modid := grq_modid m, grq_cmdid := grq_cmdid m\<rparr>))"

subsection \<open>\<open>GetRouteResponse\<close>\<close>

definition GetRouteResponse_set_modid :: "int32 \<Rightarrow> GetRouteResponse_pb \<Rightarrow> GetRouteResponse_pb" where
  "GetRouteResponse_set_modid v m = m\<lparr>gr_modid := v\<rparr>"

definition GetRouteResponse_clear_modid :: "GetRouteResponse_pb \<Rightarrow> GetRouteResponse_pb" where
  "GetRouteResponse_clear_modid m = m\<lparr>gr_modid := 0\<rparr>"

definition GetRouteResponse_set_cmdid :: "int32 \<Rightarrow> GetRouteResponse_pb \<Rightarrow> GetRouteResponse_pb" where
  "GetRouteResponse_set_cmdid v m = m\<lparr>gr_cmdid := v\<rparr>"

definition GetRouteResponse_clear_cmdid :: "GetRouteResponse_pb \<Rightarrow> GetRouteResponse_pb" where
  "GetRouteResponse_clear_cmdid m = m\<lparr>gr_cmdid := 0\<rparr>"

definition GetRouteResponse_host_size :: "GetRouteResponse_pb \<Rightarrow> nat" where
  "GetRouteResponse_host_size m = length (gr_host m)"

definition GetRouteResponse_clear_host :: "GetRouteResponse_pb \<Rightarrow> GetRouteResponse_pb" where
  "GetRouteResponse_clear_host m = m\<lparr>gr_host := []\<rparr>"

definition GetRouteResponse_mutable_host :: "nat \<Rightarrow> (HostInfo_pb \<Rightarrow> HostInfo_pb) \<Rightarrow> GetRouteResponse_pb \<Rightarrow> GetRouteResponse_pb res" where
  "GetRouteResponse_mutable_host i change m =
     (if i < length (gr_host m) then Inr (m\<lparr>gr_host := (gr_host m)[i := change (gr_host m ! i)]\<rparr>) else Inl Out_Of_Bounds)"

definition GetRouteResponse_host_at :: "nat \<Rightarrow> GetRouteResponse_pb \<Rightarrow> HostInfo_pb res" where
  "GetRouteResponse_host_at i m = (if i < length (gr_host m) then Inr (gr_host m ! i) else Inl Out_Of_Bounds)"

definition GetRouteResponse_add_host :: "(HostInfo_pb \<Rightarrow> HostInfo_pb) \<Rightarrow> GetRouteResponse_pb \<Rightarrow> GetRouteResponse_pb" where
  "GetRouteResponse_add_host change m = m\<lparr>gr_host := gr_host m @ [change HostInfo_default]\<rparr>"

definition GetRouteResponse_from :: "GetRouteResponse_pb \<Rightarrow> GetRouteResponse_pb" where
  "GetRouteResponse_from src =
     \<lparr>gr_modid = gr_modid src, gr_cmdid = gr_cmdid src, gr_host = gr_host src, gr_unknown = gr_unknown src\<rparr>"

definition GetRouteResponse_InternalSwap :: "GetRouteResponse_pb \<times> GetRouteResponse_pb \<Rightarrow> GetRouteResponse_pb \<times> GetRouteResponse_pb" where
  "GetRouteResponse_InternalSwap mo =
     (case mo of (m, other) \<Rightarrow>
        (m\<lparr>gr_unknown := gr_unknown other, gr_modid := gr_modid other, gr_cmdid := gr_cmdid other, gr_host := gr_host other\<rparr>,
         other\<lparr>gr_unknown := gr_unknown m, gr_modid := gr_modid m, gr_cmdid := gr_cmdid m, gr_host := gr_host m\<rparr>))"

subsection \<open>\<open>HostCallResult\<close>\<close>

definition HostCallResult_set_ip :: "int32 \<Rightarrow> HostCallResult_pb \<Rightarrow> HostCallResult_pb" where
  "HostCallResult_set_ip v m = m\<lparr>hcr_ip := v\<rparr>"

definition HostCallResult_clear_ip :: "HostCallResult_pb \<Rightarrow> HostCallResult_pb" where
  "HostCallResult_clear_ip m = m\<lparr>hcr_ip := 0\<rparr>"

definition HostCallResult_set_port :: "int32 \<Rightarrow> HostCallResult_pb \<Rightarrow> HostCallResult_pb" where
  "HostCallResult_set_port v m = m\<lparr>hcr_port := v\<rparr>"

definition HostCallResult_clear_port :: "HostCallResult_pb \<Rightarrow> HostCallResult_pb" where
  "HostCallResult_clear_port m = m\<lparr>hcr_port := 0\<rparr>"

definition HostCallResult_set_succ :: "uint32 \<Rightarrow> HostCallResult_pb \<Rightarrow> HostCallResult_pb" where
  "HostCallResult_set_succ v m = m\<lparr>hcr_succ := v\<rparr>"

definition HostCallResult_clear_succ :: "HostCallResult_pb \<Rightarrow> HostCallResult_pb" where
  "HostCallResult_clear_succ m = m\<lparr>hcr_succ := 0\<rparr>"

definition HostCallResult_set_err :: "uint32 \<Rightarrow> HostCallResult_pb \<Rightarrow> HostCallResult_pb" where
  "HostCallResult_set_err v m = m\<lparr>hcr_err := v\<rparr>"

definition HostCallResult_clear_err :: "HostCallResult_pb \<Rightarrow> HostCallResult_pb" where
  "HostCallResult_clear_err m = m\<lparr>hcr_err := 0\<rparr>"

definition HostCallResult_set_overload :: "bool \<Rightarrow> HostCallResult_pb \<Rightarrow> HostCallResult_pb" where
  "HostCallResult_set_overload v m = m\<lparr>hcr_overload := v\<rparr>"

definition HostCallResult_clear_overload :: "HostCallResult_pb \<Rightarrow> HostCallResult_pb" where
  "HostCallResult_clear_overload m = m\<lparr>hcr_overload := False\<rparr>"

definition HostCallResult_from :: "HostCallResult_pb \<Rightarrow> HostCallResult_pb" where
  "HostCallResult_from src =
     \<lparr>hcr_ip = hcr_ip src, hcr_port = hcr_port src, hcr_succ = hcr_succ src, hcr_err = hcr_err src, hcr_overload = hcr_overload src, hcr_unknown = hcr_unknown src\<rparr>"

definition HostCallResult_InternalSwap :: "HostCallResult_pb \<times> HostCallResult_pb \<Rightarrow> HostCallResult_pb \<times> HostCallResult_pb" where
  "HostCallResult_InternalSwap mo =
     (case mo of (m, other) \<Rightarrow>
        (m\<lparr>hcr_unknown := hcr_unknown other, hcr_ip := hcr_ip other, hcr_port := hcr_port other, hcr_succ := hcr_succ other, hcr_err := hcr_err other, hcr_overload := hcr_overload other\<rparr>,
         other\<lparr>hcr_unknown := hcr_unknown m, hcr_ip := hcr_ip m, hcr_port := hcr_port m, hcr_succ := hcr_succ m, hcr_err := hcr_err m, hcr_overload := hcr_overload m\<rparr>))"

subsection \<open>\<open>ReportStatusRequest\<close>\<close>

definition ReportStatusRequest_set_modid :: "int32 \<Rightarrow> ReportStatusRequest_pb \<Rightarrow> ReportStatusRequest_pb" where
  "ReportStatusRequest_set_modid v m = m\<lparr>rs_modid := v\<rparr>"

definition ReportStatusRequest_clear_modid :: "ReportStatusRequest_pb \<Rightarrow> ReportStatusRequest_pb" where
  "ReportStatusRequest_clear_modid m = m\<lparr>rs_modid := 0\<rparr>"

definition ReportStatusRequest_set_cmdid :: "int32 \<Rightarrow> ReportStatusRequest_pb \<Rightarrow> ReportStatusRequest_pb" where
  "ReportStatusRequest_set_cmdid v m = m\<lparr>rs_cmdid := v\<rparr>"

definition ReportStatusRequest_clear_cmdid :: "ReportStatusRequest_pb \<Rightarrow> ReportStatusRequest_pb" where
  "ReportStatusRequest_clear_cmdid m = m\<lparr>rs_cmdid := 0\<rparr>"

definition ReportStatusRequest_set_caller :: "int32 \<Rightarrow> ReportStatusRequest_pb \<Rightarrow> ReportStatusRequest_pb" where
  "ReportStatusRequest_set_caller v m = m\<lparr>rs_caller := v\<rparr>"

definition ReportStatusRequest_clear_caller :: "ReportStatusRequest_pb \<Rightarrow> ReportStatusRequest_pb" where
  "ReportStatusRequest_clear_caller m = m\<lparr>rs_caller := 0\<rparr>"

definition ReportStatusRequest_results_size :: "ReportStatusRequest_pb \<Rightarrow> nat" where
  "ReportStatusRequest_results_size m = length (rs_results m)"

definition ReportStatusRequest_clear_results :: "ReportStatusRequest_pb \<Rightarrow> ReportStatusRequest_pb" where
  "ReportStatusRequest_clear_results m = m\<lparr>rs_results := []\<rparr>"

definition ReportStatusRequest_mutable_results :: "nat \<Rightarrow> (HostCallResult_pb \<Rightarrow> HostCallResult_pb) \<Rightarrow> ReportStatusRequest_pb \<Rightarrow> ReportStatusRequest_pb res" where
  "ReportStatusRequest_mutable_results i change m =
     (if i < length (rs_results m) then Inr (m\<lparr>rs_results := (rs_results m)[i := change (rs_results m ! i)]\<rparr>) else Inl Out_Of_Bounds)"

definition ReportStatusRequest_results_at :: "nat \<Rightarrow> ReportStatusRequest_pb \<Rightarrow> HostCallResult_pb res" where
  "ReportStatusRequest_results_at i m = (if i < length (rs_results m) then Inr (rs_results m ! i) else Inl Out_Of_Bounds)"

definition ReportStatusRequest_add_results :: "(HostCallResult_pb \<Rightarrow> HostCallResult_pb) \<Rightarrow> ReportStatusRequest_pb \<Rightarrow> ReportStatusRequest_pb" where
  "ReportStatusRequest_add_results change m = m\<lparr>rs_results := rs_results m @ [change HostCallResult_default]\<rparr>"

definition ReportStatusRequest_set_ts :: "uint32 \<Rightarrow> ReportStatusRequest_pb \<Rightarrow> ReportStatusRequest_pb" where
  "ReportStatusRequest_set_ts v m = m\<lparr>rs_ts := v\<rparr>"

definition ReportStatusRequest_clear_ts :: "ReportStatusRequest_pb \<Rightarrow> ReportStatusRequest_pb" where
  "ReportStatusRequest_clear_ts m = m\<lparr>rs_ts := 0\<rparr>"

definition ReportStatusRequest_from :: "ReportStatusRequest_pb \<Rightarrow> ReportStatusRequest_pb" where
  "ReportStatusRequest_from src =
     \<lparr>rs_modid = rs_modid src, rs_cmdid = rs_cmdid src, rs_caller = rs_caller src, rs_results = rs_results src, rs_ts = rs_ts src, rs_unknown = rs_unknown src\<rparr>"

definition ReportStatusRequest_InternalSwap :: "ReportStatusRequest_pb \<times> ReportStatusRequest_pb \<Rightarrow> ReportStatusRequest_pb \<times> ReportStatusRequest_pb" where
  "ReportStatusRequest_InternalSwap mo =
     (case mo of (m, other) \<Rightarrow>
        (m\<lparr>rs_unknown := rs_unknown other, rs_modid := rs_modid other, rs_cmdid := rs_cmdid other, rs_caller := rs_caller other, rs_results := rs_results other, rs_ts := rs_ts other\<rparr>,
         other\<lparr>rs_unknown := rs_unknown m, rs_modid := rs_modid m, rs_cmdid := rs_cmdid m, rs_caller := rs_caller m, rs_results := rs_results m, rs_ts := rs_ts m\<rparr>))"

subsection \<open>\<open>GetHostRequest\<close>\<close>

definition GetHostRequest_set_seq :: "uint32 \<Rightarrow> GetHostRequest_pb \<Rightarrow> GetHostRequest_pb" where
  "GetHostRequest_set_seq v m = m\<lparr>ghq_seq := v\<rparr>"

definition GetHostRequest_clear_seq :: "GetHostRequest_pb \<Rightarrow> GetHostRequest_pb" where
  "GetHostRequest_clear_seq m = m\<lparr>ghq_seq := 0\<rparr>"

definition GetHostRequest_set_modid :: "int32 \<Rightarrow> GetHostRequest_pb \<Rightarrow> GetHostRequest_pb" where
  "GetHostRequest_set_modid v m = m\<lparr>ghq_modid := v\<rparr>"

definition GetHostRequest_clear_modid :: "GetHostRequest_pb \<Rightarrow> GetHostRequest_pb" where
  "GetHostRequest_clear_modid m = m\<lparr>ghq_modid := 0\<rparr>"

definition GetHostRequest_set_cmdid :: "int32 \<Rightarrow> GetHostRequest_pb \<Rightarrow> GetHostRequest_pb" where
  "GetHostRequest_set_cmdid v m = m\<lparr>ghq_cmdid := v\<rparr>"

definition GetHostRequest_clear_cmdid :: "GetHostRequest_pb \<Rightarrow> GetHostRequest_pb" where
  "GetHostRequest_clear_cmdid m = m\<lparr>ghq_cmdid := 0\<rparr>"

definition GetHostRequest_from :: "GetHostRequest_pb \<Rightarrow> GetHostRequest_pb" where
  "GetHostRequest_from src =
     \<lparr>ghq_seq = ghq_seq src, ghq_modid = ghq_modid src, ghq_cmdid = ghq_cmdid src, ghq_unknown = ghq_unknown src\<rparr>"

definition GetHostRequest_InternalSwap :: "GetHostRequest_pb \<times> GetHostRequest_pb \<Rightarrow> GetHostRequest_pb \<times> GetHostRequest_pb" where
  "GetHostRequest_InternalSwap mo =
     (case mo of (m, other) \<Rightarrow>
        (m\<lparr>ghq_unknown := ghq_unknown other, ghq_seq := ghq_seq other, ghq_modid := ghq_modid other, ghq_cmdid := ghq_cmdid other\<rparr>,
         other\<lparr>ghq_unknown := ghq_unknown m, ghq_seq := ghq_seq m, ghq_modid := ghq_modid m, ghq_cmdid := ghq_cmdid m\<rparr>))"

subsection \<open>\<open>GetHostResponse\<close>\<close>

definition GetHostResponse_set_seq :: "uint32 \<Rightarrow> GetHostResponse_pb \<Rightarrow> GetHostResponse_pb" where
  "GetHostResponse_set_seq v m = m\<lparr>gh_seq := v\<rparr>"

definition GetHostResponse_clear_seq :: "GetHostResponse_pb \<Rightarrow> GetHostResponse_pb" where
  "GetHostResponse_clear_seq m = m\<lparr>gh_seq := 0\<rparr>"

definition GetHostResponse_set_modid :: "int32 \<Rightarrow> GetHostResponse_pb \<Rightarrow> GetHostResponse_pb" where
  "GetHostResponse_set_modid v m = m\<lparr>gh_modid := v\<rparr>"

definition GetHostResponse_clear_modid :: "GetHostResponse_pb \<Rightarrow> GetHostResponse_pb" where
  "GetHostResponse_clear_modid m = m\<lparr>gh_modid := 0\<rparr>"

definition GetHostResponse_set_cmdid :: "int32 \<Rightarrow> GetHostResponse_pb \<Rightarrow> GetHostResponse_pb" where
  "GetHostResponse_set_cmdid v m = m\<lparr>gh_cmdid := v\<rparr>"

definition GetHostResponse_clear_cmdid :: "GetHostResponse_pb \<Rightarrow> GetHostResponse_pb" where
  "GetHostResponse_clear_cmdid m = m\<lparr>gh_cmdid := 0\<rparr>"

definition GetHostResponse_set_retcode :: "int32 \<Rightarrow> GetHostResponse_pb \<Rightarrow> GetHostResponse_pb" where
  "GetHostResponse_set_retcode v m = m\<lparr>gh_retcode := v\<rparr>"

definition GetHostResponse_clear_retcode :: "GetHostResponse_pb \<Rightarrow> GetHostResponse_pb" where
  "GetHostResponse_clear_retcode m = m\<lparr>gh_retcode := 0\<rparr>"

definition GetHostResponse_has_host :: "GetHostResponse_pb \<Rightarrow> bool" where
  "GetHostResponse_has_host m \<longleftrightarrow> gh_host m \<noteq> None"

definition GetHostResponse_clear_host :: "GetHostResponse_pb \<Rightarrow> GetHostResponse_pb" where
  "GetHostResponse_clear_host m = m\<lparr>gh_host := None\<rparr>"

definition GetHostResponse_get_host :: "GetHostResponse_pb \<Rightarrow> HostInfo_pb" where
  "GetHostResponse_get_host m = (case gh_host m of None \<Rightarrow> HostInfo_default | Some h \<Rightarrow> h)"

definition GetHostResponse_mutable_host :: "(HostInfo_pb \<Rightarrow> HostInfo_pb) \<Rightarrow> GetHostResponse_pb \<Rightarrow> GetHostResponse_pb" where
  "GetHostResponse_mutable_host change m =
     m\<lparr>gh_host := Some (change (case gh_host m of None \<Rightarrow> HostInfo_default | Some h \<Rightarrow> h))\<rparr>"

definition GetHostResponse_release_host :: "GetHostResponse_pb \<Rightarrow> HostInfo_pb option \<times> GetHostResponse_pb" where
  "GetHostResponse_release_host m = (gh_host m, m\<lparr>gh_host := None\<rparr>)"

definition GetHostResponse_set_allocated_host :: "HostInfo_pb option \<Rightarrow> GetHostResponse_pb \<Rightarrow> GetHostResponse_pb" where
  "GetHostResponse_set_allocated_host h m = m\<lparr>gh_host := h\<rparr>"

definition GetHostResponse_from :: "GetHostResponse_pb \<Rightarrow> GetHostResponse_pb" where
  "GetHostResponse_from src =
     \<lparr>gh_seq = gh_seq src, gh_modid = gh_modid src, gh_cmdid = gh_cmdid src, gh_retcode = gh_retcode src, gh_host = (case gh_host src of None \<Rightarrow> None | Some h \<Rightarrow> Some (HostInfo_from h)), gh_unknown = gh_unknown src\<rparr>"

definition GetHostResponse_InternalSwap :: "GetHostResponse_pb \<times> GetHostResponse_pb \<Rightarrow> GetHostResponse_pb \<times> GetHostResponse_pb" where
  "GetHostResponse_InternalSwap mo =
     (case mo of (m, other) \<Rightarrow>
        (m\<lparr>gh_unknown := gh_unknown other, gh_seq := gh_seq other, gh_modid := gh_modid other, gh_cmdid := gh_cmdid other, gh_retcode := gh_retcode other, gh_host := gh_host other\<rparr>,
         other\<lparr>gh_unknown := gh_unknown m, gh_seq := gh_seq m, gh_modid := gh_modid m, gh_cmdid := gh_cmdid m, gh_retcode := gh_retcode m, gh_host := gh_host m\<rparr>))"

subsection \<open>Enumerations\<close>

definition MessageId_IsValid :: "int32 \<Rightarrow> bool" where
  "MessageId_IsValid value \<longleftrightarrow> value \<in> {0, 1, 2, 3, 4, 5}"

definition LarsRetCode_IsValid :: "int32 \<Rightarrow> bool" where
  "LarsRetCode_IsValid value \<longleftrightarrow> value \<in> {0, 1, 2, 3}"

subsection \<open>Swapping\<close>

text \<open>
  \<open>Swap\<close> is the same in every class, with the class's \<open>InternalSwap\<close> as \<open>swap\<close>; \<open>same\<close> says whether the two
  are one object. The assignment from a moved object swaps in the same way.
\<close>

definition msg_Swap :: "('m \<times> 'm \<Rightarrow> 'm \<times> 'm) \<Rightarrow> bool \<Rightarrow> 'm \<times> 'm \<Rightarrow> 'm \<times> 'm" where
  "msg_Swap swap same mo = (if same then mo else swap mo)"

subsection \<open>Laws\<close>

lemma HostInfo_swap: "HostInfo_InternalSwap (m, other) = (other, m)"
  by (simp add: HostInfo_InternalSwap_def)

lemma HostInfo_copied: "HostInfo_from m = m"
  by (simp add: HostInfo_from_def)

lemma GetRouteRequest_swap: "GetRouteRequest_InternalSwap (m, other) = (other, m)"
  by (simp add: GetRouteRequest_InternalSwap_def)

lemma GetRouteRequest_copied: "GetRouteRequest_from m = m"
  by (simp add: GetRouteRequest_from_def)

lemma GetRouteResponse_swap: "GetRouteResponse_InternalSwap (m, other) = (other, m)"
  by (simp add: GetRouteResponse_InternalSwap_def)

lemma GetRouteResponse_copied: "GetRouteResponse_from m = m"
  by (simp add: GetRouteResponse_from_def)

lemma HostCallResult_swap: "HostCallResult_InternalSwap (m, other) = (other, m)"
  by (simp add: HostCallResult_InternalSwap_def)

lemma HostCallResult_copied: "HostCallResult_from m = m"
  by (simp add: HostCallResult_from_def)

lemma ReportStatusRequest_swap: "ReportStatusRequest_InternalSwap (m, other) = (other, m)"
  by (simp add: ReportStatusRequest_InternalSwap_def)

lemma ReportStatusRequest_copied: "ReportStatusRequest_from m = m"
  by (simp add: ReportStatusRequest_from_def)

lemma GetHostRequest_swap: "GetHostRequest_InternalSwap (m, other) = (other, m)"
  by (simp add: GetHostRequest_InternalSwap_def)

lemma GetHostRequest_copied: "GetHostRequest_from m = m"
  by (simp add: GetHostRequest_from_def)

lemma GetHostResponse_swap: "GetHostResponse_InternalSwap (m, other) = (other, m)"
  by (simp add: GetHostResponse_InternalSwap_def)

lemma GetHostResponse_copied: "GetHostResponse_from m = m"
  by (cases "gh_host m"; simp add: GetHostResponse_from_def HostInfo_from_def)

end
