(* ===== verification/Double_Div.thy ===== *)
theory Double_Div
  imports Lars_Prelude Complex_Main
begin

text \<open>
  \<open>load_balance::report\<close> compares \<open>verr * 1.0 / (vsucc + verr)\<close> with a configured rate. The
  operands are 32-bit counts, exact as doubles, and the quotient is the nearest double with ties to
  even, written out here over the rationals; a float rate is the rational it stands for.
\<close>

fun bit_len :: "nat \<Rightarrow> nat" where
  "bit_len n = (if n = 0 then 0 else Suc (bit_len (n div 2)))"

declare bit_len.simps [simp del]

definition round_half_even :: "nat \<Rightarrow> nat \<Rightarrow> nat" where
  "round_half_even n q =
     (let d = n div q; r = n mod q
      in if 2 * r < q \<or> (2 * r = q \<and> even d) then d else Suc d)"

text \<open>The scale at which the quotient has a 53-bit significand.\<close>

definition quot_scale :: "nat \<Rightarrow> nat \<Rightarrow> nat" where
  "quot_scale p q =
     (let s = 53 + bit_len q - bit_len p in if p * 2 ^ s div q < 2 ^ 53 then s else s - 1)"

definition double_quot :: "nat \<Rightarrow> nat \<Rightarrow> rat" where
  "double_quot p q =
     (let s = quot_scale p q in of_nat (round_half_even (p * 2 ^ s) q) / 2 ^ s)"

text \<open>
  \<open>x / y > rate\<close> on doubles: a positive number over zero is infinity, zero over zero is not a number
  and compares false.
\<close>

definition quot_gt :: "uint32 \<Rightarrow> uint32 \<Rightarrow> rat \<Rightarrow> bool" where
  "quot_gt x y rate = (if y = 0 then x \<noteq> 0 else rate < double_quot (unat x) (unat y))"

lemma bit_len_mono: "p \<le> q \<Longrightarrow> bit_len p \<le> bit_len q"
proof (induction p arbitrary: q rule: bit_len.induct)
  case (1 n)
  show ?case
  proof (cases "n = 0")
    case True
    then show ?thesis by (simp add: bit_len.simps)
  next
    case False
    with "1.prems" have "bit_len (n div 2) \<le> bit_len (q div 2)"
      using "1.IH" by (simp add: div_le_mono)
    with False "1.prems" show ?thesis
      by (simp add: bit_len.simps [of n] bit_len.simps [of q])
  qed
qed

lemma quot_scale_ge: "p \<le> q \<Longrightarrow> 52 \<le> quot_scale p q"
  using bit_len_mono [of p q] by (auto simp: quot_scale_def Let_def)

lemma round_half_even_le:
  assumes "n \<le> k * q" and "0 < q"
  shows "round_half_even n q \<le> k"
proof (cases "n div q < k")
  case True
  then show ?thesis by (simp add: round_half_even_def Let_def)
next
  case False
  have "n div q \<le> k" using assms by (metis div_le_mono nonzero_mult_div_cancel_right not_gr_zero)
  with False have "n div q = k" by simp
  moreover have "n mod q = 0"
  proof -
    have "k * q + n mod q = n" using \<open>n div q = k\<close> by (metis div_mult_mod_eq)
    then show ?thesis using assms(1) by simp
  qed
  ultimately show ?thesis using assms(2) by (simp add: round_half_even_def)
qed

lemma round_half_even_ge:
  assumes "k * q \<le> n" and "0 < q"
  shows "k \<le> round_half_even n q"
proof -
  have "k \<le> n div q" using assms by (simp add: less_eq_div_iff_mult_less_eq)
  then show ?thesis by (simp add: round_half_even_def Let_def)
qed

text \<open>
  For a rate that is a multiple of \<open>2^-28\<close> (every float of at least 1/16 is) and counts below
  \<open>2^24\<close>, rounding never changes the outcome of the comparison.
\<close>

lemma double_quot_gt_iff:
  assumes "p \<le> q" and "0 < q" and "q \<le> 2 ^ 24" and "rate * 2 ^ 28 = of_nat k"
  shows "rate < double_quot p q \<longleftrightarrow> rate < of_nat p / of_nat q"
proof -
  define s where "s = quot_scale p q"
  have s: "52 \<le> s" using quot_scale_ge [OF assms(1)] by (simp add: s_def)
  have pow_nat: "(2 :: nat) ^ s = 2 ^ 28 * 2 ^ (s - 28)"
    using s power_add [of "2 :: nat" 28 "s - 28"] by simp
  define k' where "k' = k * 2 ^ (s - 28)"
  have pow: "(2 :: rat) ^ s = 2 ^ 28 * 2 ^ (s - 28)"
    using s power_add [of "2 :: rat" 28 "s - 28"] by (simp only: le_add_diff_inverse)
  have rate: "rate * 2 ^ s = of_nat k'"
    using assms(4) by (simp add: k'_def pow flip: mult.assoc)
  have lt1: "rate < double_quot p q \<longleftrightarrow> k' < round_half_even (p * 2 ^ s) q"
  proof -
    have "rate < double_quot p q \<longleftrightarrow> rate * 2 ^ s < of_nat (round_half_even (p * 2 ^ s) q)"
      by (simp add: double_quot_def Let_def s_def [symmetric] pos_less_divide_eq)
    then show ?thesis by (simp add: rate)
  qed
  have lt2: "rate < of_nat p / of_nat q \<longleftrightarrow> k' * q < p * 2 ^ s"
  proof -
    have "rate < of_nat p / of_nat q \<longleftrightarrow> rate * 2 ^ s * of_nat q < of_nat p * 2 ^ s"
      using assms(2) by (simp add: pos_less_divide_eq mult.commute mult.left_commute)
    also have "\<dots> \<longleftrightarrow> (of_nat (k' * q) :: rat) < of_nat (p * 2 ^ s)"
      by (simp add: rate)
    finally show ?thesis by (simp only: of_nat_less_iff)
  qed
  show ?thesis
  proof
    assume "rate < double_quot p q"
    then show "rate < of_nat p / of_nat q"
      using lt1 lt2 round_half_even_le [OF _ assms(2), of "p * 2 ^ s" k'] by linarith
  next
    assume "rate < of_nat p / of_nat q"
    then have "k' * q < p * 2 ^ s" using lt2 by simp
    then have "2 ^ (s - 28) * (k * q) < 2 ^ (s - 28) * (p * 2 ^ 28)"
      by (simp add: k'_def pow_nat mult.commute mult.left_commute)
    then have "k * q + 1 \<le> p * 2 ^ 28" by simp
    then have "2 ^ (s - 28) * (k * q + 1) \<le> 2 ^ (s - 28) * (p * 2 ^ 28)"
      by (rule mult_le_mono2)
    moreover have "q \<le> 2 ^ (s - 28)"
      using assms(3) s power_increasing [of 24 "s - 28" "2 :: nat"] by linarith
    ultimately have "(k' + 1) * q \<le> p * 2 ^ s"
      by (simp add: k'_def pow_nat algebra_simps)
    then have "k' + 1 \<le> round_half_even (p * 2 ^ s) q"
      by (rule round_half_even_ge [OF _ assms(2)])
    then show "rate < double_quot p q" using lt1 by simp
  qed
qed

end
