(* ===== verification/Load_Balance.thy ===== *)
theory Load_Balance
  imports Lars_Proto Thread_Queue Double_Div
begin

text \<open>
  \<open>load_balance\<close> (\<open>lars_lb_agent/src/load_balance.cpp\<close>, \<open>host_info.cpp\<close> and their headers): the hosts of
  one modid/cmdid, an idle and an overload queue of pointers to them, and the operations that choose
  a host, merge a route answer, record a call's outcome and report the counters.

  The \<open>host_info\<close> objects live in a store indexed by addresses; an address is never handed out
  twice, so a pointer to a deleted object is exactly an address the store no longer maps, and using
  it is \<open>Dangling\<close>. The objects of one balancer are reachable from no other, so each balancer carries
  its own part of the store.
\<close>

subsection \<open>Configuration and hosts\<close>

text \<open>
  \<open>struct load_balance_config\<close>. \<open>init_err_cnt\<close> is read by \<open>host_info::set_overload\<close> but is neither
  declared in the struct nor set by \<open>init_lb_agent\<close>; it is a field here so that the function can be
  stated. The two rates are the rationals the floats stand for.
\<close>

record load_balance_config =
  probe_num :: int32
  init_succ_cnt :: int32
  init_err_cnt :: int32
  err_rate :: rat
  succ_rate :: rat
  contin_err_limit :: int32
  contin_succ_limit :: int32
  local_ip :: uint32

record host_info =
  hi_ip :: uint32
  hi_port :: int32
  vsucc :: uint32
  verr :: uint32
  rsucc :: uint32
  rerr :: uint32
  contin_succ :: uint32
  contin_err :: uint32
  overload :: bool

definition new_host_info :: "uint32 \<Rightarrow> int32 \<Rightarrow> uint32 \<Rightarrow> host_info" where
  "new_host_info ip port init_vsucc =
     \<lparr>hi_ip = ip, hi_port = port, vsucc = init_vsucc, verr = 0, rsucc = 0, rerr = 0,
      contin_succ = 0, contin_err = 0, overload = False\<rparr>"

definition set_idle :: "load_balance_config \<Rightarrow> host_info \<Rightarrow> host_info" where
  "set_idle cfg h = h\<lparr>vsucc := init_succ_cnt cfg, verr := 0, rsucc := 0, rerr := 0,
     contin_succ := 0, contin_err := 0, overload := False\<rparr>"

definition set_overload :: "load_balance_config \<Rightarrow> host_info \<Rightarrow> host_info" where
  "set_overload cfg h = h\<lparr>vsucc := 0, verr := init_err_cnt cfg, rsucc := 0, rerr := 0,
     contin_err := 0, contin_succ := 0, overload := True\<rparr>"

text \<open>The key of a host object, from its address and port.\<close>

definition hi_key :: "host_info \<Rightarrow> uint64" where
  "hi_key h = pack64 (hi_ip h) (hi_port h)"

lemma hi_key_set [simp]: "hi_key (set_idle cfg h) = hi_key h" "hi_key (set_overload cfg h) = hi_key h"
  by (simp_all add: hi_key_def set_idle_def set_overload_def)

lemma overload_set [simp]: "\<not> overload (set_idle cfg h)" "overload (set_overload cfg h)"
  by (simp_all add: set_idle_def set_overload_def)

subsection \<open>The balancer\<close>

datatype STATUS = PULLING | NEW

record load_balance =
  lb_modid :: int32
  lb_cmdid :: int32
  access_cnt :: int32
  host_map :: "(uint64, addr) hmap"
  idle_list :: "addr list"
  overload_list :: "addr list"
  status :: STATUS
  lb_heap :: "addr \<rightharpoonup> host_info"
  lb_next :: addr

text \<open>
  The constructor sets the two identifiers only; \<open>_access_cnt\<close> and \<open>status\<close> start with whatever the
  memory holds.
\<close>

definition new_load_balance :: "int32 \<Rightarrow> STATUS \<Rightarrow> int32 \<Rightarrow> int32 \<Rightarrow> load_balance" where
  "new_load_balance garbage_cnt garbage_status modid cmdid =
     \<lparr>lb_modid = modid, lb_cmdid = cmdid, access_cnt = garbage_cnt, host_map = [],
      idle_list = [], overload_list = [], status = garbage_status, lb_heap = Map.empty, lb_next = 0\<rparr>"

definition lb_empty :: "load_balance \<Rightarrow> bool" where
  "lb_empty lb \<longleftrightarrow> host_map lb = []"

definition lb_deref :: "load_balance \<Rightarrow> addr \<Rightarrow> host_info res" where
  "lb_deref lb a = (case lb_heap lb a of None \<Rightarrow> Inl Dangling | Some h \<Rightarrow> Inr h)"

subsection \<open>Choosing a host\<close>

text \<open>
  \<open>get_host_from_list\<close> answers with the front of a list and moves it to the back; it returns the
  host it wrote into the response and the list.
\<close>

definition get_host_from_list ::
  "load_balance \<Rightarrow> addr list \<Rightarrow> (HostInfo \<times> addr list) res" where
  "get_host_from_list lb l =
     (case l of
        [] \<Rightarrow> Inl Empty_Front
      | a # as \<Rightarrow> res_bind (lb_deref lb a) (\<lambda>h.
          Inr (\<lparr>hinfo_ip = hi_ip h, hinfo_port = hi_port h\<rparr>, as @ [a])))"

definition from_idle :: "load_balance \<times> GetHostResponse \<Rightarrow> (load_balance \<times> GetHostResponse) res" where
  "from_idle s = (case s of (lb, rsp) \<Rightarrow>
     res_bind (get_host_from_list lb (idle_list lb)) (\<lambda>(h, l).
       Inr (lb\<lparr>idle_list := l\<rparr>, rsp\<lparr>ghs_host := Some h\<rparr>)))"

definition from_overload :: "load_balance \<times> GetHostResponse \<Rightarrow> (load_balance \<times> GetHostResponse) res" where
  "from_overload s = (case s of (lb, rsp) \<Rightarrow>
     res_bind (get_host_from_list lb (overload_list lb)) (\<lambda>(h, l).
       Inr (lb\<lparr>overload_list := l\<rparr>, rsp\<lparr>ghs_host := Some h\<rparr>)))"

text \<open>
  \<open>choice_one_host\<close>, branch by branch. In the branch with hosts in both lists the source takes a host
  from one of them and then, after the inner \<open>if\<close>, one more from the idle list, which overwrites the
  answer.
\<close>

definition choice_one_host ::
  "load_balance_config \<Rightarrow> load_balance \<Rightarrow> GetHostResponse \<Rightarrow> (int32 \<times> load_balance \<times> GetHostResponse) res" where
  "choice_one_host cfg lb rsp =
     (if idle_list lb = [] then
        (if sint (access_cnt lb) \<ge> sint (probe_num cfg) then
           res_bind (from_overload (lb\<lparr>access_cnt := 0\<rparr>, rsp)) (\<lambda>s. Inr (RET_SUCC, s))
         else Inr (RET_OVERLOAD, lb\<lparr>access_cnt := access_cnt lb + 1\<rparr>, rsp))
      else if overload_list lb = [] then
        res_bind (from_idle (lb, rsp)) (\<lambda>s. Inr (RET_SUCC, s))
      else
        res_bind
          (if sint (access_cnt lb) \<ge> sint (probe_num cfg)
           then from_overload (lb\<lparr>access_cnt := 0\<rparr>, rsp)
           else from_idle (lb\<lparr>access_cnt := access_cnt lb + 1\<rparr>, rsp))
          (\<lambda>s. res_bind (from_idle s) (\<lambda>s. Inr (RET_SUCC, s))))"

subsection \<open>Asking the DNS service\<close>

text \<open>
  \<open>pull\<close> sends a request on \<open>dns_queue\<close>, a global pointer that is null until \<open>main\<close> has created the
  queue (the UDP servers are already running then).
\<close>

definition send_queue :: "'a \<Rightarrow> 'a thread_queue option \<Rightarrow> 'a thread_queue option res" where
  "send_queue x q = (case q of None \<Rightarrow> Inl Null_Deref | Some q \<Rightarrow> Inr (Some (tq_send x q)))"

definition pull :: "load_balance \<Rightarrow> GetRouteRequest thread_queue option \<Rightarrow>
    (int32 \<times> load_balance \<times> GetRouteRequest thread_queue option) res" where
  "pull lb dns_queue =
     (let route_req = \<lparr>grq_modid = lb_modid lb, grq_cmdid = lb_cmdid lb\<rparr>
      in res_bind (send_queue route_req dns_queue) (\<lambda>q. Inr (0, lb\<lparr>status := PULLING\<rparr>, q)))"

subsection \<open>Merging a route answer\<close>

text \<open>Step 1 of \<open>update\<close> for one host of the answer: a key not in the map gets a new idle host.\<close>

definition update_insert :: "load_balance_config \<Rightarrow> HostInfo \<Rightarrow> load_balance \<Rightarrow> load_balance" where
  "update_insert cfg h lb =
     (let key = host_key h in
      if map_of (host_map lb) key = None then
        (let a = lb_next lb
         in lb\<lparr>lb_heap := (lb_heap lb)(a \<mapsto> new_host_info (hinfo_ip h) (hinfo_port h) (init_succ_cnt cfg)),
               lb_next := Suc a,
               host_map := AList.update key a (host_map lb),
               idle_list := idle_list lb @ [a]\<rparr>)
      else lb)"

text \<open>
  Step 2: the keys of the map that the answer does not name, as a sorted set; each one's host leaves
  its list and is deleted. The entry stays in \<open>_host_map\<close>.
\<close>

definition need_delete :: "uint64 list \<Rightarrow> load_balance \<Rightarrow> uint64 list" where
  "need_delete remote_hosts lb =
     sort (filter (\<lambda>k. k \<notin> set remote_hosts) (hm_keys (host_map lb)))"

definition update_delete :: "uint64 \<Rightarrow> load_balance \<Rightarrow> load_balance res" where
  "update_delete key lb =
     (case map_of (host_map lb) key of
        None \<Rightarrow> Inl Null_Deref
      | Some hi \<Rightarrow> res_bind (lb_deref lb hi) (\<lambda>h.
          let lb = (if overload h
                    then lb\<lparr>overload_list := removeAll hi (overload_list lb)\<rparr>
                    else lb\<lparr>idle_list := removeAll hi (idle_list lb)\<rparr>)
          in Inr (lb\<lparr>lb_heap := (lb_heap lb)(hi := None)\<rparr>)))"

definition lb_update :: "load_balance_config \<Rightarrow> HostInfo list \<Rightarrow> load_balance \<Rightarrow> load_balance res" where
  "lb_update cfg hosts lb =
     (if length hosts = 0 then Inl Assert_Failed
      else
        (let lb = fold (update_insert cfg) hosts lb
         in res_fold update_delete (need_delete (map host_key hosts) lb) lb))"

subsection \<open>Recording a call's outcome\<close>

definition count_result :: "int32 \<Rightarrow> host_info \<Rightarrow> host_info" where
  "count_result retcode h =
     (if retcode = RET_SUCC
      then h\<lparr>vsucc := vsucc h + 1, rsucc := rsucc h + 1, contin_succ := contin_succ h + 1, contin_err := 0\<rparr>
      else h\<lparr>verr := verr h + 1, rerr := rerr h + 1, contin_err := contin_err h + 1, contin_succ := 0\<rparr>)"

definition becomes_overload :: "load_balance_config \<Rightarrow> host_info \<Rightarrow> bool" where
  "becomes_overload cfg h \<longleftrightarrow>
     quot_gt (verr h) (vsucc h + verr h) (err_rate cfg) \<or> contin_err h \<ge> contin_err_limit cfg"

definition becomes_idle :: "load_balance_config \<Rightarrow> host_info \<Rightarrow> bool" where
  "becomes_idle cfg h \<longleftrightarrow>
     quot_gt (vsucc h) (vsucc h + verr h) (succ_rate cfg) \<or> contin_succ h \<ge> contin_succ_limit cfg"

definition lb_report :: "load_balance_config \<Rightarrow> int32 \<Rightarrow> int32 \<Rightarrow> int32 \<Rightarrow> load_balance \<Rightarrow> load_balance res" where
  "lb_report cfg ip port retcode lb =
     (case map_of (host_map lb) (pack64 ip port) of
        None \<Rightarrow> Inr lb
      | Some hi \<Rightarrow> res_bind (lb_deref lb hi) (\<lambda>h.
          let h = count_result retcode h;
              lb = lb\<lparr>lb_heap := (lb_heap lb)(hi \<mapsto> h)\<rparr>
          in if \<not> overload h \<and> retcode \<noteq> RET_SUCC \<and> becomes_overload cfg h then
               Inr (lb\<lparr>lb_heap := (lb_heap lb)(hi \<mapsto> set_overload cfg h),
                       idle_list := removeAll hi (idle_list lb),
                       overload_list := overload_list lb @ [hi]\<rparr>)
             else if overload h \<and> retcode = RET_SUCC \<and> becomes_idle cfg h then
               Inr (lb\<lparr>lb_heap := (lb_heap lb)(hi \<mapsto> set_idle cfg h),
                       overload_list := removeAll hi (overload_list lb),
                       idle_list := idle_list lb @ [hi]\<rparr>)
             else Inr lb))"

subsection \<open>Reporting the counters\<close>

fun call_results :: "load_balance \<Rightarrow> bool \<Rightarrow> addr list \<Rightarrow> HostCallResult list res" where
  "call_results lb flag [] = Inr []"
| "call_results lb flag (a # as) =
     res_bind (lb_deref lb a) (\<lambda>h. res_bind (call_results lb flag as) (\<lambda>rs.
       Inr (\<lparr>hcr_ip = hi_ip h, hcr_port = hi_port h, hcr_succ = rsucc h, hcr_err = rerr h,
             hcr_overload = flag\<rparr> # rs)))"

text \<open>\<open>commit\<close>; \<open>now\<close> is what \<open>time(NULL)\<close> returns, cut to the 32 bits of the field.\<close>

definition commit :: "load_balance_config \<Rightarrow> uint64 \<Rightarrow> load_balance \<Rightarrow>
    ReportStatusRequest thread_queue option \<Rightarrow> ReportStatusRequest thread_queue option res" where
  "commit cfg now lb report_queue =
     (if lb_empty lb then Inr report_queue
      else res_bind (call_results lb False (idle_list lb)) (\<lambda>idle.
           res_bind (call_results lb True (overload_list lb)) (\<lambda>over.
             send_queue \<lparr>rsr_modid = lb_modid lb, rsr_cmdid = lb_cmdid lb,
               rsr_caller = local_ip cfg, rsr_results = idle @ over, rsr_ts = ucast now\<rparr> report_queue)))"

subsection \<open>The invariant\<close>

text \<open>
  Each live host is in exactly one of the two lists, the one its \<open>overload\<close> flag names, and the map
  leads to it from its own address and port; map entries are addresses that were handed out, one per
  key. An entry whose host is deleted is stale.
\<close>

definition lb_ok :: "load_balance \<Rightarrow> bool" where
  "lb_ok lb \<longleftrightarrow> hm_wf (host_map lb) \<and> distinct (idle_list lb @ overload_list lb) \<and>
     (\<forall>a. a \<in> set (idle_list lb) \<longleftrightarrow> (\<exists>h. lb_heap lb a = Some h \<and> \<not> overload h)) \<and>
     (\<forall>a. a \<in> set (overload_list lb) \<longleftrightarrow> (\<exists>h. lb_heap lb a = Some h \<and> overload h)) \<and>
     (\<forall>a h. lb_heap lb a = Some h \<longrightarrow> map_of (host_map lb) (hi_key h) = Some a) \<and>
     (\<forall>k a. map_of (host_map lb) k = Some a \<longrightarrow> a < lb_next lb) \<and>
     (\<forall>k k' a. map_of (host_map lb) k = Some a \<longrightarrow> map_of (host_map lb) k' = Some a \<longrightarrow> k = k')"

definition live_keys :: "load_balance \<Rightarrow> uint64 set" where
  "live_keys lb = hi_key ` ran (lb_heap lb)"

definition map_keys :: "load_balance \<Rightarrow> uint64 set" where
  "map_keys lb = dom (map_of (host_map lb))"

definition no_stale :: "load_balance \<Rightarrow> bool" where
  "no_stale lb \<longleftrightarrow> map_keys lb = live_keys lb"

lemma lb_okD:
  assumes "lb_ok lb"
  shows "hm_wf (host_map lb)" and "distinct (idle_list lb)" and "distinct (overload_list lb)"
    and "set (idle_list lb) \<inter> set (overload_list lb) = {}"
    and "a \<in> set (idle_list lb) \<longleftrightarrow> (\<exists>h. lb_heap lb a = Some h \<and> \<not> overload h)"
    and "a \<in> set (overload_list lb) \<longleftrightarrow> (\<exists>h. lb_heap lb a = Some h \<and> overload h)"
    and "lb_heap lb a = Some h \<Longrightarrow> map_of (host_map lb) (hi_key h) = Some a"
    and "map_of (host_map lb) k = Some a \<Longrightarrow> a < lb_next lb"
    and "map_of (host_map lb) k = Some a \<Longrightarrow> map_of (host_map lb) k' = Some a \<Longrightarrow> k = k'"
  using assms by (auto simp: lb_ok_def)

lemma lb_ok_new [simp]: "lb_ok (new_load_balance g st modid cmdid)"
  by (simp add: lb_ok_def new_load_balance_def)

lemma lb_ok_fresh: "lb_ok lb \<Longrightarrow> lb_next lb \<le> a \<Longrightarrow> lb_heap lb a = None"
  using lb_okD(7,8) by (metis leD not_None_eq)

lemma lb_ok_cong:
  assumes "lb_ok lb" and "host_map lb' = host_map lb" and "lb_heap lb' = lb_heap lb"
    and "lb_next lb' = lb_next lb"
    and "set (idle_list lb') = set (idle_list lb)" and "distinct (idle_list lb')"
    and "set (overload_list lb') = set (overload_list lb)" and "distinct (overload_list lb')"
  shows "lb_ok lb'"
  using assms unfolding lb_ok_def by simp

lemma live_keys_cong: "lb_heap lb' = lb_heap lb \<Longrightarrow> live_keys lb' = live_keys lb"
  by (simp add: live_keys_def)

lemma live_keys_alt: "live_keys lb = ran (\<lambda>a. map_option hi_key (lb_heap lb a))"
  by (auto simp: live_keys_def ran_def)

lemma live_keys_subset: "lb_ok lb \<Longrightarrow> live_keys lb \<subseteq> map_keys lb"
  unfolding live_keys_def map_keys_def ran_def by (blast dest: lb_okD(7))

lemma live_entry_key:
  "lb_ok lb \<Longrightarrow> map_of (host_map lb) k = Some a \<Longrightarrow> lb_heap lb a = Some h \<Longrightarrow> hi_key h = k"
  using lb_okD(7,9) by blast

lemma live_entry:
  "lb_ok lb \<Longrightarrow> map_of (host_map lb) k = Some a \<Longrightarrow> k \<in> live_keys lb \<longleftrightarrow> lb_heap lb a \<noteq> None"
proof
  assume lb: "lb_ok lb" and k: "map_of (host_map lb) k = Some a"
  {
    assume "k \<in> live_keys lb"
    then obtain b h where "lb_heap lb b = Some h" "k = hi_key h"
      by (auto simp: live_keys_def ran_def)
    then show "lb_heap lb a \<noteq> None" using lb_okD(7) [OF lb] k by fastforce
  next
    assume "lb_heap lb a \<noteq> None"
    then obtain h where "lb_heap lb a = Some h" by blast
    with live_entry_key [OF lb k this] show "k \<in> live_keys lb"
      by (auto simp: live_keys_def ran_def)
  }
qed

subsection \<open>Choosing keeps the invariant\<close>

lemma get_host_from_list_live:
  assumes "l \<noteq> []" and "lb_heap lb (hd l) = Some h"
  shows "get_host_from_list lb l = Inr (\<lparr>hinfo_ip = hi_ip h, hinfo_port = hi_port h\<rparr>, rotate1 l)"
  using assms by (cases l) (simp_all add: get_host_from_list_def lb_deref_def)

definition host_at :: "load_balance \<Rightarrow> addr \<Rightarrow> HostInfo" where
  "host_at lb a = (case lb_heap lb a of
     None \<Rightarrow> default_HostInfo
   | Some h \<Rightarrow> \<lparr>hinfo_ip = hi_ip h, hinfo_port = hi_port h\<rparr>)"

lemma host_key_host_at: "lb_heap lb a = Some h \<Longrightarrow> host_key (host_at lb a) = hi_key h"
  by (simp add: host_at_def host_key_def hi_key_def)

lemma from_idle_live:
  assumes "lb_ok lb" and "idle_list lb \<noteq> []"
  shows "from_idle (lb, rsp) =
    Inr (lb\<lparr>idle_list := rotate1 (idle_list lb)\<rparr>, rsp\<lparr>ghs_host := Some (host_at lb (hd (idle_list lb)))\<rparr>)"
proof -
  have "hd (idle_list lb) \<in> set (idle_list lb)" using assms(2) by simp
  then obtain h where "lb_heap lb (hd (idle_list lb)) = Some h"
    using lb_okD(5) [OF assms(1)] by blast
  with get_host_from_list_live [OF assms(2) this] show ?thesis
    by (simp add: from_idle_def host_at_def)
qed

lemma from_overload_live:
  assumes "lb_ok lb" and "overload_list lb \<noteq> []"
  shows "from_overload (lb, rsp) =
    Inr (lb\<lparr>overload_list := rotate1 (overload_list lb)\<rparr>,
         rsp\<lparr>ghs_host := Some (host_at lb (hd (overload_list lb)))\<rparr>)"
proof -
  have "hd (overload_list lb) \<in> set (overload_list lb)" using assms(2) by simp
  then obtain h where "lb_heap lb (hd (overload_list lb)) = Some h"
    using lb_okD(6) [OF assms(1)] by blast
  with get_host_from_list_live [OF assms(2) this] show ?thesis
    by (simp add: from_overload_def host_at_def)
qed

lemma lb_ok_rotate:
  "lb_ok lb \<Longrightarrow> lb_ok (lb\<lparr>idle_list := rotate1 (idle_list lb)\<rparr>)"
  "lb_ok lb \<Longrightarrow> lb_ok (lb\<lparr>overload_list := rotate1 (overload_list lb)\<rparr>)"
  "lb_ok lb \<Longrightarrow> lb_ok (lb\<lparr>access_cnt := c\<rparr>)"
  "lb_ok lb \<Longrightarrow> lb_ok (lb\<lparr>status := st\<rparr>)"
  by (simp_all add: lb_ok_def)

lemma host_at_update [simp]:
  "host_at (lb\<lparr>idle_list := l\<rparr>) = host_at lb" "host_at (lb\<lparr>overload_list := l\<rparr>) = host_at lb"
  "host_at (lb\<lparr>access_cnt := c\<rparr>) = host_at lb"
  by (auto simp: host_at_def fun_eq_iff)

lemma rotate1_eq_Nil [simp]: "rotate1 xs = [] \<longleftrightarrow> xs = []"
  by (cases xs) simp_all

lemma hd_rotate1_in: "xs \<noteq> [] \<Longrightarrow> hd (rotate1 xs) \<in> set xs"
  by (metis hd_in_set rotate1_eq_Nil set_rotate1)

text \<open>The four ways \<open>choice_one_host\<close> ends in a state that satisfies the invariant.\<close>

lemma choice_overload:
  "idle_list lb = [] \<Longrightarrow> sint (access_cnt lb) < sint (probe_num cfg) \<Longrightarrow>
   choice_one_host cfg lb rsp = Inr (RET_OVERLOAD, lb\<lparr>access_cnt := access_cnt lb + 1\<rparr>, rsp)"
  by (simp add: choice_one_host_def)

lemma choice_probe:
  assumes "lb_ok lb" and "idle_list lb = []" and "overload_list lb \<noteq> []"
    and "sint (probe_num cfg) \<le> sint (access_cnt lb)"
  shows "choice_one_host cfg lb rsp =
    Inr (RET_SUCC, lb\<lparr>access_cnt := 0, overload_list := rotate1 (overload_list lb)\<rparr>,
      rsp\<lparr>ghs_host := Some (host_at lb (hd (overload_list lb)))\<rparr>)"
  using assms from_overload_live [OF lb_ok_rotate(3) [OF assms(1)], of 0 rsp]
  by (simp add: choice_one_host_def)

lemma choice_idle:
  assumes "lb_ok lb" and "idle_list lb \<noteq> []" and "overload_list lb = []"
  shows "choice_one_host cfg lb rsp =
    Inr (RET_SUCC, lb\<lparr>idle_list := rotate1 (idle_list lb)\<rparr>,
      rsp\<lparr>ghs_host := Some (host_at lb (hd (idle_list lb)))\<rparr>)"
  using assms from_idle_live [OF assms(1,2), of rsp] by (simp add: choice_one_host_def)

lemma choice_mixed:
  assumes "lb_ok lb" and "idle_list lb \<noteq> []" and "overload_list lb \<noteq> []"
  shows "choice_one_host cfg lb rsp =
    (if sint (probe_num cfg) \<le> sint (access_cnt lb)
     then Inr (RET_SUCC, lb\<lparr>access_cnt := 0, overload_list := rotate1 (overload_list lb),
                 idle_list := rotate1 (idle_list lb)\<rparr>,
               rsp\<lparr>ghs_host := Some (host_at lb (hd (idle_list lb)))\<rparr>)
     else Inr (RET_SUCC, lb\<lparr>access_cnt := access_cnt lb + 1,
                 idle_list := rotate1 (rotate1 (idle_list lb))\<rparr>,
               rsp\<lparr>ghs_host := Some (host_at lb (hd (rotate1 (idle_list lb))))\<rparr>))"
proof (cases "sint (probe_num cfg) \<le> sint (access_cnt lb)")
  case True
  let ?lb = "lb\<lparr>access_cnt := 0, overload_list := rotate1 (overload_list lb)\<rparr>"
  have ok: "lb_ok (lb\<lparr>access_cnt := 0\<rparr>)" using assms(1) by (rule lb_ok_rotate)
  have ok2: "lb_ok ?lb" using lb_ok_rotate(2) [OF ok] by simp
  show ?thesis
    using True assms from_overload_live [OF ok, of rsp] from_idle_live [OF ok2]
    by (simp add: choice_one_host_def)
next
  case False
  let ?lb = "lb\<lparr>access_cnt := access_cnt lb + 1, idle_list := rotate1 (idle_list lb)\<rparr>"
  have ok: "lb_ok (lb\<lparr>access_cnt := access_cnt lb + 1\<rparr>)" using assms(1) by (rule lb_ok_rotate)
  have ok2: "lb_ok ?lb" using lb_ok_rotate(1) [OF ok] by simp
  show ?thesis
    using False assms from_idle_live [OF ok, of rsp] from_idle_live [OF ok2]
    by (simp add: choice_one_host_def)
qed

subsection \<open>Merging an answer\<close>

lemma new_host_info_simps [simp]:
  "\<not> overload (new_host_info ip port n)"
  "hi_key (new_host_info ip port n) = pack64 ip port"
  by (simp_all add: new_host_info_def hi_key_def)

lemma live_keys_insert:
  "lb_heap lb a = None \<Longrightarrow>
   live_keys (lb\<lparr>lb_heap := (lb_heap lb)(a \<mapsto> h)\<rparr>) = insert (hi_key h) (live_keys lb)"
  by (simp add: live_keys_def)

lemma live_keys_simps [simp]:
  "live_keys (lb\<lparr>lb_next := n\<rparr>) = live_keys lb"
  "live_keys (lb\<lparr>host_map := m\<rparr>) = live_keys lb"
  "live_keys (lb\<lparr>idle_list := l\<rparr>) = live_keys lb"
  "live_keys (lb\<lparr>overload_list := l\<rparr>) = live_keys lb"
  "live_keys (lb\<lparr>access_cnt := c\<rparr>) = live_keys lb"
  "live_keys (lb\<lparr>status := st\<rparr>) = live_keys lb"
  by (simp_all add: live_keys_def)

lemma update_insert_ok:
  assumes "lb_ok lb"
  shows "lb_ok (update_insert cfg h lb)"
    and "map_keys (update_insert cfg h lb) = insert (host_key h) (map_keys lb)"
    and "live_keys (update_insert cfg h lb) =
      live_keys lb \<union> (if host_key h \<in> map_keys lb then {} else {host_key h})"
proof -
  let ?lb = "update_insert cfg h lb"
  have "lb_ok ?lb \<and> map_keys ?lb = insert (host_key h) (map_keys lb) \<and> live_keys ?lb =
      live_keys lb \<union> (if host_key h \<in> map_keys lb then {} else {host_key h})"
  proof (cases "map_of (host_map lb) (host_key h) = None")
    case False
    then show ?thesis
      using assms by (auto simp: update_insert_def map_keys_def)
  next
    case True
    let ?a = "lb_next lb"
    have fresh: "lb_heap lb ?a = None" by (rule lb_ok_fresh [OF assms]) simp
    have notin: "?a \<notin> set (idle_list lb)" "?a \<notin> set (overload_list lb)"
      using lb_okD(5,6) [OF assms, of ?a] fresh by auto
    have unused: "map_of (host_map lb) k \<noteq> Some ?a" for k
      using lb_okD(8) [OF assms] by blast
    have nokey: "hi_key h' \<noteq> host_key h" if "lb_heap lb b = Some h'" for b h'
      using lb_okD(7) [OF assms that] True by auto
    note eq = update_insert_def [of cfg h lb] True Let_def
    have "lb_ok ?lb"
      unfolding lb_ok_def
    proof (intro conjI allI impI)
      show "hm_wf (host_map ?lb)" using lb_okD(1) [OF assms] by (simp add: eq)
      show "distinct (idle_list ?lb @ overload_list ?lb)"
        using lb_okD(2-4) [OF assms] notin by (auto simp: eq)
    next
      fix b
      show "b \<in> set (idle_list ?lb) \<longleftrightarrow> (\<exists>h. lb_heap ?lb b = Some h \<and> \<not> overload h)"
        using lb_okD(5) [OF assms, of b] by (auto simp: eq)
      show "b \<in> set (overload_list ?lb) \<longleftrightarrow> (\<exists>h. lb_heap ?lb b = Some h \<and> overload h)"
        using lb_okD(6) [OF assms, of b] notin by (auto simp: eq)
    next
      fix b h'
      assume "lb_heap ?lb b = Some h'"
      then show "map_of (host_map ?lb) (hi_key h') = Some b"
        using lb_okD(7) [OF assms, of b h'] nokey [of b h']
        by (auto simp: eq host_key_def split: if_splits)
    next
      fix k b
      assume "map_of (host_map ?lb) k = Some b"
      then show "b < lb_next ?lb"
        using lb_okD(8) [OF assms, of k b] by (auto simp: eq split: if_splits)
    next
      fix k k' b
      assume "map_of (host_map ?lb) k = Some b" "map_of (host_map ?lb) k' = Some b"
      then show "k = k'"
        using lb_okD(9) [OF assms, of k b k'] unused by (auto simp: eq split: if_splits)
    qed
    moreover have "live_keys ?lb = insert (host_key h) (live_keys lb)"
      using live_keys_insert [OF fresh, of "new_host_info (hinfo_ip h) (hinfo_port h) (init_succ_cnt cfg)"]
      by (simp add: eq live_keys_def flip: host_key_def)
    ultimately show ?thesis using True by (auto simp: eq map_keys_def)
  qed
  then show "lb_ok ?lb" "map_keys ?lb = insert (host_key h) (map_keys lb)"
    "live_keys ?lb = live_keys lb \<union> (if host_key h \<in> map_keys lb then {} else {host_key h})"
    by blast+
qed

lemma fold_insert_ok:
  assumes "lb_ok lb"
  shows "lb_ok (fold (update_insert cfg) hosts lb)"
    and "map_keys (fold (update_insert cfg) hosts lb) = host_key ` set hosts \<union> map_keys lb"
    and "live_keys (fold (update_insert cfg) hosts lb) =
      live_keys lb \<union> (host_key ` set hosts - map_keys lb)"
proof -
  have "lb_ok (fold (update_insert cfg) hosts lb) \<and>
    map_keys (fold (update_insert cfg) hosts lb) = host_key ` set hosts \<union> map_keys lb \<and>
    live_keys (fold (update_insert cfg) hosts lb) = live_keys lb \<union> (host_key ` set hosts - map_keys lb)"
    using assms
  proof (induction hosts arbitrary: lb)
    case (Cons h hosts)
    note one = update_insert_ok [OF Cons.prems, of cfg h]
    show ?case using Cons.IH [OF one(1)] one(2,3) by auto
  qed simp
  then show "lb_ok (fold (update_insert cfg) hosts lb)"
    "map_keys (fold (update_insert cfg) hosts lb) = host_key ` set hosts \<union> map_keys lb"
    "live_keys (fold (update_insert cfg) hosts lb) = live_keys lb \<union> (host_key ` set hosts - map_keys lb)"
    by blast+
qed

definition lb_forget :: "addr \<Rightarrow> load_balance \<Rightarrow> load_balance" where
  "lb_forget a lb = lb\<lparr>lb_heap := (lb_heap lb)(a := None),
     idle_list := removeAll a (idle_list lb), overload_list := removeAll a (overload_list lb)\<rparr>"

lemma update_delete_live:
  assumes "lb_ok lb" and "map_of (host_map lb) k = Some a" and "lb_heap lb a = Some h"
  shows "update_delete k lb = Inr (lb_forget a lb)"
proof -
  have "removeAll a (if overload h then idle_list lb else overload_list lb) =
      (if overload h then idle_list lb else overload_list lb)"
    using lb_okD(5,6) [OF assms(1), of a] assms(3) by (auto intro: removeAll_id)
  then show ?thesis
    using assms by (auto simp: update_delete_def lb_deref_def lb_forget_def split: if_splits)
qed

lemma lb_forget_ok:
  assumes "lb_ok lb" and "lb_heap lb a = Some h"
  shows "lb_ok (lb_forget a lb)"
    and "map_keys (lb_forget a lb) = map_keys lb"
    and "live_keys (lb_forget a lb) = live_keys lb - {hi_key h}"
proof -
  show "lb_ok (lb_forget a lb)"
    using lb_okD [OF assms(1)] by (auto simp: lb_ok_def lb_forget_def distinct_removeAll)
  show "map_keys (lb_forget a lb) = map_keys lb"
    by (simp add: map_keys_def lb_forget_def)
  have "hi_key h' \<noteq> hi_key h" if "lb_heap lb b = Some h'" "b \<noteq> a" for b h'
    using lb_okD(7) [OF assms(1)] assms(2) that by (metis option.inject)
  moreover have "live_keys (lb_forget a lb) = hi_key ` {h'. \<exists>b. b \<noteq> a \<and> lb_heap lb b = Some h'}"
    by (auto simp: live_keys_def lb_forget_def ran_def)
  moreover have "live_keys lb = insert (hi_key h) (hi_key ` {h'. \<exists>b. b \<noteq> a \<and> lb_heap lb b = Some h'})"
    unfolding live_keys_def ran_def using assms(2) by force
  ultimately show "live_keys (lb_forget a lb) = live_keys lb - {hi_key h}"
    by auto
qed

lemma update_delete_ok:
  assumes "lb_ok lb" and "k \<in> live_keys lb"
  shows "\<exists>lb'. update_delete k lb = Inr lb' \<and> lb_ok lb' \<and> map_keys lb' = map_keys lb \<and>
    live_keys lb' = live_keys lb - {k}"
proof -
  obtain a where a: "map_of (host_map lb) k = Some a"
    using assms live_keys_subset [OF assms(1)] by (auto simp: map_keys_def)
  obtain h where h: "lb_heap lb a = Some h"
    using live_entry [OF assms(1) a] assms(2) by auto
  have "hi_key h = k" by (rule live_entry_key [OF assms(1) a h])
  then show ?thesis
    using update_delete_live [OF assms(1) a h] lb_forget_ok [OF assms(1) h] by simp
qed

lemma fold_delete_ok:
  assumes "lb_ok lb" and "distinct ks" and "set ks \<subseteq> live_keys lb"
  shows "\<exists>lb'. res_fold update_delete ks lb = Inr lb' \<and> lb_ok lb' \<and> map_keys lb' = map_keys lb \<and>
    live_keys lb' = live_keys lb - set ks"
  using assms
proof (induction ks arbitrary: lb)
  case (Cons k ks)
  from Cons.prems obtain lb1 where step: "update_delete k lb = Inr lb1" "lb_ok lb1"
      "map_keys lb1 = map_keys lb" "live_keys lb1 = live_keys lb - {k}"
    using update_delete_ok [of lb k] by auto
  have "set ks \<subseteq> live_keys lb1" using Cons.prems step(4) by auto
  then show ?case
    using Cons.IH [of lb1] step Cons.prems(2) by (auto simp: set_diff_eq)
qed simp

lemma set_need_delete: "set (need_delete rs lb) = map_keys lb - set rs"
  by (auto simp: need_delete_def map_keys_def dom_map_of_conv_image_fst)

lemma distinct_need_delete: "lb_ok lb \<Longrightarrow> distinct (need_delete rs lb)"
  using lb_okD(1) [of lb] by (simp add: need_delete_def)

text \<open>An answer merged into a balancer without stale entries.\<close>

lemma lb_update_clean:
  assumes "lb_ok lb" and "no_stale lb" and "hosts \<noteq> []"
  shows "\<exists>lb'. lb_update cfg hosts lb = Inr lb' \<and> lb_ok lb' \<and>
    live_keys lb' = host_key ` set hosts \<and> map_keys lb' = map_keys lb \<union> host_key ` set hosts"
proof -
  let ?lb = "fold (update_insert cfg) hosts lb"
  let ?ks = "need_delete (map host_key hosts) ?lb"
  note ins = fold_insert_ok [OF assms(1), of cfg hosts]
  have live: "live_keys ?lb = map_keys ?lb"
    using ins(2,3) assms(2) by (auto simp: no_stale_def)
  obtain lb' where "res_fold update_delete ?ks ?lb = Inr lb'" "lb_ok lb'"
      "map_keys lb' = map_keys ?lb" "live_keys lb' = live_keys ?lb - set ?ks"
    using fold_delete_ok [OF ins(1) distinct_need_delete [OF ins(1)], of "map host_key hosts"] live
    by (auto simp: set_need_delete)
  then show ?thesis
    using assms(3) ins(2) live by (auto simp: lb_update_def Let_def set_need_delete)
qed

text \<open>A stale entry that the next answer does not name makes \<open>update\<close> use the deleted host.\<close>

lemma fold_delete_stale:
  assumes "k \<in> set ks" and "map_of (host_map lb) k = Some a" and "lb_heap lb a = None"
    and "set ks \<subseteq> map_keys lb"
  shows "res_fold update_delete ks lb = Inl Dangling"
  using assms
proof (induction ks arbitrary: lb)
  case (Cons k0 ks)
  from Cons.prems(4) obtain a0 where a0: "map_of (host_map lb) k0 = Some a0"
    by (auto simp: map_keys_def)
  show ?case
  proof (cases "lb_heap lb a0")
    case None
    then show ?thesis using a0 by (simp add: update_delete_def lb_deref_def)
  next
    case (Some h)
    then have "k0 \<noteq> k" using Cons.prems(2,3) a0 by auto
    moreover obtain lb1 where step: "update_delete k0 lb = Inr lb1"
        "host_map lb1 = host_map lb" "lb_heap lb1 = (lb_heap lb)(a0 := None)"
      using a0 Some by (auto simp: update_delete_def lb_deref_def Let_def)
    ultimately show ?thesis
      using Cons.IH [of lb1] Cons.prems by (simp add: map_keys_def)
  qed
qed simp

subsection \<open>Recording an outcome\<close>

lemma count_result_simps [simp]:
  "hi_key (count_result ret h) = hi_key h"
  "overload (count_result ret h) = overload h"
  "hi_ip (count_result ret h) = hi_ip h" "hi_port (count_result ret h) = hi_port h"
  by (simp_all add: count_result_def hi_key_def)

lemma lb_ok_store:
  assumes "lb_ok lb" and "lb_heap lb a = Some h" and "hi_key h' = hi_key h" and "overload h' = overload h"
  shows "lb_ok (lb\<lparr>lb_heap := (lb_heap lb)(a \<mapsto> h')\<rparr>)"
  using lb_okD [OF assms(1)] assms(2-) by (auto simp: lb_ok_def)

lemma lb_ok_to_overload:
  assumes "lb_ok lb" and "lb_heap lb a = Some h" and "hi_key h' = hi_key h"
    and "\<not> overload h" and "overload h'"
  shows "lb_ok (lb\<lparr>lb_heap := (lb_heap lb)(a \<mapsto> h'), idle_list := removeAll a (idle_list lb),
    overload_list := overload_list lb @ [a]\<rparr>)"
  using lb_okD [OF assms(1)] assms(2-) by (auto simp: lb_ok_def distinct_removeAll)

lemma lb_ok_to_idle:
  assumes "lb_ok lb" and "lb_heap lb a = Some h" and "hi_key h' = hi_key h"
    and "overload h" and "\<not> overload h'"
  shows "lb_ok (lb\<lparr>lb_heap := (lb_heap lb)(a \<mapsto> h'), overload_list := removeAll a (overload_list lb),
    idle_list := idle_list lb @ [a]\<rparr>)"
  using lb_okD [OF assms(1)] assms(2-) by (auto simp: lb_ok_def distinct_removeAll)

text \<open>The host after a report, and the state around it: what the three ways out have in common.\<close>

definition reported :: "load_balance_config \<Rightarrow> int32 \<Rightarrow> host_info \<Rightarrow> host_info" where
  "reported cfg retcode h =
     (let h' = count_result retcode h
      in if \<not> overload h \<and> retcode \<noteq> RET_SUCC \<and> becomes_overload cfg h' then set_overload cfg h'
         else if overload h \<and> retcode = RET_SUCC \<and> becomes_idle cfg h' then set_idle cfg h'
         else h')"

definition requeue :: "bool \<Rightarrow> bool \<Rightarrow> addr \<Rightarrow> load_balance \<Rightarrow> load_balance" where
  "requeue was_over is_over a lb =
     (if was_over = is_over then lb
      else if is_over
        then lb\<lparr>idle_list := removeAll a (idle_list lb), overload_list := overload_list lb @ [a]\<rparr>
        else lb\<lparr>overload_list := removeAll a (overload_list lb), idle_list := idle_list lb @ [a]\<rparr>)"

lemma hi_key_reported [simp]: "hi_key (reported cfg ret h) = hi_key h"
  by (simp add: reported_def Let_def)

lemma lb_report_live:
  assumes "map_of (host_map lb) (pack64 ip port) = Some a" and "lb_heap lb a = Some h"
  shows "lb_report cfg ip port ret lb =
    Inr (requeue (overload h) (overload (reported cfg ret h)) a
      (lb\<lparr>lb_heap := (lb_heap lb)(a \<mapsto> reported cfg ret h)\<rparr>))"
proof -
  let ?h = "count_result ret h"
  consider (to_overload) "\<not> overload h \<and> ret \<noteq> RET_SUCC \<and> becomes_overload cfg ?h"
    | (to_idle) "\<not> (\<not> overload h \<and> ret \<noteq> RET_SUCC \<and> becomes_overload cfg ?h)"
        "overload h \<and> ret = RET_SUCC \<and> becomes_idle cfg ?h"
    | (stay) "\<not> (\<not> overload h \<and> ret \<noteq> RET_SUCC \<and> becomes_overload cfg ?h)"
        "\<not> (overload h \<and> ret = RET_SUCC \<and> becomes_idle cfg ?h)"
    by blast
  then show ?thesis
  proof cases
    case to_overload
    then have "reported cfg ret h = set_overload cfg ?h" by (simp add: reported_def)
    with to_overload assms show ?thesis
      by (simp add: lb_report_def lb_deref_def requeue_def)
  next
    case to_idle
    have c: "overload h" "ret = RET_SUCC" "becomes_idle cfg (count_result RET_SUCC h)"
      using to_idle(2) by auto
    then have "reported cfg ret h = set_idle cfg ?h" by (simp add: reported_def)
    with c assms show ?thesis
      by (simp add: lb_report_def lb_deref_def requeue_def)
  next
    case stay
    then have eq: "reported cfg ret h = ?h" unfolding reported_def Let_def by (simp only: if_False)
    show ?thesis
      unfolding eq lb_report_def lb_deref_def requeue_def Let_def using assms stay
      by (simp only: option.case res_bind_simps count_result_simps refl if_False if_True)
  qed
qed

lemma lb_ok_requeue:
  assumes "lb_ok lb" and "lb_heap lb a = Some h" and "hi_key h' = hi_key h"
  shows "lb_ok (requeue (overload h) (overload h') a (lb\<lparr>lb_heap := (lb_heap lb)(a \<mapsto> h')\<rparr>))"
proof (cases "overload h = overload h'")
  case True
  then show ?thesis using lb_ok_store [OF assms(1,2), of h'] assms(3) by (simp add: requeue_def)
next
  case False
  then show ?thesis
    using lb_ok_to_overload [OF assms] lb_ok_to_idle [OF assms]
    by (cases "overload h") (simp_all add: requeue_def)
qed

lemma live_keys_requeue [simp]: "live_keys (requeue x y a lb) = live_keys lb"
  by (simp add: requeue_def)

lemma map_keys_requeue [simp]: "map_keys (requeue x y a lb) = map_keys lb"
  by (simp add: requeue_def map_keys_def)

lemma live_keys_store:
  assumes "lb_heap lb a = Some h" and "hi_key h' = hi_key h"
  shows "live_keys (lb\<lparr>lb_heap := (lb_heap lb)(a \<mapsto> h')\<rparr>) = live_keys lb"
proof -
  have "map_option hi_key (((lb_heap lb)(a \<mapsto> h')) b) = map_option hi_key (lb_heap lb b)" for b
    using assms by simp
  then show ?thesis by (simp add: live_keys_alt)
qed

lemma lb_report_ok:
  assumes "lb_ok lb" and "no_stale lb"
  shows "\<exists>lb'. lb_report cfg ip port ret lb = Inr lb' \<and> lb_ok lb' \<and> no_stale lb' \<and>
    map_keys lb' = map_keys lb"
proof (cases "map_of (host_map lb) (pack64 ip port)")
  case None
  then show ?thesis using assms by (simp add: lb_report_def)
next
  case (Some a)
  then have "pack64 ip port \<in> live_keys lb"
    using assms(2) by (auto simp: no_stale_def map_keys_def)
  then obtain h where h: "lb_heap lb a = Some h"
    using live_entry [OF assms(1) Some] by auto
  have "map_keys (lb\<lparr>lb_heap := x\<rparr>) = map_keys lb" for x by (simp add: map_keys_def)
  then show ?thesis
    using lb_report_live [OF Some h] lb_ok_requeue [OF assms(1) h, of "reported cfg ret h"]
      live_keys_store [OF h, of "reported cfg ret h"] assms(2)
    by (simp add: no_stale_def)
qed

lemma lb_report_keeps_ok:
  assumes "lb_ok lb" and "lb_report cfg ip port ret lb = Inr lb'"
  shows "lb_ok lb'"
proof (cases "map_of (host_map lb) (pack64 ip port)")
  case None
  then show ?thesis using assms by (simp add: lb_report_def)
next
  case (Some a)
  then obtain h where h: "lb_heap lb a = Some h"
    using assms(2) by (cases "lb_heap lb a") (simp_all add: lb_report_def lb_deref_def)
  show ?thesis
    using lb_report_live [OF Some h] lb_ok_requeue [OF assms(1) h, of "reported cfg ret h"] assms(2)
    by simp
qed

lemma update_delete_keeps_ok:
  assumes "lb_ok lb" and "update_delete k lb = Inr lb'"
  shows "lb_ok lb'"
proof -
  obtain a where a: "map_of (host_map lb) k = Some a"
    using assms(2) by (cases "map_of (host_map lb) k") (simp_all add: update_delete_def)
  then obtain h where h: "lb_heap lb a = Some h"
    using assms(2) by (cases "lb_heap lb a") (simp_all add: update_delete_def lb_deref_def)
  show ?thesis using update_delete_live [OF assms(1) a h] lb_forget_ok(1) [OF assms(1) h] assms(2) by simp
qed

lemma lb_update_keeps_ok:
  assumes "lb_ok lb" and "lb_update cfg hosts lb = Inr lb'"
  shows "lb_ok lb'"
  using assms(2) fold_insert_ok(1) [OF assms(1), of cfg hosts]
  by (auto simp: lb_update_def Let_def split: if_splits
      intro: res_fold_invariant [where P = lb_ok and f = update_delete] update_delete_keeps_ok)

lemma choice_keeps_ok:
  assumes "lb_ok lb" and "choice_one_host cfg lb rsp = Inr (ret, lb', rsp')"
  shows "lb_ok lb'" and "map_keys lb' = map_keys lb" and "live_keys lb' = live_keys lb"
proof -
  consider (over) "idle_list lb = []" "sint (access_cnt lb) < sint (probe_num cfg)"
    | (probe) "idle_list lb = []" "sint (probe_num cfg) \<le> sint (access_cnt lb)" "overload_list lb \<noteq> []"
    | (none) "idle_list lb = []" "sint (probe_num cfg) \<le> sint (access_cnt lb)" "overload_list lb = []"
    | (idle) "idle_list lb \<noteq> []" "overload_list lb = []"
    | (mixed) "idle_list lb \<noteq> []" "overload_list lb \<noteq> []"
    by linarith
  then have "lb_ok lb' \<and> map_keys lb' = map_keys lb \<and> live_keys lb' = live_keys lb"
  proof cases
    case over
    with assms show ?thesis by (auto simp: choice_overload lb_ok_def map_keys_def)
  next
    case probe
    with assms choice_probe [OF assms(1)] show ?thesis by (auto simp: lb_ok_def map_keys_def)
  next
    case none
    with assms(2) show ?thesis
      by (simp add: choice_one_host_def from_overload_def get_host_from_list_def)
  next
    case idle
    with assms choice_idle [OF assms(1)] show ?thesis by (auto simp: lb_ok_def map_keys_def)
  next
    case mixed
    with assms choice_mixed [OF assms(1)] show ?thesis
      by (auto simp: lb_ok_def map_keys_def split: if_splits)
  qed
  then show "lb_ok lb'" "map_keys lb' = map_keys lb" "live_keys lb' = live_keys lb" by blast+
qed

end
