(* ===== verification/Pb_Build.thy ===== *)
theory Pb_Build
  imports Lars_Pb_Access Subscribe Load_Balance
begin

text \<open>
  The messages as the programs fill them, call by call: the route answers of \<open>lars_dns/src/dns_service.cpp\<close>
  and \<open>subscribe.cpp\<close>, the host a balancer answers with and the report it commits
  (\<open>lars_lb_agent/src/load_balance.cpp\<close>), and the requests of \<open>load_balance.cpp\<close> and of the client library.
  The objects filled are the ones the models of these programs mean by their messages.
\<close>

named_theorems pb_access

lemmas accessors [pb_access] = HostInfo_set_ip_def HostInfo_set_port_def GetRouteRequest_set_modid_def GetRouteRequest_set_cmdid_def
  GetRouteResponse_set_modid_def GetRouteResponse_set_cmdid_def GetRouteResponse_add_host_def
  HostCallResult_set_ip_def HostCallResult_set_port_def HostCallResult_set_succ_def HostCallResult_set_err_def HostCallResult_set_overload_def
  ReportStatusRequest_set_modid_def ReportStatusRequest_set_cmdid_def ReportStatusRequest_set_caller_def ReportStatusRequest_set_ts_def
  ReportStatusRequest_add_results_def GetHostRequest_set_seq_def GetHostRequest_set_modid_def GetHostRequest_set_cmdid_def
  GetHostResponse_set_seq_def GetHostResponse_set_modid_def GetHostResponse_set_cmdid_def GetHostResponse_set_retcode_def GetHostResponse_mutable_host_def

lemmas wires [pb_access] = HostInfo_wire_def GetRouteRequest_wire_def GetRouteResponse_wire_def HostCallResult_wire_def
  ReportStatusRequest_wire_def GetHostRequest_wire_def GetHostResponse_wire_def

lemmas defaults [pb_access] = HostInfo_default_def GetRouteRequest_default_def GetRouteResponse_default_def HostCallResult_default_def
  ReportStatusRequest_default_def GetHostRequest_default_def GetHostResponse_default_def

subsection \<open>Route answers\<close>

definition build_route_response :: "(uint64 set \<Rightarrow> uint64 list) \<Rightarrow> route \<Rightarrow> int32 \<Rightarrow> int32 \<Rightarrow> GetRouteResponse_pb" where
  "build_route_response ord r modid cmdid =
     (let rsp = GetRouteResponse_set_cmdid cmdid (GetRouteResponse_set_modid modid GetRouteResponse_default)
      in fold (\<lambda>ip_port rsp.
           (let host = HostInfo_set_port (lo32 ip_port) (HostInfo_set_ip (hi32 ip_port) HostInfo_default)
            in GetRouteResponse_add_host (HostInfo_CopyFrom host) rsp))
           (ord (route_get_hosts r modid cmdid)) rsp)"

lemma add_hosts:
  "fold (\<lambda>k rsp. GetRouteResponse_add_host (HostInfo_CopyFrom (HostInfo_set_port (lo32 k) (HostInfo_set_ip (hi32 k) HostInfo_default))) rsp) ks m =
    m\<lparr>gr_host := gr_host m @ map (HostInfo_wire \<circ> decode_host) ks\<rparr>"
  by (induction ks arbitrary: m) (simp_all add: HostInfo_copy(1) pb_access decode_host_def)

text \<open>
  The answer the DNS service fills with the generated accessors, for a request and for a push, is the
  message its model answers with: what is serialized from the object is the encoding of that message.
\<close>

theorem route_answer_built:
  "GetRouteResponse_InternalSerialize rt (build_route_response ord r modid cmdid) =
    encode_GetRouteResponse rt (route_response ord r modid cmdid)"
proof -
  have "build_route_response ord r modid cmdid = GetRouteResponse_wire (route_response ord r modid cmdid)"
    unfolding build_route_response_def Let_def add_hosts by (simp add: pb_access route_response_def comp_def)
  then show ?thesis by (simp add: encode_GetRouteResponse_def)
qed

subsection \<open>The answers and reports of a balancer\<close>

definition build_host :: "host_info \<Rightarrow> GetHostResponse_pb \<Rightarrow> GetHostResponse_pb" where
  "build_host host rsp =
     GetHostResponse_mutable_host (\<lambda>hip. HostInfo_set_port (hi_port host) (HostInfo_set_ip (hi_ip host) hip)) rsp"

lemma build_host_wire:
  "build_host h (GetHostResponse_wire rsp) = GetHostResponse_wire (rsp\<lparr>ghs_host := Some \<lparr>hinfo_ip = hi_ip h, hinfo_port = hi_port h\<rparr>\<rparr>)"
  by (cases "ghs_host rsp") (simp_all add: build_host_def pb_access)

definition build_results :: "load_balance \<Rightarrow> bool \<Rightarrow> addr list \<Rightarrow> ReportStatusRequest_pb \<Rightarrow> ReportStatusRequest_pb res" where
  "build_results lb flag as req =
     res_fold (\<lambda>a req. res_bind (lb_deref lb a) (\<lambda>hi.
       (let call_res = HostCallResult_set_overload flag (HostCallResult_set_err (rerr hi) (HostCallResult_set_succ (rsucc hi)
              (HostCallResult_set_port (hi_port hi) (HostCallResult_set_ip (hi_ip hi) HostCallResult_default))))
        in Inr (ReportStatusRequest_add_results (HostCallResult_CopyFrom call_res) req)))) as req"

definition build_report :: "load_balance_config \<Rightarrow> uint64 \<Rightarrow> load_balance \<Rightarrow> ReportStatusRequest_pb res" where
  "build_report cfg now lb =
     (let req = ReportStatusRequest_set_caller (local_ip cfg) (ReportStatusRequest_set_ts (ucast now)
            (ReportStatusRequest_set_cmdid (lb_cmdid lb) (ReportStatusRequest_set_modid (lb_modid lb) ReportStatusRequest_default)))
      in res_bind (build_results lb False (idle_list lb) req) (build_results lb True (overload_list lb)))"

lemma build_results_eq:
  "build_results lb flag as req = res_bind (call_results lb flag as) (\<lambda>rs.
     Inr (req\<lparr>rs_results := rs_results req @ map HostCallResult_wire rs\<rparr>))"
proof (induction "as" arbitrary: req)
  case (Cons a as)
  show ?case
  proof (cases "lb_deref lb a")
    case (Inr h)
    then show ?thesis
      using Cons.IH
      by (cases "call_results lb flag as") (simp_all add: build_results_def Let_def HostCallResult_copy(1) pb_access)
  qed (simp add: build_results_def)
qed (simp add: build_results_def)

text \<open>
  The report a balancer fills with the generated accessors, first the hosts of the idle list, then
  those of the overload list, is the one its commit puts into the queue, for every state of the balancer, also
  the ones in which following a list faults; what is serialized from the object is that report's encoding.
\<close>

theorem report_built:
  "commit cfg now lb (Some q) =
     (if lb_empty lb then Inr (Some q)
      else res_bind (build_report cfg now lb) (\<lambda>m. Inr (Some (tq_send (ReportStatusRequest_msg m) q)))) \<and>
   res_bind (build_report cfg now lb) (\<lambda>m. Inr (ReportStatusRequest_InternalSerialize rt m)) =
     res_bind (build_report cfg now lb) (\<lambda>m. Inr (encode_ReportStatusRequest rt (ReportStatusRequest_msg m)))"
proof -
  have built: "build_report cfg now lb =
      res_bind (call_results lb False (idle_list lb)) (\<lambda>idle. res_bind (call_results lb True (overload_list lb)) (\<lambda>over.
        Inr (ReportStatusRequest_wire \<lparr>rsr_modid = lb_modid lb, rsr_cmdid = lb_cmdid lb, rsr_caller = local_ip cfg,
          rsr_results = idle @ over, rsr_ts = ucast now\<rparr>)))"
    unfolding build_report_def Let_def build_results_eq
    by (cases "call_results lb False (idle_list lb)"; cases "call_results lb True (overload_list lb)") (simp_all add: pb_access)
  have "commit cfg now lb (Some q) =
     (if lb_empty lb then Inr (Some q)
      else res_bind (build_report cfg now lb) (\<lambda>m. Inr (Some (tq_send (ReportStatusRequest_msg m) q))))"
    unfolding built commit_def
    by (cases "call_results lb False (idle_list lb)"; cases "call_results lb True (overload_list lb)")
      (simp_all add: send_queue_def)
  moreover have "res_bind (build_report cfg now lb) (\<lambda>m. Inr (ReportStatusRequest_InternalSerialize rt m)) =
      res_bind (build_report cfg now lb) (\<lambda>m. Inr (encode_ReportStatusRequest rt (ReportStatusRequest_msg m)))"
    unfolding built
    by (cases "call_results lb False (idle_list lb)"; cases "call_results lb True (overload_list lb)")
      (simp_all add: encode_ReportStatusRequest_def)
  ultimately show ?thesis by blast
qed

subsection \<open>Message numbers\<close>

text \<open>
  The numbers the generated code knows are those of its messages; the number the client library sends its
  reports under is not one of them.
\<close>

lemma generated_ids:
  "MessageId_IsValid ID_GetRouteRequest" "MessageId_IsValid ID_GetRouteResponse" "MessageId_IsValid ID_ReportStatusRequest"
  "MessageId_IsValid ID_GetHostRequest" "MessageId_IsValid ID_GetHostResponse" "\<not> MessageId_IsValid ID_ReportRequest"
  by (simp_all add: MessageId_IsValid_def lars_defs)

text \<open>Every return code the agent answers with is one of the generated ones.\<close>

lemma choice_code: "choice_one_host cfg lb rsp = Inr (ret, lb', rsp') \<Longrightarrow> LarsRetCode_IsValid ret"
  by (auto simp: choice_one_host_def res_bind_eq_Inr LarsRetCode_IsValid_def lars_defs split: if_splits)

end
