(* ===== verification/Load_Balance_Props.thy ===== *)
theory Load_Balance_Props
  imports Load_Balance
begin

text \<open>
  What the balancer promises its callers: the invariant over every sequence of operations, the order
  in which hosts are handed out, what a merged answer and a report change, what is reported upstream,
  and what happens to the map entries of hosts that a route update dropped.
\<close>

subsection \<open>Every sequence of operations\<close>

inductive lb_step :: "load_balance_config \<Rightarrow> load_balance \<Rightarrow> load_balance \<Rightarrow> bool"
  for cfg :: load_balance_config where
  choose: "choice_one_host cfg lb rsp = Inr (ret, lb', rsp') \<Longrightarrow> lb_step cfg lb lb'"
| pulled: "pull lb q = Inr (ret, lb', q') \<Longrightarrow> lb_step cfg lb lb'"
| updated: "lb_update cfg hosts lb = Inr lb' \<Longrightarrow> lb_step cfg lb lb'"
| status_set: "lb_step cfg lb (lb\<lparr>status := NEW\<rparr>)"
| reported: "lb_report cfg ip port ret lb = Inr lb' \<Longrightarrow> lb_step cfg lb lb'"

definition lb_initial :: "load_balance \<Rightarrow> bool" where
  "lb_initial lb \<longleftrightarrow> (\<exists>cnt st modid cmdid. lb = new_load_balance cnt st modid cmdid)"

lemma lb_ok_pull: "lb_ok lb \<Longrightarrow> pull lb q = Inr (ret, lb', q') \<Longrightarrow> lb_ok lb'"
  by (auto simp: pull_def res_bind_eq_Inr lb_ok_rotate(4))

lemma lb_ok_step: "lb_step cfg lb lb' \<Longrightarrow> lb_ok lb \<Longrightarrow> lb_ok lb'"
  by (induction rule: lb_step.induct)
    (auto intro: choice_keeps_ok(1) lb_ok_pull lb_update_keeps_ok lb_report_keeps_ok lb_ok_rotate(4))

interpretation lbm: op_machine lb_initial "lb_step cfg" lb_ok for cfg
  by unfold_locales (auto simp: lb_initial_def intro: lb_ok_step)

text \<open>
  C8: Whatever choices, pulls, route answers and reports a balancer goes through, every host it still
  has is in exactly one of its two lists, the one its overload flag names, exactly once, and the map
  leads from the host's address and port to it.
\<close>

theorem balancer_invariant:
  assumes "lb_initial lb" and "rtranclp (lb_step cfg) lb lb'"
  shows "lb_ok lb'"
  using lbm.inv_reachable [OF assms] .

subsection \<open>What a choice returns\<close>

lemma choice_live:
  assumes "lb_ok lb" and "idle_list lb \<noteq> [] \<or> overload_list lb \<noteq> []"
  shows "\<exists>ret lb' rsp'. choice_one_host cfg lb rsp = Inr (ret, lb', rsp') \<and>
    live_keys lb' = live_keys lb \<and>
    (ret = RET_OVERLOAD \<and> rsp' = rsp \<and> idle_list lb = [] \<or>
     ret = RET_SUCC \<and> (\<exists>host. rsp' = rsp\<lparr>ghs_host := Some host\<rparr> \<and> host_key host \<in> live_keys lb))"
proof -
  have live: "host_key (host_at lb a) \<in> live_keys lb"
    if "a \<in> set (idle_list lb) \<union> set (overload_list lb)" for a
    using that lb_okD(5,6) [OF assms(1), of a]
    by (auto simp: host_key_host_at live_keys_def intro!: imageI ranI)
  consider (over) "idle_list lb = []" "sint (access_cnt lb) < sint (probe_num cfg)"
    | (probe) "idle_list lb = []" "sint (probe_num cfg) \<le> sint (access_cnt lb)" "overload_list lb \<noteq> []"
    | (idle) "idle_list lb \<noteq> []" "overload_list lb = []"
    | (mixed) "idle_list lb \<noteq> []" "overload_list lb \<noteq> []"
    using assms(2) by linarith
  then show ?thesis
  proof cases
    case over
    then show ?thesis by (simp add: choice_overload)
  next
    case probe
    then show ?thesis using choice_probe [OF assms(1)] live [of "hd (overload_list lb)"]
      by (simp add: exI [where x = "host_at lb (hd (overload_list lb))"])
  next
    case idle
    then show ?thesis using choice_idle [OF assms(1)] live [of "hd (idle_list lb)"]
      by (simp add: exI [where x = "host_at lb (hd (idle_list lb))"])
  next
    case mixed
    then show ?thesis using choice_mixed [OF assms(1)] live [of "hd (idle_list lb)"]
        live [of "hd (rotate1 (idle_list lb))"] hd_rotate1_in [of "idle_list lb"]
      by (auto intro: exI [where x = "host_at lb (hd (idle_list lb))"]
          exI [where x = "host_at lb (hd (rotate1 (idle_list lb)))"])
  qed
qed

text \<open>
  C9: With a host in either list a choice succeeds: it answers either overload, leaving the response
  alone, and only when no host is idle, or success with a host that is still there; the set of hosts
  does not change.
\<close>

theorem choice_answers_live_host:
  assumes "lb_ok lb" and "idle_list lb \<noteq> [] \<or> overload_list lb \<noteq> []"
  shows "\<exists>ret lb' rsp'. choice_one_host cfg lb rsp = Inr (ret, lb', rsp') \<and>
    live_keys lb' = live_keys lb \<and>
    (ret = RET_OVERLOAD \<and> rsp' = rsp \<and> idle_list lb = [] \<or>
     ret = RET_SUCC \<and> (\<exists>host. rsp' = rsp\<lparr>ghs_host := Some host\<rparr> \<and> host_key host \<in> live_keys lb))"
  by (rule choice_live [OF assms])

subsection \<open>Series of choices\<close>

text \<open>The answers to \<open>n\<close> requests in a row, each with the response it starts from.\<close>

fun choices :: "load_balance_config \<Rightarrow> GetHostResponse \<Rightarrow> nat \<Rightarrow> load_balance \<Rightarrow>
    ((int32 \<times> HostInfo option) list \<times> load_balance) res" where
  "choices cfg rsp 0 lb = Inr ([], lb)"
| "choices cfg rsp (Suc n) lb =
     res_bind (choice_one_host cfg lb rsp) (\<lambda>(ret, lb, rsp').
       res_bind (choices cfg rsp n lb) (\<lambda>(answers, lb). Inr ((ret, ghs_host rsp') # answers, lb)))"

lemma choices_append:
  "choices cfg rsp (m + n) lb = res_bind (choices cfg rsp m lb) (\<lambda>(xs, lb).
     res_bind (choices cfg rsp n lb) (\<lambda>(ys, lb). Inr (xs @ ys, lb)))"
proof (induction m arbitrary: lb)
  case 0
  then show ?case by (cases "choices cfg rsp n lb") auto
next
  case (Suc m)
  show ?case
  proof (cases "choice_one_host cfg lb rsp")
    case (Inr s)
    obtain ret lb' rsp' where s: "s = (ret, lb', rsp')" by (cases s) auto
    show ?thesis
      using Inr s Suc [of lb'] by (cases "choices cfg rsp m lb'")
        (auto simp: res_bind_def split: sum.splits)
  qed simp
qed

lemma choices_idle_prefix:
  assumes "lb_ok lb" and "overload_list lb = []" and "idle_list lb = xs @ ys"
  shows "choices cfg rsp (length xs) lb =
    Inr (map (\<lambda>a. (RET_SUCC, Some (host_at lb a))) xs, lb\<lparr>idle_list := ys @ xs\<rparr>)"
  using assms
proof (induction xs arbitrary: lb ys)
  case (Cons x xs)
  let ?lb = "lb\<lparr>idle_list := rotate1 (idle_list lb)\<rparr>"
  have "lb_ok ?lb" by (rule lb_ok_rotate(1) [OF Cons.prems(1)])
  moreover have "idle_list ?lb = xs @ (ys @ [x])" using Cons.prems(3) by simp
  ultimately have "choices cfg rsp (length xs) ?lb =
      Inr (map (\<lambda>a. (RET_SUCC, Some (host_at lb a))) xs, ?lb\<lparr>idle_list := (ys @ [x]) @ xs\<rparr>)"
    using Cons.IH [of ?lb "ys @ [x]"] Cons.prems(2) by simp
  then show ?case using Cons.prems choice_idle [OF Cons.prems(1), of cfg rsp] by simp
qed simp

text \<open>
  C10: While no host is overloaded the balancer is a round robin: as many requests as there are idle
  hosts answer each of them once, in the order of the list, and leave the balancer as it was.
\<close>

theorem round_robin:
  assumes "lb_ok lb" and "overload_list lb = []"
  shows "choices cfg rsp (length (idle_list lb)) lb =
    Inr (map (\<lambda>a. (RET_SUCC, Some (host_at lb a))) (idle_list lb), lb)"
  using choices_idle_prefix [OF assms, of "idle_list lb" "[]"] by simp

lemma sint_incr: "sint (c :: int32) < sint (p :: int32) \<Longrightarrow> sint (c + 1) = sint c + 1"
  using sint_int32_bounds [of p] sint_int32_bounds [of c]
  by (simp add: sint_word_ariths signed_take_bit_int_eq_self)

lemma choices_overloaded:
  assumes "idle_list lb = []" and "sint (access_cnt lb) + int n = sint (probe_num cfg)"
  shows "choices cfg rsp n lb =
    Inr (replicate n (RET_OVERLOAD, ghs_host rsp), lb\<lparr>access_cnt := probe_num cfg\<rparr>)"
  using assms
proof (induction n arbitrary: lb)
  case 0
  then have "access_cnt lb = probe_num cfg" by (simp add: signed_word_eqI)
  then show ?case by simp
next
  case (Suc n)
  let ?lb = "lb\<lparr>access_cnt := access_cnt lb + 1\<rparr>"
  have lt: "sint (access_cnt lb) < sint (probe_num cfg)" using Suc.prems(2) by simp
  then have "choices cfg rsp n ?lb =
      Inr (replicate n (RET_OVERLOAD, ghs_host rsp), ?lb\<lparr>access_cnt := probe_num cfg\<rparr>)"
    using Suc.prems sint_incr [OF lt] by (intro Suc.IH) simp_all
  then show ?case using Suc.prems(1) lt by (simp add: choice_overload)
qed

lemma choices_probe_one:
  assumes "lb_ok lb" and "idle_list lb = []" and "overload_list lb = x # xs"
    and "access_cnt lb = 0" and "0 \<le> sint (probe_num cfg)"
  shows "choices cfg rsp (nat (sint (probe_num cfg)) + 1) lb =
    Inr (replicate (nat (sint (probe_num cfg))) (RET_OVERLOAD, ghs_host rsp) @
         [(RET_SUCC, Some (host_at lb x))], lb\<lparr>overload_list := xs @ [x]\<rparr>)"
proof -
  let ?lb = "lb\<lparr>access_cnt := probe_num cfg\<rparr>"
  have "choices cfg rsp 1 ?lb =
      Inr ([(RET_SUCC, Some (host_at lb x))], ?lb\<lparr>access_cnt := 0, overload_list := xs @ [x]\<rparr>)"
    using assms choice_probe [OF lb_ok_rotate(3) [OF assms(1)], of "probe_num cfg" cfg rsp] by simp
  then show ?thesis
    using assms choices_overloaded [of lb "nat (sint (probe_num cfg))" cfg rsp]
    by (simp only: choices_append) simp
qed

lemma choices_probe_prefix:
  assumes "lb_ok lb" and "idle_list lb = []" and "overload_list lb = xs @ ys"
    and "access_cnt lb = 0" and "0 \<le> sint (probe_num cfg)"
  shows "choices cfg rsp (length xs * (nat (sint (probe_num cfg)) + 1)) lb =
    Inr (concat (map (\<lambda>a. replicate (nat (sint (probe_num cfg))) (RET_OVERLOAD, ghs_host rsp) @
           [(RET_SUCC, Some (host_at lb a))]) xs), lb\<lparr>overload_list := ys @ xs\<rparr>)"
  using assms
proof (induction xs arbitrary: lb ys)
  case (Cons x xs)
  let ?p = "nat (sint (probe_num cfg))"
  let ?lb = "lb\<lparr>overload_list := (xs @ ys) @ [x]\<rparr>"
  have one: "choices cfg rsp (?p + 1) lb = Inr (replicate ?p (RET_OVERLOAD, ghs_host rsp) @
         [(RET_SUCC, Some (host_at lb x))], ?lb)"
    using choices_probe_one [OF Cons.prems(1,2) _ Cons.prems(4,5)] Cons.prems(3) by simp
  have "lb_ok ?lb" using lb_ok_rotate(2) [OF Cons.prems(1)] Cons.prems(3) by simp
  then have rest: "choices cfg rsp (length xs * (?p + 1)) ?lb =
    Inr (concat (map (\<lambda>a. replicate ?p (RET_OVERLOAD, ghs_host rsp) @
           [(RET_SUCC, Some (host_at lb a))]) xs), ?lb\<lparr>overload_list := (ys @ [x]) @ xs\<rparr>)"
    using Cons.IH [of ?lb "ys @ [x]"] Cons.prems by simp
  have "choices cfg rsp ((?p + 1) + length xs * (?p + 1)) lb =
    Inr (concat (map (\<lambda>a. replicate ?p (RET_OVERLOAD, ghs_host rsp) @
           [(RET_SUCC, Some (host_at lb a))]) (x # xs)), lb\<lparr>overload_list := ys @ x # xs\<rparr>)"
    unfolding choices_append [of cfg rsp "?p + 1"] one using rest by simp
  then show ?case by (simp add: algebra_simps)
qed simp

text \<open>
  C11: When every host is overloaded the probing is fair: each round of \<open>probe_num\<close> refusals is
  followed by one answer with an overloaded host, and the rounds go through all of them in order and
  end where they began.
\<close>

theorem overload_probing:
  assumes "lb_ok lb" and "idle_list lb = []" and "access_cnt lb = 0" and "0 \<le> sint (probe_num cfg)"
  shows "choices cfg rsp (length (overload_list lb) * (nat (sint (probe_num cfg)) + 1)) lb =
    Inr (concat (map (\<lambda>a. replicate (nat (sint (probe_num cfg))) (RET_OVERLOAD, ghs_host rsp) @
           [(RET_SUCC, Some (host_at lb a))]) (overload_list lb)), lb)"
  using choices_probe_prefix [OF assms(1,2) _ assms(3,4), of "overload_list lb" "[]"] by simp

text \<open>
  With hosts in both lists every request is answered with an idle host: the overloaded host that
  the probing branch takes is replaced by the idle host taken after the inner conditional, so a host
  that is overloaded while another one is idle is never handed out.
\<close>

theorem mixed_choices_never_probe:
  assumes "lb_ok lb" and "idle_list lb \<noteq> []" and "overload_list lb \<noteq> []"
  shows "\<exists>answers lb'. choices cfg rsp n lb = Inr (answers, lb') \<and>
    set answers \<subseteq> {(RET_SUCC, Some (host_at lb a)) | a. a \<in> set (idle_list lb)}"
  using assms
proof (induction n arbitrary: lb)
  case (Suc n)
  obtain a lb1 where step: "choice_one_host cfg lb rsp =
      Inr (RET_SUCC, lb1, rsp\<lparr>ghs_host := Some (host_at lb a)\<rparr>)"
      and a: "a \<in> set (idle_list lb)" and same: "host_at lb1 = host_at lb"
      "set (idle_list lb1) = set (idle_list lb)" "set (overload_list lb1) = set (overload_list lb)"
    using choice_mixed [OF Suc.prems, of cfg rsp] Suc.prems(2) hd_rotate1_in [OF Suc.prems(2)]
    by (cases "sint (probe_num cfg) \<le> sint (access_cnt lb)") auto
  have "lb_ok lb1" by (rule choice_keeps_ok(1) [OF Suc.prems(1) step])
  moreover have "idle_list lb1 \<noteq> []" "overload_list lb1 \<noteq> []"
    using same(2,3) Suc.prems(2,3) by auto
  ultimately obtain answers lb2 where "choices cfg rsp n lb1 = Inr (answers, lb2)"
      "set answers \<subseteq> {(RET_SUCC, Some (host_at lb1 a)) | a. a \<in> set (idle_list lb1)}"
    using Suc.IH [of lb1] by blast
  then show ?case using step a same by auto
qed simp

text \<open>
  In the same situation the normal branch takes two idle hosts per request and answers the
  second: with two idle hosts, the first is not answered until the probing branch is reached.
\<close>

theorem mixed_choices_starve_first:
  assumes "lb_ok lb" and "idle_list lb = [a, b]" and "overload_list lb \<noteq> []"
    and "sint (access_cnt lb) + int n \<le> sint (probe_num cfg)"
  shows "choices cfg rsp n lb = Inr (replicate n (RET_SUCC, Some (host_at lb b)),
    lb\<lparr>access_cnt := access_cnt lb + of_nat n\<rparr>)"
  using assms
proof (induction n arbitrary: lb)
  case (Suc n)
  let ?lb = "lb\<lparr>access_cnt := access_cnt lb + 1\<rparr>"
  have lt: "sint (access_cnt lb) < sint (probe_num cfg)" using Suc.prems(4) by simp
  have "choices cfg rsp n ?lb = Inr (replicate n (RET_SUCC, Some (host_at lb b)),
      ?lb\<lparr>access_cnt := access_cnt lb + 1 + of_nat n\<rparr>)"
    using Suc.IH [of ?lb] Suc.prems lb_ok_rotate(3) [OF Suc.prems(1)] sint_incr [OF lt] by simp
  moreover have same: "lb\<lparr>access_cnt := access_cnt lb + 1, idle_list := [a, b]\<rparr> = ?lb"
    using Suc.prems(2) by simp
  ultimately show ?case
    using choice_mixed [OF Suc.prems(1), of cfg rsp] Suc.prems lt by (simp add: same add.assoc)
qed simp

subsection \<open>The balancer as a map from keys to hosts\<close>

definition host_of :: "load_balance \<Rightarrow> uint64 \<Rightarrow> host_info option" where
  "host_of lb k = (case map_of (host_map lb) k of None \<Rightarrow> None | Some a \<Rightarrow> lb_heap lb a)"

lemma host_of_live: "lb_ok lb \<Longrightarrow> host_of lb k = Some h \<longleftrightarrow>
    (\<exists>a. map_of (host_map lb) k = Some a \<and> lb_heap lb a = Some h)"
  by (simp add: host_of_def split: option.splits)

lemma dom_host_of: "lb_ok lb \<Longrightarrow> dom (host_of lb) = live_keys lb"
proof (intro set_eqI iffI)
  fix k
  assume ok: "lb_ok lb"
  {
    assume "k \<in> dom (host_of lb)"
    then obtain a h where "map_of (host_map lb) k = Some a" "lb_heap lb a = Some h"
      using host_of_live [OF ok] by auto
    then show "k \<in> live_keys lb" using live_entry [OF ok] by simp
  next
    assume "k \<in> live_keys lb"
    then show "k \<in> dom (host_of lb)"
      using live_keys_subset [OF ok] live_entry [OF ok]
      by (fastforce simp: host_of_def map_keys_def)
  }
qed

lemma host_of_insert:
  assumes "lb_ok lb"
  shows "host_of (update_insert cfg h lb) = (if host_key h \<in> map_keys lb then host_of lb
    else (host_of lb)(host_key h \<mapsto> new_host_info (hinfo_ip h) (hinfo_port h) (init_succ_cnt cfg)))"
proof -
  have "map_of (host_map lb) k \<noteq> Some (lb_next lb)" for k using lb_okD(8) [OF assms] by blast
  then show ?thesis
    by (auto simp: host_of_def update_insert_def Let_def map_keys_def fun_eq_iff split: option.splits)
qed

lemma host_of_forget:
  assumes "lb_ok lb" and "map_of (host_map lb) k = Some a"
  shows "host_of (lb_forget a lb) = (host_of lb)(k := None)"
proof
  fix k'
  show "host_of (lb_forget a lb) k' = ((host_of lb)(k := None)) k'"
  proof (cases "k' = k")
    case True
    then show ?thesis using assms(2) by (simp add: host_of_def lb_forget_def)
  next
    case False
    then have "map_of (host_map lb) k' \<noteq> Some a"
      using lb_okD(9) [OF assms(1) _ assms(2)] by blast
    then show ?thesis using False
      by (simp add: host_of_def lb_forget_def split: option.split)
  qed
qed

lemma host_of_delete:
  assumes "lb_ok lb" and "update_delete k lb = Inr lb'"
  shows "host_of lb' = (host_of lb)(k := None)"
proof -
  obtain a where a: "map_of (host_map lb) k = Some a"
    using assms(2) by (cases "map_of (host_map lb) k") (simp_all add: update_delete_def)
  then obtain h where h: "lb_heap lb a = Some h"
    using assms(2) by (cases "lb_heap lb a") (simp_all add: update_delete_def lb_deref_def)
  show ?thesis
    using update_delete_live [OF assms(1) a h] host_of_forget [OF assms(1) a] assms(2) by simp
qed

lemma host_of_fold_delete:
  assumes "lb_ok lb" and "res_fold update_delete ks lb = Inr lb'"
  shows "host_of lb' = (\<lambda>k. if k \<in> set ks then None else host_of lb k)"
  using assms
proof (induction ks arbitrary: lb)
  case (Cons k ks)
  obtain lb1 where step: "update_delete k lb = Inr lb1" and rest: "res_fold update_delete ks lb1 = Inr lb'"
    using Cons.prems(2) by (auto simp: res_bind_eq_Inr)
  show ?case
    using Cons.IH [OF update_delete_keeps_ok [OF Cons.prems(1) step] rest]
      host_of_delete [OF Cons.prems(1) step] by auto
qed simp

lemma host_of_fold_insert:
  assumes "lb_ok lb"
  shows "k \<notin> host_key ` set hosts \<Longrightarrow> host_of (fold (update_insert cfg) hosts lb) k = host_of lb k"
    and "k \<in> map_keys lb \<Longrightarrow> host_of (fold (update_insert cfg) hosts lb) k = host_of lb k"
    and "h \<in> set hosts \<Longrightarrow> host_key h \<notin> map_keys lb \<Longrightarrow>
      host_of (fold (update_insert cfg) hosts lb) (host_key h) =
        Some (new_host_info (hinfo_ip h) (hinfo_port h) (init_succ_cnt cfg))"
proof -
  have "(k \<notin> host_key ` set hosts \<or> k \<in> map_keys lb \<longrightarrow>
         host_of (fold (update_insert cfg) hosts lb) k = host_of lb k) \<and>
      (h \<in> set hosts \<longrightarrow> host_key h \<notin> map_keys lb \<longrightarrow>
       host_of (fold (update_insert cfg) hosts lb) (host_key h) =
        Some (new_host_info (hinfo_ip h) (hinfo_port h) (init_succ_cnt cfg)))" for k h
    using assms
  proof (induction hosts arbitrary: lb k h)
    case (Cons x xs)
    note one = update_insert_ok [OF Cons.prems, of cfg x]
    note ih = Cons.IH [OF one(1)]
    show ?case
      using ih [of k h] ih [of "host_key h" h] host_of_insert [OF Cons.prems, of cfg x] one(2)
      by (auto split: if_splits)
  qed simp
  then show "k \<notin> host_key ` set hosts \<Longrightarrow> host_of (fold (update_insert cfg) hosts lb) k = host_of lb k"
    and "k \<in> map_keys lb \<Longrightarrow> host_of (fold (update_insert cfg) hosts lb) k = host_of lb k"
    and "h \<in> set hosts \<Longrightarrow> host_key h \<notin> map_keys lb \<Longrightarrow>
      host_of (fold (update_insert cfg) hosts lb) (host_key h) =
        Some (new_host_info (hinfo_ip h) (hinfo_port h) (init_succ_cnt cfg))"
    by blast+
qed

text \<open>
  C13: A route answer merged into a balancer without stale entries leaves exactly the hosts the answer
  names: a host already known keeps its counters and its state, a new one starts idle with the
  configured success credit, and every other host is gone.
\<close>

theorem update_merges_answer:
  assumes "lb_ok lb" and "no_stale lb" and "hosts \<noteq> []"
  shows "\<exists>lb'. lb_update cfg hosts lb = Inr lb' \<and>
    dom (host_of lb') = host_key ` set hosts \<and>
    (\<forall>h \<in> set hosts. host_of lb' (host_key h) = Some (case host_of lb (host_key h) of
        Some old \<Rightarrow> old
      | None \<Rightarrow> new_host_info (hinfo_ip h) (hinfo_port h) (init_succ_cnt cfg)))"
proof -
  let ?lb = "fold (update_insert cfg) hosts lb"
  let ?ks = "need_delete (map host_key hosts) ?lb"
  obtain lb' where upd: "lb_update cfg hosts lb = Inr lb'" and ok: "lb_ok lb'"
      and live: "live_keys lb' = host_key ` set hosts"
    using lb_update_clean [OF assms] by blast
  have "res_fold update_delete ?ks ?lb = Inr lb'"
    using upd assms(3) by (simp add: lb_update_def Let_def)
  note host = host_of_fold_delete [OF fold_insert_ok(1) [OF assms(1)] this]
  have "host_of lb' (host_key h) = Some (case host_of lb (host_key h) of Some old \<Rightarrow> old
      | None \<Rightarrow> new_host_info (hinfo_ip h) (hinfo_port h) (init_succ_cnt cfg))"
    if "h \<in> set hosts" for h
  proof -
    have eq: "host_of lb' (host_key h) = host_of ?lb (host_key h)"
      using that by (simp add: host set_need_delete)
    show ?thesis
    proof (cases "host_key h \<in> map_keys lb")
      case True
      then have "host_key h \<in> dom (host_of lb)"
        using dom_host_of [OF assms(1)] assms(2) by (simp add: no_stale_def)
      then show ?thesis using host_of_fold_insert(2) [OF assms(1) True] eq by auto
    next
      case False
      then have "host_of lb (host_key h) = None"
        using dom_host_of [OF assms(1)] assms(2) by (auto simp: no_stale_def)
      then show ?thesis using host_of_fold_insert(3) [OF assms(1) that False] eq by simp
    qed
  qed
  then show ?thesis using upd dom_host_of [OF ok] live by blast
qed

text \<open>
  A host that a route answer drops leaves a stale entry behind, since \<open>update\<close> deletes the object
  without erasing its key: a late report about the host, and every later answer that does not name
  it, uses the deleted object; and an answer that names it again does not bring it back.
\<close>

theorem dropped_host_stays_stale:
  assumes "lb_ok lb" and "no_stale lb" and "lb_update cfg hosts lb = Inr lb'"
    and "pack64 ip port \<in> map_keys lb" and "pack64 ip port \<notin> host_key ` set hosts"
  shows "lb_report cfg ip port ret lb' = Inl Dangling \<and>
    (hosts2 \<noteq> [] \<longrightarrow> pack64 ip port \<notin> host_key ` set hosts2 \<longrightarrow>
      lb_update cfg hosts2 lb' = Inl Dangling) \<and>
    (\<forall>lb2. lb_update cfg hosts2 lb' = Inr lb2 \<longrightarrow> pack64 ip port \<notin> live_keys lb2)"
proof (intro conjI allI impI)
  let ?k = "pack64 ip port"
  have ne: "hosts \<noteq> []" using assms(3) by (auto simp: lb_update_def)
  have ok: "lb_ok lb'" and live: "live_keys lb' = host_key ` set hosts"
    and keys: "map_keys lb' = map_keys lb \<union> host_key ` set hosts"
    using lb_update_clean [OF assms(1,2) ne, of cfg] assms(3) by auto
  obtain a where a: "map_of (host_map lb') ?k = Some a"
    using keys assms(4) by (auto simp: map_keys_def)
  have dead: "lb_heap lb' a = None"
    using live_entry [OF ok a] live assms(5) by simp
  show "lb_report cfg ip port ret lb' = Inl Dangling"
    using a dead by (simp add: lb_report_def lb_deref_def)
  let ?lb = "fold (update_insert cfg) hosts2 lb'"
  note ins = fold_insert_ok [OF ok, of cfg hosts2]
  have kept: "?k \<in> map_keys lb'" "?k \<notin> live_keys ?lb"
    using keys assms(4,5) live ins(3) by auto
  then obtain b where b: "map_of (host_map ?lb) ?k = Some b"
    using ins(2) by (auto simp: map_keys_def)
  have "lb_heap ?lb b = None" using live_entry [OF ins(1) b] kept(2) by simp
  then show "lb_update cfg hosts2 lb' = Inl Dangling"
    if "hosts2 \<noteq> []" "?k \<notin> host_key ` set hosts2"
    using that b fold_delete_stale [of ?k "need_delete (map host_key hosts2) ?lb" ?lb b]
    by (auto simp: lb_update_def Let_def set_need_delete map_keys_def)
  show "?k \<notin> live_keys lb2" if upd: "lb_update cfg hosts2 lb' = Inr lb2" for lb2
  proof -
    have rest: "res_fold update_delete (need_delete (map host_key hosts2) ?lb) ?lb = Inr lb2"
      using upd by (simp add: lb_update_def Let_def split: if_splits)
    have "host_of ?lb ?k = None" using kept(2) dom_host_of [OF ins(1)] by blast
    then have "host_of lb2 ?k = None" using host_of_fold_delete [OF ins(1) rest] by simp
    then show ?thesis using dom_host_of [OF lb_update_keeps_ok [OF ok upd]] by blast
  qed
qed


subsection \<open>Recording an outcome\<close>

lemma host_of_requeue [simp]: "host_of (requeue x y a lb) = host_of lb"
  by (auto simp: requeue_def host_of_def fun_eq_iff split: option.split)

lemma host_of_report:
  assumes "lb_ok lb" and "host_of lb (pack64 ip port) = Some h"
  shows "\<exists>lb'. lb_report cfg ip port ret lb = Inr lb' \<and> lb_ok lb' \<and>
    host_of lb' = (host_of lb)(pack64 ip port \<mapsto> reported cfg ret h)"
proof -
  obtain a where a: "map_of (host_map lb) (pack64 ip port) = Some a" and h: "lb_heap lb a = Some h"
    using assms host_of_live [OF assms(1)] by auto
  have "host_of (lb\<lparr>lb_heap := (lb_heap lb)(a \<mapsto> h')\<rparr>) = (host_of lb)(pack64 ip port \<mapsto> h')" for h'
  proof
    fix k
    show "host_of (lb\<lparr>lb_heap := (lb_heap lb)(a \<mapsto> h')\<rparr>) k = ((host_of lb)(pack64 ip port \<mapsto> h')) k"
      using a lb_okD(9) [OF assms(1) _ a, of k]
      by (cases "k = pack64 ip port") (auto simp: host_of_def split: option.split)
  qed
  then show ?thesis
    using lb_report_live [OF a h] lb_ok_requeue [OF assms(1) h, of "reported cfg ret h"] by simp
qed

lemma quot_gt_exact:
  assumes "unat x + unat y < 2 ^ 24" and "0 < unat x + unat y" and "rate * 2 ^ 28 = of_nat k"
  shows "quot_gt x (x + y) rate \<longleftrightarrow> rate < of_nat (unat x) / (of_nat (unat x) + of_nat (unat y))"
    and "quot_gt y (x + y) rate \<longleftrightarrow> rate < of_nat (unat y) / (of_nat (unat x) + of_nat (unat y))"
proof -
  have sum: "unat (x + y) = unat x + unat y"
    using assms(1) by (intro unat_add_lem [THEN iffD1]) simp
  then have ne: "x + y \<noteq> 0" using assms(2) by (metis less_irrefl unat_0)
  show "quot_gt x (x + y) rate \<longleftrightarrow> rate < of_nat (unat x) / (of_nat (unat x) + of_nat (unat y))"
    using double_quot_gt_iff [of "unat x" "unat x + unat y" rate k] assms ne by (simp add: quot_gt_def sum)
  show "quot_gt y (x + y) rate \<longleftrightarrow> rate < of_nat (unat y) / (of_nat (unat x) + of_nat (unat y))"
    using double_quot_gt_iff [of "unat y" "unat x + unat y" rate k] assms ne by (simp add: quot_gt_def sum)
qed

lemma unat_incr: "unat (c :: uint32) < 2 ^ 24 \<Longrightarrow> unat (c + 1) = unat c + 1"
  by (subst unat_add_lem [THEN iffD1]) simp_all

lemma becomes_overload_exact:
  assumes "unat (vsucc h) + unat (verr h) < 2 ^ 24" and "0 < unat (vsucc h) + unat (verr h)"
    and "err_rate cfg * 2 ^ 28 = of_nat k"
  shows "becomes_overload cfg h \<longleftrightarrow>
    err_rate cfg < of_nat (unat (verr h)) / (of_nat (unat (vsucc h)) + of_nat (unat (verr h))) \<or>
    contin_err_limit cfg \<le> contin_err h"
  using quot_gt_exact(2) [OF assms] by (simp add: becomes_overload_def)

lemma becomes_idle_exact:
  assumes "unat (vsucc h) + unat (verr h) < 2 ^ 24" and "0 < unat (vsucc h) + unat (verr h)"
    and "succ_rate cfg * 2 ^ 28 = of_nat k"
  shows "becomes_idle cfg h \<longleftrightarrow>
    succ_rate cfg < of_nat (unat (vsucc h)) / (of_nat (unat (vsucc h)) + of_nat (unat (verr h))) \<or>
    contin_succ_limit cfg \<le> contin_succ h"
  using quot_gt_exact(1) [OF assms] by (simp add: becomes_idle_def)

text \<open>
  C12: A report changes the named host and no other. The host turns overloaded exactly when a failure
  lifts its error rate above \<open>err_rate\<close> or its run of failures to the limit, and idle again exactly
  when a success lifts its success rate above \<open>succ_rate\<close> or its run of successes to the limit;
  otherwise it only counts the outcome. So a run that reaches exactly the limit is enough, whatever the rates:
  that is where the code (\<open>>=\<close> in \<open>load_balance.cpp\<close>, whose comment says the threshold is reached) differs
  from \<open>main_server.h\<close> and \<open>lars_agent.conf\<close>, which say that the run must exceed the limit. The rates are exact as long as fewer than \<open>2^24 - 1\<close> calls are
  counted and the configured rate is a multiple of \<open>2^-28\<close>, which every float of at least 1/16 is.
\<close>

theorem report_transitions:
  assumes "lb_ok lb" and "host_of lb (pack64 ip port) = Some h"
    and "unat (vsucc h) + unat (verr h) + 1 < 2 ^ 24"
    and "err_rate cfg * 2 ^ 28 = of_nat k" and "succ_rate cfg * 2 ^ 28 = of_nat k'"
  shows "\<exists>lb' h'. lb_report cfg ip port ret lb = Inr lb' \<and>
    host_of lb' = (host_of lb)(pack64 ip port \<mapsto> h') \<and>
    (if \<not> overload h \<and> ret \<noteq> RET_SUCC \<and>
        (err_rate cfg < (of_nat (unat (verr h)) + 1) / (of_nat (unat (vsucc h)) + of_nat (unat (verr h)) + 1) \<or>
         contin_err_limit cfg \<le> contin_err h + 1)
     then h' = set_overload cfg h
     else if overload h \<and> ret = RET_SUCC \<and>
        (succ_rate cfg < (of_nat (unat (vsucc h)) + 1) / (of_nat (unat (vsucc h)) + of_nat (unat (verr h)) + 1) \<or>
         contin_succ_limit cfg \<le> contin_succ h + 1)
     then h' = set_idle cfg h
     else h' = count_result ret h) \<and>
    (\<not> overload h \<and> ret \<noteq> RET_SUCC \<and> contin_err h + 1 = contin_err_limit cfg \<longrightarrow> h' = set_overload cfg h) \<and>
    (overload h \<and> ret = RET_SUCC \<and> contin_succ h + 1 = contin_succ_limit cfg \<longrightarrow> h' = set_idle cfg h)"
proof -
  let ?h = "count_result ret h"
  have over: "becomes_overload cfg ?h \<longleftrightarrow>
      err_rate cfg < (of_nat (unat (verr h)) + 1) / (of_nat (unat (vsucc h)) + of_nat (unat (verr h)) + 1) \<or>
      contin_err_limit cfg \<le> contin_err h + 1" if "ret \<noteq> RET_SUCC"
    using that assms(3) unat_incr [of "verr h"] becomes_overload_exact [of ?h cfg k] assms(4)
    by (simp add: count_result_def add.commute add.left_commute)
  have idle: "becomes_idle cfg ?h \<longleftrightarrow>
      succ_rate cfg < (of_nat (unat (vsucc h)) + 1) / (of_nat (unat (vsucc h)) + of_nat (unat (verr h)) + 1) \<or>
      contin_succ_limit cfg \<le> contin_succ h + 1" if "ret = RET_SUCC"
    using that assms(3) unat_incr [of "vsucc h"] becomes_idle_exact [of ?h cfg k'] assms(5)
    by (simp add: count_result_def add.commute add.left_commute)
  have "set_overload cfg ?h = set_overload cfg h" "set_idle cfg ?h = set_idle cfg h"
    by (simp_all add: count_result_def set_overload_def set_idle_def)
  then have "(if \<not> overload h \<and> ret \<noteq> RET_SUCC \<and>
        (err_rate cfg < (of_nat (unat (verr h)) + 1) / (of_nat (unat (vsucc h)) + of_nat (unat (verr h)) + 1) \<or>
         contin_err_limit cfg \<le> contin_err h + 1)
     then reported cfg ret h = set_overload cfg h
     else if overload h \<and> ret = RET_SUCC \<and>
        (succ_rate cfg < (of_nat (unat (vsucc h)) + 1) / (of_nat (unat (vsucc h)) + of_nat (unat (verr h)) + 1) \<or>
         contin_succ_limit cfg \<le> contin_succ h + 1)
     then reported cfg ret h = set_idle cfg h
     else reported cfg ret h = ?h)"
    unfolding reported_def Let_def using over idle by (cases "ret = RET_SUCC") auto
  moreover from this have "\<not> overload h \<and> ret \<noteq> RET_SUCC \<and> contin_err h + 1 = contin_err_limit cfg \<longrightarrow> reported cfg ret h = set_overload cfg h"
    "overload h \<and> ret = RET_SUCC \<and> contin_succ h + 1 = contin_succ_limit cfg \<longrightarrow> reported cfg ret h = set_idle cfg h"
    by (auto split: if_splits)
  ultimately show ?thesis using host_of_report [OF assms(1,2), of cfg ret] by blast
qed

subsection \<open>Reporting the counters\<close>

definition result_of :: "load_balance \<Rightarrow> addr \<Rightarrow> HostCallResult" where
  "result_of lb a = (let h = the (lb_heap lb a) in
     \<lparr>hcr_ip = hi_ip h, hcr_port = hi_port h, hcr_succ = rsucc h, hcr_err = rerr h,
      hcr_overload = overload h\<rparr>)"

lemma call_results_live:
  assumes "\<And>a. a \<in> set as \<Longrightarrow> \<exists>h. lb_heap lb a = Some h \<and> overload h = flag"
  shows "call_results lb flag as = Inr (map (result_of lb) as)"
  using assms
proof (induction as)
  case (Cons a as)
  obtain h where "lb_heap lb a = Some h" "overload h = flag" using Cons.prems [of a] by auto
  then show ?case using Cons by (simp add: lb_deref_def result_of_def Let_def)
qed simp

lemma commit_sends:
  assumes "lb_ok lb" and "\<not> lb_empty lb"
  shows "\<exists>req. commit cfg now lb (Some q) = Inr (Some (tq_send req q)) \<and>
    rsr_modid req = lb_modid lb \<and> rsr_cmdid req = lb_cmdid lb \<and> rsr_caller req = local_ip cfg \<and>
    distinct (map (\<lambda>r. pack64 (hcr_ip r) (hcr_port r)) (rsr_results req)) \<and>
    set (rsr_results req) = {\<lparr>hcr_ip = hi_ip h, hcr_port = hi_port h, hcr_succ = rsucc h,
      hcr_err = rerr h, hcr_overload = overload h\<rparr> | h. h \<in> ran (host_of lb)}"
proof -
  let ?as = "idle_list lb @ overload_list lb"
  have idle: "call_results lb False (idle_list lb) = Inr (map (result_of lb) (idle_list lb))"
    by (rule call_results_live) (use lb_okD(5) [OF assms(1)] in auto)
  have over: "call_results lb True (overload_list lb) = Inr (map (result_of lb) (overload_list lb))"
    by (rule call_results_live) (use lb_okD(6) [OF assms(1)] in auto)
  have mem: "a \<in> set ?as \<longleftrightarrow> (\<exists>h. lb_heap lb a = Some h)" for a
    using lb_okD(5,6) [OF assms(1), of a] by auto
  have key: "pack64 (hcr_ip (result_of lb a)) (hcr_port (result_of lb a)) = hi_key h"
    if "lb_heap lb a = Some h" for a h
    using that by (simp add: result_of_def hi_key_def)
  have "inj_on ((\<lambda>r. pack64 (hcr_ip r) (hcr_port r)) \<circ> result_of lb) (set ?as)"
  proof (rule inj_onI)
    fix a b
    assume a: "a \<in> set ?as" and b: "b \<in> set ?as"
      and eq: "((\<lambda>r. pack64 (hcr_ip r) (hcr_port r)) \<circ> result_of lb) a =
        ((\<lambda>r. pack64 (hcr_ip r) (hcr_port r)) \<circ> result_of lb) b"
    obtain h h' where h: "lb_heap lb a = Some h" "lb_heap lb b = Some h'" using a b mem by blast
    then have "hi_key h = hi_key h'" using eq key by (simp del: pack64_inject)
    then show "a = b" using lb_okD(7) [OF assms(1)] h by (metis option.inject)
  qed
  moreover have "distinct ?as" using lb_okD(2-4) [OF assms(1)] by auto
  ultimately have dist: "distinct (map (\<lambda>r. pack64 (hcr_ip r) (hcr_port r)) (map (result_of lb) ?as))"
    by (simp only: map_map distinct_map)
  have "ran (host_of lb) = ran (lb_heap lb)"
    unfolding ran_def using host_of_live [OF assms(1)] lb_okD(7) [OF assms(1)] by blast
  then have "result_of lb ` set ?as = {\<lparr>hcr_ip = hi_ip h, hcr_port = hi_port h, hcr_succ = rsucc h,
      hcr_err = rerr h, hcr_overload = overload h\<rparr> | h. h \<in> ran (host_of lb)}"
    unfolding image_def using mem by (force simp: ran_def result_of_def)
  then have "set (map (result_of lb) ?as) = {\<lparr>hcr_ip = hi_ip h, hcr_port = hi_port h, hcr_succ = rsucc h,
      hcr_err = rerr h, hcr_overload = overload h\<rparr> | h. h \<in> ran (host_of lb)}"
    by (simp only: set_map)
  moreover have "commit cfg now lb (Some q) = Inr (Some (tq_send \<lparr>rsr_modid = lb_modid lb,
      rsr_cmdid = lb_cmdid lb, rsr_caller = local_ip cfg, rsr_results = map (result_of lb) ?as,
      rsr_ts = ucast now\<rparr> q))"
    using assms(2) by (simp add: commit_def idle over send_queue_def)
  ultimately show ?thesis using dist
    by (intro exI conjI) (assumption | simp only: ReportStatusRequest.select_convs)+
qed

text \<open>
  A commit of a non-empty balancer sends one request, with one result for each of its hosts: the
  host's real counters, and the overload flag the host carries.
\<close>

theorem commit_reports_each_host:
  assumes "lb_ok lb" and "\<not> lb_empty lb"
  shows "\<exists>req. commit cfg now lb (Some q) = Inr (Some (tq_send req q)) \<and>
    rsr_modid req = lb_modid lb \<and> rsr_cmdid req = lb_cmdid lb \<and> rsr_caller req = local_ip cfg \<and>
    distinct (map (\<lambda>r. pack64 (hcr_ip r) (hcr_port r)) (rsr_results req)) \<and>
    set (rsr_results req) = {\<lparr>hcr_ip = hi_ip h, hcr_port = hi_port h, hcr_succ = rsucc h,
      hcr_err = rerr h, hcr_overload = overload h\<rparr> | h. h \<in> ran (host_of lb)}"
  by (rule commit_sends [OF assms])

subsection \<open>Concrete balancers\<close>

text \<open>
  A configuration and balancers with hosts at addresses below ten, the first list idle and the second
  overloaded; every property above with hypotheses is applied to one of them.
\<close>

definition ex_cfg :: load_balance_config where
  "ex_cfg = \<lparr>probe_num = 2, init_succ_cnt = 180, init_err_cnt = 5, err_rate = 1 / 8, succ_rate = 7 / 8,
     contin_err_limit = 3, contin_succ_limit = 3, local_ip = 0\<rparr>"

definition ex_rsp :: GetHostResponse where
  "ex_rsp = \<lparr>ghs_seq = 1, ghs_modid = 1, ghs_cmdid = 1, ghs_retcode = 0, ghs_host = None\<rparr>"

definition ex_key :: "addr \<Rightarrow> uint64" where
  "ex_key a = pack64 (of_nat a) 80"

definition ex_lb :: "addr list \<Rightarrow> addr list \<Rightarrow> load_balance" where
  "ex_lb idles overs = \<lparr>lb_modid = 1, lb_cmdid = 1, access_cnt = 0,
     host_map = map (\<lambda>a. (ex_key a, a)) (idles @ overs), idle_list = idles, overload_list = overs,
     status = NEW,
     lb_heap = (\<lambda>a. if a \<in> set idles then Some (new_host_info (of_nat a) 80 180)
                   else if a \<in> set overs then Some (set_overload ex_cfg (new_host_info (of_nat a) 80 180))
                   else None),
     lb_next = 10\<rparr>"

lemma ex_sel [simp]:
  "idle_list (ex_lb idles overs) = idles" "overload_list (ex_lb idles overs) = overs"
  "access_cnt (ex_lb idles overs) = 0" "lb_modid (ex_lb idles overs) = 1"
  "lb_empty (ex_lb idles overs) \<longleftrightarrow> idles @ overs = []"
  "probe_num ex_cfg = 2" "ghs_host ex_rsp = None"
  by (simp_all add: ex_lb_def ex_cfg_def ex_rsp_def lb_empty_def)

lemma host_at_ex [simp]: "a \<in> set idles \<union> set overs \<Longrightarrow>
    host_at (ex_lb idles overs) a = \<lparr>hinfo_ip = of_nat a, hinfo_port = 80\<rparr>"
  by (auto simp: host_at_def ex_lb_def new_host_info_def set_overload_def)

lemma ex_key_inj: "a < 10 \<Longrightarrow> b < 10 \<Longrightarrow> ex_key a = ex_key b \<longleftrightarrow> a = b"
  by (simp add: ex_key_def word_of_nat_eq_iff take_bit_nat_eq_self)

lemma map_of_keyed:
  "inj_on f (set xs) \<Longrightarrow> map_of (map (\<lambda>a. (f a, a)) xs) k = Some a \<longleftrightarrow> a \<in> set xs \<and> k = f a"
  by (induction xs) (auto simp: inj_on_def)

lemma lb_ok_ex:
  assumes "distinct (idles @ overs)" and "\<forall>a \<in> set (idles @ overs). a < 10"
  shows "lb_ok (ex_lb idles overs)" and "no_stale (ex_lb idles overs)"
    and "map_keys (ex_lb idles overs) = ex_key ` set (idles @ overs)"
proof -
  let ?xs = "idles @ overs"
  have inj: "inj_on ex_key (set ?xs)" using assms(2) ex_key_inj by (intro inj_onI) blast
  have keyed: "map_of (host_map (ex_lb idles overs)) k = Some a \<longleftrightarrow> a \<in> set ?xs \<and> k = ex_key a" for k a
    unfolding ex_lb_def using map_of_keyed [OF inj] by simp
  have heap: "lb_heap (ex_lb idles overs) a = Some h \<longleftrightarrow>
      a \<in> set idles \<and> h = new_host_info (of_nat a) 80 180 \<or>
      a \<in> set overs \<and> h = set_overload ex_cfg (new_host_info (of_nat a) 80 180)" for a h
    using assms(1) by (auto simp: ex_lb_def)
  have lists: "idle_list (ex_lb idles overs) = idles" "overload_list (ex_lb idles overs) = overs"
    "lb_next (ex_lb idles overs) = 10" by (simp_all add: ex_lb_def)
  have "hm_wf (host_map (ex_lb idles overs))"
    unfolding ex_lb_def using assms(1) inj by (simp only: load_balance.select_convs map_map comp_def
        fst_conv distinct_map simp_thms)
  then show ok: "lb_ok (ex_lb idles overs)"
    unfolding lb_ok_def keyed heap lists using assms inj
    by (auto simp: ex_key_def dest: inj_onD)
  show mk: "map_keys (ex_lb idles overs) = ex_key ` set ?xs"
    unfolding map_keys_def dom_def using keyed by auto
  have "live_keys (ex_lb idles overs) = ex_key ` set ?xs"
  proof (intro set_eqI iffI)
    fix k
    assume "k \<in> ex_key ` set ?xs"
    then obtain a where "a \<in> set ?xs" "k = ex_key a" by blast
    then have "\<exists>h. lb_heap (ex_lb idles overs) a = Some h \<and> k = hi_key h"
      unfolding heap by (auto simp: ex_key_def)
    then show "k \<in> live_keys (ex_lb idles overs)" by (auto simp: live_keys_def intro: ranI)
  qed (auto simp: live_keys_def ran_def heap ex_key_def)
  then show "no_stale (ex_lb idles overs)" by (simp add: no_stale_def mk)
qed

text \<open>A new balancer that merges an answer with two hosts and then gets a failure of the first, which overloads it.\<close>

theorem balancer_invariant_witness:
  "\<exists>lb lb'. lb_update (ex_cfg\<lparr>contin_err_limit := 1\<rparr>) [\<lparr>hinfo_ip = 1, hinfo_port = 80\<rparr>, \<lparr>hinfo_ip = 2, hinfo_port = 80\<rparr>]
      (new_load_balance 0 NEW 1 1) = Inr lb \<and>
    lb_report (ex_cfg\<lparr>contin_err_limit := 1\<rparr>) 1 80 7 lb = Inr lb' \<and> lb_ok lb' \<and>
    length (idle_list lb') = 1 \<and> length (overload_list lb') = 1"
proof -
  let ?cfg = "ex_cfg\<lparr>contin_err_limit := 1\<rparr>" and ?new = "new_load_balance 0 NEW 1 1"
  obtain lb lb' where run: "lb_update ?cfg [\<lparr>hinfo_ip = 1, hinfo_port = 80\<rparr>, \<lparr>hinfo_ip = 2, hinfo_port = 80\<rparr>] ?new = Inr lb"
      "lb_report ?cfg 1 80 7 lb = Inr lb'" "length (idle_list lb') = 1" "length (overload_list lb') = 1"
    by (simp add: lb_update_def new_load_balance_def update_insert_def need_delete_def update_delete_def lb_deref_def new_host_info_def
        Let_def host_key_def lb_report_def becomes_overload_def count_result_def lars_defs)
  then have "rtranclp (lb_step ?cfg) ?new lb'"
    by (meson converse_rtranclp_into_rtranclp r_into_rtranclp updated reported)
  then have "lb_ok lb'" by (rule balancer_invariant [rotated]) (auto simp: lb_initial_def)
  with run show ?thesis by blast
qed

theorem choice_answers_live_host_witness:
  "\<exists>ret lb' rsp'. choice_one_host ex_cfg (ex_lb [0, 1] [2]) ex_rsp = Inr (ret, lb', rsp') \<and>
    live_keys lb' = live_keys (ex_lb [0, 1] [2])"
  using choice_answers_live_host [OF lb_ok_ex(1), of "[0, 1]" "[2]" ex_cfg ex_rsp]
  by auto

theorem round_robin_witness:
  "choices ex_cfg ex_rsp 2 (ex_lb [0, 1] []) =
    Inr ([(0, Some \<lparr>hinfo_ip = 0, hinfo_port = 80\<rparr>), (0, Some \<lparr>hinfo_ip = 1, hinfo_port = 80\<rparr>)], ex_lb [0, 1] [])"
  using round_robin [OF lb_ok_ex(1), of "[0, 1]" "[]" ex_cfg ex_rsp]
  by (simp add: lars_defs numeral_2_eq_2 del: choices.simps)

theorem overload_probing_witness:
  "choices ex_cfg ex_rsp 6 (ex_lb [] [0, 1]) =
    Inr ([(1, None), (1, None), (0, Some \<lparr>hinfo_ip = 0, hinfo_port = 80\<rparr>),
          (1, None), (1, None), (0, Some \<lparr>hinfo_ip = 1, hinfo_port = 80\<rparr>)], ex_lb [] [0, 1])"
  using overload_probing [OF lb_ok_ex(1), of "[]" "[0, 1]" ex_cfg ex_rsp]
  by (simp add: lars_defs eval_nat_numeral del: choices.simps)

theorem mixed_choices_never_probe_witness:
  "\<exists>answers lb'. choices ex_cfg ex_rsp 9 (ex_lb [0, 1] [2]) = Inr (answers, lb') \<and>
    set answers \<subseteq> {(RET_SUCC, Some (host_at (ex_lb [0, 1] [2]) a)) | a. a \<in> {0, 1}}"
  using mixed_choices_never_probe [OF lb_ok_ex(1), of "[0, 1]" "[2]" ex_cfg ex_rsp 9]
  by simp

theorem mixed_choices_starve_first_witness:
  "choices ex_cfg ex_rsp 2 (ex_lb [0, 1] [2]) =
    Inr ([(0, Some \<lparr>hinfo_ip = 1, hinfo_port = 80\<rparr>), (0, Some \<lparr>hinfo_ip = 1, hinfo_port = 80\<rparr>)],
      (ex_lb [0, 1] [2])\<lparr>access_cnt := 2\<rparr>)"
  using mixed_choices_starve_first [OF lb_ok_ex(1), of "[0, 1]" "[2]" 0 1 2 ex_cfg ex_rsp]
  by (simp add: lars_defs numeral_2_eq_2 del: choices.simps)

theorem update_merges_answer_witness:
  "\<exists>lb'. lb_update ex_cfg [\<lparr>hinfo_ip = 1, hinfo_port = 80\<rparr>, \<lparr>hinfo_ip = 3, hinfo_port = 80\<rparr>]
      (ex_lb [0, 1] []) = Inr lb' \<and> dom (host_of lb') = {ex_key 1, ex_key 3}"
  using update_merges_answer [OF lb_ok_ex(1,2), of "[0, 1]" "[]"
      "[\<lparr>hinfo_ip = 1, hinfo_port = 80\<rparr>, \<lparr>hinfo_ip = 3, hinfo_port = 80\<rparr>]" ex_cfg]
  by (auto simp: ex_key_def host_key_def)

theorem dropped_host_stays_stale_witness:
  "\<exists>lb'. lb_update ex_cfg [\<lparr>hinfo_ip = 1, hinfo_port = 80\<rparr>] (ex_lb [0, 1] []) = Inr lb' \<and>
    lb_report ex_cfg 0 80 7 lb' = Inl Dangling"
proof -
  have ok: "lb_ok (ex_lb [0, 1] [])" "no_stale (ex_lb [0, 1] [])"
    "map_keys (ex_lb [0, 1] []) = {ex_key 0, ex_key 1}"
    using lb_ok_ex [of "[0, 1]" "[]"] by simp_all
  obtain lb' where upd: "lb_update ex_cfg [\<lparr>hinfo_ip = 1, hinfo_port = 80\<rparr>] (ex_lb [0, 1] []) = Inr lb'"
    using lb_update_clean [OF ok(1,2), of "[\<lparr>hinfo_ip = 1, hinfo_port = 80\<rparr>]" ex_cfg] by auto
  have "lb_report ex_cfg 0 80 7 lb' = Inl Dangling"
    using dropped_host_stays_stale [OF ok(1,2) upd, of 0 80 7 "[]"]
    by (simp del: One_nat_def add: ok(3) ex_key_def host_key_def)
  then show ?thesis using upd by blast
qed


lemma host_of_ex0: "host_of (ex_lb [0] []) (pack64 0 80) = Some (new_host_info 0 80 180)"
  by (simp add: ex_lb_def ex_key_def host_of_def)

text \<open>One failure of 181 calls only counts; with the limit 1 the run of one failure reaches it and overloads the host.\<close>

theorem report_transitions_witness:
  "let cfg = ex_cfg\<lparr>contin_err_limit := 1\<rparr>; h = new_host_info 0 80 180 in
   (\<exists>lb'. lb_report ex_cfg 0 80 7 (ex_lb [0] []) = Inr lb' \<and> host_of lb' (pack64 0 80) = Some (count_result 7 h)) \<and>
   (\<exists>lb'. lb_report cfg 0 80 7 (ex_lb [0] []) = Inr lb' \<and> host_of lb' (pack64 0 80) = Some (set_overload cfg h))"
proof -
  have "\<not> overload (new_host_info 0 80 180)" "unat (vsucc (new_host_info 0 80 180)) = 180"
    "unat (verr (new_host_info 0 80 180)) = 0" "contin_err (new_host_info 0 80 180) = 0"
    by (simp_all add: new_host_info_def)
  moreover have "err_rate ex_cfg = 1 / 8" "succ_rate ex_cfg = 7 / 8" "contin_err_limit ex_cfg = 3"
    by (simp_all add: ex_cfg_def)
  ultimately show ?thesis
    using report_transitions [OF lb_ok_ex(1) host_of_ex0, of ex_cfg "2 ^ 25" "7 * 2 ^ 25" 7]
      report_transitions [OF lb_ok_ex(1) host_of_ex0, of "ex_cfg\<lparr>contin_err_limit := 1\<rparr>" "2 ^ 25" "7 * 2 ^ 25" 7]
    by (auto simp: lars_defs word_le_nat_alt)
qed

theorem commit_reports_each_host_witness:
  "\<exists>req. commit ex_cfg 5 (ex_lb [0] [1]) (Some \<lparr>tq_evfd = 3, tq_count = 0, tq_loop = None, tq_queue = []\<rparr>) =
      Inr (Some (tq_send req \<lparr>tq_evfd = 3, tq_count = 0, tq_loop = None, tq_queue = []\<rparr>)) \<and> rsr_modid req = 1"
  using commit_reports_each_host [OF lb_ok_ex(1), of "[0]" "[1]" ex_cfg 5
      "\<lparr>tq_evfd = 3, tq_count = 0, tq_loop = None, tq_queue = []\<rparr>"]
  by auto

end
