(* ===== verification/Route_LB.thy ===== *)
theory Route_LB
  imports Load_Balance_Props
begin

text \<open>
  \<open>route_lb\<close> (\<open>lars_lb_agent/src/route_lb.cpp\<close>): the balancers of the modid/cmdid pairs one agent UDP
  server looks after. Every operation runs under the object's mutex, so it is one atomic step. The map
  holds pointers, each reached from one key only; the model keeps the balancer itself at its key.
\<close>

subsection \<open>State and operations\<close>

record route_lb =
  route_lb_map :: "(uint64, load_balance) hmap"
  rl_id :: int32

definition new_route_lb :: "int32 \<Rightarrow> route_lb" where
  "new_route_lb i = \<lparr>route_lb_map = [], rl_id = i\<rparr>"

definition rl_find :: "route_lb \<Rightarrow> int32 \<Rightarrow> int32 \<Rightarrow> load_balance option" where
  "rl_find rl modid cmdid = map_of (route_lb_map rl) (pack64 modid cmdid)"

definition rl_store :: "int32 \<Rightarrow> int32 \<Rightarrow> load_balance \<Rightarrow> route_lb \<Rightarrow> route_lb" where
  "rl_store modid cmdid lb rl =
     rl\<lparr>route_lb_map := AList.update (pack64 modid cmdid) lb (route_lb_map rl)\<rparr>"

text \<open>
  \<open>get_host\<close>; the first two arguments after the configuration are what the memory of a new balancer
  holds in the two fields its constructor leaves alone.
\<close>

definition get_host :: "load_balance_config \<Rightarrow> int32 \<Rightarrow> STATUS \<Rightarrow> int32 \<Rightarrow> int32 \<Rightarrow> GetHostResponse \<Rightarrow>
    route_lb \<Rightarrow> GetRouteRequest thread_queue option \<Rightarrow>
    (int32 \<times> GetHostResponse \<times> route_lb \<times> GetRouteRequest thread_queue option) res" where
  "get_host cfg garbage_cnt garbage_status modid cmdid rsp rl dns_queue =
     (case rl_find rl modid cmdid of
        Some lb \<Rightarrow>
          if lb_empty lb then
            (if status lb = PULLING
             then Inr (RET_SUCC, rsp\<lparr>ghs_retcode := RET_NOEXIST\<rparr>, rl, dns_queue)
             else Inl Assert_Failed)
          else res_bind (choice_one_host cfg lb rsp) (\<lambda>(ret, lb, rsp).
            Inr (ret, rsp\<lparr>ghs_retcode := ret\<rparr>, rl_store modid cmdid lb rl, dns_queue))
      | None \<Rightarrow>
          res_bind (pull (new_load_balance garbage_cnt garbage_status modid cmdid) dns_queue)
            (\<lambda>(_, lb, dns_queue).
              Inr (RET_NOEXIST, rsp\<lparr>ghs_retcode := RET_NOEXIST\<rparr>, rl_store modid cmdid lb rl, dns_queue)))"

definition update_host :: "load_balance_config \<Rightarrow> int32 \<Rightarrow> int32 \<Rightarrow> GetRouteResponse \<Rightarrow> route_lb \<Rightarrow>
    (int32 \<times> route_lb) res" where
  "update_host cfg modid cmdid rsp rl =
     (case rl_find rl modid cmdid of
        None \<Rightarrow> Inr (0, rl)
      | Some lb \<Rightarrow>
          if length (grs_host rsp) = 0
          then Inr (0, rl\<lparr>route_lb_map := AList.delete (pack64 modid cmdid) (route_lb_map rl)\<rparr>)
          else res_bind (lb_update cfg (grs_host rsp) lb) (\<lambda>lb. Inr (0, rl_store modid cmdid lb rl)))"

definition report_host :: "load_balance_config \<Rightarrow> uint64 \<Rightarrow> ReportRequest \<Rightarrow> route_lb \<Rightarrow>
    ReportStatusRequest thread_queue option \<Rightarrow>
    (route_lb \<times> ReportStatusRequest thread_queue option) res" where
  "report_host cfg now req rl report_queue =
     (let modid = rrq_modid req; cmdid = rrq_cmdid req; retcode = rrq_retcode req;
          ip = hinfo_ip (get_host_field (rrq_host req)); port = hinfo_port (get_host_field (rrq_host req))
      in case rl_find rl modid cmdid of
           None \<Rightarrow> Inr (rl, report_queue)
         | Some lb \<Rightarrow>
             res_bind (lb_report cfg ip port retcode lb) (\<lambda>lb.
               res_bind (commit cfg now lb report_queue) (\<lambda>report_queue.
                 Inr (rl_store modid cmdid lb rl, report_queue))))"

subsection \<open>The invariant\<close>

text \<open>
  Each balancer is stored under its own identifiers, keeps its invariant, and has been marked as
  pulling, the mark nothing ever takes back.
\<close>

definition rl_ok :: "route_lb \<Rightarrow> bool" where
  "rl_ok rl \<longleftrightarrow> hm_wf (route_lb_map rl) \<and>
     (\<forall>k lb. map_of (route_lb_map rl) k = Some lb \<longrightarrow>
        k = pack64 (lb_modid lb) (lb_cmdid lb) \<and> lb_ok lb \<and> status lb = PULLING)"

definition lb_fixed :: "load_balance \<Rightarrow> load_balance \<Rightarrow> bool" where
  "lb_fixed lb lb' \<longleftrightarrow> lb_modid lb' = lb_modid lb \<and> lb_cmdid lb' = lb_cmdid lb \<and> status lb' = status lb"

lemma lb_fixed_refl [simp]: "lb_fixed lb lb"
  by (simp add: lb_fixed_def)

lemma lb_fixed_trans: "lb_fixed a b \<Longrightarrow> lb_fixed b c \<Longrightarrow> lb_fixed a c"
  by (simp add: lb_fixed_def)

lemma lb_fixed_insert: "lb_fixed lb (update_insert cfg h lb)"
  by (simp add: lb_fixed_def update_insert_def Let_def)

lemma lb_fixed_fold_insert: "lb_fixed lb (fold (update_insert cfg) hs lb)"
  by (induction hs arbitrary: lb) (auto intro: lb_fixed_trans lb_fixed_insert)

lemma lb_fixed_delete: "update_delete k lb = Inr lb' \<Longrightarrow> lb_fixed lb lb'"
  by (auto simp: update_delete_def lb_fixed_def Let_def res_bind_eq_Inr split: option.splits)

lemma lb_fixed_update:
  assumes "lb_update cfg hosts lb = Inr lb'"
  shows "lb_fixed lb lb'"
proof -
  have "res_fold update_delete (need_delete (map host_key hosts) (fold (update_insert cfg) hosts lb))
      (fold (update_insert cfg) hosts lb) = Inr lb'"
    using assms by (simp add: lb_update_def Let_def split: if_splits)
  then show ?thesis
    by (rule res_fold_invariant [where P = "lb_fixed lb", rotated 2])
      (auto intro: lb_fixed_fold_insert lb_fixed_trans lb_fixed_delete)
qed

lemma lb_fixed_report: "lb_report cfg ip port ret lb = Inr lb' \<Longrightarrow> lb_fixed lb lb'"
  by (auto simp: lb_report_def lb_fixed_def Let_def res_bind_eq_Inr split: option.splits if_splits)

lemma lb_fixed_from:
  "from_idle (lb, rsp) = Inr (lb', rsp') \<Longrightarrow> lb_fixed lb lb'"
  "from_overload (lb, rsp) = Inr (lb', rsp') \<Longrightarrow> lb_fixed lb lb'"
  by (auto simp: from_idle_def from_overload_def lb_fixed_def res_bind_eq_Inr)

lemma lb_fixed_choice: "choice_one_host cfg lb rsp = Inr (ret, lb', rsp') \<Longrightarrow> lb_fixed lb lb'"
  unfolding choice_one_host_def
  by (auto simp: res_bind_eq_Inr split: if_splits dest!: lb_fixed_from) (auto simp: lb_fixed_def)

lemma rl_find_store [simp]:
  "rl_find (rl_store m c lb rl) m' c' = (if m = m' \<and> c = c' then Some lb else rl_find rl m' c')"
  by (auto simp: rl_find_def rl_store_def)

lemma rl_ok_find: "rl_ok rl \<Longrightarrow> rl_find rl m c = Some lb \<Longrightarrow>
    lb_ok lb \<and> status lb = PULLING \<and> lb_modid lb = m \<and> lb_cmdid lb = c"
  unfolding rl_ok_def rl_find_def by (metis pack64_inject)

lemma rl_ok_store:
  "rl_ok rl \<Longrightarrow> lb_ok lb \<Longrightarrow> status lb = PULLING \<Longrightarrow> lb_modid lb = m \<Longrightarrow> lb_cmdid lb = c \<Longrightarrow>
   rl_ok (rl_store m c lb rl)"
  by (auto simp: rl_ok_def rl_store_def split: if_splits)

lemma rl_ok_new: "rl_ok (new_route_lb i)"
  by (simp add: rl_ok_def new_route_lb_def)

lemma rl_ok_get_host:
  assumes "rl_ok rl" and "get_host cfg g st m c rsp rl q = Inr (ret, rsp', rl', q')"
  shows "rl_ok rl'"
proof (cases "rl_find rl m c")
  case None
  then show ?thesis
    using assms by (auto simp: get_host_def pull_def res_bind_eq_Inr Let_def lb_ok_rotate(4)
        new_load_balance_def intro!: rl_ok_store lb_ok_rotate(4) lb_ok_new [unfolded new_load_balance_def])
next
  case (Some lb)
  note lb = rl_ok_find [OF assms(1) Some]
  show ?thesis
  proof (cases "lb_empty lb")
    case True
    then show ?thesis using assms lb Some by (simp add: get_host_def)
  next
    case False
    then obtain lb' rsp1 where "choice_one_host cfg lb rsp = Inr (ret, lb', rsp1)"
        "rl' = rl_store m c lb' rl"
      using assms(2) Some by (auto simp: get_host_def res_bind_eq_Inr)
    then show ?thesis
      using lb choice_keeps_ok(1) lb_fixed_choice
      by (auto simp: lb_fixed_def intro!: rl_ok_store [OF assms(1)])
  qed
qed

lemma rl_ok_update_host:
  assumes "rl_ok rl" and "update_host cfg m c rsp rl = Inr (ret, rl')"
  shows "rl_ok rl'"
proof (cases "rl_find rl m c")
  case None
  then show ?thesis using assms by (simp add: update_host_def)
next
  case (Some lb)
  show ?thesis
  proof (cases "grs_host rsp = []")
    case True
    then show ?thesis using assms Some by (auto simp: update_host_def rl_ok_def split: if_splits)
  next
    case False
    then obtain lb' where "lb_update cfg (grs_host rsp) lb = Inr lb'" "rl' = rl_store m c lb' rl"
      using assms(2) Some by (auto simp: update_host_def res_bind_eq_Inr)
    then show ?thesis
      using rl_ok_find [OF assms(1) Some] lb_update_keeps_ok lb_fixed_update
      by (auto simp: lb_fixed_def intro!: rl_ok_store [OF assms(1)])
  qed
qed

lemma rl_ok_report_host:
  assumes "rl_ok rl" and "report_host cfg now req rl q = Inr (rl', q')"
  shows "rl_ok rl'"
proof (cases "rl_find rl (rrq_modid req) (rrq_cmdid req)")
  case None
  then show ?thesis using assms by (simp add: report_host_def Let_def)
next
  case (Some lb)
  then obtain lb' ip port where "lb_report cfg ip port (rrq_retcode req) lb = Inr lb'"
      "rl' = rl_store (rrq_modid req) (rrq_cmdid req) lb' rl"
    using assms(2) by (auto simp: report_host_def Let_def res_bind_eq_Inr)
  then show ?thesis
    using rl_ok_find [OF assms(1) Some] lb_report_keeps_ok lb_fixed_report
    by (auto simp: lb_fixed_def intro!: rl_ok_store [OF assms(1)])
qed

subsection \<open>What a request can fail with\<close>

lemma choice_fault:
  assumes "lb_ok lb" and "choice_one_host cfg lb rsp = Inl e"
  shows "e = Empty_Front \<and> idle_list lb = [] \<and> overload_list lb = []"
proof -
  have "\<not> (idle_list lb \<noteq> [] \<or> overload_list lb \<noteq> [])"
    using choice_live [OF assms(1), of cfg rsp] assms(2) by force
  then show ?thesis using assms(2)
    by (auto simp: choice_one_host_def from_overload_def get_host_from_list_def split: if_splits)
qed

text \<open>
  The assertion of \<open>get_host\<close> holds: a request fails only by taking the front of an empty list, or
  because the queue to the DNS client does not exist yet.
\<close>

lemma get_host_fault:
  assumes ok: "rl_ok rl" and "get_host cfg g st modid cmdid rsp rl q = Inl e"
  shows "e = Null_Deref \<and> q = None \<and> rl_find rl modid cmdid = None \<or>
    e = Empty_Front \<and> rl_find rl modid cmdid \<noteq> None"
proof (cases "rl_find rl modid cmdid")
  case None
  then show ?thesis using assms(2)
    by (auto simp: get_host_def pull_def Let_def send_queue_def split: option.splits)
next
  case (Some lb)
  show ?thesis
    using rl_ok_find [OF ok Some] Some assms(2) choice_fault [of lb cfg rsp e]
    by (auto simp: get_host_def res_bind_eq_Inl split: if_splits)
qed

text \<open>
  The first request for an unknown pair is answered with \<open>RET_NOEXIST\<close> and asks the DNS service
  for the pair's route, exactly once: until a route answer for the pair arrives, every further request
  is answered \<open>RET_NOEXIST\<close> as well and asks nothing. (The value \<open>get_host\<close> returns then is
  \<open>RET_SUCC\<close>, unlike the one in the response; its caller ignores it.)
\<close>

theorem unknown_route_pulled_once:
  assumes "rl_find rl modid cmdid = None"
  shows "\<exists>rl'. get_host cfg g st modid cmdid rsp rl (Some q) = Inr (RET_NOEXIST,
      rsp\<lparr>ghs_retcode := RET_NOEXIST\<rparr>, rl', Some (tq_send \<lparr>grq_modid = modid, grq_cmdid = cmdid\<rparr> q)) \<and>
    (\<forall>g st rsp q. get_host cfg g st modid cmdid rsp rl' q =
      Inr (RET_SUCC, rsp\<lparr>ghs_retcode := RET_NOEXIST\<rparr>, rl', q))"
  using assms
  by (auto simp: get_host_def pull_def Let_def send_queue_def lb_empty_def new_load_balance_def)

subsection \<open>From the first request to the hosts\<close>

lemma update_insert_fresh:
  assumes "lb_ok lb" and "host_key h \<notin> map_keys lb"
  shows "map (host_at (update_insert cfg h lb)) (idle_list (update_insert cfg h lb)) =
      map (host_at lb) (idle_list lb) @ [h]"
    and "overload_list (update_insert cfg h lb) = overload_list lb"
    and "access_cnt (update_insert cfg h lb) = access_cnt lb"
proof -
  have new: "map_of (host_map lb) (host_key h) = None" using assms(2) by (auto simp: map_keys_def)
  have "lb_next lb \<notin> set (idle_list lb)"
    using lb_ok_fresh [OF assms(1), of "lb_next lb"] lb_okD(5) [OF assms(1)] by simp
  then show "map (host_at (update_insert cfg h lb)) (idle_list (update_insert cfg h lb)) =
      map (host_at lb) (idle_list lb) @ [h]"
    using new by (auto simp: update_insert_def Let_def host_at_def new_host_info_def)
  show "overload_list (update_insert cfg h lb) = overload_list lb"
    "access_cnt (update_insert cfg h lb) = access_cnt lb"
    using new by (simp_all add: update_insert_def Let_def)
qed

lemma fold_insert_fresh:
  assumes "lb_ok lb" and "distinct hosts" and "host_key ` set hosts \<inter> map_keys lb = {}"
  shows "map (host_at (fold (update_insert cfg) hosts lb)) (idle_list (fold (update_insert cfg) hosts lb)) =
      map (host_at lb) (idle_list lb) @ hosts \<and>
    overload_list (fold (update_insert cfg) hosts lb) = overload_list lb"
  using assms
proof (induction hosts arbitrary: lb)
  case (Cons h hosts)
  note one = update_insert_ok [OF Cons.prems(1), of cfg h]
  have new: "host_key h \<notin> map_keys lb" using Cons.prems(3) by auto
  have "host_key ` set hosts \<inter> map_keys (update_insert cfg h lb) = {}"
    using Cons.prems(2,3) by (auto simp: one(2))
  then show ?case
    using Cons.IH [OF one(1)] Cons.prems(2) update_insert_fresh [OF Cons.prems(1) new] by simp
qed simp

lemma lb_update_fresh:
  assumes "lb_ok lb" and "host_map lb = []" and "idle_list lb = []" and "overload_list lb = []"
    and "distinct hosts" and "hosts \<noteq> []"
  shows "\<exists>lb'. lb_update cfg hosts lb = Inr lb' \<and> lb_ok lb' \<and>
    map (host_at lb') (idle_list lb') = hosts \<and> overload_list lb' = [] \<and> \<not> lb_empty lb'"
proof -
  let ?lb = "fold (update_insert cfg) hosts lb"
  have none: "map_keys lb = {}" using assms(2) by (simp add: map_keys_def)
  have keys: "map_keys ?lb = host_key ` set hosts"
    using fold_insert_ok(2) [OF assms(1)] none by simp
  then have "need_delete (map host_key hosts) ?lb = []"
    using set_need_delete [of "map host_key hosts" ?lb] by simp
  moreover have "host_map ?lb \<noteq> []" using keys assms(6) by (auto simp: map_keys_def)
  ultimately show ?thesis
    using fold_insert_fresh [OF assms(1,5), of cfg] none assms(3,4,6) fold_insert_ok(1) [OF assms(1)]
    by (auto simp: lb_update_def Let_def lb_empty_def)
qed

text \<open>The answers of a balancer's route to \<open>n\<close> requests in a row.\<close>

fun get_hosts :: "load_balance_config \<Rightarrow> int32 \<Rightarrow> int32 \<Rightarrow> GetHostResponse \<Rightarrow> nat \<Rightarrow> route_lb \<Rightarrow>
    GetRouteRequest thread_queue option \<Rightarrow>
    (GetHostResponse list \<times> route_lb \<times> GetRouteRequest thread_queue option) res" where
  "get_hosts cfg m c rsp 0 rl q = Inr ([], rl, q)"
| "get_hosts cfg m c rsp (Suc n) rl q =
     res_bind (get_host cfg 0 NEW m c rsp rl q) (\<lambda>(_, rsp', rl, q).
       res_bind (get_hosts cfg m c rsp n rl q) (\<lambda>(rsps, rl, q). Inr (rsp' # rsps, rl, q)))"

lemma get_hosts_idle:
  assumes "rl_find rl m c = Some lb" and "lb_ok lb" and "overload_list lb = []"
    and "idle_list lb = xs @ ys" and "\<not> lb_empty lb"
  shows "\<exists>rl'. get_hosts cfg m c rsp (length xs) rl q = Inr (map (\<lambda>a.
    rsp\<lparr>ghs_retcode := RET_SUCC, ghs_host := Some (host_at lb a)\<rparr>) xs, rl', q)"
  using assms
proof (induction xs arbitrary: rl lb ys)
  case (Cons x xs)
  have choice: "choice_one_host cfg lb rsp = Inr (RET_SUCC, lb\<lparr>idle_list := (xs @ ys) @ [x]\<rparr>,
      rsp\<lparr>ghs_host := Some (host_at lb x)\<rparr>)"
    using choice_idle [OF Cons.prems(2), of cfg rsp] Cons.prems(3,4) by simp
  let ?lb = "lb\<lparr>idle_list := (xs @ ys) @ [x]\<rparr>" and ?rl = "rl_store m c (lb\<lparr>idle_list := (xs @ ys) @ [x]\<rparr>) rl"
  have one: "get_host cfg 0 NEW m c rsp rl q =
      Inr (RET_SUCC, rsp\<lparr>ghs_retcode := RET_SUCC, ghs_host := Some (host_at lb x)\<rparr>, ?rl, q)"
    using Cons.prems(1,5) choice by (simp add: get_host_def)
  have "\<exists>rl'. get_hosts cfg m c rsp (length xs) ?rl q = Inr (map (\<lambda>a.
      rsp\<lparr>ghs_retcode := RET_SUCC, ghs_host := Some (host_at ?lb a)\<rparr>) xs, rl', q)"
  proof (rule Cons.IH [of _ _ "ys @ [x]"])
    show "lb_ok ?lb" using lb_ok_rotate(1) [OF Cons.prems(2)] Cons.prems(4) by simp
    show "\<not> lb_empty ?lb" using Cons.prems(5) by (simp add: lb_empty_def)
  qed (use Cons.prems in simp_all)
  then show ?case using one by auto
qed simp

lemma first_request_to_hosts:
  assumes "rl_find rl modid cmdid = None" and "distinct (grs_host answer)" and "grs_host answer \<noteq> []"
  shows "\<exists>rl1 rl2 rl3. get_host cfg g st modid cmdid rsp rl (Some q) =
      Inr (RET_NOEXIST, rsp\<lparr>ghs_retcode := RET_NOEXIST\<rparr>, rl1, Some (tq_send \<lparr>grq_modid = modid, grq_cmdid = cmdid\<rparr> q)) \<and>
    update_host cfg modid cmdid answer rl1 = Inr (0, rl2) \<and>
    get_hosts cfg modid cmdid rsp (length (grs_host answer)) rl2 q' = Inr (map (\<lambda>h.
      rsp\<lparr>ghs_retcode := RET_SUCC, ghs_host := Some h\<rparr>) (grs_host answer), rl3, q')"
proof -
  let ?lb = "(new_load_balance g st modid cmdid)\<lparr>status := PULLING\<rparr>" and ?hosts = "grs_host answer"
  let ?rl1 = "rl_store modid cmdid ?lb rl"
  have ok: "lb_ok ?lb" by (rule lb_ok_rotate(4) [OF lb_ok_new])
  have "host_map ?lb = []" "idle_list ?lb = []" "overload_list ?lb = []"
    by (simp_all add: new_load_balance_def)
  from lb_update_fresh [OF ok this assms(2,3), of cfg] obtain lb' where
    upd: "lb_update cfg ?hosts ?lb = Inr lb'" and lb': "lb_ok lb'" "overload_list lb' = []" "\<not> lb_empty lb'"
    and order: "map (host_at lb') (idle_list lb') = ?hosts" by blast
  have len: "length ?hosts = length (idle_list lb')" using order by (metis length_map)
  let ?rl2 = "rl_store modid cmdid lb' ?rl1"
  have get: "get_host cfg g st modid cmdid rsp rl (Some q) =
      Inr (RET_NOEXIST, rsp\<lparr>ghs_retcode := RET_NOEXIST\<rparr>, ?rl1,
        Some (tq_send \<lparr>grq_modid = modid, grq_cmdid = cmdid\<rparr> q))"
    using assms(1) by (simp add: get_host_def pull_def Let_def send_queue_def new_load_balance_def)
  have up: "update_host cfg modid cmdid answer ?rl1 = Inr (0, ?rl2)"
    using assms(3) upd by (simp add: update_host_def)
  obtain rl3 where "get_hosts cfg modid cmdid rsp (length (idle_list lb')) ?rl2 q' = Inr (map (\<lambda>a.
      rsp\<lparr>ghs_retcode := RET_SUCC, ghs_host := Some (host_at lb' a)\<rparr>) (idle_list lb'), rl3, q')"
    using get_hosts_idle [of ?rl2 modid cmdid lb' "idle_list lb'" "[]" cfg rsp q'] lb' by auto
  moreover have "map (\<lambda>a. rsp\<lparr>ghs_retcode := RET_SUCC, ghs_host := Some (host_at lb' a)\<rparr>) (idle_list lb') =
      map (\<lambda>h. rsp\<lparr>ghs_retcode := RET_SUCC, ghs_host := Some h\<rparr>) (map (host_at lb') (idle_list lb'))"
    by simp
  ultimately show ?thesis using get up by (simp only: order len) blast
qed

subsection \<open>Independence of the pairs\<close>

lemma rl_find_delete: "rl_find (rl\<lparr>route_lb_map := AList.delete (pack64 m c) (route_lb_map rl)\<rparr>) m' c' =
    (if m = m' \<and> c = c' then None else rl_find rl m' c')"
  by (auto simp: rl_find_def)

text \<open>
  The operations for one modid/cmdid pair leave the balancer of every other pair as it is,
  negative identifiers included.
\<close>

theorem pairs_independent:
  assumes "(modid', cmdid') \<noteq> (modid, cmdid)"
  shows "(\<forall>ret rsp' rl' q'. get_host cfg g st modid cmdid rsp rl q = Inr (ret, rsp', rl', q') \<longrightarrow>
      rl_find rl' modid' cmdid' = rl_find rl modid' cmdid') \<and>
    (\<forall>ret rl'. update_host cfg modid cmdid answer rl = Inr (ret, rl') \<longrightarrow>
      rl_find rl' modid' cmdid' = rl_find rl modid' cmdid') \<and>
    (\<forall>rl' r'. rrq_modid req = modid \<longrightarrow> rrq_cmdid req = cmdid \<longrightarrow>
      report_host cfg now req rl r = Inr (rl', r') \<longrightarrow>
      rl_find rl' modid' cmdid' = rl_find rl modid' cmdid')"
  using assms
  by (auto simp: get_host_def update_host_def report_host_def Let_def res_bind_eq_Inr rl_find_delete
      split: option.splits if_splits)

subsection \<open>Concrete runs\<close>

definition ex_dns_queue :: "GetRouteRequest thread_queue" where
  "ex_dns_queue = \<lparr>tq_evfd = 3, tq_count = 0, tq_loop = None, tq_queue = []\<rparr>"

theorem unknown_route_pulled_once_witness:
  "\<exists>rl'. get_host ex_cfg 0 NEW 1 2 ex_rsp rl' None = Inr (RET_SUCC, ex_rsp\<lparr>ghs_retcode := 3\<rparr>, rl', None)"
proof -
  have "rl_find (new_route_lb 1) 1 2 = None" by (simp add: rl_find_def new_route_lb_def)
  from unknown_route_pulled_once [OF this, of ex_cfg 0 NEW ex_rsp ex_dns_queue]
  show ?thesis unfolding lars_defs by blast
qed

theorem pairs_independent_witness:
  "\<exists>rl'. get_host ex_cfg 0 NEW (- 1) (- 1) ex_rsp (new_route_lb 1) (Some ex_dns_queue) =
      Inr (RET_NOEXIST, ex_rsp\<lparr>ghs_retcode := RET_NOEXIST\<rparr>, rl',
        Some (tq_send \<lparr>grq_modid = - 1, grq_cmdid = - 1\<rparr> ex_dns_queue)) \<and> rl_find rl' 1 2 = None"
proof -
  have "\<exists>rl'. get_host ex_cfg 0 NEW (- 1) (- 1) ex_rsp (new_route_lb 1) (Some ex_dns_queue) =
      Inr (RET_NOEXIST, ex_rsp\<lparr>ghs_retcode := RET_NOEXIST\<rparr>, rl',
        Some (tq_send \<lparr>grq_modid = - 1, grq_cmdid = - 1\<rparr> ex_dns_queue))"
    by (simp add: get_host_def rl_find_def new_route_lb_def pull_def send_queue_def new_load_balance_def)
  moreover have "rl_find (new_route_lb 1) 1 2 = None" by (simp add: rl_find_def new_route_lb_def)
  ultimately show ?thesis
    using pairs_independent [of 1 2 "- 1" "- 1" ex_cfg 0 NEW ex_rsp "new_route_lb 1" "Some ex_dns_queue"]
    by fastforce
qed

end
