(* ===== verification/Lb_Agent.thy ===== *)
theory Lb_Agent
  imports Route_LB Config_File
begin

text \<open>
  The load balancing agent (\<open>lars_lb_agent\<close>): \<open>main\<close>, three UDP servers with one \<open>route_lb\<close> each, and
  the two client threads that drain the queues to the DNS and the reporter service. The handlers get
  the parsed message; what \<open>send_message\<close> of a client does is the argument \<open>send\<close>, and the message's
  wire form the argument \<open>ser\<close>.
\<close>

subsection \<open>The process\<close>

datatype main_pc = Not_Started | Initialised | Servers_Started | Report_Started | Running

record agent =
  lb_config :: load_balance_config
  r_lb :: "route_lb option list"
  report_queue :: "ReportStatusRequest thread_queue option"
  dns_queue :: "GetRouteRequest thread_queue option"
  ag_pc :: main_pc

text \<open>The globals before \<open>main\<close>: zero, null pointers.\<close>

definition new_agent :: agent where
  "new_agent =
     \<lparr>lb_config = \<lparr>probe_num = 0, init_succ_cnt = 0, init_err_cnt = 0, err_rate = 0, succ_rate = 0,
                   contin_err_limit = 0, contin_succ_limit = 0, local_ip = 0\<rparr>,
      r_lb = replicate 3 None, report_queue = None, dns_queue = None, ag_pc = Not_Started\<rparr>"

definition create_route_lb :: "agent \<Rightarrow> agent" where
  "create_route_lb ag = ag\<lparr>r_lb := map (\<lambda>i. Some (new_route_lb (of_nat i + 1))) [0..<3]\<rparr>"

text \<open>
  \<open>init_lb_agent\<close>; \<open>file\<close> is the content of \<open>conf/lars_agent.conf\<close>, \<open>host_addr\<close> the address
  \<open>gethostname\<close> and \<open>gethostbyname\<close> find, if any.
\<close>

definition init_lb_agent :: "(rat \<Rightarrow> string) \<Rightarrow> (string \<Rightarrow> rat option) \<Rightarrow> string option \<Rightarrow>
    sections option \<Rightarrow> uint32 option \<Rightarrow> agent \<Rightarrow> (agent \<times> sections) res" where
  "init_lb_agent show_float read_float file config host_addr ag =
     res_bind (setPath file config) (\<lambda>(_, config).
       res_bind (config_instance config) (\<lambda>c.
         (let cfg = (lb_config ag)
                \<lparr>probe_num := GetNumber c ''loadbalance'' ''probe_num'' 10,
                 init_succ_cnt := GetNumber c ''loadbalance'' ''init_succ_cnt'' 180,
                 err_rate := GetFloat show_float read_float c ''loadbalance'' ''err_rate'' (1 / 10),
                 succ_rate := GetFloat show_float read_float c ''loadbalance'' ''succ_rate'' (92 / 100),
                 contin_succ_limit := GetNumber c ''loadbalance'' ''contin_succ_limit'' 10,
                 contin_err_limit := GetNumber c ''loadbalance'' ''contin_err_limit'' 10\<rparr>;
              ag = create_route_lb ag;
              cfg = (case host_addr of None \<Rightarrow> cfg | Some ip \<Rightarrow> cfg\<lparr>local_ip := ip\<rparr>);
              cfg = (if local_ip cfg = 0 then cfg\<lparr>local_ip := 0x7F000001\<rparr> else cfg)
          in Inr (ag\<lparr>lb_config := cfg\<rparr>, c))))"

subsection \<open>The UDP servers\<close>

text \<open>
  Server \<open>i\<close> listens on port \<open>8888 + i\<close> and its handlers get \<open>r_lb[port - 8888]\<close>.
\<close>

definition route_lb_at :: "int \<Rightarrow> agent \<Rightarrow> route_lb res" where
  "route_lb_at i ag =
     (if i < 0 \<or> int (length (r_lb ag)) \<le> i then Inl Out_Of_Bounds
      else case r_lb ag ! nat i of None \<Rightarrow> Inl Null_Deref | Some rl \<Rightarrow> Inr rl)"

definition set_route_lb :: "int \<Rightarrow> route_lb \<Rightarrow> agent \<Rightarrow> agent" where
  "set_route_lb i rl ag = ag\<lparr>r_lb := (r_lb ag)[nat i := Some rl]\<rparr>"

definition get_host_cb :: "int32 \<Rightarrow> STATUS \<Rightarrow> int \<Rightarrow> GetHostRequest \<Rightarrow> agent \<Rightarrow>
    (GetHostResponse \<times> agent) res" where
  "get_host_cb garbage_cnt garbage_status i req ag =
     (let rsp = \<lparr>ghs_seq = ghq_seq req, ghs_modid = ghq_modid req, ghs_cmdid = ghq_cmdid req,
                 ghs_retcode = 0, ghs_host = None\<rparr>
      in res_bind (route_lb_at i ag) (\<lambda>rl.
           res_bind (get_host (lb_config ag) garbage_cnt garbage_status (ghq_modid req) (ghq_cmdid req)
               rsp rl (dns_queue ag)) (\<lambda>(_, rsp, rl, q).
             Inr (rsp, (set_route_lb i rl ag)\<lparr>dns_queue := q\<rparr>))))"

definition report_cb :: "uint64 \<Rightarrow> int \<Rightarrow> ReportRequest \<Rightarrow> agent \<Rightarrow> agent res" where
  "report_cb now i req ag =
     res_bind (route_lb_at i ag) (\<lambda>rl.
       res_bind (report_host (lb_config ag) now req rl (report_queue ag)) (\<lambda>(rl, q).
         Inr ((set_route_lb i rl ag)\<lparr>report_queue := q\<rparr>)))"

subsection \<open>The DNS and report clients\<close>

text \<open>\<open>(modid+cmdid)%3\<close>: the remainder of C has the sign of the dividend.\<close>

definition route_index :: "int32 \<Rightarrow> int32 \<Rightarrow> int" where
  "route_index modid cmdid =
     (let s = sint (modid + cmdid) in if s < 0 then - ((- s) mod 3) else s mod 3)"

definition deal_recv_route :: "GetRouteResponse \<Rightarrow> agent \<Rightarrow> agent res" where
  "deal_recv_route rsp ag =
     (let modid = grs_modid rsp; cmdid = grs_cmdid rsp; index = route_index modid cmdid
      in res_bind (route_lb_at index ag) (\<lambda>rl.
           res_bind (update_host (lb_config ag) modid cmdid rsp rl) (\<lambda>(_, rl).
             Inr (set_route_lb index rl ag))))"

definition new_dns_request :: "(GetRouteRequest \<Rightarrow> byte list) \<Rightarrow> (byte list \<Rightarrow> int32 \<Rightarrow> 'c \<Rightarrow> 'c) \<Rightarrow>
    agent \<times> 'c \<Rightarrow> (agent \<times> 'c) res" where
  "new_dns_request ser send s =
     (case s of (ag, client) \<Rightarrow>
        (case dns_queue ag of
           None \<Rightarrow> Inl Null_Deref
         | Some q \<Rightarrow>
             (let (msgs, q) = tq_recv [] q
              in Inr (ag\<lparr>dns_queue := Some q\<rparr>,
                      fold (\<lambda>req. send (ser req) ID_GetRouteRequest) msgs client))))"

definition new_report_request :: "(ReportStatusRequest \<Rightarrow> byte list) \<Rightarrow> (byte list \<Rightarrow> int32 \<Rightarrow> 'c \<Rightarrow> 'c) \<Rightarrow>
    agent \<times> 'c \<Rightarrow> (agent \<times> 'c) res" where
  "new_report_request ser send s =
     (case s of (ag, client) \<Rightarrow>
        (case report_queue ag of
           None \<Rightarrow> Inl Null_Deref
         | Some q \<Rightarrow>
             (let (msgs, q) = tq_recv [] q
              in Inr (ag\<lparr>report_queue := Some q\<rparr>,
                      fold (\<lambda>req. send (ser req) ID_ReportStatusRequest) msgs client))))"

text \<open>
  The client threads before they enter their loop: the peer's address from the configuration, the
  loop told to call back when the queue's descriptor is readable. \<open>short port\<close> cuts the number.
\<close>

definition dns_client_thread :: "(int32 \<Rightarrow> bool) \<Rightarrow> sections \<Rightarrow> addr \<Rightarrow> 'cb \<Rightarrow> 'arg \<Rightarrow>
    agent \<times> ('cb, 'arg, 'task) event_loop \<Rightarrow>
    (string \<times> 16 word \<times> agent \<times> ('cb, 'arg, 'task) event_loop) res" where
  "dns_client_thread pollable c loop cb client s =
     (case s of (ag, el) \<Rightarrow>
        (let ip = GetString c ''dnsserver'' ''ip'' ''127.0.0.1'';
             port = ucast (GetNumber c ''dnsserver'' ''port'' 7778)
         in case dns_queue ag of
              None \<Rightarrow> Inl Null_Deref
            | Some q \<Rightarrow>
                (let q = tq_set_loop (Some loop) q
                 in Inr (ip, port, ag\<lparr>dns_queue := Some q\<rparr>,
                         tq_set_callback pollable cb (Some client) q el))))"

definition report_client_thread :: "(int32 \<Rightarrow> bool) \<Rightarrow> sections \<Rightarrow> addr \<Rightarrow> 'cb \<Rightarrow> 'arg \<Rightarrow>
    agent \<times> ('cb, 'arg, 'task) event_loop \<Rightarrow>
    (string \<times> 16 word \<times> agent \<times> ('cb, 'arg, 'task) event_loop) res" where
  "report_client_thread pollable c loop cb client s =
     (case s of (ag, el) \<Rightarrow>
        (let ip = GetString c ''reporter'' ''ip'' ''127.0.0.1'';
             port = ucast (GetNumber c ''reporter'' ''port'' 7779)
         in case report_queue ag of
              None \<Rightarrow> Inl Null_Deref
            | Some q \<Rightarrow>
                (let q = tq_set_loop (Some loop) q
                 in Inr (ip, port, ag\<lparr>report_queue := Some q\<rparr>,
                         tq_set_callback pollable cb (Some client) q el))))"

subsection \<open>The main thread\<close>

text \<open>
  One statement group of \<open>main\<close> per step; \<open>pthread_create\<close> returns an error number, never -1, so its
  check does nothing. \<open>evfd\<close> is what \<open>eventfd\<close> returns to the queue's constructor.
\<close>

definition main_step :: "(rat \<Rightarrow> string) \<Rightarrow> (string \<Rightarrow> rat option) \<Rightarrow> string option \<Rightarrow> uint32 option \<Rightarrow>
    int32 option \<Rightarrow> agent \<Rightarrow> agent res" where
  "main_step show_float read_float file host_addr evfd ag =
     (case ag_pc ag of
        Not_Started \<Rightarrow> res_bind (init_lb_agent show_float read_float file None host_addr ag)
                  (\<lambda>(ag, _). Inr (ag\<lparr>ag_pc := Initialised\<rparr>))
      | Initialised \<Rightarrow> Inr (ag\<lparr>ag_pc := Servers_Started\<rparr>)
      | Servers_Started \<Rightarrow> res_bind (new_thread_queue evfd) (\<lambda>q.
                  Inr (ag\<lparr>report_queue := Some q, ag_pc := Report_Started\<rparr>))
      | Report_Started \<Rightarrow> res_bind (new_thread_queue evfd) (\<lambda>q.
                  Inr (ag\<lparr>dns_queue := Some q, ag_pc := Running\<rparr>))
      | Running \<Rightarrow> Inr ag)"

text \<open>The UDP servers answer from the moment they are started; the DNS client exists once main is through.\<close>

inductive agent_step :: "agent \<Rightarrow> agent \<Rightarrow> bool" where
  main: "main_step sf rf file host evfd ag = Inr ag' \<Longrightarrow> agent_step ag ag'"
| get: "ag_pc ag \<notin> {Not_Started, Initialised} \<Longrightarrow> get_host_cb g st i req ag = Inr (rsp, ag') \<Longrightarrow> agent_step ag ag'"
| rep: "ag_pc ag \<notin> {Not_Started, Initialised} \<Longrightarrow> report_cb now i rreq ag = Inr ag' \<Longrightarrow> agent_step ag ag'"
| route: "ag_pc ag = Running \<Longrightarrow> deal_recv_route rrsp ag = Inr ag' \<Longrightarrow> agent_step ag ag'"
| dns: "ag_pc ag = Running \<Longrightarrow> new_dns_request ser send (ag, ()) = Inr (ag', ()) \<Longrightarrow> agent_step ag ag'"
| report: "ag_pc ag \<in> {Report_Started, Running} \<Longrightarrow> new_report_request rser rsend (ag, ()) = Inr (ag', ()) \<Longrightarrow>
    agent_step ag ag'"

subsection \<open>The invariant\<close>

definition agent_ok :: "agent \<Rightarrow> bool" where
  "agent_ok ag \<longleftrightarrow> length (r_lb ag) = 3 \<and>
     (ag_pc ag \<noteq> Not_Started \<longrightarrow> (\<forall>i < 3. \<exists>rl. r_lb ag ! i = Some rl \<and> rl_ok rl)) \<and>
     (ag_pc ag = Not_Started \<longrightarrow> dns_queue ag = None \<and> report_queue ag = None) \<and>
     (dns_queue ag \<noteq> None \<longleftrightarrow> ag_pc ag = Running) \<and>
     (report_queue ag \<noteq> None \<longleftrightarrow> ag_pc ag \<in> {Report_Started, Running})"

lemma agent_ok_new [simp]: "agent_ok new_agent"
  by (simp add: agent_ok_def new_agent_def)

lemma set_route_lb_sel [simp]:
  "ag_pc (set_route_lb i rl ag) = ag_pc ag" "dns_queue (set_route_lb i rl ag) = dns_queue ag"
  "report_queue (set_route_lb i rl ag) = report_queue ag" "lb_config (set_route_lb i rl ag) = lb_config ag"
  "r_lb (set_route_lb i rl ag) = (r_lb ag)[nat i := Some rl]"
  by (simp_all add: set_route_lb_def)

lemma agent_okD:
  "agent_ok ag \<Longrightarrow> length (r_lb ag) = 3"
  "agent_ok ag \<Longrightarrow> ag_pc ag \<noteq> Not_Started \<Longrightarrow> j < 3 \<Longrightarrow> \<exists>rl. r_lb ag ! j = Some rl \<and> rl_ok rl"
  by (simp_all add: agent_ok_def)

lemma agent_ok_set:
  assumes "agent_ok ag" and "rl_ok rl"
  shows "agent_ok (set_route_lb i rl ag)"
proof -
  have "\<exists>rl'. (r_lb ag)[nat i := Some rl] ! j = Some rl' \<and> rl_ok rl'"
    if "ag_pc ag \<noteq> Not_Started" "j < 3" for j
    using agent_okD [OF assms(1)] that assms(2) by (cases "j = nat i") simp_all
  then show ?thesis using assms(1) by (simp add: agent_ok_def)
qed

lemma agent_ok_queues:
  "agent_ok ag \<Longrightarrow> q \<noteq> None \<longleftrightarrow> dns_queue ag \<noteq> None \<Longrightarrow> agent_ok (ag\<lparr>dns_queue := q\<rparr>)"
  "agent_ok ag \<Longrightarrow> q' \<noteq> None \<longleftrightarrow> report_queue ag \<noteq> None \<Longrightarrow> agent_ok (ag\<lparr>report_queue := q'\<rparr>)"
  unfolding agent_ok_def by auto

lemma route_lb_at_total:
  assumes "agent_ok ag" and "ag_pc ag \<noteq> Not_Started" and "0 \<le> i" and "i < 3"
  shows "\<exists>rl. route_lb_at i ag = Inr rl \<and> rl_ok rl"
proof -
  have "nat i < 3" using assms(3,4) by linarith
  from agent_okD(2) [OF assms(1,2) this] show ?thesis
    using assms(3,4) agent_okD(1) [OF assms(1)] by (auto simp: route_lb_at_def)
qed

lemma route_lb_at_ok:
  assumes "agent_ok ag" and "ag_pc ag \<noteq> Not_Started" and "route_lb_at i ag = Inr rl"
  shows "rl_ok rl"
proof -
  have "0 \<le> i" "i < 3"
    using assms(3) agent_okD(1) [OF assms(1)] by (auto simp: route_lb_at_def split: if_splits)
  from route_lb_at_total [OF assms(1,2) this] show ?thesis using assms(3) by simp
qed

lemma get_host_queue:
  "get_host cfg g st m c rsp rl q = Inr (ret, rsp', rl', q') \<Longrightarrow> q' \<noteq> None \<longleftrightarrow> q \<noteq> None"
  by (auto simp: get_host_def pull_def send_queue_def Let_def res_bind_eq_Inr split: option.splits if_splits)

lemma report_host_queue:
  "report_host cfg now req rl q = Inr (rl', q') \<Longrightarrow> q' \<noteq> None \<longleftrightarrow> q \<noteq> None"
  by (auto simp: report_host_def commit_def send_queue_def Let_def res_bind_eq_Inr
      split: option.splits if_splits)

lemma create_route_lb_ok: "i < 3 \<Longrightarrow> r_lb (create_route_lb ag) ! i = Some (new_route_lb (of_nat i + 1))"
  by (simp add: create_route_lb_def)

lemma agent_ok_main:
  assumes "agent_ok ag" and "main_step sf rf file host evfd ag = Inr ag'"
  shows "agent_ok ag'"
proof (cases "ag_pc ag")
  case Not_Started
  then have "dns_queue ag = None" "report_queue ag = None" using assms(1) by (simp_all add: agent_ok_def)
  moreover obtain cfg where "ag' = (create_route_lb ag)\<lparr>lb_config := cfg, ag_pc := Initialised\<rparr>"
    using assms(2) Not_Started by (auto simp: main_step_def init_lb_agent_def res_bind_eq_Inr Let_def)
  ultimately show ?thesis
    by (simp add: agent_ok_def create_route_lb_ok rl_ok_new) (simp add: create_route_lb_def)
qed (use assms in \<open>auto simp: main_step_def agent_ok_def res_bind_eq_Inr\<close>)

lemma agent_ok_step: "agent_step ag ag' \<Longrightarrow> agent_ok ag \<Longrightarrow> agent_ok ag'"
proof (induction rule: agent_step.induct)
  case main
  then show ?case by (blast intro: agent_ok_main)
next
  case (get ag g st i req rsp ag')
  then obtain rl ret rl' q where "route_lb_at i ag = Inr rl"
      "get_host (lb_config ag) g st (ghq_modid req) (ghq_cmdid req)
         \<lparr>ghs_seq = ghq_seq req, ghs_modid = ghq_modid req, ghs_cmdid = ghq_cmdid req, ghs_retcode = 0,
          ghs_host = None\<rparr> rl (dns_queue ag) = Inr (ret, rsp, rl', q)"
      "ag' = (set_route_lb i rl' ag)\<lparr>dns_queue := q\<rparr>"
    by (auto simp: get_host_cb_def Let_def res_bind_eq_Inr)
  then show ?case
    using get route_lb_at_ok rl_ok_get_host get_host_queue
    by (metis agent_ok_queues(1) agent_ok_set insertCI set_route_lb_sel(2))
next
  case (rep ag now i rreq ag')
  then obtain rl rl' q where "route_lb_at i ag = Inr rl"
      "report_host (lb_config ag) now rreq rl (report_queue ag) = Inr (rl', q)"
      "ag' = (set_route_lb i rl' ag)\<lparr>report_queue := q\<rparr>"
    by (auto simp: report_cb_def res_bind_eq_Inr)
  then show ?case
    using rep route_lb_at_ok rl_ok_report_host report_host_queue
    by (metis agent_ok_queues(2) agent_ok_set insertCI set_route_lb_sel(3))
next
  case (route ag rrsp ag')
  then obtain i rl ret rl' m c where "route_lb_at i ag = Inr rl"
      "update_host (lb_config ag) m c rrsp rl = Inr (ret, rl')" "ag' = set_route_lb i rl' ag"
    by (auto simp: deal_recv_route_def Let_def res_bind_eq_Inr)
  then show ?case
    using route route_lb_at_ok rl_ok_update_host by (metis agent_ok_set main_pc.distinct(7))
next
  case (dns ag ser send ag')
  then show ?case
    by (auto simp: new_dns_request_def Let_def split: option.splits prod.splits
        intro!: agent_ok_queues(1))
next
  case (report ag rser rsend ag')
  then show ?case
    by (auto simp: new_report_request_def Let_def split: option.splits prod.splits
        intro!: agent_ok_queues(2))
qed

interpretation agm: op_machine "\<lambda>ag. ag = new_agent" agent_step agent_ok
  by unfold_locales (auto intro: agent_ok_step)

subsection \<open>What the agent promises\<close>

text \<open>
  C39: Whatever the agent's threads have done, once the servers run a request for a host reaches one of
  the three \<open>route_lb\<close> objects and fails only in two ways: by the front of an empty host list, or,
  before \<open>main\<close> has created the queue to the DNS client, by a null pointer. No assertion fails.
\<close>

theorem agent_request_faults:
  assumes "rtranclp agent_step new_agent ag" and "ag_pc ag \<notin> {Not_Started, Initialised}"
    and "0 \<le> i" and "i < 3" and "get_host_cb g st i req ag = Inl e"
  shows "e = Empty_Front \<or> e = Null_Deref \<and> ag_pc ag \<noteq> Running"
proof -
  have ok: "agent_ok ag" by (rule agm.inv_reachable [OF refl assms(1)])
  obtain rl where rl: "route_lb_at i ag = Inr rl" "rl_ok rl"
    using route_lb_at_total [OF ok _ assms(3,4)] assms(2) by auto
  then obtain rsp where "get_host (lb_config ag) g st (ghq_modid req) (ghq_cmdid req) rsp rl (dns_queue ag) = Inl e"
    using assms(5) by (auto simp: get_host_cb_def Let_def res_bind_eq_Inl)
  from get_host_fault [OF rl(2) this] ok show ?thesis by (auto simp: agent_ok_def)
qed

text \<open>
  The second way is real: the UDP servers are started before the queues exist, and until \<open>main\<close>
  gets there every first request for a pair, at any server, dereferences the null queue pointer.
\<close>

theorem agent_start_race:
  "\<exists>ag. rtranclp agent_step new_agent ag \<and> ag_pc ag = Servers_Started \<and>
    (\<forall>g st i req. 0 \<le> i \<and> i < 3 \<longrightarrow> get_host_cb g st i req ag = Inl Null_Deref)"
proof -
  let ?sf = "\<lambda>_. []" and ?rf = "\<lambda>_. None"
  obtain ag1 where ag1: "main_step ?sf ?rf None None None new_agent = Inr ag1"
      "r_lb ag1 = r_lb (create_route_lb new_agent)" "ag_pc ag1 = Initialised" "dns_queue ag1 = None"
    by (simp add: main_step_def init_lb_agent_def setPath_def load_def config_instance_def new_agent_def
        create_route_lb_def Let_def)
  let ?ag = "ag1\<lparr>ag_pc := Servers_Started\<rparr>"
  have "main_step ?sf ?rf None None None ag1 = Inr ?ag" using ag1 by (simp add: main_step_def)
  then have "rtranclp agent_step new_agent ?ag"
    using ag1(1) by (meson agent_step.main converse_rtranclp_into_rtranclp r_into_rtranclp)
  moreover have "get_host_cb g st i req ?ag = Inl Null_Deref" if "0 \<le> i" "i < 3" for g st i req
  proof -
    have "nat i < 3" using that by linarith
    then have "route_lb_at i ?ag = Inr (new_route_lb (of_nat (nat i) + 1))"
      using ag1(2) that create_route_lb_ok [of "nat i" new_agent]
      by (simp add: route_lb_at_def) (simp add: create_route_lb_def)
    then show ?thesis
      using ag1(4) by (simp add: get_host_cb_def get_host_def rl_find_def new_route_lb_def pull_def
          send_queue_def Let_def)
  qed
  ultimately show ?thesis by fastforce
qed

text \<open>Server \<open>i\<close>'s answers to \<open>n\<close> equal requests in a row.\<close>

fun ask :: "int \<Rightarrow> GetHostRequest \<Rightarrow> nat \<Rightarrow> agent \<Rightarrow> (GetHostResponse list \<times> agent) res" where
  "ask i req 0 ag = Inr ([], ag)"
| "ask i req (Suc n) ag =
     res_bind (get_host_cb 0 NEW i req ag) (\<lambda>(rsp, ag).
       res_bind (ask i req n ag) (\<lambda>(rsps, ag). Inr (rsp # rsps, ag)))"

definition empty_rsp :: "GetHostRequest \<Rightarrow> GetHostResponse" where
  "empty_rsp req = \<lparr>ghs_seq = ghq_seq req, ghs_modid = ghq_modid req, ghs_cmdid = ghq_cmdid req,
                 ghs_retcode = 0, ghs_host = None\<rparr>"

lemma route_lb_at_set:
  "route_lb_at i ag = Inr rl \<Longrightarrow> route_lb_at i (set_route_lb i rl' ag) = Inr rl'"
  "route_lb_at i (ag\<lparr>dns_queue := q\<rparr>) = route_lb_at i ag"
proof -
  assume at: "route_lb_at i ag = Inr rl"
  then have "nat i < length (r_lb ag)" by (simp add: route_lb_at_def split: if_splits) linarith
  then show "route_lb_at i (set_route_lb i rl' ag) = Inr rl'"
    using at by (simp add: route_lb_at_def split: if_splits)
qed (simp add: route_lb_at_def)

lemma route_index_bounds:
  "route_index m c < 3" "0 \<le> route_index m c \<longleftrightarrow> 0 \<le> sint (m + c) \<or> 3 dvd sint (m + c)"
proof -
  have "(if s < 0 then - ((- s) mod 3) else s mod 3) < 3 \<and>
    (0 \<le> (if s < 0 then - ((- s) mod 3) else s mod 3) \<longleftrightarrow> 0 \<le> s \<or> 3 dvd s)" for s :: int
    by presburger
  then show "route_index m c < 3" "0 \<le> route_index m c \<longleftrightarrow> 0 \<le> sint (m + c) \<or> 3 dvd sint (m + c)"
    unfolding route_index_def Let_def by blast+
qed

lemma get_host_cb_eq:
  assumes "route_lb_at i ag = Inr rl"
    and "get_host (lb_config ag) g st (ghq_modid req) (ghq_cmdid req) (empty_rsp req) rl (dns_queue ag) =
      Inr (ret, rsp, rl', q)"
  shows "get_host_cb g st i req ag = Inr (rsp, (set_route_lb i rl' ag)\<lparr>dns_queue := q\<rparr>)"
  using assms by (simp add: get_host_cb_def empty_rsp_def Let_def)

lemma ask_get_hosts:
  assumes "route_lb_at i ag = Inr rl"
    and "get_hosts (lb_config ag) (ghq_modid req) (ghq_cmdid req) (empty_rsp req) n rl (dns_queue ag) =
      Inr (rsps, rl', q)"
  shows "\<exists>ag'. ask i req n ag = Inr (rsps, ag')"
  using assms
proof (induction n arbitrary: ag rl rsps)
  case (Suc n)
  obtain ret rsp rl1 q1 rsps1 where
    one: "get_host (lb_config ag) 0 NEW (ghq_modid req) (ghq_cmdid req) (empty_rsp req) rl (dns_queue ag) =
      Inr (ret, rsp, rl1, q1)"
    and rest: "get_hosts (lb_config ag) (ghq_modid req) (ghq_cmdid req) (empty_rsp req) n rl1 q1 = Inr (rsps1, rl', q)"
    and rsps: "rsps = rsp # rsps1"
    using Suc.prems(2) by (auto simp: res_bind_eq_Inr)
  let ?ag = "(set_route_lb i rl1 ag)\<lparr>dns_queue := q1\<rparr>"
  obtain ag' where "ask i req n ?ag = Inr (rsps1, ag')"
    using Suc.IH [of ?ag rl1 rsps1] route_lb_at_set(1) [OF Suc.prems(1)] rest by (auto simp: route_lb_at_set(2))
  then show ?case using get_host_cb_eq [OF Suc.prems(1) one] rsps by simp
qed simp

text \<open>
  A first request and its answer at the server the identifiers name; \<open>q'\<close> is what the queue of the DNS
  client holds when the answer arrives.
\<close>

lemma agent_lookup:
  assumes "route_lb_at (route_index (ghq_modid req) (ghq_cmdid req)) ag = Inr rl"
    and "rl_find rl (ghq_modid req) (ghq_cmdid req) = None" and "distinct hosts" and "hosts \<noteq> []" and "dns_queue ag = Some q"
  shows "\<exists>ag1 ag2 ag3. get_host_cb g st (route_index (ghq_modid req) (ghq_cmdid req)) req ag =
      Inr ((empty_rsp req)\<lparr>ghs_retcode := RET_NOEXIST\<rparr>, ag1) \<and>
    dns_queue ag1 = Some (tq_send \<lparr>grq_modid = ghq_modid req, grq_cmdid = ghq_cmdid req\<rparr> q) \<and>
    deal_recv_route \<lparr>grs_modid = ghq_modid req, grs_cmdid = ghq_cmdid req, grs_host = hosts\<rparr> (ag1\<lparr>dns_queue := q'\<rparr>) = Inr ag2 \<and>
    ask (route_index (ghq_modid req) (ghq_cmdid req)) req (length hosts) ag2 = Inr (map (\<lambda>h.
      (empty_rsp req)\<lparr>ghs_retcode := RET_SUCC, ghs_host := Some h\<rparr>) hosts, ag3)"
proof -
  let ?m = "ghq_modid req" and ?c = "ghq_cmdid req"
  let ?i = "route_index ?m ?c" and ?ans = "\<lparr>grs_modid = ?m, grs_cmdid = ?c, grs_host = hosts\<rparr>"
  let ?q = "Some (tq_send \<lparr>grq_modid = ?m, grq_cmdid = ?c\<rparr> q)"
  obtain rl1 rl2 rl3 where
    get: "get_host (lb_config ag) g st ?m ?c (empty_rsp req) rl (Some q) =
      Inr (RET_NOEXIST, (empty_rsp req)\<lparr>ghs_retcode := RET_NOEXIST\<rparr>, rl1, ?q)"
    and upd: "update_host (lb_config ag) ?m ?c ?ans rl1 = Inr (0, rl2)"
    and more: "get_hosts (lb_config ag) ?m ?c (empty_rsp req) (length hosts) rl2 q' = Inr (map (\<lambda>h.
      (empty_rsp req)\<lparr>ghs_retcode := RET_SUCC, ghs_host := Some h\<rparr>) hosts, rl3, q')"
    using first_request_to_hosts [OF assms(2), of ?ans "lb_config ag" g st "empty_rsp req" q q'] assms(3,4)
    by auto
  let ?ag1 = "(set_route_lb ?i rl1 ag)\<lparr>dns_queue := ?q\<rparr>"
  let ?ag2 = "set_route_lb ?i rl2 (?ag1\<lparr>dns_queue := q'\<rparr>)"
  have at1: "route_lb_at ?i (?ag1\<lparr>dns_queue := q'\<rparr>) = Inr rl1"
    using route_lb_at_set(1) [OF assms(1)] by (simp add: route_lb_at_set(2))
  have at2: "route_lb_at ?i ?ag2 = Inr rl2" by (rule route_lb_at_set(1) [OF at1])
  have "get_host_cb g st ?i req ag = Inr ((empty_rsp req)\<lparr>ghs_retcode := RET_NOEXIST\<rparr>, ?ag1)"
    by (rule get_host_cb_eq [OF assms(1)]) (simp add: assms(5) get)
  moreover have "deal_recv_route ?ans (?ag1\<lparr>dns_queue := q'\<rparr>) = Inr ?ag2"
    using at1 upd by (simp add: deal_recv_route_def Let_def)
  moreover have "\<exists>ag3. ask ?i req (length hosts) ?ag2 = Inr (map (\<lambda>h.
      (empty_rsp req)\<lparr>ghs_retcode := RET_SUCC, ghs_host := Some h\<rparr>) hosts, ag3)"
    by (rule ask_get_hosts [OF at2]) (use more in simp)
  ultimately show ?thesis by - (rule exI [of _ ?ag1], auto)
qed

lemma running_queue: "rtranclp agent_step new_agent ag \<Longrightarrow> ag_pc ag = Running \<Longrightarrow> \<exists>q. dns_queue ag = Some q"
  using agm.inv_reachable [OF refl] by (auto simp: agent_ok_def)

text \<open>
  C18: End to end in a running agent: a first request for a pair at the server its identifiers name is
  answered \<open>RET_NOEXIST\<close> and puts one question into the queue of the DNS client; when the answer, with
  distinct hosts, arrives it is merged at the same server, and the next requests get its hosts in
  order, each with the sequence number and the pair of the request.
\<close>

theorem agent_end_to_end:
  assumes "rtranclp agent_step new_agent ag" and "ag_pc ag = Running"
    and "0 \<le> route_index (ghq_modid req) (ghq_cmdid req)"
    and "route_lb_at (route_index (ghq_modid req) (ghq_cmdid req)) ag = Inr rl"
    and "rl_find rl (ghq_modid req) (ghq_cmdid req) = None"
    and "distinct hosts" and "hosts \<noteq> []"
  shows "\<exists>ag1 ag2 ag3 q. dns_queue ag = Some q \<and>
    get_host_cb g st (route_index (ghq_modid req) (ghq_cmdid req)) req ag =
      Inr ((empty_rsp req)\<lparr>ghs_retcode := RET_NOEXIST\<rparr>, ag1) \<and>
    dns_queue ag1 = Some (tq_send \<lparr>grq_modid = ghq_modid req, grq_cmdid = ghq_cmdid req\<rparr> q) \<and>
    deal_recv_route \<lparr>grs_modid = ghq_modid req, grs_cmdid = ghq_cmdid req, grs_host = hosts\<rparr> ag1 = Inr ag2 \<and>
    ask (route_index (ghq_modid req) (ghq_cmdid req)) req (length hosts) ag2 = Inr (map (\<lambda>h.
      (empty_rsp req)\<lparr>ghs_retcode := RET_SUCC, ghs_host := Some h\<rparr>) hosts, ag3)"
proof -
  obtain q where q: "dns_queue ag = Some q" using running_queue [OF assms(1,2)] by blast
  from agent_lookup [OF assms(4-7) q, of g st "Some (tq_send \<lparr>grq_modid = ghq_modid req, grq_cmdid = ghq_cmdid req\<rparr> q)"]
  obtain ag1 ag2 ag3 where
    "get_host_cb g st (route_index (ghq_modid req) (ghq_cmdid req)) req ag = Inr ((empty_rsp req)\<lparr>ghs_retcode := RET_NOEXIST\<rparr>, ag1)"
    and q1: "dns_queue ag1 = Some (tq_send \<lparr>grq_modid = ghq_modid req, grq_cmdid = ghq_cmdid req\<rparr> q)"
    and "deal_recv_route \<lparr>grs_modid = ghq_modid req, grs_cmdid = ghq_cmdid req, grs_host = hosts\<rparr>
      (ag1\<lparr>dns_queue := Some (tq_send \<lparr>grq_modid = ghq_modid req, grq_cmdid = ghq_cmdid req\<rparr> q)\<rparr>) = Inr ag2"
    and "ask (route_index (ghq_modid req) (ghq_cmdid req)) req (length hosts) ag2 = Inr (map (\<lambda>h.
      (empty_rsp req)\<lparr>ghs_retcode := RET_SUCC, ghs_host := Some h\<rparr>) hosts, ag3)"
    by auto
  moreover have "ag1\<lparr>dns_queue := Some (tq_send \<lparr>grq_modid = ghq_modid req, grq_cmdid = ghq_cmdid req\<rparr> q)\<rparr> = ag1"
    using q1 by simp
  ultimately show ?thesis using q by auto
qed

text \<open>
  A route answer whose identifiers add up to a negative number that three does not divide is
  looked up in front of the array \<open>r_lb\<close>, since the remainder of C is negative; every other answer
  finds its \<open>route_lb\<close>.
\<close>

theorem route_answer_index:
  assumes "rtranclp agent_step new_agent ag" and "ag_pc ag = Running"
  shows "(\<exists>rl. route_lb_at (route_index (grs_modid rsp) (grs_cmdid rsp)) ag = Inr rl) \<longleftrightarrow>
    0 \<le> sint (grs_modid rsp + grs_cmdid rsp) \<or> 3 dvd sint (grs_modid rsp + grs_cmdid rsp)"
proof -
  let ?s = "sint (grs_modid rsp + grs_cmdid rsp)" and ?i = "route_index (grs_modid rsp) (grs_cmdid rsp)"
  have ok: "agent_ok ag" by (rule agm.inv_reachable [OF refl assms(1)])
  note bounds = route_index_bounds [of "grs_modid rsp" "grs_cmdid rsp"]
  show ?thesis
  proof (cases "0 \<le> ?i")
    case True
    then show ?thesis using route_lb_at_total [OF ok, of ?i] assms(2) bounds by auto
  next
    case False
    then have "route_lb_at ?i ag = Inl Out_Of_Bounds" by (simp add: route_lb_at_def)
    then show ?thesis using False bounds(2) by simp
  qed
qed

text \<open>
  The DNS client asks every question the balancers queued exactly once and in their order, and
  the queue's descriptor is quiet afterwards, so no question is repeated.
\<close>

theorem dns_requests_drained:
  assumes "dns_queue ag = Some (fold tq_send reqs q)" and "tq_queue q = []"
  shows "\<exists>q'. new_dns_request ser send (ag, client) = Inr (ag\<lparr>dns_queue := Some q'\<rparr>,
      fold (\<lambda>req. send (ser req) ID_GetRouteRequest) reqs client) \<and>
    tq_queue q' = [] \<and> \<not> eventfd_readable (tq_count q')"
proof -
  obtain msgs q' where r: "tq_recv [] (fold tq_send reqs q) = (msgs, q')" by fastforce
  have "msgs = reqs" using tq.fifo_delivery [OF assms(2), of reqs] r by simp
  moreover have "tq_queue q' = []" using tq.pending_recv [of "fold tq_send reqs q"] r by simp
  moreover have "\<not> eventfd_readable (tq_count q')"
    using tq_recv_drained [of "[]" "fold tq_send reqs q"] r by simp
  moreover have "new_dns_request ser send (ag, client) = Inr (ag\<lparr>dns_queue := Some q'\<rparr>,
      fold (\<lambda>req. send (ser req) ID_GetRouteRequest) msgs client)"
    using assms(1) r by (simp add: new_dns_request_def)
  ultimately show ?thesis by blast
qed

subsection \<open>A running agent\<close>

lemma running_agent:
  "\<exists>ag. rtranclp agent_step new_agent ag \<and> ag_pc ag = Running \<and>
    (\<forall>i. 0 \<le> i \<longrightarrow> i < 3 \<longrightarrow> (\<exists>k. route_lb_at i ag = Inr (new_route_lb k))) \<and>
    (\<exists>q. dns_queue ag = Some q \<and> tq_queue q = [])"
proof -
  let ?sf = "\<lambda>_. []" and ?rf = "\<lambda>_. None"
  let ?q = "\<lparr>tq_evfd = 5, tq_count = 0, tq_loop = None, tq_queue = []\<rparr>"
  obtain ag1 where ag1: "main_step ?sf ?rf None None None new_agent = Inr ag1"
      "r_lb ag1 = r_lb (create_route_lb new_agent)" "ag_pc ag1 = Initialised"
    by (simp add: main_step_def init_lb_agent_def setPath_def load_def config_instance_def new_agent_def
        create_route_lb_def Let_def)
  let ?ag2 = "ag1\<lparr>ag_pc := Servers_Started\<rparr>"
  let ?ag3 = "?ag2\<lparr>report_queue := Some \<lparr>tq_evfd = 5, tq_count = 0, tq_loop = None, tq_queue = []\<rparr>,
    ag_pc := Report_Started\<rparr>"
  let ?ag4 = "?ag3\<lparr>dns_queue := Some \<lparr>tq_evfd = 5, tq_count = 0, tq_loop = None, tq_queue = []\<rparr>,
    ag_pc := Running\<rparr>"
  have "main_step ?sf ?rf None None None ag1 = Inr ?ag2" "main_step ?sf ?rf None None (Some 5) ?ag2 = Inr ?ag3"
    "main_step ?sf ?rf None None (Some 5) ?ag3 = Inr ?ag4"
    using ag1 by (simp_all add: main_step_def new_thread_queue_def)
  then have "rtranclp agent_step new_agent ?ag4"
    using ag1(1) by (meson agent_step.main converse_rtranclp_into_rtranclp r_into_rtranclp)
  moreover have "\<exists>k. route_lb_at i ?ag4 = Inr (new_route_lb k)" if "0 \<le> i" "i < 3" for i
  proof -
    have "nat i < 3" using that by linarith
    then show ?thesis
      using ag1(2) that create_route_lb_ok [of "nat i" new_agent]
      by (simp add: route_lb_at_def) (auto simp: create_route_lb_def)
  qed
  ultimately show ?thesis by (intro exI [of _ ?ag4]) simp
qed

lemma new_route_lb_find [simp]: "rl_find (new_route_lb k) m c = None"
  by (simp add: rl_find_def new_route_lb_def)

theorem agent_request_faults_witness:
  "\<exists>ag e. get_host_cb 0 NEW 0 \<lparr>ghq_seq = 1, ghq_modid = 1, ghq_cmdid = 2\<rparr> ag = Inl e \<and> e = Null_Deref"
proof -
  let ?sf = "\<lambda>_. []" and ?rf = "\<lambda>_. None" and ?req = "\<lparr>ghq_seq = 1, ghq_modid = 1, ghq_cmdid = 2\<rparr>"
  obtain ag1 where ag1: "main_step ?sf ?rf None None None new_agent = Inr ag1"
      "r_lb ag1 = r_lb (create_route_lb new_agent)" "ag_pc ag1 = Initialised" "dns_queue ag1 = None"
    by (simp add: main_step_def init_lb_agent_def setPath_def load_def config_instance_def new_agent_def
        create_route_lb_def Let_def)
  let ?ag = "ag1\<lparr>ag_pc := Servers_Started\<rparr>"
  have "main_step ?sf ?rf None None None ag1 = Inr ?ag" using ag1 by (simp add: main_step_def)
  then have reach: "rtranclp agent_step new_agent ?ag"
    using ag1(1) by (meson agent_step.main converse_rtranclp_into_rtranclp r_into_rtranclp)
  have fault: "get_host_cb 0 NEW 0 ?req ?ag = Inl Null_Deref"
    using ag1(2,4) create_route_lb_ok [of 0 new_agent]
    by (simp add: get_host_cb_def get_host_def pull_def send_queue_def Let_def route_lb_at_def)
      (simp add: create_route_lb_def get_host_def pull_def send_queue_def)
  have "Null_Deref = Empty_Front \<or> Null_Deref = Null_Deref \<and> ag_pc ?ag \<noteq> Running"
    by (rule agent_request_faults [OF reach _ _ _ fault]) simp_all
  then show ?thesis using fault by blast
qed

theorem agent_start_race_witness:
  "\<exists>ag. ag_pc ag = Servers_Started \<and>
    get_host_cb 0 NEW 2 \<lparr>ghq_seq = 1, ghq_modid = 1, ghq_cmdid = 1\<rparr> ag = Inl Null_Deref"
proof -
  obtain ag where "ag_pc ag = Servers_Started"
    and "\<And>g st i req. 0 \<le> i \<Longrightarrow> i < 3 \<Longrightarrow> get_host_cb g st i req ag = Inl Null_Deref"
    using agent_start_race by blast
  then show ?thesis by force
qed

theorem agent_end_to_end_witness:
  "\<exists>ag ag'. ask 0 \<lparr>ghq_seq = 9, ghq_modid = 1, ghq_cmdid = 2\<rparr> 2 ag = Inr
    ([\<lparr>ghs_seq = 9, ghs_modid = 1, ghs_cmdid = 2, ghs_retcode = 0, ghs_host = Some \<lparr>hinfo_ip = 7, hinfo_port = 80\<rparr>\<rparr>,
      \<lparr>ghs_seq = 9, ghs_modid = 1, ghs_cmdid = 2, ghs_retcode = 0, ghs_host = Some \<lparr>hinfo_ip = 7, hinfo_port = 81\<rparr>\<rparr>],
     ag')"
proof -
  let ?req = "\<lparr>ghq_seq = 9, ghq_modid = 1, ghq_cmdid = 2\<rparr>"
  have i: "route_index 1 2 = 0" by (simp add: route_index_def)
  obtain ag k where ag: "rtranclp agent_step new_agent ag" "ag_pc ag = Running"
      "route_lb_at 0 ag = Inr (new_route_lb k)"
    using running_agent by fastforce
  show ?thesis
    using agent_end_to_end [OF ag(1,2), of ?req "new_route_lb k"
        "[\<lparr>hinfo_ip = 7, hinfo_port = 80\<rparr>, \<lparr>hinfo_ip = 7, hinfo_port = 81\<rparr>]" 0 NEW] ag(3)
    by (auto simp: i empty_rsp_def lars_defs numeral_2_eq_2 simp del: ask.simps)
qed

theorem route_answer_index_witness:
  "\<exists>ag. \<not> (\<exists>rl. route_lb_at (route_index (- 1) 0) ag = Inr rl)"
proof -
  obtain ag where ag: "rtranclp agent_step new_agent ag" "ag_pc ag = Running"
    using running_agent by blast
  show ?thesis
    using route_answer_index [OF ag, of "\<lparr>grs_modid = - 1, grs_cmdid = 0, grs_host = []\<rparr>"] by auto
qed

theorem dns_requests_drained_witness:
  "\<exists>ag'. new_dns_request (\<lambda>r. [ucast (grq_modid r)]) (\<lambda>bs msgid sent. sent @ [(bs, msgid)])
      (new_agent\<lparr>dns_queue := Some (fold tq_send [\<lparr>grq_modid = 1, grq_cmdid = 2\<rparr>, \<lparr>grq_modid = 3, grq_cmdid = 4\<rparr>] ex_dns_queue)\<rparr>, []) =
    Inr (ag', [([1], 1), ([3], 1)])"
  using dns_requests_drained [of "new_agent\<lparr>dns_queue := Some (fold tq_send [\<lparr>grq_modid = 1, grq_cmdid = 2\<rparr>,
        \<lparr>grq_modid = 3, grq_cmdid = 4\<rparr>] ex_dns_queue)\<rparr>" "[\<lparr>grq_modid = 1, grq_cmdid = 2\<rparr>, \<lparr>grq_modid = 3, grq_cmdid = 4\<rparr>]"
      ex_dns_queue "\<lambda>r. [ucast (grq_modid r)]" "\<lambda>bs msgid sent. sent @ [(bs, msgid)]" "[]"]
  by (auto simp: ex_dns_queue_def lars_defs)

end
