(* ===== verification/Tcp_Client.thy ===== *)
theory Tcp_Client
  imports Tcp_Conn_Props
begin

text \<open>
  \<open>tcp_client\<close> (\<open>lars_reactor/src/tcp_client.cpp\<close>): a connection that is made without blocking and
  made again when it breaks. It reads, writes and queues with the code of \<open>Tcp_Conn\<close>; what is its own
  is connecting, and that closing means connecting again with the same buffers.
\<close>

subsection \<open>The client\<close>

record ('task, 'u) tcp_client = conn_bufs +
  sockfd :: int32
  cli_loop :: "'task io_loop"
  cli_app :: 'u

type_synonym ('task, 'u) client_hook = "(('task, 'u) tcp_client \<Rightarrow> ('task, 'u) tcp_client res) option"

fun call_client_hook :: "('task, 'u) client_hook \<Rightarrow> ('task, 'u) tcp_client \<Rightarrow> ('task, 'u) tcp_client res" where
  "call_client_hook None c = Inr c"
| "call_client_hook (Some cb) c = cb c"

text \<open>What the kernel answers when a client connects: the new socket, \<open>connect\<close>, and \<open>SO_ERROR\<close>.\<close>

datatype connect_result = Connected | In_Progress | Connect_Failed

record connect_env =
  env_socket :: "int32 option"
  env_connect :: connect_result
  env_so_error :: int

text \<open>Input is watched, and output when something is queued.\<close>

definition watch_socket :: "(int32 \<Rightarrow> bool) \<Rightarrow> addr \<Rightarrow> int32 \<Rightarrow> ('task, 'u) tcp_client \<Rightarrow> ('task, 'u) tcp_client res" where
  "watch_socket pollable self fd c =
     (let c = c\<lparr>cli_loop := add_io_event pollable fd Client_Rd EPOLLIN (Some self) (cli_loop c)\<rparr>
      in res_bind (rb_length (obuf c) (bpool c)) (\<lambda>n.
           if n \<noteq> 0 then Inr (c\<lparr>cli_loop := add_io_event pollable fd Client_Wr EPOLLOUT (Some self) (cli_loop c)\<rparr>)
           else Inr c))"

definition connection_succ :: "(int32 \<Rightarrow> bool) \<Rightarrow> ('task, 'u) client_hook \<Rightarrow> addr \<Rightarrow> int \<Rightarrow> int32 \<Rightarrow>
    ('task, 'u) tcp_client \<Rightarrow> ('task, 'u) tcp_client res" where
  "connection_succ pollable conn_start_cb self so_error fd c =
     (let c = c\<lparr>cli_loop := del_io_event pollable fd (cli_loop c)\<rparr>
      in if so_error = 0 then res_bind (call_client_hook conn_start_cb c) (watch_socket pollable self fd)
         else Inr c)"

definition do_connect :: "(int32 \<Rightarrow> bool) \<Rightarrow> ('task, 'u) client_hook \<Rightarrow> addr \<Rightarrow> connect_env \<Rightarrow>
    ('task, 'u) tcp_client \<Rightarrow> ('task, 'u) tcp_client res" where
  "do_connect pollable conn_start_cb self env c =
     (case env_socket env of
        None \<Rightarrow> Inl Exited
      | Some fd \<Rightarrow>
          (let c = c\<lparr>sockfd := fd\<rparr>
           in case env_connect env of
                Connected \<Rightarrow>
                  res_bind (call_client_hook conn_start_cb c) (\<lambda>c.
                  res_bind (watch_socket pollable self (sockfd c) c) (\<lambda>c.
                  connection_succ pollable conn_start_cb self (env_so_error env) (sockfd c) c))
              | In_Progress \<Rightarrow>
                  Inr (c\<lparr>cli_loop := add_io_event pollable fd Connection_Succ EPOLLOUT (Some self) (cli_loop c)\<rparr>)
              | Connect_Failed \<Rightarrow> Inl Exited))"

text \<open>The constructor: no hooks yet, no buffers; pool, loop and application are those of \<open>c\<close>.\<close>

definition new_tcp_client :: "(int32 \<Rightarrow> bool) \<Rightarrow> addr \<Rightarrow> connect_env \<Rightarrow> ('task, 'u) tcp_client \<Rightarrow> ('task, 'u) tcp_client res" where
  "new_tcp_client pollable self env c =
     do_connect pollable None self env (c\<lparr>sockfd := - 1, ibuf := None, obuf := None\<rparr>)"

definition client_clean_conn :: "(int32 \<Rightarrow> bool) \<Rightarrow> ('task, 'u) client_hook \<Rightarrow> ('task, 'u) client_hook \<Rightarrow> addr \<Rightarrow> connect_env \<Rightarrow>
    ('task, 'u) tcp_client \<Rightarrow> ('task, 'u) tcp_client res" where
  "client_clean_conn pollable conn_start_cb conn_close_cb self env c =
     (let c = (if sockfd c \<noteq> - 1 then c\<lparr>cli_loop := del_io_event pollable (sockfd c) (cli_loop c)\<rparr> else c)
      in res_bind (call_client_hook conn_close_cb c) (do_connect pollable conn_start_cb self env))"

definition client_do_read where
  "client_do_read pollable conn_start_cb conn_close_cb self env call fionread got c =
     do_read call (client_clean_conn pollable conn_start_cb conn_close_cb self env) fionread got c"

definition client_do_write :: "(int32 \<Rightarrow> bool) \<Rightarrow> ('task, 'u) client_hook \<Rightarrow> ('task, 'u) client_hook \<Rightarrow> addr \<Rightarrow> connect_env \<Rightarrow>
    io_result list \<Rightarrow> ('task, 'u) tcp_client \<Rightarrow> ('task, 'u) tcp_client res" where
  "client_do_write pollable conn_start_cb conn_close_cb self env ws c =
     res_bind (write_out ws c) (\<lambda>(fine, c).
       if \<not> fine then client_clean_conn pollable conn_start_cb conn_close_cb self env c
       else res_bind (rb_length (obuf c) (bpool c)) (\<lambda>n.
         if n = 0 then Inr (c\<lparr>cli_loop := del_io_mask pollable (sockfd c) EPOLLOUT (cli_loop c)\<rparr>) else Inr c))"

definition client_send_message :: "(int32 \<Rightarrow> bool) \<Rightarrow> addr \<Rightarrow> byte list \<Rightarrow> int32 \<Rightarrow>
    ('task, 'u) tcp_client \<Rightarrow> (int \<times> ('task, 'u) tcp_client) res" where
  "client_send_message pollable self data msgid c =
     res_bind (rb_length (obuf c) (bpool c)) (\<lambda>n.
     res_bind (queue_message data msgid c) (\<lambda>(ret, c).
       if ret \<noteq> 0 then Inr (- 1, c)
       else if n = 0 then
         Inr (0, c\<lparr>cli_loop := add_io_event pollable (sockfd c) Client_Wr EPOLLOUT (Some self) (cli_loop c)\<rparr>)
       else Inr (0, c)))"

subsection \<open>A connected client\<close>

definition connected :: "(int32 \<Rightarrow> bool) \<Rightarrow> int32 \<Rightarrow> ('task, 'u) tcp_client \<Rightarrow> bool" where
  "connected pollable fd c \<longleftrightarrow> sockfd c = fd \<and> ev_armed Client_Rd Client_Wr pollable fd (cli_loop c) (out_bytes c)"

lemma client_fields_put [simp]:
  "sockfd (put_in_buf rp c) = sockfd c" "cli_loop (put_in_buf rp c) = cli_loop c" "cli_app (put_in_buf rp c) = cli_app c"
  "sockfd (put_out_buf rp c) = sockfd c" "cli_loop (put_out_buf rp c) = cli_loop c" "cli_app (put_out_buf rp c) = cli_app c"
  by (simp_all add: put_in_buf_def put_out_buf_def)

lemma client_bytes [simp]:
  "out_bytes (c\<lparr>cli_loop := el\<rparr>) = out_bytes c" "in_bytes (c\<lparr>cli_loop := el\<rparr>) = in_bytes c"
  "conn_ok others (c\<lparr>cli_loop := el\<rparr>) = conn_ok others c" "front_in (c\<lparr>cli_loop := el\<rparr>) = front_in c"
  "out_bytes (c\<lparr>sockfd := fd\<rparr>) = out_bytes c" "in_bytes (c\<lparr>sockfd := fd\<rparr>) = in_bytes c"
  "conn_ok others (c\<lparr>sockfd := fd\<rparr>) = conn_ok others c" "front_in (c\<lparr>sockfd := fd\<rparr>) = front_in c"
  "out_bytes (c\<lparr>cli_app := u\<rparr>) = out_bytes c" "in_bytes (c\<lparr>cli_app := u\<rparr>) = in_bytes c"
  by (simp_all add: out_bytes_def in_bytes_def conn_ok_def front_in_def others_in_def others_out_def)

lemma client_send_message_ok:
  assumes "conn_ok others c" and "int (length (out_bytes c)) + int (length (frame (msgid, data))) \<le> m8M"
  shows "client_send_message pollable self data msgid c = Inl Exited \<or>
    (\<exists>c'. client_send_message pollable self data msgid c = Inr (0, c') \<and> conn_ok others c' \<and>
       ibuf c' = ibuf c \<and> buf_of (ibuf c) (bpool c') = buf_of (ibuf c) (bpool c) \<and>
       same_others others (bpool c) (bpool c') \<and> out_bytes c' = out_bytes c @ frame (msgid, data) \<and>
       cli_app c' = cli_app c \<and> sockfd c' = sockfd c \<and>
       cli_loop c' = (if out_bytes c = [] then add_io_event pollable (sockfd c) Client_Wr EPOLLOUT (Some self) (cli_loop c)
         else cli_loop c))"
proof -
  have "int (length (out_bytes c)) + 8 + int (length data) \<le> m8M" using assms(2) by simp
  from queue_message_ok [OF assms(1) this, of msgid] show ?thesis
  proof (elim disjE exE conjE)
    fix rp
    assume q: "queue_message data msgid c = Inr (0, put_out_buf rp c)" "conn_ok others (put_out_buf rp c)"
      "out_bytes (put_out_buf rp c) = out_bytes c @ frame (msgid, data)"
      "buf_of (ibuf c) (snd rp) = buf_of (ibuf c) (bpool c)" "same_others others (bpool c) (snd rp)"
    let ?c = "if out_bytes c = [] then (put_out_buf rp c)\<lparr>cli_loop := add_io_event pollable (sockfd c) Client_Wr EPOLLOUT
        (Some self) (cli_loop c)\<rparr> else put_out_buf rp c"
    show ?thesis
      using q rb_length_out [OF assms(1)]
      by (intro disjI2 exI [of _ ?c]) (simp add: client_send_message_def)
  qed (simp add: client_send_message_def rb_length_out [OF assms(1)])
qed

definition client_send_to :: "(int32 \<Rightarrow> bool) \<Rightarrow> addr \<Rightarrow> msg \<Rightarrow> ('task, 'u) tcp_client \<Rightarrow> ('task, 'u) tcp_client res" where
  "client_send_to pollable self m c = res_bind (client_send_message pollable self (snd m) (fst m) c) (\<lambda>(_, c). Inr c)"

definition set_cli_app :: "'u \<Rightarrow> ('task, 'u) tcp_client \<Rightarrow> ('task, 'u) tcp_client" where
  "set_cli_app u c = c\<lparr>cli_app := u\<rparr>"

text \<open>\<open>_router.call\<close> of a client.\<close>

definition client_call :: "(int32 \<Rightarrow> bool) \<Rightarrow> addr \<Rightarrow> (('a, 'u) handler, 'a) msg_router \<Rightarrow> int32 \<Rightarrow> byte list \<Rightarrow>
    ('task, 'u) tcp_client \<Rightarrow> ('task, 'u) tcp_client res" where
  "client_call pollable self router = router_run (client_send_to pollable self) cli_app set_cli_app router"

text \<open>\<open>add_msg_router\<close> of a client registers with its own router.\<close>

definition client_add_msg_router :: "int32 \<Rightarrow> 'cb \<Rightarrow> 'a option \<Rightarrow> ('cb, 'a) msg_router \<Rightarrow> ('cb, 'a) msg_router" where
  "client_add_msg_router msgid cb user_data router = snd (regist_msg_router msgid cb user_data router)"

interpretation cl: stream_sender "client_send_to pollable self" "connected pollable fd" cli_app set_cli_app
  for pollable self fd
proof
  fix others s m
  assume a: "conn_ok others s" "connected pollable fd s" "int (length (out_bytes s)) + int (length (frame m)) \<le> m8M"
  then have "int (length (out_bytes s)) + int (length (frame (fst m, snd m))) \<le> m8M" by simp
  from client_send_message_ok [OF a(1) this, of pollable self]
  show "client_send_to pollable self m s = Inl Exited \<or>
      (\<exists>s'. client_send_to pollable self m s = Inr s' \<and> conn_ok others s' \<and> connected pollable fd s' \<and> ibuf s' = ibuf s \<and>
         buf_of (ibuf s) (bpool s') = buf_of (ibuf s) (bpool s) \<and> same_others others (bpool s) (bpool s') \<and>
         out_bytes s' = out_bytes s @ frame m \<and> cli_app s' = cli_app s)"
    using a(2) ev_armed_add [of Client_Rd Client_Wr pollable fd "cli_loop s"]
      ev_armed_more [of Client_Rd Client_Wr pollable fd "cli_loop s" "out_bytes s"]
    by (auto simp: client_send_to_def connected_def split: if_splits)
next
  fix s rp
  assume "connected pollable fd s" "out_bytes (put_in_buf rp s) = out_bytes s"
  then show "connected pollable fd (put_in_buf rp s)" by (simp add: connected_def)
qed (simp_all add: set_cli_app_def connected_def)

text \<open>
  A connected client handles what its server sends as a server handles requests: every complete
  message of the stream is handed to its callback once and in order, whatever pieces the stream
  arrives in, and an incomplete one is kept.
\<close>

theorem client_messages_in_order:
  assumes "conn_ok others c" and "front_in c" and "connected pollable fd c" and "in_bytes c = []"
    and "\<forall>bs \<in> set bss. bs \<noteq> [] \<and> int (length bs) \<le> read_limit"
    and "concat bss = concat (map frame ms) @ part" and "decode part = ([], part, False)"
    and "\<forall>m \<in> set ms. snd m \<noteq> [] \<and> int (length (snd m)) \<le> MESSAGE_LENGTH_LIMIT"
    and "int (length (out_bytes c)) +
      int (length (replies (handler_reply router) (handler_upd router) ms (cli_app c))) \<le> m8M"
  shows "reads (client_call pollable self router) (client_clean_conn pollable start close self env) bss c = Some (Inl Exited) \<or>
    (\<exists>c'. reads (client_call pollable self router) (client_clean_conn pollable start close self env) bss c = Some (Inr c') \<and>
       in_bytes c' = part \<and> cli_app c' = updates (handler_upd router) ms (cli_app c) \<and>
       out_bytes c' = out_bytes c @ replies (handler_reply router) (handler_upd router) ms (cli_app c) \<and>
       connected pollable fd c')"
proof -
  have "decode (in_bytes c) = ([], in_bytes c, False)" using assms(4) by (simp add: decode_short)
  moreover have "decode (in_bytes c @ concat bss) = (ms, part, False)"
    using assms(4,6,7,8) decode_frames [of ms part] by simp
  ultimately show ?thesis
    using cl.cb.reads_messages [OF assms(1-3) _ assms(5), of ms part router self
        "client_clean_conn pollable start close self env", folded client_call_def] assms(8,9)
    by auto
qed

subsection \<open>Connecting\<close>

lemma watch_socket_ok:
  assumes "conn_ok others c" and "loop_ok (cli_loop c)" and "pollable fd" and "io_evs (cli_loop c) fd = None" and "sockfd c = fd"
  shows "\<exists>el. watch_socket pollable self fd c = Inr (c\<lparr>cli_loop := el\<rparr>) \<and> connected pollable fd (c\<lparr>cli_loop := el\<rparr>)"
proof -
  let ?el = "add_io_event pollable fd Client_Rd EPOLLIN (Some self) (cli_loop c)"
  have "ev_armed Client_Rd Client_Wr pollable fd ?el []"
    using assms(3,4) loop_ok_add [where pollable = pollable, OF assms(2,3), of EPOLLIN]
    by (simp add: ev_armed_def add_io_event_ok_eq [where pollable = pollable, OF assms(2,3)] registered_def
        set_io_callback_def lars_defs Let_def)
  then have armed: "connected pollable fd (c\<lparr>cli_loop := if out_bytes c = [] then ?el else
      add_io_event pollable fd Client_Wr EPOLLOUT (Some self) ?el\<rparr>)"
    using assms(5) ev_armed_add by (auto simp: connected_def)
  moreover have "watch_socket pollable self fd c = Inr (c\<lparr>cli_loop := if out_bytes c = [] then ?el else
      add_io_event pollable fd Client_Wr EPOLLOUT (Some self) ?el\<rparr>)"
    using rb_length_out [OF assms(1)] by (simp add: watch_socket_def Let_def)
  ultimately show ?thesis by blast
qed

lemma connection_succ_ok:
  assumes "conn_ok others c" and "loop_ok (cli_loop c)" and "pollable fd" and "sockfd c = fd"
  shows "\<exists>el. connection_succ pollable None self 0 fd c = Inr (c\<lparr>cli_loop := el\<rparr>) \<and> connected pollable fd (c\<lparr>cli_loop := el\<rparr>)"
proof -
  let ?c = "c\<lparr>cli_loop := del_io_event pollable fd (cli_loop c)\<rparr>"
  have "\<exists>el. watch_socket pollable self fd ?c = Inr (?c\<lparr>cli_loop := el\<rparr>) \<and> connected pollable fd (?c\<lparr>cli_loop := el\<rparr>)"
    using assms loop_ok_del [where pollable = pollable, OF assms(2,3)]
      del_io_event_ok_eq [where pollable = pollable, OF assms(2,3)]
    by (intro watch_socket_ok) simp_all
  then show ?thesis by (simp add: connection_succ_def Let_def)
qed

text \<open>
  Connecting, at once or when the socket reports that it has connected, ends with the client
  watching its new socket for input, and for output exactly when something is queued: messages queued
  before the connection existed will be written, and the buffers are the ones from before.
\<close>

theorem connecting_arms_client:
  assumes "conn_ok others c" and "loop_ok (cli_loop c)" and "pollable fd" and "io_evs (cli_loop c) fd = None"
  shows "(\<exists>c'. do_connect pollable None self \<lparr>env_socket = Some fd, env_connect = Connected, env_so_error = 0\<rparr> c = Inr c' \<and>
      connected pollable fd c' \<and> out_bytes c' = out_bytes c \<and> in_bytes c' = in_bytes c) \<and>
    (\<exists>c' c''. do_connect pollable None self \<lparr>env_socket = Some fd, env_connect = In_Progress, env_so_error = e\<rparr> c = Inr c' \<and>
      connection_succ pollable None self 0 fd c' = Inr c'' \<and> connected pollable fd c'' \<and>
      out_bytes c'' = out_bytes c \<and> in_bytes c'' = in_bytes c)"
proof (intro conjI)
  let ?c = "c\<lparr>sockfd := fd\<rparr>"
  have ok: "conn_ok others ?c" using assms(1) by simp
  obtain el where w: "watch_socket pollable self fd ?c = Inr (?c\<lparr>cli_loop := el\<rparr>)" "connected pollable fd (?c\<lparr>cli_loop := el\<rparr>)"
    using watch_socket_ok [OF ok, of pollable fd self] assms(2-4) by auto
  have "loop_ok el" using w(2) by (simp add: connected_def ev_armed_def)
  then obtain el' where s: "connection_succ pollable None self 0 fd (?c\<lparr>cli_loop := el\<rparr>) = Inr (?c\<lparr>cli_loop := el'\<rparr>)"
      "connected pollable fd (?c\<lparr>cli_loop := el'\<rparr>)"
    using connection_succ_ok [of others "?c\<lparr>cli_loop := el\<rparr>" pollable fd self] ok assms(3) by auto
  then show "\<exists>c'. do_connect pollable None self \<lparr>env_socket = Some fd, env_connect = Connected, env_so_error = 0\<rparr> c = Inr c' \<and>
      connected pollable fd c' \<and> out_bytes c' = out_bytes c \<and> in_bytes c' = in_bytes c"
    using w(1) by (simp add: do_connect_def Let_def)
next
  let ?c = "c\<lparr>sockfd := fd, cli_loop := add_io_event pollable fd Connection_Succ EPOLLOUT (Some self) (cli_loop c)\<rparr>"
  have "\<exists>el. connection_succ pollable None self 0 fd ?c = Inr (?c\<lparr>cli_loop := el\<rparr>) \<and>
      connected pollable fd (?c\<lparr>cli_loop := el\<rparr>)"
    using assms(1-3) loop_ok_add [where pollable = pollable, OF assms(2,3), of EPOLLOUT]
    by (intro connection_succ_ok) simp_all
  then show "\<exists>c' c''. do_connect pollable None self \<lparr>env_socket = Some fd, env_connect = In_Progress, env_so_error = e\<rparr> c = Inr c' \<and>
      connection_succ pollable None self 0 fd c' = Inr c'' \<and> connected pollable fd c'' \<and>
      out_bytes c'' = out_bytes c \<and> in_bytes c'' = in_bytes c"
    by (auto simp: do_connect_def)
qed

text \<open>
  A message sent while the connection is still being made replaces the callback that would have
  completed it: the socket is then watched for output only, writing the message removes it from the
  loop altogether, and no answer is ever read.
\<close>

theorem send_while_connecting_is_deaf:
  assumes "conn_ok others c" and "loop_ok (cli_loop c)" and "pollable fd" and "io_evs (cli_loop c) fd = None"
    and "out_bytes c = []" and "8 + int (length data) \<le> m8M"
    and "do_connect pollable None self \<lparr>env_socket = Some fd, env_connect = In_Progress, env_so_error = e\<rparr> c = Inr c1"
  shows "client_send_message pollable self data msgid c1 = Inl Exited \<or>
    (\<exists>c2 c3. client_send_message pollable self data msgid c1 = Inr (0, c2) \<and>
       (\<exists>ev. io_evs (cli_loop c2) fd = Some ev \<and> ev_mask ev = EPOLLOUT \<and> write_callback ev = Some Client_Wr) \<and>
       client_do_write pollable start close self env (kernel_writes [8 + length data] (out_bytes c2)) c2 = Inr c3 \<and>
       out_bytes c3 = [] \<and> fd \<notin> get_listen_fds (cli_loop c3))"
proof -
  let ?el = "add_io_event pollable fd Connection_Succ EPOLLOUT (Some self) (cli_loop c)"
  let ?wr = "add_io_event pollable fd Client_Wr EPOLLOUT (Some self) ?el"
  have c1: "c1 = c\<lparr>sockfd := fd, cli_loop := ?el\<rparr>" using assms(7) by (simp add: do_connect_def)
  have el: "loop_ok ?el" using loop_ok_add [where pollable = pollable, OF assms(2,3), of EPOLLOUT] by simp
  then have wr: "loop_ok ?wr" using loop_ok_add [where pollable = pollable, OF el assms(3), of EPOLLOUT] by simp
  have ev: "\<exists>ev. io_evs ?wr fd = Some ev \<and> ev_mask ev = EPOLLOUT \<and> write_callback ev = Some Client_Wr"
    using assms(4) by (simp add: io_evs_add registered_def set_io_callback_def lars_defs Let_def)
  have ok: "conn_ok others c1" "out_bytes c1 = []" using assms(1,5) c1 by simp_all
  have "int (length (out_bytes c1)) + int (length (frame (msgid, data))) \<le> m8M" using assms(6) ok(2) by simp
  from client_send_message_ok [OF ok(1) this, of pollable self] show ?thesis
  proof (elim disjE exE conjE)
    fix c2
    assume two: "client_send_message pollable self data msgid c1 = Inr (0, c2)" "conn_ok others c2"
      "out_bytes c2 = out_bytes c1 @ frame (msgid, data)" "sockfd c2 = sockfd c1"
      "cli_loop c2 = (if out_bytes c1 = [] then add_io_event pollable (sockfd c1) Client_Wr EPOLLOUT (Some self) (cli_loop c1)
         else cli_loop c1)"
    have loop2: "cli_loop c2 = ?wr" "sockfd c2 = fd" using two(4,5) ok(2) c1 by simp_all
    obtain rp where w: "write_out (kernel_writes [8 + length data] (out_bytes c2)) c2 = Inr (True, put_out_buf rp c2)"
        "conn_ok others (put_out_buf rp c2)" "out_bytes (put_out_buf rp c2) = []"
      using write_out_ok [OF two(2), of "[8 + length data]"] two(3) ok(2) by auto
    let ?c3 = "(put_out_buf rp c2)\<lparr>cli_loop := del_io_mask pollable fd EPOLLOUT ?wr\<rparr>"
    have "client_do_write pollable start close self env (kernel_writes [8 + length data] (out_bytes c2)) c2 = Inr ?c3"
      using w rb_length_out [OF w(2)] loop2 by (simp add: client_do_write_def)
    moreover have "fd \<notin> get_listen_fds (cli_loop ?c3)"
      using ev by (auto simp: get_listen_fds_def del_io_mask_def del_io_event_def Let_def lars_defs split: option.splits)
    ultimately show ?thesis
      using two(1) ev loop2(1) w(3) by (intro disjI2 exI [of _ c2] exI [of _ ?c3]) simp
  qed simp
qed

subsection \<open>Connecting again\<close>

text \<open>
  A client that has received a head with a refused length never recovers: it closes the
  connection and makes a new one but keeps the bytes it had, so the refused head stays in front of
  everything the new connection brings, no further message is handled, and the next read closes again.
\<close>

theorem refused_answer_is_kept:
  assumes "conn_ok others c" and "front_in c" and "connected pollable fd c" and "bs \<noteq> []"
    and "int (length (in_bytes c)) + int (length bs) \<le> m8M" and "int (length (out_bytes c)) \<le> m8M"
    and "decode (in_bytes c) = ([], in_bytes c, True)"
    and "env_socket env = Some fd'" and "env_connect env = In_Progress"
  shows "client_do_read pollable None None self env (client_call pollable self router) (Some (int (length bs))) (Io_Bytes bs) c
      = Some (Inl Exited) \<or>
    (\<exists>c'. client_do_read pollable None None self env (client_call pollable self router) (Some (int (length bs))) (Io_Bytes bs) c
         = Some (Inr c') \<and>
       sockfd c' = fd' \<and> cli_app c' = cli_app c \<and> in_bytes c' = in_bytes c @ bs \<and> front_in c' \<and> conn_ok others c' \<and>
       decode (in_bytes c') = ([], in_bytes c', True))"
proof -
  have dec: "decode (in_bytes c @ bs) = ([], in_bytes c @ bs, True)" by (rule decode_bad_append [OF assms(7)])
  let ?clean = "client_clean_conn pollable None None self env"
  have "int (length (out_bytes c)) + int (length (replies (handler_reply router) (handler_upd router) [] (cli_app c))) \<le> m8M"
    using assms(6) by simp
  note bad = cl.cb.do_read_bad [OF assms(1-5) dec _ this, of self ?clean, folded client_call_def]
  have "\<forall>m \<in> set ([] :: msg list). snd m \<noteq> []" by simp
  from bad [OF this] show ?thesis
  proof (elim disjE exE conjE)
    fix s'
    assume s': "do_read (client_call pollable self router) ?clean (Some (int (length bs))) (Io_Bytes bs) c =
        Some (res_bind (?clean s') (\<lambda>s. res_bind (rb_adjust (ibuf s, bpool s)) (\<lambda>rp. Inr (put_in_buf rp s))))"
      "conn_ok others s'" "in_bytes s' = in_bytes c @ bs" "cli_app s' = updates (handler_upd router) [] (cli_app c)"
    obtain el where clean: "?clean s' = Inr (s'\<lparr>sockfd := fd', cli_loop := el\<rparr>)"
      using assms(8,9) by (cases "sockfd s' = - 1") (auto simp: client_clean_conn_def do_connect_def Let_def)
    let ?s = "s'\<lparr>sockfd := fd', cli_loop := el\<rparr>"
    have ok: "conn_ok others ?s" using s'(2) by simp
    then obtain p2 where two: "rb_adjust (ibuf ?s, bpool ?s) = Inr (ibuf ?s, p2)" "rb_ok (others_in others ?s) (ibuf ?s) p2"
        "same_others (others_in others ?s) (bpool ?s) p2" "rb_content (ibuf ?s) p2 = rb_content (ibuf ?s) (bpool ?s)"
        "at_front (ibuf ?s) p2"
      using rb_adjust_ok by (meson conn_ok_def)
    note s2 = conn_ok_input [OF ok two(2,3)]
    have bytes: "in_bytes (put_in_buf (ibuf ?s, p2) ?s) = in_bytes c @ bs"
      using two(4) s'(3) by (simp add: in_bytes_def)
    have "client_do_read pollable None None self env (client_call pollable self router) (Some (int (length bs))) (Io_Bytes bs) c =
        Some (Inr (put_in_buf (ibuf ?s, p2) ?s))"
      using s'(1) clean two(1) by (simp add: client_do_read_def)
    then show ?thesis
      using bytes s2(1) two(5) s'(4) dec by (intro disjI2 exI [of _ "put_in_buf (ibuf ?s, p2) ?s"]) (simp add: front_in_def)
  qed (simp_all add: client_do_read_def)
qed

subsection \<open>Concrete clients\<close>

definition ex_client :: "reactor_buf \<Rightarrow> buf_pool \<Rightarrow> 'u \<Rightarrow> (unit, 'u) tcp_client" where
  "ex_client rb p u = \<lparr>ibuf = rb, obuf = None, bpool = p, sockfd = - 1, cli_loop = new_event_loop, cli_app = u\<rparr>"

definition ex_env :: connect_env where
  "ex_env = \<lparr>env_socket = Some 6, env_connect = In_Progress, env_so_error = 0\<rparr>"

definition ex_joined :: "reactor_buf \<Rightarrow> buf_pool \<Rightarrow> 'u \<Rightarrow> (unit, 'u) tcp_client" where
  "ex_joined rb p u = (ex_client rb p u)\<lparr>sockfd := 5,
     cli_loop := add_io_event (\<lambda>_. True) 5 Client_Rd EPOLLIN (Some 0) new_event_loop\<rparr>"

lemma ex_client_ok:
  assumes "pool_ok (set_option rb) p"
  shows "conn_ok {} (ex_client rb p u)" "conn_ok {} (ex_joined rb p u)" "out_bytes (ex_client rb p u) = []"
    "connected (\<lambda>_. True) 5 (ex_joined rb p u)" "out_bytes (ex_joined rb p u) = []"
proof -
  show "conn_ok {} (ex_client rb p u)" "out_bytes (ex_client rb p u) = []"
    using assms by (simp_all add: conn_ok_def out_bytes_def ex_client_def others_in_def others_out_def rb_ok_pool
        at_front_def rb_content_def)
  then show "conn_ok {} (ex_joined rb p u)" "out_bytes (ex_joined rb p u) = []" by (simp_all add: ex_joined_def)
  then show "connected (\<lambda>_. True) 5 (ex_joined rb p u)"
    using loop_ok_add [where pollable = "\<lambda>_. True" and fd = 5 and msk = EPOLLIN, OF loop_ok_new]
    by (simp add: connected_def ev_armed_def ex_joined_def io_evs_add registered_def set_io_callback_def new_event_loop_def
        lars_defs)
qed

lemma ex_pool_empty: "pool_ok (set_option None) (ex_pool Map.empty)"
  by (rule ex_pool_ok) auto

theorem client_messages_in_order_witness:
  "let f = frame (3, [1, 2]); bss = [take 5 f, drop 5 f @ [7]]; c = ex_joined None (ex_pool Map.empty) () in
   reads (client_call (\<lambda>_. True) 0 echo_router) (client_clean_conn (\<lambda>_. True) None None 0 ex_env) bss c = Some (Inl Exited) \<or>
   (\<exists>c'. reads (client_call (\<lambda>_. True) 0 echo_router) (client_clean_conn (\<lambda>_. True) None None 0 ex_env) bss c = Some (Inr c') \<and>
      in_bytes c' = [7] \<and> out_bytes c' = frame (3, [1, 2]))"
proof -
  let ?f = "frame (3, [1, 2])" and ?c = "ex_joined None (ex_pool Map.empty) ()"
  have "front_in ?c" "in_bytes ?c = []"
    by (simp_all add: ex_joined_def ex_client_def front_in_def at_front_def in_bytes_def rb_content_def)
  then show ?thesis
    using client_messages_in_order [OF ex_client_ok(2) _ ex_client_ok(4), of None "ex_pool Map.empty" "()"
        "[take 5 ?f, drop 5 ?f @ [7]]" "[(3, [1, 2])]" "[7]" echo_router 0 None None ex_env] ex_pool_empty
    by (auto simp add: decode_short ex_client_ok handler_reply_def handled_echo read_limit_def m8M_def lars_defs Let_def
        simp del: reads.simps)
qed

theorem connecting_arms_client_witness:
  "\<exists>c'. do_connect (\<lambda>_. True) None 0 \<lparr>env_socket = Some 5, env_connect = Connected, env_so_error = 0\<rparr>
     (ex_client None (ex_pool Map.empty) ()) = Inr c' \<and> connected (\<lambda>_. True) 5 c'"
proof -
  have "loop_ok (cli_loop (ex_client None (ex_pool Map.empty) ()))" "io_evs (cli_loop (ex_client None (ex_pool Map.empty) ())) 5 = None"
    by (simp_all add: ex_client_def) (simp add: new_event_loop_def)
  then show ?thesis
    using connecting_arms_client [OF ex_client_ok(1) [OF ex_pool_empty], of "()" "\<lambda>_. True" 5 0] by blast
qed

theorem send_while_connecting_is_deaf_witness:
  "\<exists>c1. do_connect (\<lambda>_. True) None 0 \<lparr>env_socket = Some 5, env_connect = In_Progress, env_so_error = 0\<rparr>
      (ex_client None (ex_pool Map.empty) ()) = Inr c1 \<and>
    (client_send_message (\<lambda>_. True) 0 [1] 1 c1 = Inl Exited \<or>
     (\<exists>c2 c3. client_send_message (\<lambda>_. True) 0 [1] 1 c1 = Inr (0, c2) \<and>
       client_do_write (\<lambda>_. True) None None 0 ex_env (kernel_writes [9] (out_bytes c2)) c2 = Inr c3 \<and>
       5 \<notin> get_listen_fds (cli_loop c3)))"
proof -
  let ?c = "ex_client None (ex_pool Map.empty) ()"
  obtain c1 where c1: "do_connect (\<lambda>_. True) None 0 \<lparr>env_socket = Some 5, env_connect = In_Progress, env_so_error = 0\<rparr> ?c = Inr c1"
    by (simp add: do_connect_def)
  have "loop_ok (cli_loop ?c)" "io_evs (cli_loop ?c) 5 = None" by (simp_all add: ex_client_def) (simp add: new_event_loop_def)
  then show ?thesis
    using send_while_connecting_is_deaf [OF ex_client_ok(1) [OF ex_pool_empty] _ _ _ _ _ c1, of "[1]" 1 None None ex_env]
      ex_client_ok(3) [OF ex_pool_empty, of "()"] c1
    by (auto simp: m8M_def)
qed

theorem refused_answer_is_kept_witness:
  "\<exists>c :: (unit, unit) tcp_client. in_bytes c = head_bytes \<lparr>head_msgid = 3, head_msglen = - 1\<rparr> \<and>
    (let result = client_do_read (\<lambda>_. True) None None 0 ex_env (client_call (\<lambda>_. True) 0 echo_router) (Some 1) (Io_Bytes [1]) c
     in result = Some (Inl Exited) \<or> (\<exists>c'. result = Some (Inr c') \<and> sockfd c' = 6 \<and> in_bytes c' = in_bytes c @ [1]))"
proof -
  let ?h = "head_bytes \<lparr>head_msgid = 3, head_msglen = - 1\<rparr>"
  let ?b = "(new_io_buf m4K)\<lparr>buf_length := 8, buf_data := ?h @ replicate 4088 0\<rparr>"
  let ?c = "ex_joined (Some 0) (ex_pool [0 \<mapsto> ?b]) ()"
  have b: "buf_ok ?b" "capacity ?b \<in> caps" by (simp_all add: buf_ok_def new_io_buf_def caps_def m4K_def)
  have p: "pool_ok (set_option (Some 0)) (ex_pool [0 \<mapsto> ?b])" by (rule ex_pool_ok) (use b in \<open>auto split: if_splits\<close>)
  have c: "in_bytes ?c = ?h" "front_in ?c"
    by (simp_all add: in_bytes_def front_in_def at_front_def ex_joined_def ex_client_def rb_content_def ex_pool_def content_def
        new_io_buf_def)
  have "decode ?h = ([], ?h, True)"
    using read_head_bytes [of "\<lparr>head_msgid = 3, head_msglen = - 1\<rparr>" "[]"]
    by (subst decode.simps) (simp add: body_len_def)
  then show ?thesis
    using refused_answer_is_kept [OF ex_client_ok(2) [OF p] c(2) ex_client_ok(4) [OF p], of "[1]"
        ex_env 6 0 echo_router] c(1)
    by (intro exI [of _ ?c]) (auto simp: ex_client_ok [OF p] m8M_def ex_env_def Let_def)
qed

end
