(* ===== verification/Udp.thy ===== *)
theory Udp
  imports Message Event_Loop
begin

text \<open>
  The datagram endpoints \<open>udp_server\<close> and \<open>udp_client\<close> (\<open>lars_reactor/src/udp_server.cpp\<close>,
  \<open>udp_client.cpp\<close>): one message in one datagram, read into and sent from fixed arrays of
  \<open>MESSAGE_LENGTH_LIMIT\<close> bytes. The agent answers its clients through \<open>udp_server\<close>.
\<close>

subsection \<open>Endpoints\<close>

text \<open>
  The part both classes have: the two arrays, the peer of the last datagram (only the server keeps
  it), the datagrams given to \<open>sendto\<close>, and the application's state.
\<close>

record ('p, 'u) udp_end =
  read_buf :: "byte list"
  write_buf :: "byte list"
  peer :: 'p
  datagrams :: "('p \<times> byte list) list"
  udp_app :: 'u

definition bufs_ok :: "('p, 'u) udp_end \<Rightarrow> bool" where
  "bufs_ok u \<longleftrightarrow> int (length (read_buf u)) = MESSAGE_LENGTH_LIMIT \<and> int (length (write_buf u)) = MESSAGE_LENGTH_LIMIT"

text \<open>\<open>memcpy\<close> into an array at an offset.\<close>

definition overlay :: "nat \<Rightarrow> byte list \<Rightarrow> byte list \<Rightarrow> byte list res" where
  "overlay off bs mem =
     (if off + length bs \<le> length mem then Inr (take off mem @ bs @ drop (off + length bs) mem) else Inl Out_Of_Bounds)"

lemma length_overlay: "overlay off bs mem = Inr mem' \<Longrightarrow> length mem' = length mem"
  by (auto simp: overlay_def split: if_splits)

lemma take_overlay0: "overlay 0 bs mem = Inr mem' \<Longrightarrow> n \<le> length bs \<Longrightarrow> take n mem' = take n bs"
  by (auto simp: overlay_def split: if_splits)

subsection \<open>Reading\<close>

text \<open>
  What \<open>recvfrom\<close> returns: a datagram longer than the array is cut. When the list is used up the
  socket has nothing more (\<open>EAGAIN\<close>).
\<close>

datatype 'p recv_result = Recv_EINTR | Recv_EAGAIN | Recv_Error | Datagram 'p "byte list"

definition cut_datagram :: "byte list \<Rightarrow> byte list" where
  "cut_datagram d = take (nat MESSAGE_LENGTH_LIMIT) d"

text \<open>One datagram in the array: the check of its head, and the callback for a good one.\<close>

definition udp_packet :: "(int32 \<Rightarrow> byte list \<Rightarrow> ('p, 'u) udp_end \<Rightarrow> ('p, 'u) udp_end res) \<Rightarrow> int \<Rightarrow>
    ('p, 'u) udp_end \<Rightarrow> ('p, 'u) udp_end res" where
  "udp_packet call pkg_len u =
     (let head = read_head (read_buf u); msglen = sint (head_msglen head)
      in if msglen > MESSAGE_LENGTH_LIMIT \<or> msglen < 0 \<or> msglen + MESSAGE_HEAD_LEN \<noteq> pkg_len then Inr u
         else call (head_msgid head) (take (nat msglen) (drop 8 (read_buf u))) u)"

fun udp_do_read :: "('p \<Rightarrow> ('p, 'u) udp_end \<Rightarrow> ('p, 'u) udp_end) \<Rightarrow>
    (int32 \<Rightarrow> byte list \<Rightarrow> ('p, 'u) udp_end \<Rightarrow> ('p, 'u) udp_end res) \<Rightarrow>
    'p recv_result list \<Rightarrow> ('p, 'u) udp_end \<Rightarrow> ('p, 'u) udp_end res" where
  "udp_do_read from call [] u = Inr u"
| "udp_do_read from call (Recv_EINTR # rs) u = udp_do_read from call rs u"
| "udp_do_read from call (Recv_EAGAIN # rs) u = Inr u"
| "udp_do_read from call (Recv_Error # rs) u = Inr u"
| "udp_do_read from call (Datagram p d # rs) u =
     res_bind (overlay 0 (cut_datagram d) (read_buf u)) (\<lambda>mem.
     res_bind (udp_packet call (int (length (cut_datagram d))) (from p (u\<lparr>read_buf := mem\<rparr>))) (udp_do_read from call rs))"

text \<open>The server stores the sender's address, to which it answers; the client is connected.\<close>

definition udp_server_do_read where
  "udp_server_do_read call rs u = udp_do_read (\<lambda>p u. u\<lparr>peer := p\<rparr>) call rs u"

definition udp_client_do_read where
  "udp_client_do_read call rs u = udp_do_read (\<lambda>p u. u) call rs u"

subsection \<open>Sending\<close>

text \<open>
  Head and body are put together in the array and sent; \<open>sent\<close> tells whether \<open>sendto\<close> succeeds.
\<close>

definition udp_send :: "bool \<Rightarrow> byte list \<Rightarrow> nat \<Rightarrow> int32 \<Rightarrow> ('p, 'u) udp_end \<Rightarrow> (int \<times> ('p, 'u) udp_end) res" where
  "udp_send sent body msglen msgid u =
     (if int msglen > MESSAGE_LENGTH_LIMIT then Inr (- 1, u)
      else
        res_bind (overlay 0 (head_bytes \<lparr>head_msgid = msgid, head_msglen = of_nat msglen\<rparr>) (write_buf u)) (\<lambda>mem.
        res_bind (overlay 8 (take msglen body) mem) (\<lambda>mem.
          (let u = u\<lparr>write_buf := mem\<rparr>
           in if sent then Inr (int msglen + 8, u\<lparr>datagrams := datagrams u @ [(peer u, take (msglen + 8) mem)]\<rparr>)
              else Inr (- 1, u)))))"

definition udp_client_send_message where
  "udp_client_send_message sent data msgid u = udp_send sent data (length data) msgid u"

text \<open>
  The server copies from \<open>&data\<close>, the address of its parameter: \<open>stack\<close> is what lies there, the
  pointer itself and then the rest of the stack frame.
\<close>

definition udp_server_send_message where
  "udp_server_send_message sent stack data msgid u = udp_send sent stack (length data) msgid u"

subsection \<open>The endpoints in a loop\<close>

text \<open>
  The constructors: the socket, its registration for input, and fresh objects around the arrays
  (\<open>garbage\<close>, which nothing initialises). The server ignores what \<open>bind\<close> returns; the client exits
  when \<open>connect\<close> fails.
\<close>

definition new_udp_server :: "(int32 \<Rightarrow> bool) \<Rightarrow> 'cb \<Rightarrow> addr \<Rightarrow> int32 option \<Rightarrow> 'p \<Rightarrow> byte list \<times> byte list \<Rightarrow> 'u \<Rightarrow>
    ('cb, addr, 'task) event_loop \<Rightarrow> (('p, 'u) udp_end \<times> ('cb, addr, 'task) event_loop) res" where
  "new_udp_server pollable cb self sock nobody garbage u el =
     (case sock of
        None \<Rightarrow> Inl Exited
      | Some fd \<Rightarrow> Inr (\<lparr>read_buf = fst garbage, write_buf = snd garbage, peer = nobody, datagrams = [], udp_app = u\<rparr>,
          add_io_event pollable fd cb EPOLLIN (Some self) el))"

definition new_udp_client :: "(int32 \<Rightarrow> bool) \<Rightarrow> 'cb \<Rightarrow> addr \<Rightarrow> int32 option \<Rightarrow> bool \<Rightarrow> 'p \<Rightarrow> byte list \<times> byte list \<Rightarrow> 'u \<Rightarrow>
    ('cb, addr, 'task) event_loop \<Rightarrow> (('p, 'u) udp_end \<times> ('cb, addr, 'task) event_loop) res" where
  "new_udp_client pollable cb self sock connect_ok server garbage u el =
     (case sock of
        None \<Rightarrow> Inl Exited
      | Some fd \<Rightarrow>
          if \<not> connect_ok then Inl Exited
          else Inr (\<lparr>read_buf = fst garbage, write_buf = snd garbage, peer = server, datagrams = [], udp_app = u\<rparr>,
            add_io_event pollable fd cb EPOLLIN (Some self) el))"

definition udp_add_msg_router :: "int32 \<Rightarrow> 'cb \<Rightarrow> 'a option \<Rightarrow> ('cb, 'a) msg_router \<Rightarrow> ('cb, 'a) msg_router" where
  "udp_add_msg_router msgid msg_cb user_data router = snd (regist_msg_router msgid msg_cb user_data router)"

text \<open>The destructors take the socket out of the loop before closing it.\<close>

definition delete_udp_end :: "(int32 \<Rightarrow> bool) \<Rightarrow> int32 \<Rightarrow> ('cb, 'arg, 'task) event_loop \<Rightarrow> ('cb, 'arg, 'task) event_loop" where
  "delete_udp_end pollable fd el = del_io_event pollable fd el"

subsection \<open>Which datagrams are handled\<close>

text \<open>The reference: a datagram is a message when it is its own head and exactly the announced body.\<close>

definition datagram_msg :: "byte list \<Rightarrow> msg option" where
  "datagram_msg d =
     (if 8 \<le> length d \<and> body_len d = int (length d) - 8 then Some (head_msgid (read_head d), drop 8 d) else None)"

lemma datagram_frame:
  assumes "int (length (snd m)) \<le> MESSAGE_LENGTH_LIMIT"
  shows "datagram_msg (frame m) = Some m"
  using body_len_frame [OF assms, of "[]"] read_head_bytes [of "\<lparr>head_msgid = fst m, head_msglen = of_nat (length (snd m))\<rparr>" "snd m"]
  by (simp add: datagram_msg_def) (simp add: frame_def)

lemma udp_packet_msg:
  assumes "overlay 0 d mem = Inr mem'" and "int (length d) \<le> MESSAGE_LENGTH_LIMIT" and "read_buf u = mem'"
  shows "udp_packet call (int (length d)) u = (case datagram_msg d of None \<Rightarrow> Inr u | Some (i, b) \<Rightarrow> call i b u)"
proof (cases "8 \<le> length d")
  case True
  have "read_head mem' = read_head d"
    using take_overlay0 [OF assms(1) True] by (metis read_head_take order_refl)
  moreover have "take (length d - 8) (drop 8 mem') = drop 8 d"
    using take_overlay0 [OF assms(1) order_refl] True by (metis drop_take take_all order_refl)
  moreover have "x + 8 = int (length d) \<Longrightarrow> nat x = length d - 8" for x by auto
  ultimately show ?thesis
    using True assms(2,3) by (auto simp: udp_packet_def datagram_msg_def body_len_def lars_defs Let_def)
next
  case False
  then show ?thesis by (auto simp: udp_packet_def datagram_msg_def lars_defs Let_def)
qed

text \<open>The specification of reading: handle the good datagrams in order, skip the others.\<close>

fun handle_datagrams :: "('p \<Rightarrow> ('p, 'u) udp_end \<Rightarrow> ('p, 'u) udp_end) \<Rightarrow>
    (int32 \<Rightarrow> byte list \<Rightarrow> ('p, 'u) udp_end \<Rightarrow> ('p, 'u) udp_end res) \<Rightarrow> ('p \<times> byte list) list \<Rightarrow>
    ('p, 'u) udp_end \<Rightarrow> ('p, 'u) udp_end res" where
  "handle_datagrams from call [] u = Inr u"
| "handle_datagrams from call ((p, d) # ds) u =
     (let u = from p (u\<lparr>read_buf := cut_datagram d @ drop (length (cut_datagram d)) (read_buf u)\<rparr>)
      in res_bind (case datagram_msg (cut_datagram d) of None \<Rightarrow> Inr u | Some (i, b) \<Rightarrow> call i b u) (handle_datagrams from call ds))"

text \<open>
  C40: Reading is equivalent to its specification: of the datagrams that arrive, each is handed to the
  callback of its number exactly when it consists of a head and the body the head announces, in
  order; any other datagram, also one shorter than a head, is skipped and cannot be confused with
  what an earlier datagram left in the array.
\<close>

theorem udp_read_equivalent:
  assumes "bufs_ok u" and "\<And>p u. bufs_ok (from p u) = bufs_ok u \<and> read_buf (from p u) = read_buf u"
    and "\<And>i b u u'. bufs_ok u \<Longrightarrow> call i b u = Inr u' \<Longrightarrow> bufs_ok u'"
  shows "udp_do_read from call (map (\<lambda>(p, d). Datagram p d) ds) u = handle_datagrams from call ds u"
  using assms(1)
proof (induction ds arbitrary: u)
  case (Cons pd ds)
  obtain p d where pd: "pd = (p, d)" by (cases pd)
  have len: "int (length (cut_datagram d)) \<le> MESSAGE_LENGTH_LIMIT" by (simp add: cut_datagram_def lars_defs)
  then have fits: "length (cut_datagram d) \<le> length (read_buf u)" using Cons.prems by (simp add: bufs_ok_def)
  let ?mem = "cut_datagram d @ drop (length (cut_datagram d)) (read_buf u)"
  let ?u = "from p (u\<lparr>read_buf := ?mem\<rparr>)"
  have mem: "overlay 0 (cut_datagram d) (read_buf u) = Inr ?mem" using fits by (simp add: overlay_def)
  have "bufs_ok (u\<lparr>read_buf := ?mem\<rparr>)" using Cons.prems fits by (simp add: bufs_ok_def)
  then have ok: "bufs_ok ?u" using assms(2) by simp
  have packet: "udp_packet call (int (length (cut_datagram d))) ?u = (case datagram_msg (cut_datagram d) of None \<Rightarrow> Inr ?u | Some (i, b) \<Rightarrow> call i b ?u)"
    by (rule udp_packet_msg [OF mem len]) (simp add: assms(2))
  have "res_bind (udp_packet call (int (length (cut_datagram d))) ?u) (udp_do_read from call (map (\<lambda>(p, d). Datagram p d) ds)) =
      res_bind (udp_packet call (int (length (cut_datagram d))) ?u) (handle_datagrams from call ds)"
  proof (rule res_bind_cong [OF refl])
    fix v
    assume "udp_packet call (int (length (cut_datagram d))) ?u = Inr v"
    then have "bufs_ok v" unfolding packet using ok assms(3) by (auto split: option.splits)
    then show "udp_do_read from call (map (\<lambda>(p, d). Datagram p d) ds) v = handle_datagrams from call ds v"
      by (rule Cons.IH)
  qed
  then show ?case using mem packet by (simp add: pd Let_def)
qed simp

subsection \<open>What arrives of what was sent\<close>

lemma udp_send_datagram:
  assumes "bufs_ok u" and "int msglen + 8 \<le> MESSAGE_LENGTH_LIMIT" and "msglen \<le> length body"
  shows "\<exists>u'. udp_send True body msglen msgid u = Inr (int msglen + 8, u') \<and> bufs_ok u' \<and> udp_app u' = udp_app u \<and>
    read_buf u' = read_buf u \<and> peer u' = peer u \<and>
    datagrams u' = datagrams u @ [(peer u, frame (msgid, take msglen body))]"
proof -
  let ?h = "head_bytes \<lparr>head_msgid = msgid, head_msglen = of_nat msglen\<rparr>"
  have len: "8 + msglen \<le> length (write_buf u)" using assms(1,2) by (simp add: bufs_ok_def)
  let ?m1 = "?h @ drop 8 (write_buf u)" and ?m2 = "?h @ take msglen body @ drop (8 + msglen) (write_buf u)"
  have one: "overlay 0 ?h (write_buf u) = Inr ?m1" using len by (simp add: overlay_def)
  have "drop (8 + msglen) ?m1 = drop (8 + msglen) (write_buf u)" by (simp add: add.commute)
  then have two: "overlay 8 (take msglen body) ?m1 = Inr ?m2"
    using len assms(3) by (simp add: overlay_def min_absorb2 add.commute)
  have "\<not> MESSAGE_LENGTH_LIMIT < int msglen" using assms(2) by simp
  moreover have "take (msglen + 8) ?m2 = frame (msgid, take msglen body)"
    using assms(3) by (simp add: frame_def min_absorb2)
  moreover have "length ?m2 = length (write_buf u)" using len assms(3) by (simp add: min_absorb2)
  ultimately show ?thesis
    using one two assms(1) by (simp add: udp_send_def bufs_ok_def Let_def)
qed

text \<open>
  A message that a client sends is the message the server handles: up to 65519 bytes of body, the
  datagram it sends is accepted by the reader's check and handed over with its number and body
  unchanged. A body between 65520 and 65527 bytes, which the length check lets pass, is written past
  the end of the array.
\<close>

theorem udp_client_message_arrives:
  assumes "bufs_ok u"
  shows "(int (length data) + 8 \<le> MESSAGE_LENGTH_LIMIT \<longrightarrow>
      (\<exists>u' d. udp_client_send_message True data msgid u = Inr (int (length data) + 8, u') \<and>
         datagrams u' = datagrams u @ [(peer u, d)] \<and> datagram_msg (cut_datagram d) = Some (msgid, data))) \<and>
    (MESSAGE_LENGTH_LIMIT - 8 < int (length data) \<and> int (length data) \<le> MESSAGE_LENGTH_LIMIT \<longrightarrow>
      udp_client_send_message True data msgid u = Inl Out_Of_Bounds)"
proof (intro conjI impI)
  assume fits: "int (length data) + 8 \<le> MESSAGE_LENGTH_LIMIT"
  have "cut_datagram (frame (msgid, data)) = frame (msgid, data)" using fits by (simp add: cut_datagram_def lars_defs)
  moreover have "datagram_msg (frame (msgid, data)) = Some (msgid, data)"
    using fits by (intro datagram_frame) simp
  ultimately show "\<exists>u' d. udp_client_send_message True data msgid u = Inr (int (length data) + 8, u') \<and>
      datagrams u' = datagrams u @ [(peer u, d)] \<and> datagram_msg (cut_datagram d) = Some (msgid, data)"
    using udp_send_datagram [OF assms fits, of data msgid] by (auto simp: udp_client_send_message_def)
next
  assume big: "MESSAGE_LENGTH_LIMIT - 8 < int (length data) \<and> int (length data) \<le> MESSAGE_LENGTH_LIMIT"
  let ?h = "head_bytes \<lparr>head_msgid = msgid, head_msglen = of_nat (length data)\<rparr>"
  have w: "length (write_buf u) = 65527" using assms by (simp add: bufs_ok_def lars_defs)
  have "overlay 0 ?h (write_buf u) = Inr (?h @ drop 8 (write_buf u))" using w by (simp add: overlay_def)
  moreover have "overlay 8 data (?h @ drop 8 (write_buf u)) = Inl Out_Of_Bounds"
    using w big by (simp add: overlay_def lars_defs)
  ultimately show "udp_client_send_message True data msgid u = Inl Out_Of_Bounds"
    using big by (simp add: udp_client_send_message_def udp_send_def lars_defs)
qed

text \<open>
  What the server answers does not depend on the answer: \<open>send_message\<close> copies from the address of
  its parameter, so the body of the datagram is the pointer and whatever follows it on the stack, and
  two answers of the same length leave as the same bytes.
\<close>

theorem udp_server_answers_stack:
  assumes "bufs_ok u" and "int (length data) + 8 \<le> MESSAGE_LENGTH_LIMIT" and "length data \<le> length stack"
  shows "\<exists>u'. udp_server_send_message True stack data msgid u = Inr (int (length data) + 8, u') \<and>
    datagrams u' = datagrams u @ [(peer u, frame (msgid, take (length data) stack))] \<and>
    (\<forall>data'. length data' = length data \<longrightarrow>
       udp_server_send_message True stack data' msgid u = udp_server_send_message True stack data msgid u)"
  using udp_send_datagram [OF assms, of msgid] by (auto simp: udp_server_send_message_def)

subsection \<open>Concrete endpoints\<close>

definition ex_udp :: "(nat, msg list) udp_end" where
  "ex_udp = \<lparr>read_buf = replicate 65527 0, write_buf = replicate 65527 0, peer = 1, datagrams = [], udp_app = []\<rparr>"

lemma ex_udp_ok: "bufs_ok ex_udp"
  by (simp add: bufs_ok_def ex_udp_def lars_defs)

text \<open>A callback that notes the message.\<close>

definition note_msg :: "int32 \<Rightarrow> byte list \<Rightarrow> (nat, msg list) udp_end \<Rightarrow> (nat, msg list) udp_end res" where
  "note_msg i b u = Inr (u\<lparr>udp_app := udp_app u @ [(i, b)]\<rparr>)"

theorem udp_read_equivalent_witness:
  "udp_server_do_read note_msg [Datagram 2 [1, 2, 3], Datagram 3 (frame (4, [9]))] ex_udp =
     handle_datagrams (\<lambda>p u. u\<lparr>peer := p\<rparr>) note_msg [(2, [1, 2, 3]), (3, frame (4, [9]))] ex_udp"
proof -
  have keeps: "note_msg i b u = Inr u' \<Longrightarrow> bufs_ok u \<Longrightarrow> bufs_ok u'" for i b u u'
    by (auto simp: note_msg_def bufs_ok_def)
  have "udp_do_read (\<lambda>p u. u\<lparr>peer := p\<rparr>) note_msg (map (\<lambda>(p, d). Datagram p d) [(2, [1, 2, 3]), (3, frame (4, [9]))]) ex_udp =
      handle_datagrams (\<lambda>p u. u\<lparr>peer := p\<rparr>) note_msg [(2, [1, 2, 3]), (3, frame (4, [9]))] ex_udp"
    by (rule udp_read_equivalent [OF ex_udp_ok]) (auto simp: bufs_ok_def dest: keeps)
  then show ?thesis by (simp only: udp_server_do_read_def list.map prod.case)
qed

theorem udp_client_message_arrives_witness:
  "\<exists>u' d. udp_client_send_message True [7] 4 ex_udp = Inr (9, u') \<and> datagrams u' = [(1, d)] \<and>
    datagram_msg (cut_datagram d) = Some (4, [7])"
  using udp_client_message_arrives [OF ex_udp_ok, of "[7]" 4] by (auto simp: lars_defs ex_udp_def)

theorem udp_server_answers_stack_witness:
  "\<exists>u'. udp_server_send_message True [240, 1, 2] [5, 6] 5 ex_udp = Inr (10, u') \<and>
    datagrams u' = [(1, frame (5, [240, 1]))]"
  using udp_server_answers_stack [OF ex_udp_ok, of "[5, 6]" "[240, 1, 2]" 5] by (auto simp: lars_defs ex_udp_def)

end
