(* ===== verification/Lars_Api.thy ===== *)
theory Lars_Api
  imports Lb_Agent Udp Lars_Pb_Laws
begin

text \<open>
  The client library \<open>lars_client\<close> (\<open>api/cpp/lars_api/lars_api.cpp\<close>): it asks one of the three datagram
  servers of the agent on its machine for a host, waits for the answer that has its sequence number,
  and reports how the call to the host went. The protobuf encodings, \<open>inet_ntoa\<close> and \<open>inet_aton\<close> are
  parameters: \<open>ser\<close> and \<open>parse\<close> of a message, where \<open>parse\<close> is given the memory at the pointer and the
  size, and \<open>ntoa\<close> and \<open>aton\<close> of an address.
\<close>

subsection \<open>The client\<close>

record lars_client =
  api_sockfd :: "int32 list"
  api_seqid :: uint32

text \<open>The constructor: three sockets connected to ports 8888, 8889 and 8890.\<close>

fun open_sockets :: "(nat \<Rightarrow> int32 option) \<Rightarrow> (nat \<Rightarrow> bool) \<Rightarrow> nat list \<Rightarrow> int32 list res" where
  "open_sockets sock connect_ok [] = Inr []"
| "open_sockets sock connect_ok (i # is) =
     (case sock i of
        None \<Rightarrow> Inl Exited
      | Some fd \<Rightarrow>
          if \<not> connect_ok (8888 + i) then Inl Exited
          else res_bind (open_sockets sock connect_ok is) (\<lambda>fds. Inr (fd # fds)))"

definition new_lars_client :: "(nat \<Rightarrow> int32 option) \<Rightarrow> (nat \<Rightarrow> bool) \<Rightarrow> lars_client res" where
  "new_lars_client sock connect_ok =
     res_bind (open_sockets sock connect_ok [0, 1, 2]) (\<lambda>fds. Inr \<lparr>api_sockfd = fds, api_seqid = 0\<rparr>)"

text \<open>\<open>_sockfd[(modid + cmdid) % 3]\<close>; the remainder of a negative sum is negative.\<close>

definition pick_socket :: "int32 \<Rightarrow> int32 \<Rightarrow> lars_client \<Rightarrow> int32 res" where
  "pick_socket modid cmdid c =
     (let index = route_index modid cmdid
      in if index < 0 \<or> int (length (api_sockfd c)) \<le> index then Inl Out_Of_Bounds else Inr (api_sockfd c ! nat index))"

text \<open>A message put together in the array \<open>write_buf[4096]\<close>.\<close>

definition api_datagram :: "int32 \<Rightarrow> byte list \<Rightarrow> byte list res" where
  "api_datagram msgid body = (if 8 + length body \<le> 4096 then Inr (frame (msgid, body)) else Inl Out_Of_Bounds)"

subsection \<open>Asking for a host\<close>

text \<open>
  The receiving loop over what \<open>recvfrom\<close> returns (nothing when it fails); when the list is used up the
  call still waits, since the sockets block. \<open>buf\<close> is the array \<open>read_buf[80*1024]\<close>.
\<close>

fun recv_answer :: "(byte list \<Rightarrow> int \<Rightarrow> GetHostResponse option) \<Rightarrow> uint32 \<Rightarrow> byte list option list \<Rightarrow> byte list \<Rightarrow>
    (int32 + GetHostResponse) option" where
  "recv_answer parse seq [] buf = None"
| "recv_answer parse seq (None # rs) buf = Some (Inl RET_SYSTEM_ERROR)"
| "recv_answer parse seq (Some d # rs) buf =
     (let d = take 81920 d; buf = d @ drop (length d) buf
      in if head_msgid (read_head buf) \<noteq> ID_GetHostResponse then Some (Inl RET_SYSTEM_ERROR)
         else (case parse (drop 8 buf) (int (length d) - 8) of
                 None \<Rightarrow> Some (Inl RET_SYSTEM_ERROR)
               | Some rsp \<Rightarrow> if ghs_seq rsp < seq then recv_answer parse seq rs buf else Some (Inr rsp)))"

text \<open>What \<open>get_host\<close> returns, the host it stores, the request it sent, and the client.\<close>

record api_result =
  api_ret :: int32
  api_host :: "(string \<times> int32) option"
  api_sent :: "(int32 \<times> byte list) option"
  api_client :: lars_client

text \<open>The end of \<open>get_host\<close>: an error of the loop, an answer that does not match, or the answer.\<close>

definition api_answer :: "(int32 \<Rightarrow> string) \<Rightarrow> int32 \<Rightarrow> int32 \<Rightarrow> uint32 \<Rightarrow> int32 \<times> byte list \<Rightarrow> lars_client \<Rightarrow>
    int32 + GetHostResponse \<Rightarrow> api_result" where
  "api_answer ntoa modid cmdid seq request c r =
     (case r of
        Inl code \<Rightarrow> \<lparr>api_ret = code, api_host = None, api_sent = Some request, api_client = c\<rparr>
      | Inr rsp \<Rightarrow>
          if ghs_seq rsp \<noteq> seq \<or> ghs_modid rsp \<noteq> modid \<or> ghs_cmdid rsp \<noteq> cmdid then
            \<lparr>api_ret = RET_SYSTEM_ERROR, api_host = None, api_sent = Some request, api_client = c\<rparr>
          else
            (let host = get_host_field (ghs_host rsp)
             in \<lparr>api_ret = ghs_retcode rsp,
                 api_host = (if ghs_retcode rsp = 0 then Some (ntoa (hinfo_ip host), hinfo_port host) else None),
                 api_sent = Some request, api_client = c\<rparr>))"

definition api_get_host :: "(GetHostRequest \<Rightarrow> byte list) \<Rightarrow> (byte list \<Rightarrow> int \<Rightarrow> GetHostResponse option) \<Rightarrow> (int32 \<Rightarrow> string) \<Rightarrow>
    bool \<Rightarrow> byte list option list \<Rightarrow> byte list \<Rightarrow> int32 \<Rightarrow> int32 \<Rightarrow> lars_client \<Rightarrow> api_result res option" where
  "api_get_host ser parse ntoa send_ok recvs buf modid cmdid c =
     (let seq = api_seqid c; c = c\<lparr>api_seqid := seq + 1\<rparr>;
          req = \<lparr>ghq_seq = seq, ghq_modid = modid, ghq_cmdid = cmdid\<rparr>
      in case res_bind (api_datagram ID_GetHostRequest (ser req)) (\<lambda>d.
                res_bind (pick_socket modid cmdid c) (\<lambda>fd. Inr (fd, d))) of
           Inl e \<Rightarrow> Some (Inl e)
         | Inr request \<Rightarrow>
             if \<not> send_ok then Some (Inr \<lparr>api_ret = RET_SYSTEM_ERROR, api_host = None, api_sent = None, api_client = c\<rparr>)
             else map_option (\<lambda>r. Inr (api_answer ntoa modid cmdid seq request c r)) (recv_answer parse seq recvs buf))"

lemma api_answer_fields [simp]:
  "api_sent (api_answer ntoa modid cmdid seq request c r) = Some request"
  "api_client (api_answer ntoa modid cmdid seq request c r) = c"
  by (simp_all add: api_answer_def Let_def split: sum.split)

subsection \<open>Reporting\<close>

text \<open>\<open>inet_aton\<close> leaves the address unset when the text is not one; \<open>junk\<close> is then what is there.\<close>

definition api_report :: "(ReportRequest \<Rightarrow> byte list) \<Rightarrow> (string \<Rightarrow> int32 option) \<Rightarrow> int32 \<Rightarrow> bool \<Rightarrow>
    int32 \<Rightarrow> int32 \<Rightarrow> string \<Rightarrow> int32 \<Rightarrow> int32 \<Rightarrow> lars_client \<Rightarrow> (int32 \<times> byte list) option res" where
  "api_report ser aton junk send_ok modid cmdid ip port retcode c =
     (let ip_num = (case aton ip of None \<Rightarrow> junk | Some a \<Rightarrow> a);
          req = \<lparr>rrq_modid = modid, rrq_cmdid = cmdid, rrq_host = Some \<lparr>hinfo_ip = ip_num, hinfo_port = port\<rparr>, rrq_retcode = retcode\<rparr>
      in res_bind (api_datagram ID_ReportRequest (ser req)) (\<lambda>d.
         res_bind (pick_socket modid cmdid c) (\<lambda>fd. Inr (if send_ok then Some (fd, d) else None))))"

subsection \<open>The answer with the right number\<close>

lemma recv_stale:
  assumes "\<And>r junk. parse (ser_rsp r @ junk) (int (length (ser_rsp r))) = Some r"
    and "\<forall>r \<in> set stale. ghs_seq r < seq \<and> length (ser_rsp r) \<le> 81912"
    and "\<not> ghs_seq rsp < seq" and "length (ser_rsp rsp) \<le> 81912"
  shows "recv_answer parse seq (map (\<lambda>r. Some (frame (ID_GetHostResponse, ser_rsp r))) (stale @ [rsp]) @ rest) buf = Some (Inr rsp)"
  using assms(2)
proof (induction stale arbitrary: buf)
  case Nil
  have "drop 8 (frame (ID_GetHostResponse, ser_rsp rsp)) = ser_rsp rsp"
    "head_msgid (read_head (frame (ID_GetHostResponse, ser_rsp rsp) @ bs)) = ID_GetHostResponse" for bs
    by (simp_all add: frame_def)
  then show ?case using assms(1,3,4) by (simp add: Let_def)
next
  case (Cons r stale)
  have "drop 8 (frame (ID_GetHostResponse, ser_rsp r)) = ser_rsp r"
    "head_msgid (read_head (frame (ID_GetHostResponse, ser_rsp r) @ bs)) = ID_GetHostResponse" for bs
    by (simp_all add: frame_def)
  then show ?case using assms(1) Cons by (simp add: Let_def)
qed

text \<open>
  C32: \<open>get_host\<close> returns the answer to its own question: late answers to earlier questions, which have
  smaller sequence numbers, are skipped, and the first one with its number decides; on success the
  caller gets the address and port of the host the agent chose, and every question has a number of
  its own.
\<close>

theorem api_returns_own_answer:
  assumes "\<And>r junk. parse (ser_rsp r @ junk) (int (length (ser_rsp r))) = Some r"
    and "length (api_sockfd c) = 3" and "0 \<le> route_index modid cmdid"
    and "8 + length (ser \<lparr>ghq_seq = api_seqid c, ghq_modid = modid, ghq_cmdid = cmdid\<rparr>) \<le> 4096"
    and "\<forall>r \<in> set stale. ghs_seq r < api_seqid c \<and> length (ser_rsp r) \<le> 81912"
    and "ghs_seq rsp = api_seqid c" and "ghs_modid rsp = modid" and "ghs_cmdid rsp = cmdid" and "length (ser_rsp rsp) \<le> 81912"
  shows "\<exists>res. api_get_host ser parse ntoa True
      (map (\<lambda>r. Some (frame (ID_GetHostResponse, ser_rsp r))) (stale @ [rsp]) @ rest) buf modid cmdid c = Some (Inr res) \<and>
    api_ret res = ghs_retcode rsp \<and> api_seqid (api_client res) = api_seqid c + 1 \<and>
    api_sent res = Some (api_sockfd c ! nat (route_index modid cmdid),
      frame (ID_GetHostRequest, ser \<lparr>ghq_seq = api_seqid c, ghq_modid = modid, ghq_cmdid = cmdid\<rparr>)) \<and>
    (ghs_retcode rsp = RET_SUCC \<longrightarrow>
       api_host res = Some (ntoa (hinfo_ip (get_host_field (ghs_host rsp))), hinfo_port (get_host_field (ghs_host rsp))))"
proof -
  have "route_index modid cmdid < 3" by (auto simp: route_index_def Let_def)
  then have "pick_socket modid cmdid (c\<lparr>api_seqid := api_seqid c + 1\<rparr>) = Inr (api_sockfd c ! nat (route_index modid cmdid))"
    using assms(2,3) by (simp add: pick_socket_def)
  moreover have "recv_answer parse (api_seqid c) (map (\<lambda>r. Some (frame (ID_GetHostResponse, ser_rsp r))) (stale @ [rsp]) @ rest) buf
      = Some (Inr rsp)"
    using assms(5,6,9) by (intro recv_stale [OF assms(1)]) auto
  ultimately show ?thesis
    using assms(4,6-8) by (simp add: api_get_host_def api_answer_def api_datagram_def RET_SUCC_def Let_def)
qed

text \<open>
  A report names the host that was given: with \<open>inet_aton\<close> reading back what \<open>inet_ntoa\<close> wrote, the
  report for the address and port that \<open>get_host\<close> returned carries exactly that host, the caller's
  result code and the same pair, and goes to the same server of the agent as the question did.
\<close>

theorem api_report_names_host:
  assumes "\<And>a. aton (ntoa a) = Some a"
    and "api_get_host ser parse ntoa send_ok recvs buf modid cmdid c = Some (Inr res)"
    and "api_host res = Some (ip, port)"
    and "8 + length (rser \<lparr>rrq_modid = modid, rrq_cmdid = cmdid, rrq_host = Some h, rrq_retcode = retcode\<rparr>) \<le> 4096"
    and "hinfo_port h = port" and "ntoa (hinfo_ip h) = ip"
  shows "\<exists>fd d. api_sent res = Some (fd, d) \<and>
    api_report rser aton junk True modid cmdid ip port retcode (api_client res) =
      Inr (Some (fd, frame (ID_ReportRequest, rser \<lparr>rrq_modid = modid, rrq_cmdid = cmdid, rrq_host = Some h, rrq_retcode = retcode\<rparr>)))"
proof -
  obtain fd d where fd: "api_sent res = Some (fd, d)" "pick_socket modid cmdid (api_client res) = Inr fd"
    using assms(2,3)
    by (auto simp: api_get_host_def Let_def res_bind_eq_Inr pick_socket_def split: if_splits sum.splits)
  have "h = \<lparr>hinfo_ip = hinfo_ip h, hinfo_port = port\<rparr>" using assms(5) by simp
  moreover have "aton ip = Some (hinfo_ip h)" using assms(1,6) by metis
  ultimately show ?thesis using fd assms(4) by (simp add: api_report_def api_datagram_def Let_def)
qed

text \<open>
  The agent's answer does not reach the client: what \<open>udp_server::send_message\<close> puts into the
  datagram is its stack and not the answer, so whatever host the agent has chosen, the client returns
  a system error whenever those bytes are not an encoded response.
\<close>

theorem agent_answer_is_lost:
  assumes "bufs_ok u" and "int (length (ser_rsp rsp)) + 8 \<le> MESSAGE_LENGTH_LIMIT" and "length (ser_rsp rsp) \<le> length stack"
    and "\<And>junk. parse (take (length (ser_rsp rsp)) stack @ junk) (int (length (ser_rsp rsp))) = None"
    and "length (api_sockfd c) = 3" and "0 \<le> route_index modid cmdid"
    and "8 + length (ser \<lparr>ghq_seq = api_seqid c, ghq_modid = modid, ghq_cmdid = cmdid\<rparr>) \<le> 4096"
  shows "\<exists>u' d res. udp_server_send_message True stack (ser_rsp rsp) ID_GetHostResponse u = Inr (int (length (ser_rsp rsp)) + 8, u') \<and>
    datagrams u' = datagrams u @ [(peer u, d)] \<and>
    api_get_host ser parse ntoa True (Some d # rest) buf modid cmdid c = Some (Inr res) \<and> api_ret res = RET_SYSTEM_ERROR"
proof -
  let ?b = "take (length (ser_rsp rsp)) stack"
  obtain u' where u': "udp_server_send_message True stack (ser_rsp rsp) ID_GetHostResponse u = Inr (int (length (ser_rsp rsp)) + 8, u')"
      "datagrams u' = datagrams u @ [(peer u, frame (ID_GetHostResponse, ?b))]"
    using udp_send_datagram [OF assms(1-3), of ID_GetHostResponse] by (auto simp: udp_server_send_message_def)
  have len: "length ?b = length (ser_rsp rsp)" using assms(3) by simp
  have "take 81920 (frame (ID_GetHostResponse, ?b)) = frame (ID_GetHostResponse, ?b)"
    using assms(2) by (simp add: lars_defs)
  moreover have "drop 8 (frame (ID_GetHostResponse, ?b)) = ?b"
    "head_msgid (read_head (frame (ID_GetHostResponse, ?b) @ bs)) = ID_GetHostResponse" for bs
    by (simp_all add: frame_def)
  ultimately have "recv_answer parse (api_seqid c) (Some (frame (ID_GetHostResponse, ?b)) # rest) buf = Some (Inl RET_SYSTEM_ERROR)"
    using assms(4) len by (simp add: Let_def)
  moreover have "route_index modid cmdid < 3" by (auto simp: route_index_def Let_def)
  ultimately have "\<exists>res. api_get_host ser parse ntoa True (Some (frame (ID_GetHostResponse, ?b)) # rest) buf modid cmdid c =
      Some (Inr res) \<and> api_ret res = RET_SYSTEM_ERROR"
    using assms(5-7) by (simp add: api_get_host_def api_answer_def api_datagram_def pick_socket_def Let_def)
  then show ?thesis using u' by blast
qed

subsection \<open>A concrete client\<close>

text \<open>The messages as the generated code writes and reads them, and a four-character rendering of addresses.\<close>

definition api_parse :: "byte list \<Rightarrow> int \<Rightarrow> GetHostResponse option" where
  "api_parse buf n = decode_GetHostResponse pb_wire (take (nat n) buf)"

definition api_rsp :: "GetHostResponse \<Rightarrow> byte list" where
  "api_rsp = encode_GetHostResponse pb_wire"

definition api_ser :: "GetHostRequest \<Rightarrow> byte list" where
  "api_ser = encode_GetHostRequest pb_wire"

lemma api_parse_encode:
  "api_parse (api_rsp r @ junk) (int (length (api_rsp r))) = Some r"
  by (simp add: api_parse_def api_rsp_def pw.GetHostResponse_back)

definition ex_ntoa :: "int32 \<Rightarrow> string" where
  "ex_ntoa a = map (\<lambda>b. char_of (unat b)) (le32 a)"

definition ex_aton :: "string \<Rightarrow> int32 option" where
  "ex_aton s = (if length s = 4 then Some (of_le32 (map (\<lambda>ch. word_of_nat (of_char ch)) s)) else None)"

lemma ex_aton_ntoa: "ex_aton (ex_ntoa a) = Some a"
proof -
  have "unat b < 2 ^ LENGTH(8)" for b :: byte by (rule unsigned_less)
  then have "word_of_nat (of_char (char_of (unat b))) = b" for b :: byte by simp
  then have "map (\<lambda>ch. word_of_nat (of_char ch)) (ex_ntoa a) = le32 a" by (simp add: ex_ntoa_def le32_def)
  then show ?thesis using of_le32_le32 [of a "[]"] by (simp add: ex_aton_def) (simp add: ex_ntoa_def)
qed

definition ex_api :: lars_client where
  "ex_api = \<lparr>api_sockfd = [5, 6, 7], api_seqid = 4\<rparr>"

definition ex_answer :: "uint32 \<Rightarrow> GetHostResponse" where
  "ex_answer n = \<lparr>ghs_seq = n, ghs_modid = 1, ghs_cmdid = 1, ghs_retcode = 0, ghs_host = Some \<lparr>hinfo_ip = 9, hinfo_port = 80\<rparr>\<rparr>"

lemma ex_answer_rsp:
  assumes "0 < n" and "n < 128"
  shows "length (api_rsp (ex_answer n)) = 12"
proof -
  have "n \<noteq> 0" "unat n < 128" using assms by (auto simp: word_less_nat_alt)
  then show ?thesis
    by (simp add: api_rsp_def encode_GetHostResponse_def GetHostResponse_InternalSerialize_def GetHostResponse_wire_def ex_answer_def
        HostInfo_wire_def pw.HostInfo_size HostInfo_InternalSerialize_def pb_wire_sel one_byte_varint int32_bits_def)
qed

lemma ex_answer_sel [simp]:
  "ghs_seq (ex_answer n) = n" "ghs_modid (ex_answer n) = 1" "ghs_cmdid (ex_answer n) = 1" "ghs_retcode (ex_answer n) = 0"
  "get_host_field (ghs_host (ex_answer n)) = \<lparr>hinfo_ip = 9, hinfo_port = 80\<rparr>"
  "length (api_rsp (ex_answer 3)) = 12" "length (api_rsp (ex_answer 4)) = 12"
  by (simp_all add: ex_answer_rsp) (simp_all add: ex_answer_def get_host_field_def)

lemma ex_api_sel [simp]: "api_sockfd ex_api = [5, 6, 7]" "api_seqid ex_api = 4"
  by (simp_all add: ex_api_def)

text \<open>Bytes that start with 0 are no message.\<close>

lemma api_parse_zero: "0 < n \<Longrightarrow> api_parse (0 # bs) n = None"
proof -
  assume "0 < n"
  then obtain k where k: "nat n = Suc k" by (metis Suc_pred zero_less_nat_eq)
  have "ReadTag pb_wire (0 # p) = Some (0, p)" for p by (simp add: pb_wire_def numeral_eq_Suc)
  then show ?thesis
    by (simp add: api_parse_def k decode_GetHostResponse_def ParseFromArray_def GetHostResponse_InternalParse_def pw.loop_tag
        GetHostResponse_field_def)
qed

lemma api_ser_len: "length (api_ser \<lparr>ghq_seq = 4, ghq_modid = 1, ghq_cmdid = 1\<rparr>) = 6"
  by (simp add: api_ser_def encode_GetHostRequest_def GetHostRequest_InternalSerialize_def GetHostRequest_wire_def pb_wire_sel
      one_byte_varint int32_bits_def)

lemma ex_route_index [simp]: "route_index 1 1 = 2"
  by (simp add: route_index_def)

theorem api_returns_own_answer_witness:
  "\<exists>res. api_get_host api_ser api_parse ex_ntoa True
      (map (\<lambda>r. Some (frame (ID_GetHostResponse, api_rsp r))) ([ex_answer 3] @ [ex_answer 4]) @ []) [] 1 1 ex_api = Some (Inr res) \<and>
    api_host res = Some (ex_ntoa 9, 80) \<and> fst (the (api_sent res)) = 7"
  using api_returns_own_answer [where parse = api_parse and ser_rsp = api_rsp and ser = api_ser and c = ex_api
      and modid = 1 and cmdid = 1 and stale = "[ex_answer 3]" and rsp = "ex_answer 4" and rest = "[]" and buf = "[]"
      and ntoa = ex_ntoa, OF api_parse_encode]
  by (fastforce simp: api_ser_len RET_SUCC_def)

lemma ex_get_host:
  "\<exists>res. api_get_host api_ser api_parse ex_ntoa True [Some (frame (ID_GetHostResponse, api_rsp (ex_answer 4)))] [] 1 1 ex_api =
      Some (Inr res) \<and> api_host res = Some (ex_ntoa 9, 80)"
proof -
  have "recv_answer api_parse 4 [Some (frame (ID_GetHostResponse, api_rsp (ex_answer 4)))] [] = Some (Inr (ex_answer 4))"
    using recv_stale [where stale = "[]" and rest = "[]" and rsp = "ex_answer 4" and seq = 4 and buf = "[]", OF api_parse_encode]
    by (simp del: recv_answer.simps)
  then show ?thesis
    by (simp add: api_get_host_def api_answer_def api_datagram_def pick_socket_def api_ser_len Let_def)
qed

definition ex_ser_report :: "ReportRequest \<Rightarrow> byte list" where
  "ex_ser_report r = le32 (rrq_modid r) @ le32 (rrq_cmdid r) @ le32 (hinfo_ip (get_host_field (rrq_host r))) @
     le32 (hinfo_port (get_host_field (rrq_host r))) @ le32 (rrq_retcode r)"

lemma length_ex_ser_report: "length (ex_ser_report r) = 20"
  by (simp add: ex_ser_report_def)

theorem api_report_names_host_witness:
  "\<exists>(res :: api_result) fd d. api_sent res = Some (fd, d) \<and>
    api_report ex_ser_report ex_aton 0 True 1 1 (ex_ntoa 9) 80 2 (api_client res) =
      Inr (Some (fd, frame (ID_ReportRequest, ex_ser_report
        \<lparr>rrq_modid = 1, rrq_cmdid = 1, rrq_host = Some \<lparr>hinfo_ip = 9, hinfo_port = 80\<rparr>, rrq_retcode = 2\<rparr>)))"
proof -
  obtain res where "api_get_host api_ser api_parse ex_ntoa True [Some (frame (ID_GetHostResponse, api_rsp (ex_answer 4)))] [] 1 1 ex_api =
      Some (Inr res)" "api_host res = Some (ex_ntoa 9, 80)"
    using ex_get_host by blast
  from api_report_names_host [where aton = ex_aton and rser = ex_ser_report and h = "\<lparr>hinfo_ip = 9, hinfo_port = 80\<rparr>" and retcode = 2
      and junk = 0, OF ex_aton_ntoa this] show ?thesis by (auto simp: length_ex_ser_report)
qed

theorem agent_answer_is_lost_witness:
  "\<exists>u' d res. udp_server_send_message True (replicate 32 0) (api_rsp (ex_answer 4)) ID_GetHostResponse ex_udp = Inr (20, u') \<and>
    datagrams u' = [(1, d)] \<and>
    api_get_host api_ser api_parse ex_ntoa True [Some d] [] 1 1 ex_api = Some (Inr res) \<and> api_ret res = RET_SYSTEM_ERROR"
proof -
  have "api_parse (take (length (api_rsp (ex_answer 4))) (replicate 32 0) @ junk) (int (length (api_rsp (ex_answer 4)))) = None"
    for junk using api_parse_zero [of 12 "replicate 11 0 @ junk"] by (simp flip: replicate_Suc append_Cons)
  from agent_answer_is_lost [where u = ex_udp and stack = "replicate 32 0" and ser_rsp = api_rsp and rsp = "ex_answer 4"
      and parse = api_parse and c = ex_api and modid = 1 and cmdid = 1 and ser = api_ser and ntoa = ex_ntoa and rest = "[]"
      and buf = "[]", OF ex_udp_ok _ _ this]
  show ?thesis by (simp add: api_ser_len ex_udp_def lars_defs)
qed

end
