(* ===== verification/Reporter.thy ===== *)
theory Reporter
  imports Tcp_Server Dns_Route Lars_Proto
begin

text \<open>
  The reporter (\<open>lars_reporter/src\<close>): \<open>get_report_status\<close> gives the reports of the agents to the
  storage threads in turn (\<open>reporter_service.cpp\<close>); a storage thread takes what is in its queue
  (\<open>store_thread.cpp\<close>) and writes one SQL statement per result (\<open>store_report.cpp\<close>). MySQL is a
  parameter, as in \<open>Dns_Route\<close>: \<open>query\<close> runs a statement on the database and \<open>ping\<close> is \<open>mysql_ping\<close>,
  which may reconnect.
\<close>

subsection \<open>Storing a report\<close>

text \<open>The constructor of \<open>StoreReport\<close> connects with the same five settings as \<open>Route::connect_db\<close>.\<close>

definition new_store_report :: "(string \<Rightarrow> string \<Rightarrow> string \<Rightarrow> string \<Rightarrow> 16 word \<Rightarrow> 'db option) \<Rightarrow> sections \<Rightarrow> 'db res" where
  "new_store_report real_connect c = connect_db real_connect c"

text \<open>\<open>%d\<close> and \<open>%u\<close> of a 32-bit number.\<close>

definition show_d :: "int32 \<Rightarrow> string" where
  "show_d v = show_long (sint v)"

definition show_u :: "uint32 \<Rightarrow> string" where
  "show_u v = show_nat (unat v)"

definition insert_sql :: "ReportStatusRequest \<Rightarrow> HostCallResult \<Rightarrow> string" where
  "insert_sql req result =
     (let overload = (if hcr_overload result then 1 else 0)
      in ''INSERT INTO ServerCallStatus'' @
         ''(modid, cmdid, ip, port, caller, succ_cnt, err_cnt, ts, overload) '' @
         ''VALUES ('' @ show_d (rsr_modid req) @ '', '' @ show_d (rsr_cmdid req) @ '', '' @ show_u (hcr_ip result) @ '', '' @
         show_u (hcr_port result) @ '', '' @ show_u (rsr_caller req) @ '', '' @ show_u (hcr_succ result) @ '', '' @
         show_u (hcr_err result) @ '', '' @ show_u (rsr_ts req) @ '', '' @ show_d overload @ '') ON DUPLICATE KEY '' @
         ''UPDATE succ_cnt = '' @ show_u (hcr_succ result) @ '', err_cnt = '' @ show_u (hcr_err result) @
         '', ts = '' @ show_u (rsr_ts req) @ '', overload = '' @ show_d overload)"

text \<open>\<open>garbage\<close> is what the local array \<open>sql[1024]\<close> holds; a failed statement is only logged.\<close>

definition store_result :: "'db client \<Rightarrow> ('db \<Rightarrow> 'db) \<Rightarrow> string \<Rightarrow> ReportStatusRequest \<Rightarrow> HostCallResult \<Rightarrow> 'db \<Rightarrow> 'db" where
  "store_result query ping garbage req result db =
     (let sql = snprintf_sql 1024 (insert_sql req result) garbage; db = ping db
      in snd (query (strlen_sql sql) db))"

definition store :: "'db client \<Rightarrow> ('db \<Rightarrow> 'db) \<Rightarrow> string \<Rightarrow> ReportStatusRequest \<Rightarrow> 'db \<Rightarrow> 'db" where
  "store query ping garbage req db = fold (store_result query ping garbage req) (rsr_results req) db"

subsection \<open>The storage threads\<close>

definition thread_report :: "'db client \<Rightarrow> ('db \<Rightarrow> 'db) \<Rightarrow> string \<Rightarrow> ReportStatusRequest thread_queue \<times> 'db \<Rightarrow>
    ReportStatusRequest thread_queue \<times> 'db" where
  "thread_report query ping garbage s =
     (case s of (queue, sr) \<Rightarrow>
        (let (report_msg, queue) = tq_recv [] queue in (queue, fold (store query ping garbage) report_msg sr)))"

text \<open>\<open>store_main\<close> up to its loop; \<open>args\<close> is the address of the pair of queue and \<open>StoreReport\<close>.\<close>

definition store_main :: "(string \<Rightarrow> string \<Rightarrow> string \<Rightarrow> string \<Rightarrow> 16 word \<Rightarrow> 'db option) \<Rightarrow> sections \<Rightarrow> (int32 \<Rightarrow> bool) \<Rightarrow>
    addr \<Rightarrow> 'cb \<Rightarrow> 'arg \<Rightarrow> ReportStatusRequest thread_queue \<Rightarrow>
    ('db \<times> ReportStatusRequest thread_queue \<times> ('cb, 'arg, 'task) event_loop) res" where
  "store_main real_connect c pollable loop thread_report_cb args queue =
     res_bind (new_store_report real_connect c) (\<lambda>sr.
       (let queue = tq_set_loop (Some loop) queue
        in Inr (sr, queue, tq_set_callback pollable thread_report_cb (Some args) queue new_event_loop)))"

subsection \<open>The service\<close>

text \<open>The globals \<open>reportQueues\<close> and \<open>thread_cnt\<close> and the static \<open>index\<close> of \<open>get_report_status\<close>.\<close>

record reporter =
  reportQueues :: "ReportStatusRequest thread_queue list option"
  thread_cnt :: int32
  index :: int32

definition new_reporter :: reporter where
  "new_reporter = \<lparr>reportQueues = None, thread_cnt = 0, index = 0\<rparr>"

text \<open>
  A handler runs three statements that touch the globals: the \<open>send\<close>, the increment, the remainder.
  \<open>ParseFromArray\<close> is \<open>parse\<close>, the message afterwards; its result is not tested.
\<close>

definition send_report :: "ReportStatusRequest \<Rightarrow> reporter \<Rightarrow> reporter res" where
  "send_report req r =
     (case reportQueues r of
        None \<Rightarrow> Inl Null_Deref
      | Some qs \<Rightarrow>
          (let i = sint (index r)
           in if i < 0 \<or> int (length qs) \<le> i then Inl Out_Of_Bounds
              else Inr (r\<lparr>reportQueues := Some (qs[nat i := tq_send req (qs ! nat i)])\<rparr>)))"

definition incr_index :: "reporter \<Rightarrow> reporter" where
  "incr_index r = r\<lparr>index := index r + 1\<rparr>"

text \<open>A remainder by 0 traps; both operands are non-negative when the \<open>send\<close> has gone through.\<close>

definition wrap_index :: "reporter \<Rightarrow> reporter res" where
  "wrap_index r =
     (if thread_cnt r = 0 then Inl Exited else Inr (r\<lparr>index := word_of_int (sint (index r) mod sint (thread_cnt r))\<rparr>))"

definition get_report_status :: "(byte list \<Rightarrow> ReportStatusRequest) \<Rightarrow> byte list \<Rightarrow> reporter \<Rightarrow> reporter res" where
  "get_report_status parse data r =
     (let req = parse data
      in res_bind (send_report req r) (\<lambda>r. wrap_index (incr_index r)))"

text \<open>A negative array length makes \<open>new\<close> throw, and nothing catches it.\<close>

definition create_reportdb_threads :: "sections \<Rightarrow> (nat \<Rightarrow> int32 option) \<Rightarrow> reporter \<Rightarrow> reporter res" where
  "create_reportdb_threads c evfd r =
     (let cnt = GetNumber c ''reporter'' ''db_thread_cnt'' 3
      in if sint cnt < 0 then Inl Exited
         else res_bind (new_queues evfd [0..<nat (sint cnt)]) (\<lambda>qs. Inr (r\<lparr>thread_cnt := cnt, reportQueues := Some qs\<rparr>)))"

text \<open>\<open>main\<close> up to its loop: the address it listens on, the server, the router and the threads.\<close>

definition reporter_main :: "(int32 \<Rightarrow> bool) \<Rightarrow> listen_env \<Rightarrow> sections \<Rightarrow> (nat \<Rightarrow> int32 option) \<Rightarrow> (nat \<Rightarrow> int32 option) \<Rightarrow>
    (nat \<Rightarrow> addr option) \<Rightarrow> 'task thread_pool option \<Rightarrow> 'cb \<Rightarrow> ('task, 'u) reactor \<Rightarrow> ('cb, unit) msg_router \<Rightarrow>
    ((string \<times> 16 word) \<times> ('task, 'u) reactor \<times> ('cb, unit) msg_router \<times> reporter) res" where
  "reporter_main pollable env c evfd report_evfd junk old_pool get_report_status_cb r router =
     (let ip = GetString c ''reactor'' ''ip'' ''0.0.0.0''; port = ucast (GetNumber c ''reactor'' ''port'' 7779)
      in res_bind (new_tcp_server pollable env c evfd junk old_pool r) (\<lambda>r.
         res_bind (create_reportdb_threads c report_evfd new_reporter) (\<lambda>rep.
           Inr ((ip, port), r, add_msg_router ID_ReportStatusRequest get_report_status_cb None router, rep))))"

subsection \<open>The statement\<close>

lemma length_show_d: "length (show_d v) \<le> 11"
proof -
  have "- (2 ^ 31) \<le> sint v" "sint v < 2 ^ 31" using sint_ge [of v] sint_lt [of v] by simp_all
  then have "nat (sint v) < 10 ^ Suc 9" "nat (- sint v) < 10 ^ Suc 9" by simp_all
  from this [THEN length_show_nat] show ?thesis by (auto simp: show_d_def show_long_def)
qed

lemma length_show_u: "length (show_u v) \<le> 10"
proof -
  have "unat v < 2 ^ LENGTH(32)" by (rule unsigned_less)
  then have "unat v < 10 ^ Suc 9" by simp
  from length_show_nat [OF this] show ?thesis by (simp add: show_u_def)
qed

lemma show_no_nul: "nul \<notin> set (show_d v)" "nul \<notin> set (show_u w)"
  using show_long_no_nul show_nat_no_nul by (simp_all add: show_d_def show_u_def)

lemma insert_sql_no_nul: "nul \<notin> set (insert_sql req result)"
proof -
  have t: "nul \<notin> set s \<longleftrightarrow> list_all (\<lambda>c. c \<noteq> nul) s" for s by (auto simp: list_all_iff)
  show ?thesis
    unfolding t insert_sql_def Let_def list_all_append
    by (simp add: t [symmetric] show_no_nul) (simp add: nul_def)
qed

lemma length_insert_sql: "length (insert_sql req result) \<le> 350"
proof -
  have "length (show_d a) + length (show_d b) + length (show_u c) + length (show_u d) + length (show_u e) + length (show_u f) +
      length (show_u g) + length (show_u h) + length (show_d i) + length (show_u f) + length (show_u g) + length (show_u h) +
      length (show_d i) \<le> 134" for a b c d e f g h i
    using length_show_d [of a] length_show_d [of b] length_show_d [of i] length_show_u [of c] length_show_u [of d]
      length_show_u [of e] length_show_u [of f] length_show_u [of g] length_show_u [of h] by linarith
  from this [of "rsr_modid req" "rsr_cmdid req" "hcr_ip result" "hcr_port result" "rsr_caller req" "hcr_succ result"
      "hcr_err result" "rsr_ts req" "if hcr_overload result then 1 else 0"]
  show ?thesis by (simp add: insert_sql_def Let_def)
qed

text \<open>
  The statement for a result always fits the array of 1024 bytes: whatever the numbers, it has at
  most 350 characters and no zero byte, so the text given to the database is the whole statement.
\<close>

theorem insert_statement_fits:
  "length (insert_sql req result) \<le> 350 \<and>
   store_result query ping garbage req result db = snd (query (insert_sql req result) (ping db))"
  using length_insert_sql [of req result] strlen_snprintf [of "insert_sql req result" 1024 garbage]
  by (simp add: store_result_def insert_sql_no_nul)

subsection \<open>Reports go to the threads in turn\<close>

definition queues :: "reporter \<Rightarrow> ReportStatusRequest thread_queue list" where
  "queues r = (case reportQueues r of None \<Rightarrow> [] | Some qs \<Rightarrow> qs)"

definition rep_ok :: "reporter \<Rightarrow> bool" where
  "rep_ok r \<longleftrightarrow> reportQueues r \<noteq> None \<and> sint (thread_cnt r) = int (length (queues r)) \<and>
     0 \<le> sint (index r) \<and> sint (index r) < int (length (queues r)) \<and> (\<forall>q \<in> set (queues r). tq_ok q)"

lemma sint_int32: "- (2 ^ 31) \<le> n \<Longrightarrow> n < 2 ^ 31 \<Longrightarrow> sint (word_of_int n :: int32) = n"
  by (simp add: int_word_sint)

lemma sint_index_succ:
  assumes "rep_ok r"
  shows "sint (index r + 1) = sint (index r) + 1"
proof -
  have "sint (thread_cnt r) < 2 ^ 31" using sint_lt [of "thread_cnt r"] by simp
  then have "- (2 ^ 31) \<le> sint (index r) + 1" "sint (index r) + 1 < 2 ^ 31" using assms by (auto simp: rep_ok_def)
  from sint_int32 [OF this] show ?thesis by simp
qed

lemma send_report_ok:
  assumes "rep_ok r"
  shows "\<exists>r'. send_report req r = Inr r' \<and> rep_ok r' \<and> length (queues r') = length (queues r) \<and> index r' = index r \<and>
    (\<forall>j < length (queues r). tq_queue (queues r' ! j) =
       tq_queue (queues r ! j) @ (if j = nat (sint (index r)) then [req] else []))"
  using assms tq_ok_send [of "queues r ! nat (sint (index r))" req]
  by (auto simp: send_report_def rep_ok_def queues_def nth_list_update nat_less_iff Let_def
      dest!: subsetD [OF set_update_subset_insert])

lemma wrap_index_ok:
  assumes "rep_ok r"
  shows "\<exists>r'. wrap_index (incr_index r) = Inr r' \<and> rep_ok r' \<and> reportQueues r' = reportQueues r \<and>
    nat (sint (index r')) = Suc (nat (sint (index r))) mod length (queues r)"
proof -
  let ?n = "int (length (queues r))" and ?i = "(sint (index r) + 1) mod int (length (queues r))"
  have n: "0 < ?n" "sint (thread_cnt r) = ?n" "?n < 2 ^ 31" "0 \<le> sint (index r)"
    using assms sint_lt [of "thread_cnt r"] by (auto simp: rep_ok_def)
  then have i: "0 \<le> ?i" "?i < ?n" by simp_all
  then have s: "sint (word_of_int ?i :: int32) = ?i" using n(3) by (intro sint_int32) simp_all
  have "thread_cnt r \<noteq> 0" using n by auto
  then have "wrap_index (incr_index r) = Inr (r\<lparr>index := word_of_int ?i\<rparr>)"
    using n(2) sint_index_succ [OF assms] by (simp add: wrap_index_def incr_index_def)
  moreover have "nat ?i = Suc (nat (sint (index r))) mod length (queues r)"
    using n(4) by (simp add: nat_mod_distrib nat_add_distrib)
  moreover have "rep_ok (r\<lparr>index := word_of_int ?i\<rparr>)" using assms s i by (auto simp: rep_ok_def queues_def)
  ultimately show ?thesis using s by simp
qed

interpretation rd: dealer "get_report_status parse" parse "\<lambda>r j. tq_queue (queues r ! j)"
  "\<lambda>r. nat (sint (index r))" "\<lambda>r. length (queues r)" rep_ok
  for parse
proof
  fix r x
  assume "rep_ok r"
  then obtain r1 where r1: "send_report (parse x) r = Inr r1" "rep_ok r1" "length (queues r1) = length (queues r)"
      "index r1 = index r" "\<forall>j < length (queues r). tq_queue (queues r1 ! j) =
         tq_queue (queues r ! j) @ (if j = nat (sint (index r)) then [parse x] else [])"
    using send_report_ok by blast
  obtain r2 where r2: "wrap_index (incr_index r1) = Inr r2" "rep_ok r2" "reportQueues r2 = reportQueues r1"
      "nat (sint (index r2)) = Suc (nat (sint (index r1))) mod length (queues r1)"
    using wrap_index_ok [OF r1(2)] by blast
  have "queues r2 = queues r1" using r2(3) by (simp add: queues_def)
  then show "\<exists>s'. get_report_status parse x r = Inr s' \<and> rep_ok s' \<and> length (queues s') = length (queues r) \<and>
      nat (sint (index s')) = Suc (nat (sint (index r))) mod length (queues r) \<and>
      (\<forall>j < length (queues r). tq_queue (queues s' ! j) =
        tq_queue (queues r ! j) @ (if j = nat (sint (index r)) then [parse x] else []))"
    using r1 r2 by (intro exI [of _ r2]) (simp add: get_report_status_def)
qed

lemma create_reportdb_threads_ok:
  assumes "create_reportdb_threads c evfd new_reporter = Inr r" and "thread_cnt r \<noteq> 0"
  shows "rep_ok r \<and> index r = 0 \<and> int (length (queues r)) = sint (thread_cnt r) \<and> (\<forall>j < length (queues r). tq_queue (queues r ! j) = [])"
proof -
  let ?cnt = "GetNumber c ''reporter'' ''db_thread_cnt'' 3"
  obtain qs where qs: "new_queues evfd [0..<nat (sint ?cnt)] = Inr qs" "0 \<le> sint ?cnt"
      "r = new_reporter\<lparr>thread_cnt := ?cnt, reportQueues := Some qs\<rparr>"
    using assms(1) by (auto simp: create_reportdb_threads_def res_bind_eq_Inr Let_def split: if_splits)
  have "sint ?cnt \<noteq> 0" using assms(2) qs(3) by (simp add: signed_eq_0_iff)
  then show ?thesis using qs new_queues_ok [OF qs(1)] by (auto simp: rep_ok_def queues_def new_reporter_def)
qed

subsection \<open>Every result is stored\<close>

text \<open>The statements a storage thread runs for a list of reports.\<close>

definition report_statements :: "ReportStatusRequest list \<Rightarrow> string list" where
  "report_statements reqs = concat (map (\<lambda>req. map (insert_sql req) (rsr_results req)) reqs)"

definition run_statements :: "'db client \<Rightarrow> ('db \<Rightarrow> 'db) \<Rightarrow> string list \<Rightarrow> 'db \<Rightarrow> 'db" where
  "run_statements query ping = fold (\<lambda>s db. snd (query s (ping db)))"

lemma store_result_whole:
  "store_result query ping garbage req result db = snd (query (insert_sql req result) (ping db))"
  using length_insert_sql [of req result] strlen_snprintf [of "insert_sql req result" 1024 garbage]
  by (simp add: store_result_def insert_sql_no_nul)

lemma store_runs: "store query ping garbage req db = run_statements query ping (map (insert_sql req) (rsr_results req)) db"
proof -
  have "store_result query ping garbage req = (\<lambda>s db. snd (query s (ping db))) \<circ> insert_sql req"
    by (simp add: fun_eq_iff store_result_whole)
  then show ?thesis by (simp add: store_def run_statements_def fold_map)
qed

lemma stores_run: "fold (store query ping garbage) reqs db = run_statements query ping (report_statements reqs) db"
proof (induction reqs arbitrary: db)
  case (Cons req reqs)
  then show ?case by (simp add: store_runs) (simp add: report_statements_def run_statements_def)
qed (simp add: report_statements_def run_statements_def)

lemma thread_report_runs:
  "\<exists>q'. thread_report query ping garbage (q, db) = (q', run_statements query ping (report_statements (tq_queue q)) db) \<and> tq_queue q' = []"
  by (auto simp: thread_report_def tq_recv_def stores_run Let_def split: option.split)

text \<open>
  Every report is stored once: of the reports that come in one after the other, storage thread \<open>j\<close>
  of \<open>n\<close> gets the ones with number \<open>j\<close>, \<open>j + n\<close>, ..., and when it is woken it runs exactly one INSERT
  for each of their results, in order, and leaves its queue empty.
\<close>

theorem reports_stored_once:
  assumes "create_reportdb_threads c evfd new_reporter = Inr r0" and "thread_cnt r0 \<noteq> 0"
  shows "\<exists>r. res_fold (get_report_status parse) ds r0 = Inr r \<and> length (queues r) = nat (sint (thread_cnt r0)) \<and>
    (\<forall>j < length (queues r). \<exists>q'. thread_report query ping garbage (queues r ! j, db) =
       (q', run_statements query ping (report_statements (map parse (share (length (queues r)) 0 j ds))) db) \<and> tq_queue q' = [])"
proof -
  have r0: "rep_ok r0" "index r0 = 0" "int (length (queues r0)) = sint (thread_cnt r0)" "\<forall>j < length (queues r0). tq_queue (queues r0 ! j) = []"
    using create_reportdb_threads_ok [OF assms] by auto
  obtain r where r: "res_fold (get_report_status parse) ds r0 = Inr r" "length (queues r) = length (queues r0)"
      "\<forall>j < length (queues r0). tq_queue (queues r ! j) = map parse (share (length (queues r0)) 0 j ds)"
    using rd.deal_all [OF r0(1), of parse ds] r0(2,4) by auto
  then have "\<forall>j < length (queues r). \<exists>q'. thread_report query ping garbage (queues r ! j, db) =
       (q', run_statements query ping (report_statements (map parse (share (length (queues r)) 0 j ds))) db) \<and> tq_queue q' = []"
    using thread_report_runs by metis
  moreover have "length (queues r) = nat (sint (thread_cnt r0))" using r(2) r0(3) by simp
  ultimately show ?thesis using r(1) by blast
qed

subsection \<open>Handlers of several threads\<close>

text \<open>
  The server's workers run the handler at the same time and nothing guards \<open>index\<close>: a schedule says
  which worker runs its next statement.
\<close>

datatype report_pc = At_Send ReportStatusRequest | At_Incr | At_Wrap | At_Return

fun handler_step :: "report_pc \<Rightarrow> reporter \<Rightarrow> (report_pc \<times> reporter) res" where
  "handler_step (At_Send req) r = res_bind (send_report req r) (\<lambda>r. Inr (At_Incr, r))"
| "handler_step At_Incr r = Inr (At_Wrap, incr_index r)"
| "handler_step At_Wrap r = res_bind (wrap_index r) (\<lambda>r. Inr (At_Return, r))"
| "handler_step At_Return r = Inr (At_Return, r)"

fun run_handlers :: "nat list \<Rightarrow> report_pc list \<Rightarrow> reporter \<Rightarrow> (report_pc list \<times> reporter) res" where
  "run_handlers [] pcs r = Inr (pcs, r)"
| "run_handlers (w # ws) pcs r =
     (if w < length pcs then res_bind (handler_step (pcs ! w) r) (\<lambda>(pc, r). run_handlers ws (pcs[w := pc]) r)
      else run_handlers ws pcs r)"

lemma handler_alone:
  assumes "get_report_status parse data r = Inr r'" and "w < length pcs" and "pcs ! w = At_Send (parse data)"
  shows "run_handlers (w # w # w # ws) pcs r = run_handlers ws (pcs[w := At_Return]) r'"
  using assms by (auto simp: get_report_status_def res_bind_eq_Inr)

text \<open>
  The unguarded \<open>index\<close> breaks the reporter with more than one worker: at the last storage thread,
  when a second worker takes a report between the first one's increment and its remainder, it indexes
  the queues one past the end; handled one after the other the same two reports are both queued.
\<close>

theorem report_index_race:
  assumes "rep_ok r" and "sint (index r) + 1 = int (length (queues r))"
  shows "run_handlers [0, 0, 1] [At_Send a, At_Send b] r = Inl Out_Of_Bounds \<and>
    (\<exists>r'. run_handlers [0, 0, 0, 1, 1, 1] [At_Send a, At_Send b] r = Inr ([At_Return, At_Return], r') \<and> rep_ok r')"
proof
  obtain r1 where r1: "send_report a r = Inr r1" "rep_ok r1" "length (queues r1) = length (queues r)" "index r1 = index r"
    using send_report_ok [OF assms(1)] by blast
  have "sint (index (incr_index r1)) = int (length (queues r))"
    using sint_index_succ [OF assms(1)] r1(4) assms(2) by (simp add: incr_index_def)
  moreover have "queues (incr_index r1) = queues r1" "reportQueues (incr_index r1) = reportQueues r1" "reportQueues r1 \<noteq> None"
    using r1(2) by (simp_all add: queues_def incr_index_def rep_ok_def)
  ultimately have "send_report b (incr_index r1) = Inl Out_Of_Bounds"
    using r1(3) by (auto simp: send_report_def queues_def)
  then show "run_handlers [0, 0, 1] [At_Send a, At_Send b] r = Inl Out_Of_Bounds" using r1(1) by simp
  obtain r2 where r2: "get_report_status (\<lambda>_. a) [] r = Inr r2" "rep_ok r2"
    using rd.deal_one [OF assms(1), of "\<lambda>_. a" "[]"] by blast
  obtain r3 where r3: "get_report_status (\<lambda>_. b) [] r2 = Inr r3" "rep_ok r3"
    using rd.deal_one [OF r2(2), of "\<lambda>_. b" "[]"] by blast
  have "run_handlers [0, 0, 0, 1, 1, 1] [At_Send a, At_Send b] r = Inr ([At_Return, At_Return], r3)"
    using handler_alone [OF r2(1), of 0 "[At_Send a, At_Send b]" "[1, 1, 1]"]
      handler_alone [OF r3(1), of 1 "[At_Return, At_Send b]" "[]"] by simp
  then show "\<exists>r'. run_handlers [0, 0, 0, 1, 1, 1] [At_Send a, At_Send b] r = Inr ([At_Return, At_Return], r') \<and> rep_ok r'"
    using r3(2) by blast
qed

subsection \<open>A concrete reporter\<close>

text \<open>The default of three storage threads; the database notes the statements it is given.\<close>

definition ex_queue :: "int32 \<Rightarrow> ReportStatusRequest thread_queue" where
  "ex_queue fd = \<lparr>tq_evfd = fd, tq_count = 0, tq_loop = None, tq_queue = []\<rparr>"

definition ex_reporter :: "int32 \<Rightarrow> reporter" where
  "ex_reporter i = \<lparr>reportQueues = Some [ex_queue 5, ex_queue 6, ex_queue 7], thread_cnt = 3, index = i\<rparr>"

definition ex_report :: "byte list \<Rightarrow> ReportStatusRequest" where
  "ex_report data = \<lparr>rsr_modid = ucast (hd data), rsr_cmdid = 1, rsr_caller = 7,
     rsr_results = [\<lparr>hcr_ip = 9, hcr_port = 80, hcr_succ = 3, hcr_err = 0, hcr_overload = False\<rparr>], rsr_ts = 5\<rparr>"

definition note_query :: "string list client" where
  "note_query s db = (Rows [], db @ [s])"

lemma ex_create: "create_reportdb_threads Map.empty (\<lambda>i. Some (5 + word_of_nat i)) new_reporter = Inr (ex_reporter 0)"
  by (simp add: create_reportdb_threads_def GetNumber_def find_value_def ex_reporter_def ex_queue_def new_reporter_def
      new_thread_queue_def upt_rec)

lemma ex_rep_ok: "i < 3 \<Longrightarrow> rep_ok (ex_reporter (word_of_nat i))"
  by (auto simp: rep_ok_def ex_reporter_def queues_def ex_queue_def tq_ok_def less_Suc_eq numeral_3_eq_3)

theorem reports_stored_once_witness:
  "\<exists>r. res_fold (get_report_status ex_report) [[1], [2], [3], [4]] (ex_reporter 0) = Inr r \<and>
    (\<exists>q'. thread_report note_query id [] (queues r ! 0, []) =
      (q', [insert_sql (ex_report [1]) (hd (rsr_results (ex_report [1]))), insert_sql (ex_report [4]) (hd (rsr_results (ex_report [4])))]))"
proof -
  have "thread_cnt (ex_reporter 0) \<noteq> 0" by (simp add: ex_reporter_def)
  from reports_stored_once [OF ex_create this, of ex_report "[[1], [2], [3], [4]]" note_query id "[]" "[]"]
  obtain r q' where "res_fold (get_report_status ex_report) [[1], [2], [3], [4]] (ex_reporter 0) = Inr r" "length (queues r) = 3"
      "thread_report note_query id [] (queues r ! 0, []) =
        (q', run_statements note_query id (report_statements (map ex_report (share 3 0 0 [[1], [2], [3], [4]]))) [])"
    by (fastforce simp: ex_reporter_def)
  then show ?thesis by (simp add: run_statements_def report_statements_def ex_report_def note_query_def)
qed

theorem report_index_race_witness:
  "run_handlers [0, 0, 1] [At_Send (ex_report [1]), At_Send (ex_report [2])] (ex_reporter 2) = Inl Out_Of_Bounds"
  using report_index_race [of "ex_reporter 2" "ex_report [1]" "ex_report [2]"] ex_rep_ok [of 2]
  by (simp add: ex_reporter_def queues_def)

end
