(* ===== verification/Reporter_Server.thy ===== *)
theory Reporter_Server
  imports Server_Run Reporter
begin

text \<open>
  The reporter on its TCP server (\<open>lars_reporter/src/reporter_service.cpp\<close>): its handler as the application
  of \<open>Server_Process\<close>, and the way of a report from the bytes on a connection to the statements a storage
  thread runs. Events are handled one at a time here; what two handlers at once can do is in \<open>Reporter\<close>.
\<close>

subsection \<open>The application\<close>

text \<open>
  The application's state is the reporter, or the fault that a handler has ended the process with. The
  invariant is that no handler faults, see \<open>report_handler_runs\<close>.
\<close>

definition get_report_status_cb :: "(byte list \<Rightarrow> ReportStatusRequest) \<Rightarrow> (unit, reporter res) handler" where
  "get_report_status_cb parse arg msgid data s = ([], res_bind s (get_report_status parse data))"

definition reporter_router :: "(byte list \<Rightarrow> ReportStatusRequest) \<Rightarrow> ((unit, reporter res) handler, unit) msg_router" where
  "reporter_router parse = add_msg_router ID_ReportStatusRequest (get_report_status_cb parse) None new_msg_router"

definition reporter_app :: "(byte list \<Rightarrow> ReportStatusRequest) \<Rightarrow> ('task, reporter res, unit) server_app" where
  "reporter_app parse = \<lparr>conn_start = None, conn_close = None, app_router = (\<lambda>_. reporter_router parse)\<rparr>"

lemma handled_report:
  "handled (reporter_router parse) i b r =
    (if i = ID_ReportStatusRequest then get_report_status_cb parse None i b r else ([], r))"
  by (simp add: reporter_router_def handled_def add_msg_router_def regist_msg_router_def new_msg_router_def)

definition reporter_inv :: "int32 set \<Rightarrow> reporter res \<Rightarrow> bool" where
  "reporter_inv F s \<longleftrightarrow> (\<exists>r. s = Inr r \<and> rep_ok r)"

lemma report_handler_runs:
  assumes "rep_ok r"
  shows "\<exists>r'. get_report_status parse data r = Inr r' \<and> rep_ok r' \<and> snd (get_report_status_cb parse arg i data (Inr r)) = Inr r'"
  using rd.deal_one [OF assms, of parse data] by (auto simp: get_report_status_cb_def)

interpretation rp: server_application reporter_inv "reporter_app parse" for parse
proof
  fix c :: "('a, reporter res) tcp_conn" and F
  assume "reporter_inv F (app c)"
  then show "\<exists>u. call_hook (conn_start (reporter_app parse)) c = Inr (c\<lparr>app := u\<rparr>) \<and> reporter_inv (insert (connfd c) F) u"
    "\<exists>u. call_hook (conn_close (reporter_app parse)) c = Inr (c\<lparr>app := u\<rparr>) \<and> reporter_inv (F - {connfd c}) u"
    by (intro exI [of _ "app c"]; simp add: reporter_app_def reporter_inv_def)+
next
  fix fd F u i b
  assume "reporter_inv F u"
  then show "reporter_inv F (handler_upd (app_router (reporter_app parse :: ('a, reporter res, unit) server_app) fd) i b u)"
    using report_handler_runs [of _ parse b None i] by (fastforce simp: reporter_inv_def reporter_app_def handler_upd_def handled_report)
qed

text \<open>In every state the reporter's process reaches the handler runs through, whatever a report contains.\<close>

lemma reporter_handlers_never_fault:
  assumes "server_started pollable reporter_inv (reporter_app parse) r0"
    and "rtranclp (server_step pollable reporter_inv (reporter_app parse)) r0 r"
  shows "\<exists>rep rep'. rapp r = Inr rep \<and> get_report_status parse data rep = Inr rep'"
proof -
  have "server_inv pollable reporter_inv [] r" using sm.inv_reachable [OF assms] by (simp add: serving_def)
  then have "\<exists>rep. rapp r = Inr rep \<and> rep_ok rep" using server_invD(11) by (fastforce simp: reporter_inv_def)
  then show ?thesis using report_handler_runs by blast
qed

text \<open>A storage thread that empties its queue keeps the invariant.\<close>

definition drain_queue :: "nat \<Rightarrow> reporter \<Rightarrow> reporter" where
  "drain_queue j r = r\<lparr>reportQueues := map_option (\<lambda>qs. qs[j := snd (tq_recv [] (qs ! j))]) (reportQueues r)\<rparr>"

lemma drain_ok:
  assumes "rep_ok r" and "j < length (queues r)"
  shows "rep_ok (drain_queue j r) \<and> length (queues (drain_queue j r)) = length (queues r) \<and> tq_queue (queues (drain_queue j r) ! j) = [] \<and>
    (\<forall>i. i \<noteq> j \<longrightarrow> queues (drain_queue j r) ! i = queues r ! i)"
  using assms by (auto simp: rep_ok_def drain_queue_def queues_def tq_ok_recv dest!: subsetD [OF set_update_subset_insert])

subsection \<open>From the connection to the database\<close>

lemma reports_handled:
  assumes "rep_ok r" and "\<forall>m \<in> set ms. fst m = ID_ReportStatusRequest"
  shows "res_fold (get_report_status parse) (map snd ms) r = updates (handler_upd (reporter_router parse)) ms (Inr r)"
  using assms
proof (induction ms arbitrary: r)
  case (Cons m ms)
  obtain r' where r': "get_report_status parse (snd m) r = Inr r'" "rep_ok r'"
      "snd (get_report_status_cb parse None ID_ReportStatusRequest (snd m) (Inr r)) = Inr r'"
    using report_handler_runs [OF Cons.prems(1)] by blast
  then show ?case using Cons.IH [OF r'(2)] Cons.prems(2) by (cases m) (simp add: handler_upd_def handled_report)
qed simp

lemma reports_unanswered: "replies (handler_reply (reporter_router parse)) upd ms r = []"
  by (induction ms arbitrary: r) (auto simp: handler_reply_def handled_report get_report_status_cb_def)

text \<open>
  C21: Every report that arrives is stored: when the bytes on a connection of the reporter, cut into pieces
  in any way, are the framed reports of an agent, then after they are read each report waits in exactly
  one storage thread's queue, in turn from the one the index names, behind what was there; nothing is
  answered; and a thread that is then woken runs one INSERT for every result of every report in its
  queue, in order.
\<close>

theorem reports_reach_the_database:
  assumes "conn_ok others c" and "front_in c" and "armed pollable c" and "in_bytes c = []" and "int (length (out_bytes c)) \<le> m8M"
    and "\<forall>bs \<in> set bss. bs \<noteq> [] \<and> int (length bs) \<le> read_limit"
    and "concat bss = concat (map (\<lambda>d. frame (ID_ReportStatusRequest, d)) ds)"
    and "\<forall>d \<in> set ds. d \<noteq> [] \<and> int (length d) \<le> MESSAGE_LENGTH_LIMIT" and "app c = Inr r" and "rep_ok r"
  shows "reads (conn_call pollable self (reporter_router parse)) (clean_conn pollable hook) bss c = Some (Inl Exited) \<or>
    (\<exists>c' r'. reads (conn_call pollable self (reporter_router parse)) (clean_conn pollable hook) bss c = Some (Inr c') \<and>
       in_bytes c' = [] \<and> out_bytes c' = out_bytes c \<and> app c' = Inr r' \<and> rep_ok r' \<and> length (queues r') = length (queues r) \<and>
       (\<forall>j < length (queues r). \<exists>q'.
          thread_report query ping garbage (queues r' ! j, db) =
            (q', run_statements query ping (report_statements (tq_queue (queues r ! j) @
               map parse (share (length (queues r)) (nat (sint (index r))) j ds))) db) \<and> tq_queue q' = []))"
proof -
  let ?ms = "map (Pair ID_ReportStatusRequest) ds" and ?router = "reporter_router parse"
  let ?r = "updates (handler_upd ?router) ?ms (app c)"
  obtain r' where r': "res_fold (get_report_status parse) ds r = Inr r'" "rep_ok r'" "length (queues r') = length (queues r)"
      "\<forall>j < length (queues r). tq_queue (queues r' ! j) =
         tq_queue (queues r ! j) @ map parse (share (length (queues r)) (nat (sint (index r))) j ds)"
    using rd.deal_all [OF assms(10), of parse ds] by auto
  then have upd: "?r = Inr r'" using reports_handled [OF assms(10), of ?ms parse] by (simp add: comp_def assms(9))
  have "concat (map frame ?ms) = concat bss" unfolding assms(7) by (simp add: comp_def)
  then have "decode (in_bytes c @ concat bss) = (?ms, [], False)"
    using assms(4,8) decode_frames [of ?ms "[]"] by (simp add: decode_short)
  moreover have "decode (in_bytes c) = ([], in_bytes c, False)" using assms(4) by (simp add: decode_short)
  ultimately have "reads (conn_call pollable self ?router) (clean_conn pollable hook) bss c = Some (Inl Exited) \<or>
      (\<exists>c'. reads (conn_call pollable self ?router) (clean_conn pollable hook) bss c = Some (Inr c') \<and>
         in_bytes c' = [] \<and> app c' = ?r \<and> out_bytes c' = out_bytes c)"
    using tc.cb.reads_messages [OF assms(1,2) conn_at_self [OF assms(3)] _ assms(6), of ?ms "[]" ?router self
        "clean_conn pollable hook", folded conn_call_def] assms(5,8) reports_unanswered
    by auto
  then show ?thesis
    using r'(2-4) thread_report_runs unfolding upd by (metis (no_types))
qed

theorem reports_reach_the_database_witness:
  "let f = frame (ID_ReportStatusRequest, [4]); bss = [take 3 f, drop 3 f]; c = ex_conn None (ex_pool Map.empty) (Inr (ex_reporter 2));
       read = reads (conn_call (\<lambda>_. True) 0 (reporter_router ex_report)) (clean_conn (\<lambda>_. True) None) bss c in
   read = Some (Inl Exited) \<or>
   (\<exists>c' r' q'. read = Some (Inr c') \<and> app c' = Inr r' \<and> thread_report note_query id [] (queues r' ! 2, []) =
      (q', [insert_sql (ex_report [4]) (hd (rsr_results (ex_report [4])))]))"
proof -
  let ?f = "frame (ID_ReportStatusRequest, [4])" and ?c = "ex_conn None (ex_pool Map.empty) (Inr (ex_reporter 2))"
  have rep: "rep_ok (ex_reporter 2)" "app ?c = Inr (ex_reporter 2)" "length (queues (ex_reporter 2)) = 3" "queues (ex_reporter 2) ! 2 = ex_queue 7"
      "nat (sint (index (ex_reporter 2))) = 2" "tq_queue (ex_queue 7) = []"
    using ex_rep_ok [of 2] by (simp_all add: ex_conn_def ex_reporter_def queues_def ex_queue_def)
  let ?read = "reads (conn_call (\<lambda>_. True) 0 (reporter_router ex_report)) (clean_conn (\<lambda>_. True) None) [take 3 ?f, drop 3 ?f] ?c"
  have "concat [take 3 ?f, drop 3 ?f] = concat (map (\<lambda>d. frame (ID_ReportStatusRequest, d)) [[4]])" by simp
  moreover have "\<forall>bs \<in> set [take 3 ?f, drop 3 ?f]. bs \<noteq> [] \<and> int (length bs) \<le> read_limit"
    by (simp add: read_limit_def m8M_def lars_defs)
  moreover have "int (length (out_bytes ?c)) \<le> m8M" by (simp add: ex_conn_ok m8M_def)
  moreover have "\<forall>d \<in> set [[4 :: byte]]. d \<noteq> [] \<and> int (length d) \<le> MESSAGE_LENGTH_LIMIT" by (simp add: lars_defs)
  ultimately have "?read = Some (Inl Exited) \<or> (\<exists>c' r'. ?read = Some (Inr c') \<and> app c' = Inr r' \<and>
      (\<forall>j < length (queues (ex_reporter 2)). \<exists>q'. thread_report note_query id [] (queues r' ! j, []) =
         (q', run_statements note_query id (report_statements (tq_queue (queues (ex_reporter 2) ! j) @
            map ex_report (share (length (queues (ex_reporter 2))) (nat (sint (index (ex_reporter 2)))) j [[4]]))) []) \<and> tq_queue q' = []))"
    using reports_reach_the_database [where query = note_query and ping = id and garbage = "[]" and db = "[]" and parse = ex_report
        and hook = None and self = 0, OF ex_conn_ok(1-4) _ _ _ _ rep(2,1), of "[take 3 ?f, drop 3 ?f]" "[[4]]"] by blast
  then show ?thesis
    unfolding Let_def rep(3)
  proof (elim disjE exE conjE)
    fix c' r'
    assume c': "?read = Some (Inr c')" "\<forall>j < 3. \<exists>q'. thread_report note_query id [] (queues r' ! j, []) =
         (q', run_statements note_query id (report_statements (tq_queue (queues (ex_reporter 2) ! j) @
            map ex_report (share 3 (nat (sint (index (ex_reporter 2)))) j [[4]]))) []) \<and> tq_queue q' = []"
    assume "app c' = Inr r'"
    with c'(2) [rule_format, of 2] show "?read = Some (Inl Exited) \<or> (\<exists>c' r' q'. ?read = Some (Inr c') \<and> app c' = Inr r' \<and>
        thread_report note_query id [] (queues r' ! 2, []) = (q', [insert_sql (ex_report [4]) (hd (rsr_results (ex_report [4])))]))"
      using c'(1) rep(4-6) by (auto simp: run_statements_def report_statements_def note_query_def ex_report_def)
  qed simp
qed

end
