(* ===== verification/Pb_Schema.thy ===== *)
theory Pb_Schema
  imports Lars_Pb_Access
begin

text \<open>
  The protocol file \<open>base/proto/lars.proto\<close> and what the generated code keeps of it for reflection: the
  descriptor bytes, the offset tables, the class indices and the names of the enumerators. The generated
  serializers are compared with one serializer that only reads the schema.
\<close>

subsection \<open>The protocol file\<close>

datatype proto_type = Int32 | UInt32 | Bool | Text | Embedded string

record proto_field =
  f_name :: string
  f_number :: nat
  f_repeated :: bool
  f_type :: proto_type

record proto_message =
  p_name :: string
  p_fields :: "proto_field list"

record proto_enum =
  e_name :: string
  e_values :: "(string \<times> int32) list"

definition optional :: "proto_type \<Rightarrow> string \<Rightarrow> nat \<Rightarrow> proto_field" where
  "optional t name n = \<lparr>f_name = name, f_number = n, f_repeated = False, f_type = t\<rparr>"

definition repeated :: "proto_type \<Rightarrow> string \<Rightarrow> nat \<Rightarrow> proto_field" where
  "repeated t name n = \<lparr>f_name = name, f_number = n, f_repeated = True, f_type = t\<rparr>"

definition lars_enums :: "proto_enum list" where
  "lars_enums =
    [\<lparr>e_name = ''MessageId'', e_values = [(''ID_UNKNOW'', 0), (''ID_GetRouteRequest'', 1), (''ID_GetRouteResponse'', 2),
        (''ID_ReportStatusRequest'', 3), (''ID_GetHostRequest'', 4), (''ID_GetHostResponse'', 5), (''ID_ReportRequest'', 6)]\<rparr>,
     \<lparr>e_name = ''LarsRetCode'', e_values = [(''RET_SUCC'', 0), (''RET_OVERLOAD'', 1), (''RET_SYSTEM_ERROR'', 2), (''RET_NOEXIST'', 3)]\<rparr>]"

definition lars_messages :: "proto_message list" where
  "lars_messages =
    [\<lparr>p_name = ''HostInfo'', p_fields = [optional Int32 ''ip'' 1, optional Int32 ''port'' 2]\<rparr>,
     \<lparr>p_name = ''GetRouteRequest'', p_fields = [optional Int32 ''modid'' 1, optional Int32 ''cmdid'' 2]\<rparr>,
     \<lparr>p_name = ''GetRouteResponse'', p_fields = [optional Int32 ''modid'' 1, optional Int32 ''cmdid'' 2,
        repeated (Embedded ''HostInfo'') ''host'' 3]\<rparr>,
     \<lparr>p_name = ''HostCallResult'', p_fields = [optional Int32 ''ip'' 1, optional Int32 ''port'' 2, optional UInt32 ''succ'' 3,
        optional UInt32 ''err'' 4, optional Bool ''overload'' 5]\<rparr>,
     \<lparr>p_name = ''ReportStatusRequest'', p_fields = [optional Int32 ''modid'' 1, optional Int32 ''cmdid'' 2,
        optional Int32 ''caller'' 3, repeated (Embedded ''HostCallResult'') ''results'' 4, optional UInt32 ''ts'' 5]\<rparr>,
     \<lparr>p_name = ''GetHostRequest'', p_fields = [optional UInt32 ''seq'' 1, optional Int32 ''modid'' 2, optional Int32 ''cmdid'' 3]\<rparr>,
     \<lparr>p_name = ''GetHostResponse'', p_fields = [optional UInt32 ''seq'' 1, optional Int32 ''modid'' 2, optional Int32 ''cmdid'' 3,
        optional Int32 ''retcode'' 4, optional (Embedded ''HostInfo'') ''host'' 5]\<rparr>,
     \<lparr>p_name = ''ReportRequest'', p_fields = [optional Int32 ''modid'' 1, optional Int32 ''cmdid'' 2,
        optional (Embedded ''HostInfo'') ''host'' 3, optional Int32 ''retcode'' 4]\<rparr>]"

text \<open>
  The checked-in generated files are of an older state of the protocol file, without \<open>ReportRequest\<close>. No
  file has this state: it only serves to compare the tables below with the file.
\<close>

definition generated_messages :: "proto_message list" where
  "generated_messages = filter (\<lambda>m. p_name m \<noteq> ''ReportRequest'') lars_messages"

definition generated_enums :: "proto_enum list" where
  "generated_enums = map (\<lambda>e. e\<lparr>e_values := filter (\<lambda>v. fst v \<noteq> ''ID_ReportRequest'') (e_values e)\<rparr>) lars_enums"

subsection \<open>What the generated code keeps\<close>

definition ascii :: "string \<Rightarrow> byte list" where
  "ascii s = map (\<lambda>c. word_of_nat (of_char c)) s"

definition descriptor_table_protodef :: "byte list" where
  "descriptor_table_protodef =
     [10, 10] @ ascii ''lars.proto'' @ [18, 4] @ ascii ''lars'' @ [34, 36, 10, 8] @ ascii ''HostInfo'' @
     [18, 10, 10, 2] @ ascii ''ip'' @ [24, 1, 32, 1, 40, 5, 18, 12, 10, 4] @ ascii ''port'' @
     [24, 2, 32, 1, 40, 5, 34, 47, 10, 15] @ ascii ''GetRouteRequest'' @ [18, 13, 10, 5] @
     ascii ''modid'' @ [24, 1, 32, 1, 40, 5, 18, 13, 10, 5] @ ascii ''cmdid'' @
     [24, 2, 32, 1, 40, 5, 34, 78, 10, 16] @ ascii ''GetRouteResponse'' @ [18, 13, 10, 5] @
     ascii ''modid'' @ [24, 1, 32, 1, 40, 5, 18, 13, 10, 5] @ ascii ''cmdid'' @
     [24, 2, 32, 1, 40, 5, 18, 28, 10, 4] @ ascii ''host'' @ [24, 3, 32, 3, 40, 11, 50, 14] @
     ascii ''.lars.HostInfo'' @ [34, 87, 10, 14] @ ascii ''HostCallResult'' @ [18, 10, 10, 2] @
     ascii ''ip'' @ [24, 1, 32, 1, 40, 5, 18, 12, 10, 4] @ ascii ''port'' @
     [24, 2, 32, 1, 40, 5, 18, 12, 10, 4] @ ascii ''succ'' @ [24, 3, 32, 1, 40, 13, 18, 11, 10, 3] @
     ascii ''err'' @ [24, 4, 32, 1, 40, 13, 18, 16, 10, 8] @ ascii ''overload'' @
     [24, 5, 32, 1, 40, 8, 34, 118, 10, 19] @ ascii ''ReportStatusRequest'' @ [18, 13, 10, 5] @
     ascii ''modid'' @ [24, 1, 32, 1, 40, 5, 18, 13, 10, 5] @ ascii ''cmdid'' @
     [24, 2, 32, 1, 40, 5, 18, 14, 10, 6] @ ascii ''caller'' @ [24, 3, 32, 1, 40, 5, 18, 37, 10, 7] @
     ascii ''results'' @ [24, 4, 32, 3, 40, 11, 50, 20] @ ascii ''.lars.HostCallResult'' @
     [18, 10, 10, 2] @ ascii ''ts'' @ [24, 5, 32, 1, 40, 13, 34, 59, 10, 14] @ ascii ''GetHostRequest'' @
     [18, 11, 10, 3] @ ascii ''seq'' @ [24, 1, 32, 1, 40, 13, 18, 13, 10, 5] @ ascii ''modid'' @
     [24, 2, 32, 1, 40, 5, 18, 13, 10, 5] @ ascii ''cmdid'' @ [24, 3, 32, 1, 40, 5, 34, 107, 10, 15] @
     ascii ''GetHostResponse'' @ [18, 11, 10, 3] @ ascii ''seq'' @
     [24, 1, 32, 1, 40, 13, 18, 13, 10, 5] @ ascii ''modid'' @ [24, 2, 32, 1, 40, 5, 18, 13, 10, 5] @
     ascii ''cmdid'' @ [24, 3, 32, 1, 40, 5, 18, 15, 10, 7] @ ascii ''retcode'' @
     [24, 4, 32, 1, 40, 5, 18, 28, 10, 4] @ ascii ''host'' @ [24, 5, 32, 1, 40, 11, 50, 14] @
     ascii ''.lars.HostInfo'' @ [42, 150, 1, 10, 9] @ ascii ''MessageId'' @ [18, 13, 10, 9] @
     ascii ''ID_UNKNOW'' @ [16, 0, 18, 22, 10, 18] @ ascii ''ID_GetRouteRequest'' @
     [16, 1, 18, 23, 10, 19] @ ascii ''ID_GetRouteResponse'' @ [16, 2, 18, 26, 10, 22] @
     ascii ''ID_ReportStatusRequest'' @ [16, 3, 18, 21, 10, 17] @ ascii ''ID_GetHostRequest'' @
     [16, 4, 18, 22, 10, 18] @ ascii ''ID_GetHostResponse'' @ [16, 5, 42, 84, 10, 11] @
     ascii ''LarsRetCode'' @ [18, 12, 10, 8] @ ascii ''RET_SUCC'' @ [16, 0, 18, 16, 10, 12] @
     ascii ''RET_OVERLOAD'' @ [16, 1, 18, 20, 10, 16] @ ascii ''RET_SYSTEM_ERROR'' @
     [16, 2, 18, 15, 10, 11] @ ascii ''RET_NOEXIST'' @ [16, 3, 98, 6] @ ascii ''proto3''"

text \<open>An entry of the offset table: none, the unknown fields of a class, a field of a class.\<close>

datatype offset = No_Offset | Metadata_Of string | Offset_Of string string

definition table_struct :: "offset list" where
  "table_struct =
    [No_Offset, Metadata_Of ''HostInfo'', No_Offset, No_Offset, No_Offset, No_Offset,
      Offset_Of ''HostInfo'' ''ip'', Offset_Of ''HostInfo'' ''port'',
      No_Offset, Metadata_Of ''GetRouteRequest'', No_Offset, No_Offset, No_Offset, No_Offset,
      Offset_Of ''GetRouteRequest'' ''modid'', Offset_Of ''GetRouteRequest'' ''cmdid'',
      No_Offset, Metadata_Of ''GetRouteResponse'', No_Offset, No_Offset, No_Offset, No_Offset,
      Offset_Of ''GetRouteResponse'' ''modid'', Offset_Of ''GetRouteResponse'' ''cmdid'', Offset_Of ''GetRouteResponse'' ''host'',
      No_Offset, Metadata_Of ''HostCallResult'', No_Offset, No_Offset, No_Offset, No_Offset,
      Offset_Of ''HostCallResult'' ''ip'', Offset_Of ''HostCallResult'' ''port'', Offset_Of ''HostCallResult'' ''succ'', Offset_Of ''HostCallResult'' ''err'', Offset_Of ''HostCallResult'' ''overload'',
      No_Offset, Metadata_Of ''ReportStatusRequest'', No_Offset, No_Offset, No_Offset, No_Offset,
      Offset_Of ''ReportStatusRequest'' ''modid'', Offset_Of ''ReportStatusRequest'' ''cmdid'', Offset_Of ''ReportStatusRequest'' ''caller'', Offset_Of ''ReportStatusRequest'' ''results'', Offset_Of ''ReportStatusRequest'' ''ts'',
      No_Offset, Metadata_Of ''GetHostRequest'', No_Offset, No_Offset, No_Offset, No_Offset,
      Offset_Of ''GetHostRequest'' ''seq'', Offset_Of ''GetHostRequest'' ''modid'', Offset_Of ''GetHostRequest'' ''cmdid'',
      No_Offset, Metadata_Of ''GetHostResponse'', No_Offset, No_Offset, No_Offset, No_Offset,
      Offset_Of ''GetHostResponse'' ''seq'', Offset_Of ''GetHostResponse'' ''modid'', Offset_Of ''GetHostResponse'' ''cmdid'', Offset_Of ''GetHostResponse'' ''retcode'', Offset_Of ''GetHostResponse'' ''host'']"

definition schemas :: "(nat \<times> string) list" where
  "schemas = [(0, ''HostInfo''), (8, ''GetRouteRequest''), (16, ''GetRouteResponse''), (25, ''HostCallResult''), (36, ''ReportStatusRequest''), (47, ''GetHostRequest''), (56, ''GetHostResponse'')]"

definition file_default_instances :: "string list" where
  "file_default_instances = [''HostInfo'', ''GetRouteRequest'', ''GetRouteResponse'', ''HostCallResult'', ''ReportStatusRequest'', ''GetHostRequest'', ''GetHostResponse'']"

text \<open>The numbers of the table: the size of the descriptor, no dependencies, seven messages.\<close>

definition descriptor_table :: "nat \<times> byte list \<times> string \<times> nat \<times> nat" where
  "descriptor_table = (811, descriptor_table_protodef, ''lars.proto'', 0, 7)"

text \<open>The classes' constants; \<open>GetMetadata\<close> picks from what the runtime has made of the descriptor.\<close>

definition HostInfo_kIndexInFileMessages :: nat where
  "HostInfo_kIndexInFileMessages = 0"

definition HostInfo_field_numbers :: "(string \<times> nat) list" where
  "HostInfo_field_numbers = [(''ip'', 1), (''port'', 2)]"

definition HostInfo_GetMetadata :: "'d list \<Rightarrow> 'd" where
  "HostInfo_GetMetadata file_level_metadata = file_level_metadata ! 0"

definition GetRouteRequest_kIndexInFileMessages :: nat where
  "GetRouteRequest_kIndexInFileMessages = 1"

definition GetRouteRequest_field_numbers :: "(string \<times> nat) list" where
  "GetRouteRequest_field_numbers = [(''modid'', 1), (''cmdid'', 2)]"

definition GetRouteRequest_GetMetadata :: "'d list \<Rightarrow> 'd" where
  "GetRouteRequest_GetMetadata file_level_metadata = file_level_metadata ! 1"

definition GetRouteResponse_kIndexInFileMessages :: nat where
  "GetRouteResponse_kIndexInFileMessages = 2"

definition GetRouteResponse_field_numbers :: "(string \<times> nat) list" where
  "GetRouteResponse_field_numbers = [(''host'', 3), (''modid'', 1), (''cmdid'', 2)]"

definition GetRouteResponse_GetMetadata :: "'d list \<Rightarrow> 'd" where
  "GetRouteResponse_GetMetadata file_level_metadata = file_level_metadata ! 2"

definition HostCallResult_kIndexInFileMessages :: nat where
  "HostCallResult_kIndexInFileMessages = 3"

definition HostCallResult_field_numbers :: "(string \<times> nat) list" where
  "HostCallResult_field_numbers = [(''ip'', 1), (''port'', 2), (''succ'', 3), (''err'', 4), (''overload'', 5)]"

definition HostCallResult_GetMetadata :: "'d list \<Rightarrow> 'd" where
  "HostCallResult_GetMetadata file_level_metadata = file_level_metadata ! 3"

definition ReportStatusRequest_kIndexInFileMessages :: nat where
  "ReportStatusRequest_kIndexInFileMessages = 4"

definition ReportStatusRequest_field_numbers :: "(string \<times> nat) list" where
  "ReportStatusRequest_field_numbers = [(''results'', 4), (''modid'', 1), (''cmdid'', 2), (''caller'', 3), (''ts'', 5)]"

definition ReportStatusRequest_GetMetadata :: "'d list \<Rightarrow> 'd" where
  "ReportStatusRequest_GetMetadata file_level_metadata = file_level_metadata ! 4"

definition GetHostRequest_kIndexInFileMessages :: nat where
  "GetHostRequest_kIndexInFileMessages = 5"

definition GetHostRequest_field_numbers :: "(string \<times> nat) list" where
  "GetHostRequest_field_numbers = [(''seq'', 1), (''modid'', 2), (''cmdid'', 3)]"

definition GetHostRequest_GetMetadata :: "'d list \<Rightarrow> 'd" where
  "GetHostRequest_GetMetadata file_level_metadata = file_level_metadata ! 5"

definition GetHostResponse_kIndexInFileMessages :: nat where
  "GetHostResponse_kIndexInFileMessages = 6"

definition GetHostResponse_field_numbers :: "(string \<times> nat) list" where
  "GetHostResponse_field_numbers = [(''host'', 5), (''seq'', 1), (''modid'', 2), (''cmdid'', 3), (''retcode'', 4)]"

definition GetHostResponse_GetMetadata :: "'d list \<Rightarrow> 'd" where
  "GetHostResponse_GetMetadata file_level_metadata = file_level_metadata ! 6"


subsection \<open>Names of the enumerators\<close>

text \<open>The enumerations of the descriptor, by their place in it.\<close>

definition MessageId_descriptor :: "'e list \<Rightarrow> 'e" where
  "MessageId_descriptor file_level_enum_descriptors = file_level_enum_descriptors ! 0"

definition LarsRetCode_descriptor :: "'e list \<Rightarrow> 'e" where
  "LarsRetCode_descriptor file_level_enum_descriptors = file_level_enum_descriptors ! 1"

text \<open>
  \<open>NameOfEnum\<close> and \<open>ParseNamedEnum\<close> of the runtime look up a value or a name in an enumeration without
  aliases; a value without a name has the empty one.
\<close>

definition enum_ok :: "(string \<times> int32) list \<Rightarrow> bool" where
  "enum_ok vs \<longleftrightarrow> distinct (map fst vs) \<and> distinct (map snd vs) \<and> [] \<notin> fst ` set vs"

locale enum_names =
  fixes NameOfEnum :: "(string \<times> int32) list \<Rightarrow> int32 \<Rightarrow> string"
    and ParseNamedEnum :: "(string \<times> int32) list \<Rightarrow> string \<Rightarrow> int32 option"
  assumes name_of: "enum_ok vs \<Longrightarrow> (name, v) \<in> set vs \<Longrightarrow> NameOfEnum vs v = name"
    and no_name: "v \<notin> snd ` set vs \<Longrightarrow> NameOfEnum vs v = []"
    and parse_name: "enum_ok vs \<Longrightarrow> (name, v) \<in> set vs \<Longrightarrow> ParseNamedEnum vs name = Some v"
    and parse_none: "name \<notin> fst ` set vs \<Longrightarrow> ParseNamedEnum vs name = None"
begin

lemma name_parses:
  assumes "enum_ok vs"
  shows "ParseNamedEnum vs (NameOfEnum vs v) = (if v \<in> snd ` set vs then Some v else None)"
proof (cases "v \<in> snd ` set vs")
  case True
  then obtain name where "(name, v) \<in> set vs" by auto
  then show ?thesis using True name_of [OF assms] parse_name [OF assms] by simp
next
  case False
  then show ?thesis using no_name [OF False] parse_none [of "[]" vs] assms by (simp add: enum_ok_def)
qed

end

definition name_of_enum :: "(string \<times> int32) list \<Rightarrow> int32 \<Rightarrow> string" where
  "name_of_enum vs v = (case map_of (map prod.swap vs) v of None \<Rightarrow> [] | Some name \<Rightarrow> name)"

interpretation en: enum_names name_of_enum map_of
proof
  fix vs :: "(string \<times> int32) list" and name v
  show "map_of vs name = Some v" if "enum_ok vs" "(name, v) \<in> set vs"
    using that by (simp add: enum_ok_def)
  show "name_of_enum vs v = name" if "enum_ok vs" "(name, v) \<in> set vs"
  proof -
    have "distinct (map fst (map prod.swap vs))" using that(1) by (simp add: enum_ok_def comp_def)
    moreover have "(v, name) \<in> set (map prod.swap vs)" using that(2) by force
    ultimately have "map_of (map prod.swap vs) v = Some name" by (rule map_of_is_SomeI)
    then show ?thesis by (simp add: name_of_enum_def)
  qed
  show "name_of_enum vs v = []" if "v \<notin> snd ` set vs"
  proof -
    have "map_of (map prod.swap vs) v = None" using that by (force simp: map_of_eq_None_iff)
    then show ?thesis by (simp add: name_of_enum_def)
  qed
qed (auto simp: map_of_eq_None_iff)

definition MessageId_Name :: "((string \<times> int32) list \<Rightarrow> int32 \<Rightarrow> string) \<Rightarrow> (string \<times> int32) list list \<Rightarrow> int32 \<Rightarrow> string" where
  "MessageId_Name NameOfEnum es v = NameOfEnum (MessageId_descriptor es) v"

definition MessageId_Parse :: "((string \<times> int32) list \<Rightarrow> string \<Rightarrow> int32 option) \<Rightarrow> (string \<times> int32) list list \<Rightarrow> string \<Rightarrow> int32 option" where
  "MessageId_Parse ParseNamedEnum es name = ParseNamedEnum (MessageId_descriptor es) name"

definition LarsRetCode_Name :: "((string \<times> int32) list \<Rightarrow> int32 \<Rightarrow> string) \<Rightarrow> (string \<times> int32) list list \<Rightarrow> int32 \<Rightarrow> string" where
  "LarsRetCode_Name NameOfEnum es v = NameOfEnum (LarsRetCode_descriptor es) v"

definition LarsRetCode_Parse :: "((string \<times> int32) list \<Rightarrow> string \<Rightarrow> int32 option) \<Rightarrow> (string \<times> int32) list list \<Rightarrow> string \<Rightarrow> int32 option" where
  "LarsRetCode_Parse ParseNamedEnum es name = ParseNamedEnum (LarsRetCode_descriptor es) name"

subsection \<open>The documented form of a descriptor\<close>

text \<open>
  \<open>FileDescriptorProto\<close> and the messages in it, as \<open>descriptor.proto\<close> of protobuf documents them: field
  numbers, the codes of types and labels.
\<close>

definition text_field :: "nat \<Rightarrow> byte list \<Rightarrow> byte list" where
  "text_field n bs = varint (8 * n + 2) @ varint (length bs) @ bs"

definition number_field :: "nat \<Rightarrow> nat \<Rightarrow> byte list" where
  "number_field n v = varint (8 * n) @ varint v"

fun type_code :: "proto_type \<Rightarrow> nat" where
  "type_code Int32 = 5"
| "type_code UInt32 = 13"
| "type_code Bool = 8"
| "type_code Text = 9"
| "type_code (Embedded _) = 11"

definition field_descriptor :: "string \<Rightarrow> proto_field \<Rightarrow> byte list" where
  "field_descriptor package f =
     text_field 1 (ascii (f_name f)) @ number_field 3 (f_number f) @ number_field 4 (if f_repeated f then 3 else 1) @
     number_field 5 (type_code (f_type f)) @
     (case f_type f of Embedded name \<Rightarrow> text_field 6 (ascii (''.'' @ package @ ''.'' @ name)) | _ \<Rightarrow> [])"

definition message_descriptor :: "string \<Rightarrow> proto_message \<Rightarrow> byte list" where
  "message_descriptor package m =
     text_field 1 (ascii (p_name m)) @ concat (map (\<lambda>f. text_field 2 (field_descriptor package f)) (p_fields m))"

definition enum_descriptor :: "proto_enum \<Rightarrow> byte list" where
  "enum_descriptor e =
     text_field 1 (ascii (e_name e)) @
     concat (map (\<lambda>(name, n). text_field 2 (text_field 1 (ascii name) @ number_field 2 (int32_bits n))) (e_values e))"

definition file_descriptor :: "string \<Rightarrow> string \<Rightarrow> proto_message list \<Rightarrow> proto_enum list \<Rightarrow> byte list" where
  "file_descriptor name package ms es =
     text_field 1 (ascii name) @ text_field 2 (ascii package) @
     concat (map (\<lambda>m. text_field 4 (message_descriptor package m)) ms) @
     concat (map (\<lambda>e. text_field 5 (enum_descriptor e)) es) @ text_field 12 (ascii ''proto3'')"

subsection \<open>The descriptor is that of the protocol file\<close>

text \<open>What the runtime reads from the tables: the class a schema entry starts at, and the fields after the six entries of its head.\<close>

definition layout :: "offset list \<Rightarrow> nat \<times> string \<Rightarrow> string \<times> string \<times> string list" where
  "layout ts s =
     (case s of (start, size_of) \<Rightarrow>
        (size_of, case ts ! (start + 1) of Metadata_Of c \<Rightarrow> c | _ \<Rightarrow> [],
         concat (map (\<lambda>e. case e of Offset_Of c f \<Rightarrow> if c = size_of then [f] else [] | _ \<Rightarrow> [])
           (takeWhile (\<lambda>e. e \<noteq> No_Offset) (drop (start + 6) ts)))))"

lemma length_ascii [simp]: "length (ascii s) = length s"
  by (simp add: ascii_def)

lemma varint_150: "varint 150 = [150, 1]"
  by (subst varint.simps) (simp add: one_byte_varint)

lemma protodef_encodes:
  "descriptor_table_protodef = file_descriptor ''lars.proto'' ''lars'' generated_messages generated_enums"
  by (simp add: descriptor_table_protodef_def file_descriptor_def generated_messages_def generated_enums_def lars_messages_def
      lars_enums_def message_descriptor_def field_descriptor_def enum_descriptor_def text_field_def number_field_def optional_def
      repeated_def one_byte_varint varint_150 int32_bits_def One_nat_def [symmetric] del: One_nat_def)

lemma protodef_length: "length descriptor_table_protodef = 811"
  by (simp add: descriptor_table_protodef_def)

lemma tables_layout:
  "map (layout table_struct) schemas = map (\<lambda>m. (p_name m, p_name m, map f_name (p_fields m))) generated_messages"
  by (simp add: table_struct_def schemas_def layout_def generated_messages_def lars_messages_def optional_def repeated_def)

definition class_constants :: "(nat \<times> (string \<times> nat) list) list" where
  "class_constants =
     [(HostInfo_kIndexInFileMessages, HostInfo_field_numbers), (GetRouteRequest_kIndexInFileMessages, GetRouteRequest_field_numbers),
      (GetRouteResponse_kIndexInFileMessages, GetRouteResponse_field_numbers),
      (HostCallResult_kIndexInFileMessages, HostCallResult_field_numbers),
      (ReportStatusRequest_kIndexInFileMessages, ReportStatusRequest_field_numbers),
      (GetHostRequest_kIndexInFileMessages, GetHostRequest_field_numbers),
      (GetHostResponse_kIndexInFileMessages, GetHostResponse_field_numbers)]"

lemmas kIndex_defs = HostInfo_kIndexInFileMessages_def GetRouteRequest_kIndexInFileMessages_def GetRouteResponse_kIndexInFileMessages_def
  HostCallResult_kIndexInFileMessages_def ReportStatusRequest_kIndexInFileMessages_def GetHostRequest_kIndexInFileMessages_def
  GetHostResponse_kIndexInFileMessages_def

lemmas field_numbers_defs = HostInfo_field_numbers_def GetRouteRequest_field_numbers_def GetRouteResponse_field_numbers_def
  HostCallResult_field_numbers_def ReportStatusRequest_field_numbers_def GetHostRequest_field_numbers_def GetHostResponse_field_numbers_def

lemmas GetMetadata_defs = HostInfo_GetMetadata_def GetRouteRequest_GetMetadata_def GetRouteResponse_GetMetadata_def
  HostCallResult_GetMetadata_def ReportStatusRequest_GetMetadata_def GetHostRequest_GetMetadata_def GetHostResponse_GetMetadata_def

text \<open>
  The transcriptions agree with each other: what the generated code registers for reflection is the protocol file, less the message and the
  identifier that the checked-in files do not have: the descriptor bytes are the documented encoding of
  \<open>lars.proto\<close>, of the size the table states; the offset tables give each class its fields, in order; the
  classes' indices, field numbers and metadata are those of their place in the file.
\<close>

lemma descriptor_matches_proto:
  "descriptor_table = (length descriptor_table_protodef,
     file_descriptor ''lars.proto'' ''lars'' generated_messages generated_enums, ''lars.proto'', 0, length file_default_instances) \<and>
   file_default_instances = map p_name generated_messages \<and>
   map (layout table_struct) schemas = map (\<lambda>m. (p_name m, p_name m, map f_name (p_fields m))) generated_messages \<and>
   map (apsnd set) class_constants = map (\<lambda>(i, m). (i, set (map (\<lambda>f. (f_name f, f_number f)) (p_fields m)))) (List.enumerate 0 generated_messages) \<and>
   [HostInfo_GetMetadata ds, GetRouteRequest_GetMetadata ds, GetRouteResponse_GetMetadata ds, HostCallResult_GetMetadata ds,
    ReportStatusRequest_GetMetadata ds, GetHostRequest_GetMetadata ds, GetHostResponse_GetMetadata ds] =
     map (\<lambda>c. ds ! fst c) class_constants"
proof (intro conjI)
  show "descriptor_table = (length descriptor_table_protodef,
      file_descriptor ''lars.proto'' ''lars'' generated_messages generated_enums, ''lars.proto'', 0, length file_default_instances)"
    unfolding descriptor_table_def protodef_length protodef_encodes [symmetric] by (simp add: file_default_instances_def)
  show "file_default_instances = map p_name generated_messages"
    by (simp add: file_default_instances_def generated_messages_def lars_messages_def)
  show "map (apsnd set) class_constants = map (\<lambda>(i, m). (i, set (map (\<lambda>f. (f_name f, f_number f)) (p_fields m)))) (List.enumerate 0 generated_messages)"
    by (simp add: class_constants_def kIndex_defs field_numbers_defs generated_messages_def lars_messages_def optional_def repeated_def insert_commute)
qed (simp_all add: tables_layout class_constants_def GetMetadata_defs kIndex_defs)

text \<open>
  The names of the enumerators: every valid identifier and return code has a name that reads back as it,
  and a number that is not valid has the empty name, which no enumerator has.
\<close>

lemma enumerator_names:
  assumes "enum_names NameOfEnum ParseNamedEnum" and "es = map e_values generated_enums"
  shows "MessageId_Parse ParseNamedEnum es (MessageId_Name NameOfEnum es v) = (if MessageId_IsValid v then Some v else None)"
    and "LarsRetCode_Parse ParseNamedEnum es (LarsRetCode_Name NameOfEnum es v) = (if LarsRetCode_IsValid v then Some v else None)"
proof -
  have ok: "enum_ok (MessageId_descriptor es)" "enum_ok (LarsRetCode_descriptor es)"
    by (simp_all add: assms(2) generated_enums_def lars_enums_def enum_ok_def MessageId_descriptor_def LarsRetCode_descriptor_def)
  have "snd ` set (MessageId_descriptor es) = {v. MessageId_IsValid v}" "snd ` set (LarsRetCode_descriptor es) = {v. LarsRetCode_IsValid v}"
    by (auto simp: assms(2) generated_enums_def lars_enums_def MessageId_descriptor_def LarsRetCode_descriptor_def
        MessageId_IsValid_def LarsRetCode_IsValid_def)
  then show "MessageId_Parse ParseNamedEnum es (MessageId_Name NameOfEnum es v) = (if MessageId_IsValid v then Some v else None)"
    "LarsRetCode_Parse ParseNamedEnum es (LarsRetCode_Name NameOfEnum es v) = (if LarsRetCode_IsValid v then Some v else None)"
    using enum_names.name_parses [OF assms(1) ok(1)] enum_names.name_parses [OF assms(1) ok(2)]
    by (simp_all add: MessageId_Parse_def MessageId_Name_def LarsRetCode_Parse_def LarsRetCode_Name_def)
qed

subsection \<open>One serializer for all messages\<close>

text \<open>A message as its values in the order of the file, with the bytes of unknown fields.\<close>

datatype pb_value = Int32_Value int32 | UInt32_Value uint32 | Bool_Value bool | One "pb_object option" | Many "pb_object list"
  and pb_object = Object "pb_value list" "byte list"

definition fields_of :: "proto_message list \<Rightarrow> string \<Rightarrow> proto_field list" where
  "fields_of ms name = (case find (\<lambda>m. p_name m = name) ms of None \<Rightarrow> [] | Some m \<Rightarrow> p_fields m)"

text \<open>
  The documented rule of proto3: in the order of the file, a number that is not 0 and a flag that is set
  with their tags, an embedded message, if there is one, with tag and length, a repeated one for each
  element; then the unknown fields.
\<close>

function (sequential) write_object :: "pb_runtime \<Rightarrow> proto_message list \<Rightarrow> string \<Rightarrow> pb_object \<Rightarrow> byte list" where
  "write_object rt ms name (Object vs unknown) =
     concat (map (\<lambda>(f, v).
       (case (v, f_type f) of
          (Int32_Value x, Int32) \<Rightarrow> if x \<noteq> 0 then WriteInt32ToArray rt (f_number f) x else []
        | (UInt32_Value x, UInt32) \<Rightarrow> if x \<noteq> 0 then WriteUInt32ToArray rt (f_number f) x else []
        | (Bool_Value b, Bool) \<Rightarrow> if b then WriteBoolToArray rt (f_number f) b else []
        | (One h, Embedded t) \<Rightarrow>
            concat (map (\<lambda>m. let body = write_object rt ms t m in WriteMessageHead rt (f_number f) (length body) @ body)
              (case h of None \<Rightarrow> [] | Some m \<Rightarrow> [m]))
        | (Many hs, Embedded t) \<Rightarrow>
            concat (map (\<lambda>m. let body = write_object rt ms t m in WriteMessageHead rt (f_number f) (length body) @ body) hs)
        | _ \<Rightarrow> [])) (zip (fields_of ms name) vs)) @ unknown"
  by pat_completeness auto

lemma size_value: "v \<in> set vs \<Longrightarrow> size v < size (Object vs u)"
  by (induction vs) auto

lemma size_one: "(f, One (Some m)) \<in> set (zip fs vs) \<Longrightarrow> size m < size (Object vs u)"
  using size_value [of "One (Some m)" vs u] by (auto dest: set_zip_rightD)

lemma size_many: "m \<in> set hs \<Longrightarrow> (f, Many hs) \<in> set (zip fs vs) \<Longrightarrow> size m < size (Object vs u)"
proof -
  assume m: "m \<in> set hs" and "(f, Many hs) \<in> set (zip fs vs)"
  then have "size (Many hs) < size (Object vs u)" by (intro size_value) (rule set_zip_rightD)
  moreover have "size m \<le> size (Many hs)" using size_list_estimation' [of m hs "size m" size] m by simp
  ultimately show ?thesis by simp
qed

termination write_object
proof (relation "measure (\<lambda>(rt, ms, name, m). size m)")
qed (auto simp del: pb_object.size pb_value.size intro: size_one size_many split: option.splits)

text \<open>The values of each class, in the order of the protocol file.\<close>

definition HostInfo_object :: "HostInfo_pb \<Rightarrow> pb_object" where
  "HostInfo_object m = Object [Int32_Value (hinfo_ip m), Int32_Value (hinfo_port m)] (hinfo_unknown m)"

definition GetRouteRequest_object :: "GetRouteRequest_pb \<Rightarrow> pb_object" where
  "GetRouteRequest_object m = Object [Int32_Value (grq_modid m), Int32_Value (grq_cmdid m)] (grq_unknown m)"

definition GetRouteResponse_object :: "GetRouteResponse_pb \<Rightarrow> pb_object" where
  "GetRouteResponse_object m =
     Object [Int32_Value (gr_modid m), Int32_Value (gr_cmdid m), Many (map HostInfo_object (gr_host m))] (gr_unknown m)"

definition HostCallResult_object :: "HostCallResult_pb \<Rightarrow> pb_object" where
  "HostCallResult_object m =
     Object [Int32_Value (hcr_ip m), Int32_Value (hcr_port m), UInt32_Value (hcr_succ m), UInt32_Value (hcr_err m),
       Bool_Value (hcr_overload m)] (hcr_unknown m)"

definition ReportStatusRequest_object :: "ReportStatusRequest_pb \<Rightarrow> pb_object" where
  "ReportStatusRequest_object m =
     Object [Int32_Value (rs_modid m), Int32_Value (rs_cmdid m), Int32_Value (rs_caller m),
       Many (map HostCallResult_object (rs_results m)), UInt32_Value (rs_ts m)] (rs_unknown m)"

definition GetHostRequest_object :: "GetHostRequest_pb \<Rightarrow> pb_object" where
  "GetHostRequest_object m = Object [UInt32_Value (ghq_seq m), Int32_Value (ghq_modid m), Int32_Value (ghq_cmdid m)] (ghq_unknown m)"

definition GetHostResponse_object :: "GetHostResponse_pb \<Rightarrow> pb_object" where
  "GetHostResponse_object m =
     Object [UInt32_Value (gh_seq m), Int32_Value (gh_modid m), Int32_Value (gh_cmdid m), Int32_Value (gh_retcode m),
       One (map_option HostInfo_object (gh_host m))] (gh_unknown m)"

lemma fields_of_generated:
  "fields_of generated_messages ''HostInfo'' = [optional Int32 ''ip'' 1, optional Int32 ''port'' 2]"
  "fields_of generated_messages ''GetRouteRequest'' = [optional Int32 ''modid'' 1, optional Int32 ''cmdid'' 2]"
  "fields_of generated_messages ''GetRouteResponse'' = [optional Int32 ''modid'' 1, optional Int32 ''cmdid'' 2, repeated (Embedded ''HostInfo'') ''host'' 3]"
  "fields_of generated_messages ''HostCallResult'' = [optional Int32 ''ip'' 1, optional Int32 ''port'' 2, optional UInt32 ''succ'' 3,
     optional UInt32 ''err'' 4, optional Bool ''overload'' 5]"
  "fields_of generated_messages ''ReportStatusRequest'' = [optional Int32 ''modid'' 1, optional Int32 ''cmdid'' 2, optional Int32 ''caller'' 3,
     repeated (Embedded ''HostCallResult'') ''results'' 4, optional UInt32 ''ts'' 5]"
  "fields_of generated_messages ''GetHostRequest'' = [optional UInt32 ''seq'' 1, optional Int32 ''modid'' 2, optional Int32 ''cmdid'' 3]"
  "fields_of generated_messages ''GetHostResponse'' = [optional UInt32 ''seq'' 1, optional Int32 ''modid'' 2, optional Int32 ''cmdid'' 3,
     optional Int32 ''retcode'' 4, optional (Embedded ''HostInfo'') ''host'' 5]"
  by (simp_all add: fields_of_def generated_messages_def lars_messages_def)

lemma field_sel [simp]:
  "f_type (optional t name n) = t" "f_number (optional t name n) = n" "f_type (repeated t name n) = t" "f_number (repeated t name n) = n"
  by (simp_all add: optional_def repeated_def)

lemma HostInfo_written: "write_object rt generated_messages ''HostInfo'' (HostInfo_object m) = HostInfo_InternalSerialize rt m"
  by (simp add: HostInfo_object_def fields_of_generated HostInfo_InternalSerialize_def)

lemma HostCallResult_written:
  "write_object rt generated_messages ''HostCallResult'' (HostCallResult_object m) = HostCallResult_InternalSerialize rt m"
  by (simp add: HostCallResult_object_def fields_of_generated HostCallResult_InternalSerialize_def)

text \<open>
  C28: The generated serializers write what the protocol file says: each of the seven produces the bytes
  that one serializer, which is given nothing but the schema the descriptor encodes, produces for the
  same values.
\<close>

theorem serializers_follow_schema:
  assumes "wire_format rt"
  shows "HostInfo_InternalSerialize rt m1 = write_object rt generated_messages ''HostInfo'' (HostInfo_object m1) \<and>
    GetRouteRequest_InternalSerialize rt m2 = write_object rt generated_messages ''GetRouteRequest'' (GetRouteRequest_object m2) \<and>
    GetRouteResponse_InternalSerialize rt m3 = write_object rt generated_messages ''GetRouteResponse'' (GetRouteResponse_object m3) \<and>
    HostCallResult_InternalSerialize rt m4 = write_object rt generated_messages ''HostCallResult'' (HostCallResult_object m4) \<and>
    ReportStatusRequest_InternalSerialize rt m5 = write_object rt generated_messages ''ReportStatusRequest'' (ReportStatusRequest_object m5) \<and>
    GetHostRequest_InternalSerialize rt m6 = write_object rt generated_messages ''GetHostRequest'' (GetHostRequest_object m6) \<and>
    GetHostResponse_InternalSerialize rt m7 = write_object rt generated_messages ''GetHostResponse'' (GetHostResponse_object m7)"
proof (intro conjI)
  show "GetRouteRequest_InternalSerialize rt m2 = write_object rt generated_messages ''GetRouteRequest'' (GetRouteRequest_object m2)"
    by (simp add: GetRouteRequest_object_def fields_of_generated GetRouteRequest_InternalSerialize_def)
  show "GetRouteResponse_InternalSerialize rt m3 = write_object rt generated_messages ''GetRouteResponse'' (GetRouteResponse_object m3)"
    by (simp add: GetRouteResponse_object_def fields_of_generated GetRouteResponse_InternalSerialize_def HostInfo_written comp_def Let_def
        wire_format.HostInfo_size [OF assms])
  show "ReportStatusRequest_InternalSerialize rt m5 = write_object rt generated_messages ''ReportStatusRequest'' (ReportStatusRequest_object m5)"
    by (simp add: ReportStatusRequest_object_def fields_of_generated ReportStatusRequest_InternalSerialize_def HostCallResult_written comp_def Let_def
        wire_format.HostCallResult_size [OF assms])
  show "GetHostRequest_InternalSerialize rt m6 = write_object rt generated_messages ''GetHostRequest'' (GetHostRequest_object m6)"
    by (simp add: GetHostRequest_object_def fields_of_generated GetHostRequest_InternalSerialize_def)
  show "GetHostResponse_InternalSerialize rt m7 = write_object rt generated_messages ''GetHostResponse'' (GetHostResponse_object m7)"
    by (simp add: GetHostResponse_object_def fields_of_generated GetHostResponse_InternalSerialize_def HostInfo_written Let_def
        wire_format.HostInfo_size [OF assms] split: option.split)
qed (simp_all add: HostInfo_written HostCallResult_written)

theorem serializers_follow_schema_witness:
  "GetRouteResponse_InternalSerialize pb_wire (GetRouteResponse_wire \<lparr>grs_modid = 1, grs_cmdid = - 2, grs_host = [\<lparr>hinfo_ip = 9, hinfo_port = 80\<rparr>]\<rparr>) =
   write_object pb_wire generated_messages ''GetRouteResponse''
     (Object [Int32_Value 1, Int32_Value (- 2), Many [Object [Int32_Value 9, Int32_Value 80] []]] [])"
  using conjunct1 [OF conjunct2 [OF conjunct2 [OF serializers_follow_schema [OF pw.wire_format_axioms]]]]
  by (simp add: GetRouteResponse_wire_def GetRouteResponse_object_def HostInfo_wire_def HostInfo_object_def)

end
