(* ===== verification/Pb_Object.thy ===== *)
theory Pb_Object
  imports Lars_Pb_Access
begin

text \<open>
  The message classes as objects (\<open>base/proto/lars.pb.h\<close>, \<open>lars.pb.cpp\<close>): construction, destruction,
  assignment, moves and swaps on a store of objects, each with its contents and the arena that owns it,
  if one does. The classes share the code, with their own \<open>CopyFrom\<close>, \<open>MergeFrom\<close> and \<open>InternalSwap\<close> in it. An
  embedded host is part of its message's contents.
\<close>

subsection \<open>Objects\<close>

record 'm object =
  contents :: 'm
  arena :: "addr option"

type_synonym 'm objects = "addr \<rightharpoonup> 'm object"

text \<open>An address without an object is a dangling pointer.\<close>

definition at_object :: "addr \<Rightarrow> 'm objects \<Rightarrow> ('m object \<Rightarrow> 'r res) \<Rightarrow> 'r res" where
  "at_object a h f = (case h a of None \<Rightarrow> Inl Null_Deref | Some ob \<Rightarrow> f ob)"

definition exchange :: "('m \<times> 'm \<Rightarrow> 'm \<times> 'm) \<Rightarrow> addr \<Rightarrow> addr \<Rightarrow> 'm objects \<Rightarrow> 'm objects res" where
  "exchange swap this other h =
     at_object this h (\<lambda>a. at_object other h (\<lambda>b.
       case swap (contents a, contents b) of (m, n) \<Rightarrow> Inr (h(this \<mapsto> a\<lparr>contents := m\<rparr>, other \<mapsto> b\<lparr>contents := n\<rparr>))))"

definition object_new :: "'m \<Rightarrow> addr option \<Rightarrow> 'm object" where
  "object_new initial owner = \<lparr>contents = initial, arena = owner\<rparr>"

text \<open>An object of an arena goes with the arena.\<close>

definition object_destroy :: "addr \<Rightarrow> 'm objects \<Rightarrow> 'm objects res" where
  "object_destroy this h = at_object this h (\<lambda>a. if arena a \<noteq> None then Inr h else Inr (h(this := None)))"

definition object_assign :: "('m \<Rightarrow> 'm \<Rightarrow> 'm) \<Rightarrow> addr \<Rightarrow> addr \<Rightarrow> 'm objects \<Rightarrow> 'm objects res" where
  "object_assign copy this src h =
     (if src = this then Inr h
      else at_object src h (\<lambda>b. at_object this h (\<lambda>a. Inr (h(this \<mapsto> a\<lparr>contents := copy (contents b) (contents a)\<rparr>)))))"

text \<open>\<open>MergeImpl\<close> is given two messages of the class by the runtime.\<close>

definition object_merge :: "('m \<Rightarrow> 'm \<Rightarrow> 'm) \<Rightarrow> addr \<Rightarrow> addr \<Rightarrow> 'm objects \<Rightarrow> 'm objects res" where
  "object_merge merge this src h =
     at_object src h (\<lambda>b. at_object this h (\<lambda>a. Inr (h(this \<mapsto> a\<lparr>contents := merge (contents b) (contents a)\<rparr>))))"

text \<open>\<open>force\<close> says whether the library is built with \<open>PROTOBUF_FORCE_COPY_IN_MOVE\<close> or \<open>PROTOBUF_FORCE_COPY_IN_SWAP\<close>.\<close>

definition object_move :: "('m \<Rightarrow> 'm \<Rightarrow> 'm) \<Rightarrow> ('m \<times> 'm \<Rightarrow> 'm \<times> 'm) \<Rightarrow> bool \<Rightarrow> addr \<Rightarrow> addr \<Rightarrow> 'm objects \<Rightarrow> 'm objects res" where
  "object_move copy swap force this src h =
     (if this = src then Inr h
      else at_object this h (\<lambda>a. at_object src h (\<lambda>b.
        if arena a = arena b \<and> (force \<longrightarrow> arena a \<noteq> None) then exchange swap this src h
        else object_assign copy this src h)))"

text \<open>\<open>generic\<close> is \<open>GenericSwap\<close> of the runtime.\<close>

definition object_Swap :: "('m \<times> 'm \<Rightarrow> 'm \<times> 'm) \<Rightarrow> (addr \<Rightarrow> addr \<Rightarrow> 'm objects \<Rightarrow> 'm objects res) \<Rightarrow> bool \<Rightarrow>
    addr \<Rightarrow> addr \<Rightarrow> 'm objects \<Rightarrow> 'm objects res" where
  "object_Swap swap generic force this other h =
     (if other = this then Inr h
      else at_object this h (\<lambda>a. at_object other h (\<lambda>b.
        if (force \<longrightarrow> arena a \<noteq> None) \<and> arena a = arena b then exchange swap this other h
        else generic this other h)))"

text \<open>\<open>dchecks\<close> says whether the checks of a debug build are compiled in.\<close>

definition object_UnsafeArenaSwap :: "('m \<times> 'm \<Rightarrow> 'm \<times> 'm) \<Rightarrow> bool \<Rightarrow> addr \<Rightarrow> addr \<Rightarrow> 'm objects \<Rightarrow> 'm objects res" where
  "object_UnsafeArenaSwap swap dchecks this other h =
     (if other = this then Inr h
      else at_object this h (\<lambda>a. at_object other h (\<lambda>b.
        if dchecks \<and> arena a \<noteq> arena b then Inl Exited else exchange swap this other h)))"

subsection \<open>The classes\<close>

text \<open>\<open>HostInfo\<close>\<close>

definition HostInfo_new :: "addr option \<Rightarrow> HostInfo_pb object" where
  "HostInfo_new = object_new HostInfo_default"

definition HostInfo_destroy :: "addr \<Rightarrow> HostInfo_pb objects \<Rightarrow> HostInfo_pb objects res" where
  "HostInfo_destroy = object_destroy"

definition HostInfo_assign :: "addr \<Rightarrow> addr \<Rightarrow> HostInfo_pb objects \<Rightarrow> HostInfo_pb objects res" where
  "HostInfo_assign = object_assign HostInfo_CopyFrom"

definition HostInfo_move :: "bool \<Rightarrow> addr \<Rightarrow> addr \<Rightarrow> HostInfo_pb objects \<Rightarrow> HostInfo_pb objects res" where
  "HostInfo_move = object_move HostInfo_CopyFrom HostInfo_InternalSwap"

definition HostInfo_move_new :: "bool \<Rightarrow> addr \<Rightarrow> addr \<Rightarrow> HostInfo_pb objects \<Rightarrow> HostInfo_pb objects res" where
  "HostInfo_move_new force this src h = HostInfo_move force this src (h(this \<mapsto> HostInfo_new None))"

definition HostInfo_Swap :: "(addr \<Rightarrow> addr \<Rightarrow> HostInfo_pb objects \<Rightarrow> HostInfo_pb objects res) \<Rightarrow> bool \<Rightarrow> addr \<Rightarrow> addr \<Rightarrow> HostInfo_pb objects \<Rightarrow> HostInfo_pb objects res" where
  "HostInfo_Swap = object_Swap HostInfo_InternalSwap"

definition HostInfo_UnsafeArenaSwap :: "bool \<Rightarrow> addr \<Rightarrow> addr \<Rightarrow> HostInfo_pb objects \<Rightarrow> HostInfo_pb objects res" where
  "HostInfo_UnsafeArenaSwap = object_UnsafeArenaSwap HostInfo_InternalSwap"

definition HostInfo_MergeImpl :: "addr \<Rightarrow> addr \<Rightarrow> HostInfo_pb objects \<Rightarrow> HostInfo_pb objects res" where
  "HostInfo_MergeImpl = object_merge HostInfo_MergeFrom"

text \<open>\<open>GetRouteRequest\<close>\<close>

definition GetRouteRequest_new :: "addr option \<Rightarrow> GetRouteRequest_pb object" where
  "GetRouteRequest_new = object_new GetRouteRequest_default"

definition GetRouteRequest_destroy :: "addr \<Rightarrow> GetRouteRequest_pb objects \<Rightarrow> GetRouteRequest_pb objects res" where
  "GetRouteRequest_destroy = object_destroy"

definition GetRouteRequest_assign :: "addr \<Rightarrow> addr \<Rightarrow> GetRouteRequest_pb objects \<Rightarrow> GetRouteRequest_pb objects res" where
  "GetRouteRequest_assign = object_assign GetRouteRequest_CopyFrom"

definition GetRouteRequest_move :: "bool \<Rightarrow> addr \<Rightarrow> addr \<Rightarrow> GetRouteRequest_pb objects \<Rightarrow> GetRouteRequest_pb objects res" where
  "GetRouteRequest_move = object_move GetRouteRequest_CopyFrom GetRouteRequest_InternalSwap"

definition GetRouteRequest_move_new :: "bool \<Rightarrow> addr \<Rightarrow> addr \<Rightarrow> GetRouteRequest_pb objects \<Rightarrow> GetRouteRequest_pb objects res" where
  "GetRouteRequest_move_new force this src h = GetRouteRequest_move force this src (h(this \<mapsto> GetRouteRequest_new None))"

definition GetRouteRequest_Swap :: "(addr \<Rightarrow> addr \<Rightarrow> GetRouteRequest_pb objects \<Rightarrow> GetRouteRequest_pb objects res) \<Rightarrow> bool \<Rightarrow> addr \<Rightarrow> addr \<Rightarrow> GetRouteRequest_pb objects \<Rightarrow> GetRouteRequest_pb objects res" where
  "GetRouteRequest_Swap = object_Swap GetRouteRequest_InternalSwap"

definition GetRouteRequest_UnsafeArenaSwap :: "bool \<Rightarrow> addr \<Rightarrow> addr \<Rightarrow> GetRouteRequest_pb objects \<Rightarrow> GetRouteRequest_pb objects res" where
  "GetRouteRequest_UnsafeArenaSwap = object_UnsafeArenaSwap GetRouteRequest_InternalSwap"

definition GetRouteRequest_MergeImpl :: "addr \<Rightarrow> addr \<Rightarrow> GetRouteRequest_pb objects \<Rightarrow> GetRouteRequest_pb objects res" where
  "GetRouteRequest_MergeImpl = object_merge GetRouteRequest_MergeFrom"

text \<open>\<open>GetRouteResponse\<close>\<close>

definition GetRouteResponse_new :: "addr option \<Rightarrow> GetRouteResponse_pb object" where
  "GetRouteResponse_new = object_new GetRouteResponse_default"

definition GetRouteResponse_destroy :: "addr \<Rightarrow> GetRouteResponse_pb objects \<Rightarrow> GetRouteResponse_pb objects res" where
  "GetRouteResponse_destroy = object_destroy"

definition GetRouteResponse_assign :: "addr \<Rightarrow> addr \<Rightarrow> GetRouteResponse_pb objects \<Rightarrow> GetRouteResponse_pb objects res" where
  "GetRouteResponse_assign = object_assign GetRouteResponse_CopyFrom"

definition GetRouteResponse_move :: "bool \<Rightarrow> addr \<Rightarrow> addr \<Rightarrow> GetRouteResponse_pb objects \<Rightarrow> GetRouteResponse_pb objects res" where
  "GetRouteResponse_move = object_move GetRouteResponse_CopyFrom GetRouteResponse_InternalSwap"

definition GetRouteResponse_move_new :: "bool \<Rightarrow> addr \<Rightarrow> addr \<Rightarrow> GetRouteResponse_pb objects \<Rightarrow> GetRouteResponse_pb objects res" where
  "GetRouteResponse_move_new force this src h = GetRouteResponse_move force this src (h(this \<mapsto> GetRouteResponse_new None))"

definition GetRouteResponse_Swap :: "(addr \<Rightarrow> addr \<Rightarrow> GetRouteResponse_pb objects \<Rightarrow> GetRouteResponse_pb objects res) \<Rightarrow> bool \<Rightarrow> addr \<Rightarrow> addr \<Rightarrow> GetRouteResponse_pb objects \<Rightarrow> GetRouteResponse_pb objects res" where
  "GetRouteResponse_Swap = object_Swap GetRouteResponse_InternalSwap"

definition GetRouteResponse_UnsafeArenaSwap :: "bool \<Rightarrow> addr \<Rightarrow> addr \<Rightarrow> GetRouteResponse_pb objects \<Rightarrow> GetRouteResponse_pb objects res" where
  "GetRouteResponse_UnsafeArenaSwap = object_UnsafeArenaSwap GetRouteResponse_InternalSwap"

definition GetRouteResponse_MergeImpl :: "addr \<Rightarrow> addr \<Rightarrow> GetRouteResponse_pb objects \<Rightarrow> GetRouteResponse_pb objects res" where
  "GetRouteResponse_MergeImpl = object_merge GetRouteResponse_MergeFrom"

text \<open>\<open>HostCallResult\<close>\<close>

definition HostCallResult_new :: "addr option \<Rightarrow> HostCallResult_pb object" where
  "HostCallResult_new = object_new HostCallResult_default"

definition HostCallResult_destroy :: "addr \<Rightarrow> HostCallResult_pb objects \<Rightarrow> HostCallResult_pb objects res" where
  "HostCallResult_destroy = object_destroy"

definition HostCallResult_assign :: "addr \<Rightarrow> addr \<Rightarrow> HostCallResult_pb objects \<Rightarrow> HostCallResult_pb objects res" where
  "HostCallResult_assign = object_assign HostCallResult_CopyFrom"

definition HostCallResult_move :: "bool \<Rightarrow> addr \<Rightarrow> addr \<Rightarrow> HostCallResult_pb objects \<Rightarrow> HostCallResult_pb objects res" where
  "HostCallResult_move = object_move HostCallResult_CopyFrom HostCallResult_InternalSwap"

definition HostCallResult_move_new :: "bool \<Rightarrow> addr \<Rightarrow> addr \<Rightarrow> HostCallResult_pb objects \<Rightarrow> HostCallResult_pb objects res" where
  "HostCallResult_move_new force this src h = HostCallResult_move force this src (h(this \<mapsto> HostCallResult_new None))"

definition HostCallResult_Swap :: "(addr \<Rightarrow> addr \<Rightarrow> HostCallResult_pb objects \<Rightarrow> HostCallResult_pb objects res) \<Rightarrow> bool \<Rightarrow> addr \<Rightarrow> addr \<Rightarrow> HostCallResult_pb objects \<Rightarrow> HostCallResult_pb objects res" where
  "HostCallResult_Swap = object_Swap HostCallResult_InternalSwap"

definition HostCallResult_UnsafeArenaSwap :: "bool \<Rightarrow> addr \<Rightarrow> addr \<Rightarrow> HostCallResult_pb objects \<Rightarrow> HostCallResult_pb objects res" where
  "HostCallResult_UnsafeArenaSwap = object_UnsafeArenaSwap HostCallResult_InternalSwap"

definition HostCallResult_MergeImpl :: "addr \<Rightarrow> addr \<Rightarrow> HostCallResult_pb objects \<Rightarrow> HostCallResult_pb objects res" where
  "HostCallResult_MergeImpl = object_merge HostCallResult_MergeFrom"

text \<open>\<open>ReportStatusRequest\<close>\<close>

definition ReportStatusRequest_new :: "addr option \<Rightarrow> ReportStatusRequest_pb object" where
  "ReportStatusRequest_new = object_new ReportStatusRequest_default"

definition ReportStatusRequest_destroy :: "addr \<Rightarrow> ReportStatusRequest_pb objects \<Rightarrow> ReportStatusRequest_pb objects res" where
  "ReportStatusRequest_destroy = object_destroy"

definition ReportStatusRequest_assign :: "addr \<Rightarrow> addr \<Rightarrow> ReportStatusRequest_pb objects \<Rightarrow> ReportStatusRequest_pb objects res" where
  "ReportStatusRequest_assign = object_assign ReportStatusRequest_CopyFrom"

definition ReportStatusRequest_move :: "bool \<Rightarrow> addr \<Rightarrow> addr \<Rightarrow> ReportStatusRequest_pb objects \<Rightarrow> ReportStatusRequest_pb objects res" where
  "ReportStatusRequest_move = object_move ReportStatusRequest_CopyFrom ReportStatusRequest_InternalSwap"

definition ReportStatusRequest_move_new :: "bool \<Rightarrow> addr \<Rightarrow> addr \<Rightarrow> ReportStatusRequest_pb objects \<Rightarrow> ReportStatusRequest_pb objects res" where
  "ReportStatusRequest_move_new force this src h = ReportStatusRequest_move force this src (h(this \<mapsto> ReportStatusRequest_new None))"

definition ReportStatusRequest_Swap :: "(addr \<Rightarrow> addr \<Rightarrow> ReportStatusRequest_pb objects \<Rightarrow> ReportStatusRequest_pb objects res) \<Rightarrow> bool \<Rightarrow> addr \<Rightarrow> addr \<Rightarrow> ReportStatusRequest_pb objects \<Rightarrow> ReportStatusRequest_pb objects res" where
  "ReportStatusRequest_Swap = object_Swap ReportStatusRequest_InternalSwap"

definition ReportStatusRequest_UnsafeArenaSwap :: "bool \<Rightarrow> addr \<Rightarrow> addr \<Rightarrow> ReportStatusRequest_pb objects \<Rightarrow> ReportStatusRequest_pb objects res" where
  "ReportStatusRequest_UnsafeArenaSwap = object_UnsafeArenaSwap ReportStatusRequest_InternalSwap"

definition ReportStatusRequest_MergeImpl :: "addr \<Rightarrow> addr \<Rightarrow> ReportStatusRequest_pb objects \<Rightarrow> ReportStatusRequest_pb objects res" where
  "ReportStatusRequest_MergeImpl = object_merge ReportStatusRequest_MergeFrom"

text \<open>\<open>GetHostRequest\<close>\<close>

definition GetHostRequest_new :: "addr option \<Rightarrow> GetHostRequest_pb object" where
  "GetHostRequest_new = object_new GetHostRequest_default"

definition GetHostRequest_destroy :: "addr \<Rightarrow> GetHostRequest_pb objects \<Rightarrow> GetHostRequest_pb objects res" where
  "GetHostRequest_destroy = object_destroy"

definition GetHostRequest_assign :: "addr \<Rightarrow> addr \<Rightarrow> GetHostRequest_pb objects \<Rightarrow> GetHostRequest_pb objects res" where
  "GetHostRequest_assign = object_assign GetHostRequest_CopyFrom"

definition GetHostRequest_move :: "bool \<Rightarrow> addr \<Rightarrow> addr \<Rightarrow> GetHostRequest_pb objects \<Rightarrow> GetHostRequest_pb objects res" where
  "GetHostRequest_move = object_move GetHostRequest_CopyFrom GetHostRequest_InternalSwap"

definition GetHostRequest_move_new :: "bool \<Rightarrow> addr \<Rightarrow> addr \<Rightarrow> GetHostRequest_pb objects \<Rightarrow> GetHostRequest_pb objects res" where
  "GetHostRequest_move_new force this src h = GetHostRequest_move force this src (h(this \<mapsto> GetHostRequest_new None))"

definition GetHostRequest_Swap :: "(addr \<Rightarrow> addr \<Rightarrow> GetHostRequest_pb objects \<Rightarrow> GetHostRequest_pb objects res) \<Rightarrow> bool \<Rightarrow> addr \<Rightarrow> addr \<Rightarrow> GetHostRequest_pb objects \<Rightarrow> GetHostRequest_pb objects res" where
  "GetHostRequest_Swap = object_Swap GetHostRequest_InternalSwap"

definition GetHostRequest_UnsafeArenaSwap :: "bool \<Rightarrow> addr \<Rightarrow> addr \<Rightarrow> GetHostRequest_pb objects \<Rightarrow> GetHostRequest_pb objects res" where
  "GetHostRequest_UnsafeArenaSwap = object_UnsafeArenaSwap GetHostRequest_InternalSwap"

definition GetHostRequest_MergeImpl :: "addr \<Rightarrow> addr \<Rightarrow> GetHostRequest_pb objects \<Rightarrow> GetHostRequest_pb objects res" where
  "GetHostRequest_MergeImpl = object_merge GetHostRequest_MergeFrom"

text \<open>\<open>GetHostResponse\<close>\<close>

definition GetHostResponse_new :: "addr option \<Rightarrow> GetHostResponse_pb object" where
  "GetHostResponse_new = object_new GetHostResponse_default"

definition GetHostResponse_destroy :: "addr \<Rightarrow> GetHostResponse_pb objects \<Rightarrow> GetHostResponse_pb objects res" where
  "GetHostResponse_destroy = object_destroy"

definition GetHostResponse_assign :: "addr \<Rightarrow> addr \<Rightarrow> GetHostResponse_pb objects \<Rightarrow> GetHostResponse_pb objects res" where
  "GetHostResponse_assign = object_assign GetHostResponse_CopyFrom"

definition GetHostResponse_move :: "bool \<Rightarrow> addr \<Rightarrow> addr \<Rightarrow> GetHostResponse_pb objects \<Rightarrow> GetHostResponse_pb objects res" where
  "GetHostResponse_move = object_move GetHostResponse_CopyFrom GetHostResponse_InternalSwap"

definition GetHostResponse_move_new :: "bool \<Rightarrow> addr \<Rightarrow> addr \<Rightarrow> GetHostResponse_pb objects \<Rightarrow> GetHostResponse_pb objects res" where
  "GetHostResponse_move_new force this src h = GetHostResponse_move force this src (h(this \<mapsto> GetHostResponse_new None))"

definition GetHostResponse_Swap :: "(addr \<Rightarrow> addr \<Rightarrow> GetHostResponse_pb objects \<Rightarrow> GetHostResponse_pb objects res) \<Rightarrow> bool \<Rightarrow> addr \<Rightarrow> addr \<Rightarrow> GetHostResponse_pb objects \<Rightarrow> GetHostResponse_pb objects res" where
  "GetHostResponse_Swap = object_Swap GetHostResponse_InternalSwap"

definition GetHostResponse_UnsafeArenaSwap :: "bool \<Rightarrow> addr \<Rightarrow> addr \<Rightarrow> GetHostResponse_pb objects \<Rightarrow> GetHostResponse_pb objects res" where
  "GetHostResponse_UnsafeArenaSwap = object_UnsafeArenaSwap GetHostResponse_InternalSwap"

definition GetHostResponse_MergeImpl :: "addr \<Rightarrow> addr \<Rightarrow> GetHostResponse_pb objects \<Rightarrow> GetHostResponse_pb objects res" where
  "GetHostResponse_MergeImpl = object_merge GetHostResponse_MergeFrom"

subsection \<open>What the operations keep\<close>

definition exchanged :: "addr \<Rightarrow> addr \<Rightarrow> 'm objects \<Rightarrow> 'm objects" where
  "exchanged this other h =
     (case (h this, h other) of
        (Some a, Some b) \<Rightarrow> h(this \<mapsto> a\<lparr>contents := contents b\<rparr>, other \<mapsto> b\<lparr>contents := contents a\<rparr>)
      | _ \<Rightarrow> h)"

text \<open>The class's own functions copy and exchange whole contents; the runtime's \<open>GenericSwap\<close> exchanges them across arenas.\<close>

locale message_class =
  fixes copy :: "'m \<Rightarrow> 'm \<Rightarrow> 'm" and swap :: "'m \<times> 'm \<Rightarrow> 'm \<times> 'm"
  assumes copies: "copy src m = src"
    and swaps: "swap (m, other) = (other, m)"
begin

lemma exchange_eq: "this \<in> dom h \<Longrightarrow> other \<in> dom h \<Longrightarrow> exchange swap this other h = Inr (exchanged this other h)"
  by (auto simp: exchange_def at_object_def exchanged_def swaps)

lemma assigned:
  assumes "h this = Some a" and "h src = Some b"
  shows "object_assign copy this src h = Inr (h(this \<mapsto> a\<lparr>contents := contents b\<rparr>))"
  using assms by (auto simp: object_assign_def at_object_def copies)

lemma moved:
  assumes "h this = Some a" and "h src = Some b"
  shows "\<exists>h' b'. object_move copy swap force this src h = Inr h' \<and> h' this = Some (a\<lparr>contents := contents b\<rparr>) \<and>
    h' src = Some b' \<and> arena b' = arena b \<and> (\<forall>x. x \<noteq> this \<and> x \<noteq> src \<longrightarrow> h' x = h x)"
proof (cases "this = src")
  case True
  then show ?thesis using assms by (auto simp: object_move_def)
next
  case False
  then show ?thesis
    using assms assigned [OF assms] exchange_eq [of this h src]
    by (auto simp: object_move_def at_object_def exchanged_def domI)
qed

lemma swapped:
  assumes "this \<in> dom h" and "other \<in> dom h"
    and "generic this other h = Inr (exchanged this other h)"
  shows "object_Swap swap generic force this other h = Inr (if this = other then h else exchanged this other h)"
  using assms exchange_eq [OF assms(1,2)] by (auto simp: object_Swap_def at_object_def)

lemma swapped_twice:
  assumes "this \<in> dom h" and "other \<in> dom h" and "this \<noteq> other"
  shows "exchanged this other (exchanged this other h) = h"
  using assms by (auto simp: exchanged_def fun_eq_iff)

end

interpretation hinfo: message_class HostInfo_CopyFrom HostInfo_InternalSwap
  by unfold_locales (simp_all add: HostInfo_copy HostInfo_swap)

interpretation grq: message_class GetRouteRequest_CopyFrom GetRouteRequest_InternalSwap
  by unfold_locales (simp_all add: GetRouteRequest_copy GetRouteRequest_swap)

interpretation gr: message_class GetRouteResponse_CopyFrom GetRouteResponse_InternalSwap
  by unfold_locales (simp_all add: GetRouteResponse_copy GetRouteResponse_swap)

interpretation hcr: message_class HostCallResult_CopyFrom HostCallResult_InternalSwap
  by unfold_locales (simp_all add: HostCallResult_copy HostCallResult_swap)

interpretation rs: message_class ReportStatusRequest_CopyFrom ReportStatusRequest_InternalSwap
  by unfold_locales (simp_all add: ReportStatusRequest_copy ReportStatusRequest_swap)

interpretation ghq: message_class GetHostRequest_CopyFrom GetHostRequest_InternalSwap
  by unfold_locales (simp_all add: GetHostRequest_copy GetHostRequest_swap)

interpretation gh: message_class GetHostResponse_CopyFrom GetHostResponse_InternalSwap
  by unfold_locales (simp_all add: GetHostResponse_copy GetHostResponse_swap)

text \<open>
  A moved report arrives whole, also when the arenas differ, and whatever else lives in the store stays
  as it is; assigning an object to itself changes nothing.
\<close>

lemma report_moved:
  assumes "h this = Some a" and "h src = Some b"
  shows "\<exists>h' b'. ReportStatusRequest_move force this src h = Inr h' \<and> h' this = Some (a\<lparr>contents := contents b\<rparr>) \<and>
    h' src = Some b' \<and> arena b' = arena b \<and> (\<forall>x. x \<noteq> this \<and> x \<noteq> src \<longrightarrow> h' x = h x)"
  unfolding ReportStatusRequest_move_def by (rule rs.moved [OF assms])

lemma self_assignment:
  "HostInfo_assign a a h = Inr h" "HostInfo_move force a a h = Inr h" "HostInfo_Swap generic force a a h = Inr h"
  by (simp_all add: HostInfo_assign_def object_assign_def HostInfo_move_def object_move_def HostInfo_Swap_def object_Swap_def)

end
