(* ===== verification/Echo_Pb.thy ===== *)
theory Echo_Pb
  imports Pb_Schema Pb_Object
begin

text \<open>
  The message class of the throughput example (\<open>lars_reactor/example/qps_test/echoMessage.pb.h\<close>,
  \<open>echoMessage.pb.cc\<close>): a string and a number. Strings add to the runtime what reads, writes and checks
  them; a string that is not UTF-8 is written, with a warning, and refused by the reader.
\<close>

subsection \<open>Strings on the wire\<close>

record text_runtime =
  WriteString :: "nat \<Rightarrow> byte list \<Rightarrow> byte list"
  StringSize :: "byte list \<Rightarrow> nat"
  ReadString :: "byte list \<Rightarrow> (byte list \<times> byte list) option"
  VerifyUTF8 :: "byte list \<Rightarrow> bool"

locale text_format = wire_format +
  fixes tx :: text_runtime
  assumes string_field: "0 < n \<Longrightarrow> n < 16 \<Longrightarrow> length s < 2 ^ 31 \<Longrightarrow>
      \<exists>p. ReadTag rt (WriteString tx n s @ bs) = Some (word_of_nat (8 * n + 2), p) \<and> ReadString tx p = Some (s, bs)"
    and read_string_less: "ReadString tx p = Some (s, p') \<Longrightarrow> length p' < length p"
    and string_size: "0 < n \<Longrightarrow> n < 16 \<Longrightarrow> length (WriteString tx n s) = 1 + StringSize tx s"

text \<open>The documented encoding: tag, length, bytes; UTF-8 is one to four bytes for each character.\<close>

fun utf8 :: "byte list \<Rightarrow> bool" where
  "utf8 [] = True"
| "utf8 (a # s) =
     (let tail = (\<lambda>b. 128 \<le> unat b \<and> unat b < 192) in
      if unat a < 128 then utf8 s
      else if 194 \<le> unat a \<and> unat a < 224 then (case s of b # s \<Rightarrow> tail b \<and> utf8 s | _ \<Rightarrow> False)
      else if 224 \<le> unat a \<and> unat a < 240 then
        (case s of b # c # s \<Rightarrow> tail b \<and> tail c \<and> (unat a = 224 \<longrightarrow> 160 \<le> unat b) \<and> (unat a = 237 \<longrightarrow> unat b < 160) \<and> utf8 s | _ \<Rightarrow> False)
      else if 240 \<le> unat a \<and> unat a < 245 then
        (case s of b # c # d # s \<Rightarrow> tail b \<and> tail c \<and> tail d \<and> (unat a = 240 \<longrightarrow> 144 \<le> unat b) \<and> (unat a = 244 \<longrightarrow> unat b < 144) \<and> utf8 s
         | _ \<Rightarrow> False)
      else False)"

definition text_wire :: text_runtime where
  "text_wire = \<lparr>WriteString = (\<lambda>n s. varint (8 * n + 2) @ varint (length s) @ s), StringSize = (\<lambda>s. length (varint (length s)) + length s),
     ReadString = delimited, VerifyUTF8 = utf8\<rparr>"

interpretation tw: text_format pb_wire text_wire
proof (intro_locales, unfold_locales)
  fix n :: nat and s bs p p' :: "byte list"
  show "ReadString text_wire p = Some (s, p') \<Longrightarrow> length p' < length p"
    using pw.read_delimited_less [of p s p'] by (simp add: text_wire_def pb_wire_def)
  assume n: "0 < n" "n < 16"
  show "length (WriteString text_wire n s) = 1 + StringSize text_wire s"
    using n by (simp add: text_wire_def one_byte_varint)
  assume "length s < 2 ^ 31"
  then show "\<exists>p. ReadTag pb_wire (WriteString text_wire n s @ bs) = Some (word_of_nat (8 * n + 2), p) \<and> ReadString text_wire p = Some (s, bs)"
    using pw.message_field [OF n, of s bs] by (simp add: text_wire_def pb_wire_sel)
qed

subsection \<open>\<open>EchoMessage\<close>\<close>

record EchoMessage_pb =
  echo_content :: "byte list"
  echo_id :: int32
  echo_unknown :: "byte list"

definition EchoMessage_default :: EchoMessage_pb where
  "EchoMessage_default = \<lparr>echo_content = [], echo_id = 0, echo_unknown = []\<rparr>"

definition EchoMessage_from :: "EchoMessage_pb \<Rightarrow> EchoMessage_pb" where
  "EchoMessage_from src =
     \<lparr>echo_content = (if echo_content src \<noteq> [] then echo_content src else []), echo_id = echo_id src, echo_unknown = echo_unknown src\<rparr>"

definition EchoMessage_Clear :: "EchoMessage_pb \<Rightarrow> EchoMessage_pb" where
  "EchoMessage_Clear m = m\<lparr>echo_content := [], echo_id := 0, echo_unknown := []\<rparr>"

definition read_text :: "text_runtime \<Rightarrow> (byte list \<Rightarrow> 'm) \<Rightarrow> byte list \<Rightarrow> 'm field option" where
  "read_text tx put ptr =
     Some (case ReadString tx ptr of None \<Rightarrow> Failure | Some (s, ptr) \<Rightarrow> if VerifyUTF8 tx s then Parsed (put s) ptr else Failure)"

definition EchoMessage_field :: "pb_runtime \<Rightarrow> text_runtime \<Rightarrow> uint32 \<Rightarrow> byte list \<Rightarrow> EchoMessage_pb \<Rightarrow> EchoMessage_pb field option" where
  "EchoMessage_field rt tx tag ptr m =
     (let number = drop_bit 3 tag in
      if number = 1 then (if (ucast tag :: byte) = 10 then read_text tx (\<lambda>s. m\<lparr>echo_content := s\<rparr>) ptr else Some Unusual) else
      if number = 2 then (if (ucast tag :: byte) = 16 then read32 rt (\<lambda>v. m\<lparr>echo_id := v\<rparr>) ptr else Some Unusual) else
      Some Unusual)"

definition EchoMessage_InternalParse :: "pb_runtime \<Rightarrow> text_runtime \<Rightarrow> EchoMessage_pb parser" where
  "EchoMessage_InternalParse rt tx = parse_loop rt (EchoMessage_field rt tx) (\<lambda>u m. m\<lparr>echo_unknown := echo_unknown m @ u\<rparr>)"

text \<open>The check on writing only logs.\<close>

definition EchoMessage_InternalSerialize :: "pb_runtime \<Rightarrow> text_runtime \<Rightarrow> EchoMessage_pb \<Rightarrow> byte list" where
  "EchoMessage_InternalSerialize rt tx m =
     (if echo_content m \<noteq> [] then WriteString tx 1 (echo_content m) else []) @
     (if echo_id m \<noteq> 0 then WriteInt32ToArray rt 2 (echo_id m) else []) @
     echo_unknown m"

definition EchoMessage_ByteSizeLong :: "pb_runtime \<Rightarrow> text_runtime \<Rightarrow> EchoMessage_pb \<Rightarrow> nat" where
  "EchoMessage_ByteSizeLong rt tx m =
     (if echo_content m \<noteq> [] then 1 + StringSize tx (echo_content m) else 0) +
     (if echo_id m \<noteq> 0 then Int32SizePlusOne rt (echo_id m) else 0) +
     length (echo_unknown m)"

definition EchoMessage_MergeFrom :: "EchoMessage_pb \<Rightarrow> EchoMessage_pb \<Rightarrow> EchoMessage_pb" where
  "EchoMessage_MergeFrom src m =
     (let m = if echo_content src \<noteq> [] then m\<lparr>echo_content := echo_content src\<rparr> else m;
          m = if echo_id src \<noteq> 0 then m\<lparr>echo_id := echo_id src\<rparr> else m
      in m\<lparr>echo_unknown := echo_unknown m @ echo_unknown src\<rparr>)"

definition EchoMessage_CopyFrom :: "EchoMessage_pb \<Rightarrow> EchoMessage_pb \<Rightarrow> EchoMessage_pb" where
  "EchoMessage_CopyFrom src m = EchoMessage_MergeFrom src (EchoMessage_Clear m)"

definition EchoMessage_InternalSwap :: "EchoMessage_pb \<times> EchoMessage_pb \<Rightarrow> EchoMessage_pb \<times> EchoMessage_pb" where
  "EchoMessage_InternalSwap mo =
     (case mo of (m, other) \<Rightarrow>
        (m\<lparr>echo_unknown := echo_unknown other, echo_content := echo_content other, echo_id := echo_id other\<rparr>,
         other\<lparr>echo_unknown := echo_unknown m, echo_content := echo_content m, echo_id := echo_id m\<rparr>))"

text \<open>The accessors.\<close>

definition EchoMessage_set_content :: "byte list \<Rightarrow> EchoMessage_pb \<Rightarrow> EchoMessage_pb" where
  "EchoMessage_set_content s m = m\<lparr>echo_content := s\<rparr>"

definition EchoMessage_clear_content :: "EchoMessage_pb \<Rightarrow> EchoMessage_pb" where
  "EchoMessage_clear_content m = m\<lparr>echo_content := []\<rparr>"

definition EchoMessage_mutable_content :: "(byte list \<Rightarrow> byte list) \<Rightarrow> EchoMessage_pb \<Rightarrow> EchoMessage_pb" where
  "EchoMessage_mutable_content change m = m\<lparr>echo_content := change (echo_content m)\<rparr>"

definition EchoMessage_set_allocated_content :: "byte list option \<Rightarrow> EchoMessage_pb \<Rightarrow> EchoMessage_pb" where
  "EchoMessage_set_allocated_content s m = m\<lparr>echo_content := (case s of None \<Rightarrow> [] | Some s \<Rightarrow> s)\<rparr>"

text \<open>\<open>shared\<close>: whether the string is the shared empty default, which the runtime's pointer tells and the contents do not.\<close>

definition EchoMessage_release_content :: "bool \<Rightarrow> EchoMessage_pb \<Rightarrow> byte list option \<times> EchoMessage_pb" where
  "EchoMessage_release_content shared m = (if shared then None else Some (echo_content m), m\<lparr>echo_content := []\<rparr>)"

lemma release_gives_back: "EchoMessage_set_allocated_content (fst (EchoMessage_release_content shared m)) (snd (EchoMessage_release_content shared m)) =
    (if shared then m\<lparr>echo_content := []\<rparr> else m)"
  by (simp add: EchoMessage_release_content_def EchoMessage_set_allocated_content_def)

definition EchoMessage_set_id :: "int32 \<Rightarrow> EchoMessage_pb \<Rightarrow> EchoMessage_pb" where
  "EchoMessage_set_id v m = m\<lparr>echo_id := v\<rparr>"

definition EchoMessage_clear_id :: "EchoMessage_pb \<Rightarrow> EchoMessage_pb" where
  "EchoMessage_clear_id m = m\<lparr>echo_id := 0\<rparr>"

text \<open>As objects.\<close>

definition EchoMessage_new :: "addr option \<Rightarrow> EchoMessage_pb object" where
  "EchoMessage_new = object_new EchoMessage_default"

definition EchoMessage_destroy :: "addr \<Rightarrow> EchoMessage_pb objects \<Rightarrow> EchoMessage_pb objects res" where
  "EchoMessage_destroy = object_destroy"

definition EchoMessage_assign :: "addr \<Rightarrow> addr \<Rightarrow> EchoMessage_pb objects \<Rightarrow> EchoMessage_pb objects res" where
  "EchoMessage_assign = object_assign EchoMessage_CopyFrom"

definition EchoMessage_move :: "bool \<Rightarrow> addr \<Rightarrow> addr \<Rightarrow> EchoMessage_pb objects \<Rightarrow> EchoMessage_pb objects res" where
  "EchoMessage_move = object_move EchoMessage_CopyFrom EchoMessage_InternalSwap"

definition EchoMessage_move_new :: "bool \<Rightarrow> addr \<Rightarrow> addr \<Rightarrow> EchoMessage_pb objects \<Rightarrow> EchoMessage_pb objects res" where
  "EchoMessage_move_new force this src h = EchoMessage_move force this src (h(this \<mapsto> EchoMessage_new None))"

definition EchoMessage_Swap :: "(addr \<Rightarrow> addr \<Rightarrow> EchoMessage_pb objects \<Rightarrow> EchoMessage_pb objects res) \<Rightarrow> bool \<Rightarrow> addr \<Rightarrow> addr \<Rightarrow>
    EchoMessage_pb objects \<Rightarrow> EchoMessage_pb objects res" where
  "EchoMessage_Swap = object_Swap EchoMessage_InternalSwap"

definition EchoMessage_UnsafeArenaSwap :: "bool \<Rightarrow> addr \<Rightarrow> addr \<Rightarrow> EchoMessage_pb objects \<Rightarrow> EchoMessage_pb objects res" where
  "EchoMessage_UnsafeArenaSwap = object_UnsafeArenaSwap EchoMessage_InternalSwap"

definition EchoMessage_MergeImpl :: "addr \<Rightarrow> addr \<Rightarrow> EchoMessage_pb objects \<Rightarrow> EchoMessage_pb objects res" where
  "EchoMessage_MergeImpl = object_merge EchoMessage_MergeFrom"

text \<open>Its descriptor and tables, and the protocol file \<open>echoMessage.proto\<close>.\<close>

definition echo_messages :: "proto_message list" where
  "echo_messages = [\<lparr>p_name = ''EchoMessage'', p_fields = [optional Text ''content'' 1, optional Int32 ''id'' 2]\<rparr>]"

definition echo_protodef :: "byte list" where
  "echo_protodef =
     [10, 17] @ ascii ''echoMessage.proto'' @ [18, 8] @ ascii ''qps_test'' @ [34, 42, 10, 11] @ ascii ''EchoMessage'' @
     [18, 15, 10, 7] @ ascii ''content'' @ [24, 1, 32, 1, 40, 9, 18, 10, 10, 2] @ ascii ''id'' @ [24, 2, 32, 1, 40, 5, 98, 6] @
     ascii ''proto3''"

definition echo_table_struct :: "offset list" where
  "echo_table_struct =
    [No_Offset, Metadata_Of ''EchoMessage'', No_Offset, No_Offset, No_Offset, No_Offset,
      Offset_Of ''EchoMessage'' ''content'', Offset_Of ''EchoMessage'' ''id'']"

definition echo_schemas :: "(nat \<times> string) list" where
  "echo_schemas = [(0, ''EchoMessage'')]"

definition echo_descriptor_table :: "nat \<times> byte list \<times> string \<times> nat \<times> nat" where
  "echo_descriptor_table = (81, echo_protodef, ''echoMessage.proto'', 0, 1)"

definition EchoMessage_field_numbers :: "(string \<times> nat) list" where
  "EchoMessage_field_numbers = [(''content'', 1), (''id'', 2)]"

lemma echo_descriptor_matches_proto:
  "echo_descriptor_table = (length echo_protodef, file_descriptor ''echoMessage.proto'' ''qps_test'' echo_messages [], ''echoMessage.proto'', 0, length echo_messages)"
  "map (layout echo_table_struct) echo_schemas = map (\<lambda>m. (p_name m, p_name m, map f_name (p_fields m))) echo_messages"
  "[EchoMessage_field_numbers] = map (\<lambda>m. map (\<lambda>f. (f_name f, f_number f)) (p_fields m)) echo_messages"
  by (simp_all add: echo_descriptor_table_def echo_protodef_def echo_messages_def file_descriptor_def message_descriptor_def field_descriptor_def
      text_field_def number_field_def optional_def one_byte_varint echo_table_struct_def echo_schemas_def layout_def EchoMessage_field_numbers_def)

lemma EchoMessage_copy: "EchoMessage_CopyFrom src m = src" "EchoMessage_MergeFrom src EchoMessage_default = src" "EchoMessage_from m = m"
  unfolding EchoMessage_CopyFrom_def EchoMessage_MergeFrom_def EchoMessage_Clear_def EchoMessage_default_def EchoMessage_from_def Let_def
  by (rule EchoMessage_pb.equality; simp)+

interpretation em: message_class EchoMessage_CopyFrom EchoMessage_InternalSwap
  by unfold_locales (simp_all add: EchoMessage_copy EchoMessage_InternalSwap_def)

subsection \<open>Reading back\<close>

context text_format
begin

lemma text_step:
  assumes "\<And>p m. field (word_of_nat (8 * n + 2)) p m = read_text tx (\<lambda>s. put s m) p" and "0 < n" and "n < 16" and "length s < 2 ^ 31"
  shows "parse_loop rt field unk (WriteString tx n s @ bs) m = (if VerifyUTF8 tx s then parse_loop rt field unk bs (put s m) else Some None)"
proof -
  obtain p where p: "ReadTag rt (WriteString tx n s @ bs) = Some (word_of_nat (8 * n + 2), p)" "ReadString tx p = Some (s, bs)"
    using string_field [OF assms(2-4)] by blast
  show ?thesis unfolding loop_tag [OF p(1)] by (simp only: assms(1) read_text_def p(2) option.case prod.case) simp
qed

lemma EchoMessage_merge:
  assumes "echo_unknown b = []" and "length (echo_content b) < 2 ^ 31"
  shows "EchoMessage_InternalParse rt tx (EchoMessage_InternalSerialize rt tx b @ bs) m =
    (if echo_content b = [] \<or> VerifyUTF8 tx (echo_content b) then EchoMessage_InternalParse rt tx bs (EchoMessage_MergeFrom b m) else Some None)"
proof -
  have content: "parse_loop rt (EchoMessage_field rt tx) unk (WriteString tx 1 (echo_content b) @ bs) m =
      (if VerifyUTF8 tx (echo_content b) then parse_loop rt (EchoMessage_field rt tx) unk bs (m\<lparr>echo_content := echo_content b\<rparr>) else Some None)"
    for unk bs m
    by (rule text_step) (use assms(2) in \<open>simp_all add: EchoMessage_field_def\<close>)
  have number: "parse_loop rt (EchoMessage_field rt tx) unk ((if v \<noteq> 0 then WriteInt32ToArray rt 2 v else []) @ bs) m =
      parse_loop rt (EchoMessage_field rt tx) unk bs (if v \<noteq> 0 then m\<lparr>echo_id := v\<rparr> else m)" for v unk bs m
    by (rule int32_step) (simp_all add: EchoMessage_field_def)
  show ?thesis
  proof (cases "echo_content b = []")
    case True
    then show ?thesis
      unfolding EchoMessage_InternalParse_def EchoMessage_InternalSerialize_def append_assoc
      by (simp add: number assms(1) EchoMessage_MergeFrom_def Let_def)
  next
    case False
    then have eq: "EchoMessage_InternalSerialize rt tx b @ bs =
        WriteString tx 1 (echo_content b) @ (if echo_id b \<noteq> 0 then WriteInt32ToArray rt 2 (echo_id b) else []) @ bs"
      by (simp add: EchoMessage_InternalSerialize_def assms(1))
    then show ?thesis using False
      unfolding EchoMessage_InternalParse_def eq content number by (simp add: assms(1) EchoMessage_MergeFrom_def Let_def)
  qed
qed

lemma EchoMessage_size: "EchoMessage_ByteSizeLong rt tx m = length (EchoMessage_InternalSerialize rt tx m)"
  by (simp add: EchoMessage_ByteSizeLong_def EchoMessage_InternalSerialize_def int32_size string_size)

end

definition EchoMessage_ParseFromArray :: "pb_runtime \<Rightarrow> text_runtime \<Rightarrow> byte list \<Rightarrow> EchoMessage_pb \<Rightarrow> EchoMessage_pb option" where
  "EchoMessage_ParseFromArray rt tx = ParseFromArray EchoMessage_Clear (EchoMessage_InternalParse rt tx)"

lemma echo_parsed:
  assumes "text_format rt tx" and "length s < 2 ^ 31"
  shows "EchoMessage_ParseFromArray rt tx (EchoMessage_InternalSerialize rt tx \<lparr>echo_content = s, echo_id = i, echo_unknown = []\<rparr>) m =
    (if s = [] \<or> VerifyUTF8 tx s then Some \<lparr>echo_content = s, echo_id = i, echo_unknown = []\<rparr> else None)"
proof -
  let ?b = "\<lparr>echo_content = s, echo_id = i, echo_unknown = []\<rparr>"
  have "EchoMessage_MergeFrom ?b (EchoMessage_Clear m) = ?b" using EchoMessage_copy(1) [of ?b m] by (simp add: EchoMessage_CopyFrom_def)
  moreover have "EchoMessage_InternalParse rt tx [] b = Some (Some (b, [], None))" for b
    using assms(1) by (simp add: EchoMessage_InternalParse_def text_format_def wire_format.loop_Nil)
  ultimately show ?thesis
    using text_format.EchoMessage_merge [OF assms(1), of ?b "[]" "EchoMessage_Clear m"] assms(2)
    by (simp add: EchoMessage_ParseFromArray_def ParseFromArray_def)
qed

text \<open>
  An echo message is read back exactly when its string is UTF-8: the same message for a valid string,
  a refusal, not other contents, for one that is not, although it was written without an error; and the
  size it computes is the size written.
\<close>

theorem echo_roundtrip:
  assumes "text_format rt tx" and "length s < 2 ^ 31"
  shows "EchoMessage_ParseFromArray rt tx (EchoMessage_InternalSerialize rt tx \<lparr>echo_content = s, echo_id = i, echo_unknown = []\<rparr>) m =
      (if s = [] \<or> VerifyUTF8 tx s then Some \<lparr>echo_content = s, echo_id = i, echo_unknown = []\<rparr> else None) \<and>
    EchoMessage_ByteSizeLong rt tx m' = length (EchoMessage_InternalSerialize rt tx m')"
  by (simp add: echo_parsed [OF assms] text_format.EchoMessage_size [OF assms(1)])

theorem echo_roundtrip_witness:
  "EchoMessage_ParseFromArray pb_wire text_wire
      (EchoMessage_InternalSerialize pb_wire text_wire \<lparr>echo_content = [104, 105], echo_id = - 1, echo_unknown = []\<rparr>) EchoMessage_default =
     Some \<lparr>echo_content = [104, 105], echo_id = - 1, echo_unknown = []\<rparr> \<and>
   EchoMessage_ParseFromArray pb_wire text_wire
      (EchoMessage_InternalSerialize pb_wire text_wire \<lparr>echo_content = [104, 255], echo_id = 1, echo_unknown = []\<rparr>) EchoMessage_default = None"
  using echo_roundtrip [OF tw.text_format_axioms, of "[104, 105]" "- 1" EchoMessage_default]
    echo_roundtrip [OF tw.text_format_axioms, of "[104, 255]" 1 EchoMessage_default]
  by (simp add: text_wire_def)

end
