(* ===== verification/Session.thy ===== *)
theory Session
  imports Tcp_Client "HOL-Library.Sublist"
begin

text \<open>
  A client and a server connection joined by the kernel's two byte streams. Each end sends, writes what the
  socket takes, and reads what has arrived, in any order and in any pieces; the session refines two queues
  of messages that the callbacks of the ends empty.
\<close>

subsection \<open>What the callbacks make of a list of messages\<close>

fun handle_all :: "(('a, 'u) handler, 'a) msg_router \<Rightarrow> msg list \<Rightarrow> 'u \<Rightarrow> msg list \<times> 'u" where
  "handle_all router [] u = ([], u)"
| "handle_all router (m # ms) u =
     (let (out, u) = handled router (fst m) (snd m) u; (rest, u) = handle_all router ms u in (out @ rest, u))"

lemma handle_all_Cons:
  "handle_all router ((i, b) # ms) u =
    (fst (handled router i b u) @ fst (handle_all router ms (snd (handled router i b u))), snd (handle_all router ms (snd (handled router i b u))))"
  by (simp split: prod.split)

lemma handle_all_append:
  "handle_all router (ms @ ms') u =
    (fst (handle_all router ms u) @ fst (handle_all router ms' (snd (handle_all router ms u))), snd (handle_all router ms' (snd (handle_all router ms u))))"
  by (induction ms arbitrary: u) (auto simp: Let_def split: prod.split)

text \<open>These are the bytes and states of the connections: what the stream theorems say is queued and kept.\<close>

lemma handle_all_replies:
  "concat (map frame (fst (handle_all router ms u))) = replies (handler_reply router) (handler_upd router) ms u"
  "snd (handle_all router ms u) = updates (handler_upd router) ms u"
  by (induction ms arbitrary: u)
    (simp_all add: handle_all_Cons handler_reply_def handler_upd_def split_paired_all del: handle_all.simps(2))

subsection \<open>An end of the session\<close>

text \<open>The operations an end runs, and what is seen of it: the bytes not yet written, those of an incomplete message, the application.\<close>

record ('s, 'a, 'u) endpoint =
  ep_send :: "msg \<Rightarrow> 's \<Rightarrow> 's res"
  ep_write :: "nat list \<Rightarrow> 's \<Rightarrow> 's res"
  ep_read :: "byte list \<Rightarrow> 's \<Rightarrow> 's res option"
  ep_out :: "'s \<Rightarrow> byte list"
  ep_in :: "'s \<Rightarrow> byte list"
  ep_app :: "'s \<Rightarrow> 'u"
  ep_router :: "(('a, 'u) handler, 'a) msg_router"

definition client_end :: "(int32 \<Rightarrow> bool) \<Rightarrow> addr \<Rightarrow> ('task, 'u) client_hook \<Rightarrow> ('task, 'u) client_hook \<Rightarrow> connect_env \<Rightarrow>
    (('a, 'u) handler, 'a) msg_router \<Rightarrow> (('task, 'u) tcp_client, 'a, 'u) endpoint" where
  "client_end pollable self start close env router =
     \<lparr>ep_send = client_send_to pollable self,
      ep_write = (\<lambda>ks c. client_do_write pollable start close self env (kernel_writes ks (out_bytes c)) c),
      ep_read = (\<lambda>bs. client_do_read pollable start close self env (client_call pollable self router) (Some (int (length bs))) (Io_Bytes bs)),
      ep_out = out_bytes, ep_in = in_bytes, ep_app = cli_app, ep_router = router\<rparr>"

definition server_end :: "(int32 \<Rightarrow> bool) \<Rightarrow> addr \<Rightarrow> ('task, 'u) conn_hook \<Rightarrow>
    (('a, 'u) handler, 'a) msg_router \<Rightarrow> (('task, 'u) tcp_conn, 'a, 'u) endpoint" where
  "server_end pollable self hook router =
     \<lparr>ep_send = send_to pollable self,
      ep_write = (\<lambda>ks c. conn_do_write pollable hook (kernel_writes ks (out_bytes c)) c),
      ep_read = (\<lambda>bs. conn_do_read pollable hook (conn_call pollable self router) (Some (int (length bs))) (Io_Bytes bs)),
      ep_out = out_bytes, ep_in = in_bytes, ep_app = app, ep_router = router\<rparr>"

text \<open>What both kinds of end promise, in the states \<open>ok\<close>.\<close>

definition good_msg :: "msg \<Rightarrow> bool" where
  "good_msg m \<longleftrightarrow> snd m \<noteq> [] \<and> int (length (snd m)) \<le> MESSAGE_LENGTH_LIMIT"

locale live_end =
  fixes E :: "('s, 'a, 'u) endpoint" and ok :: "'s \<Rightarrow> bool"
  assumes send_ok: "ok s \<Longrightarrow> int (length (ep_out E s)) + int (length (frame m)) \<le> m8M \<Longrightarrow>
      ep_send E m s = Inl Exited \<or>
      (\<exists>s'. ep_send E m s = Inr s' \<and> ok s' \<and> ep_out E s' = ep_out E s @ frame m \<and> ep_in E s' = ep_in E s \<and> ep_app E s' = ep_app E s)"
    and write_ok: "ok s \<Longrightarrow> \<forall>k \<in> set ks. 0 < k \<Longrightarrow>
      \<exists>s'. ep_write E ks s = Inr s' \<and> ok s' \<and> ep_out E s' = drop (sum_list ks) (ep_out E s) \<and> ep_in E s' = ep_in E s \<and> ep_app E s' = ep_app E s"
    and read_ok: "ok s \<Longrightarrow> bs \<noteq> [] \<Longrightarrow> int (length bs) \<le> read_limit \<Longrightarrow> decode (ep_in E s) = ([], ep_in E s, False) \<Longrightarrow>
      decode (ep_in E s @ bs) = (ms, rest, False) \<Longrightarrow> \<forall>m \<in> set ms. snd m \<noteq> [] \<Longrightarrow>
      int (length (ep_out E s)) + int (length (concat (map frame (fst (handle_all (ep_router E) ms (ep_app E s)))))) \<le> m8M \<Longrightarrow>
      ep_read E bs s = Some (Inl Exited) \<or>
      (\<exists>s'. ep_read E bs s = Some (Inr s') \<and> ok s' \<and> ep_in E s' = rest \<and> ep_app E s' = snd (handle_all (ep_router E) ms (ep_app E s)) \<and>
         ep_out E s' = ep_out E s @ concat (map frame (fst (handle_all (ep_router E) ms (ep_app E s)))))"

definition server_ok :: "(int32 \<Rightarrow> bool) \<Rightarrow> ('task, 'u) tcp_conn \<Rightarrow> bool" where
  "server_ok pollable c \<longleftrightarrow> (\<exists>others. conn_ok others c) \<and> front_in c \<and> armed pollable c"

definition client_ok :: "(int32 \<Rightarrow> bool) \<Rightarrow> ('task, 'u) tcp_client \<Rightarrow> bool" where
  "client_ok pollable c \<longleftrightarrow> (\<exists>others. conn_ok others c) \<and> front_in c \<and> connected pollable (sockfd c) c"

lemma read_room:
  assumes "decode part = ([], part, False)" and "int (length bs) \<le> read_limit"
  shows "int (length part) + int (length bs) \<le> m8M"
  using decode_rest [OF assms(1)] assms(2) by (simp add: read_limit_def)


lemma kept_input:
  assumes "ibuf c' = ibuf c" and "buf_of (ibuf c) (bpool c') = buf_of (ibuf c) (bpool c)"
  shows "in_bytes c' = in_bytes c" and "front_in c' = front_in c"
  using content_cong [OF assms(2)] front_cong [OF assms(2)] by (simp_all add: in_bytes_def front_in_def assms(1))

text \<open>The server's end.\<close>

lemma server_end_sel [simp]:
  "ep_send (server_end pollable self hook router) = send_to pollable self"
  "ep_write (server_end pollable self hook router) ks c = conn_do_write pollable hook (kernel_writes ks (out_bytes c)) c"
  "ep_read (server_end pollable self hook router) bs =
     conn_do_read pollable hook (conn_call pollable self router) (Some (int (length bs))) (Io_Bytes bs)"
  "ep_out (server_end pollable self hook router) = out_bytes" "ep_in (server_end pollable self hook router) = in_bytes"
  "ep_app (server_end pollable self hook router) = app" "ep_router (server_end pollable self hook router) = router"
  by (simp_all add: server_end_def)

lemma server_writes:
  assumes "server_ok pollable c" and "\<forall>k \<in> set ks. 0 < k"
  shows "\<exists>c'. conn_do_write pollable hook (kernel_writes ks (out_bytes c)) c = Inr c' \<and> server_ok pollable c' \<and>
    out_bytes c' = drop (sum_list ks) (out_bytes c) \<and> in_bytes c' = in_bytes c \<and> app c' = app c"
proof -
  obtain others where c: "conn_ok others c" "front_in c" "armed pollable c" using assms(1) by (auto simp: server_ok_def)
  obtain rp where w: "write_out (kernel_writes ks (out_bytes c)) c = Inr (True, put_out_buf rp c)"
      "conn_ok others (put_out_buf rp c)" "buf_of (ibuf c) (snd rp) = buf_of (ibuf c) (bpool c)"
    using write_out_ok [OF c(1) assms(2)] by blast
  obtain c' where c': "conn_do_write pollable hook (kernel_writes ks (out_bytes c)) c = Inr c'" "conn_ok others c'" "armed pollable c'"
      "app c' = app c" "out_bytes c' = drop (sum_list ks) (out_bytes c)"
    using conn_do_write_ok [OF c(1,3) assms(2)] by blast
  have "ibuf c' = ibuf c \<and> bpool c' = snd rp"
    using c'(1) w(1) rb_length_out [OF w(2)] by (auto simp: conn_do_write_def split: if_splits)
  then have "in_bytes c' = in_bytes c" "front_in c' = front_in c" using kept_input [of c' c] w(3) by auto
  then show ?thesis using c' c(2) by (auto simp: server_ok_def)
qed

interpretation sv: live_end "server_end pollable self hook router" "server_ok pollable" for pollable self hook router
proof
  fix s m
  assume a: "server_ok pollable s"
    and room: "int (length (ep_out (server_end pollable self hook router) s)) + int (length (frame m)) \<le> m8M"
  obtain others where c: "conn_ok others s" "front_in s" "armed pollable s" using a by (auto simp: server_ok_def)
  have "int (length (out_bytes s)) + int (length (frame m)) \<le> m8M" using room by (simp only: server_end_sel)
  from tc.send_ok [OF c(1) conn_at_self [OF c(3)] this, of self]
  show "ep_send (server_end pollable self hook router) m s = Inl Exited \<or>
      (\<exists>s'. ep_send (server_end pollable self hook router) m s = Inr s' \<and> server_ok pollable s' \<and>
         ep_out (server_end pollable self hook router) s' = ep_out (server_end pollable self hook router) s @ frame m \<and>
         ep_in (server_end pollable self hook router) s' = ep_in (server_end pollable self hook router) s \<and>
         ep_app (server_end pollable self hook router) s' = ep_app (server_end pollable self hook router) s)"
  proof (elim disjE exE conjE)
    fix s' :: "('a, 'b) tcp_conn"
    assume "ibuf s' = ibuf s" "buf_of (ibuf s) (bpool s') = buf_of (ibuf s) (bpool s)"
    then have "in_bytes s' = in_bytes s" "front_in s' = front_in s" by (rule kept_input)+
    moreover assume "send_to pollable self m s = Inr s'" "conn_ok others s'" "conn_at pollable (connfd s) (conn_tab s) s'" "out_bytes s' = out_bytes s @ frame m"
      "app s' = app s"
    ultimately show ?thesis using c(2) by (auto simp: server_ok_def conn_at_def)
  qed simp
next
  fix s bs ms rest
  let ?E = "server_end pollable self hook router"
  assume a: "server_ok pollable s" "bs \<noteq> []" "int (length bs) \<le> read_limit" "decode (ep_in ?E s) = ([], ep_in ?E s, False)"
    "decode (ep_in ?E s @ bs) = (ms, rest, False)" "\<forall>m \<in> set ms. snd m \<noteq> []"
    "int (length (ep_out ?E s)) + int (length (concat (map frame (fst (handle_all (ep_router ?E) ms (ep_app ?E s)))))) \<le> m8M"
  obtain others where c: "conn_ok others s" "front_in s" "armed pollable s" using a(1) by (auto simp: server_ok_def)
  have "int (length (in_bytes s)) + int (length bs) \<le> m8M" using read_room [OF _ a(3), of "in_bytes s"] a(4) by simp
  from tc.cb.do_read_messages [OF c(1,2) conn_at_self [OF c(3)] a(2) this, of ms rest router self "clean_conn pollable hook",
      folded conn_call_def] a(5-7)
  show "ep_read ?E bs s = Some (Inl Exited) \<or>
      (\<exists>s'. ep_read ?E bs s = Some (Inr s') \<and> server_ok pollable s' \<and> ep_in ?E s' = rest \<and>
         ep_app ?E s' = snd (handle_all (ep_router ?E) ms (ep_app ?E s)) \<and>
         ep_out ?E s' = ep_out ?E s @ concat (map frame (fst (handle_all (ep_router ?E) ms (ep_app ?E s)))))"
    by (auto simp: handle_all_replies conn_do_read_def server_ok_def conn_at_def)
qed (use server_writes in auto)

text \<open>The client's end.\<close>

lemma client_end_sel [simp]:
  "ep_send (client_end pollable self start close env router) = client_send_to pollable self"
  "ep_write (client_end pollable self start close env router) ks c =
     client_do_write pollable start close self env (kernel_writes ks (out_bytes c)) c"
  "ep_read (client_end pollable self start close env router) bs =
     client_do_read pollable start close self env (client_call pollable self router) (Some (int (length bs))) (Io_Bytes bs)"
  "ep_out (client_end pollable self start close env router) = out_bytes" "ep_in (client_end pollable self start close env router) = in_bytes"
  "ep_app (client_end pollable self start close env router) = cli_app" "ep_router (client_end pollable self start close env router) = router"
  by (simp_all add: client_end_def)

lemma client_writes:
  assumes "client_ok pollable c" and "\<forall>k \<in> set ks. 0 < k"
  shows "\<exists>c'. client_do_write pollable start close self env (kernel_writes ks (out_bytes c)) c = Inr c' \<and> client_ok pollable c' \<and>
    out_bytes c' = drop (sum_list ks) (out_bytes c) \<and> in_bytes c' = in_bytes c \<and> cli_app c' = cli_app c"
proof -
  obtain others where c: "conn_ok others c" "front_in c" "connected pollable (sockfd c) c" using assms(1) by (auto simp: client_ok_def)
  obtain rp where w: "write_out (kernel_writes ks (out_bytes c)) c = Inr (True, put_out_buf rp c)"
      "conn_ok others (put_out_buf rp c)" "buf_of (ibuf c) (snd rp) = buf_of (ibuf c) (bpool c)"
      "out_bytes (put_out_buf rp c) = drop (sum_list ks) (out_bytes c)"
    using write_out_ok [OF c(1) assms(2)] by blast
  let ?c = "put_out_buf rp c"
  have "ibuf ?c = ibuf c" "bpool ?c = snd rp" by (cases rp; simp add: put_out_buf_def)+
  then have input: "in_bytes ?c = in_bytes c" "front_in ?c = front_in c" using kept_input [of ?c c] w(3) by simp_all
  let ?d = "?c\<lparr>cli_loop := del_io_mask pollable (sockfd c) EPOLLOUT (cli_loop c)\<rparr>"
  have "sockfd ?c = sockfd c" by simp
  show ?thesis
  proof (cases "out_bytes ?c = []")
    case True
    then have "client_do_write pollable start close self env (kernel_writes ks (out_bytes c)) c = Inr ?d"
      using w(1) rb_length_out [OF w(2)] by (simp add: client_do_write_def)
    moreover have "connected pollable (sockfd c) ?d" using c(3) True ev_armed_del by (auto simp: connected_def)
    ultimately show ?thesis using w(2,4) input c(2) by (auto simp: client_ok_def)
  next
    case False
    then have "client_do_write pollable start close self env (kernel_writes ks (out_bytes c)) c = Inr ?c"
      using w(1) rb_length_out [OF w(2)] by (simp add: client_do_write_def)
    moreover have "out_bytes c \<noteq> []" using False w(4) by auto
    then have "connected pollable (sockfd c) ?c" using c(3) False ev_armed_more by (fastforce simp: connected_def)
    ultimately show ?thesis using w(2,4) input c(2) by (auto simp: client_ok_def)
  qed
qed

interpretation ce: live_end "client_end pollable self start close env router" "client_ok pollable" for pollable self start close env router
proof
  fix s m
  let ?E = "client_end pollable self start close env router"
  assume a: "client_ok pollable s" and room: "int (length (ep_out ?E s)) + int (length (frame m)) \<le> m8M"
  obtain others where c: "conn_ok others s" "front_in s" "connected pollable (sockfd s) s" using a by (auto simp: client_ok_def)
  have "int (length (out_bytes s)) + int (length (frame m)) \<le> m8M" using room by (simp only: client_end_sel)
  from cl.send_ok [OF c(1,3) this, of self]
  show "ep_send ?E m s = Inl Exited \<or> (\<exists>s'. ep_send ?E m s = Inr s' \<and> client_ok pollable s' \<and>
         ep_out ?E s' = ep_out ?E s @ frame m \<and> ep_in ?E s' = ep_in ?E s \<and> ep_app ?E s' = ep_app ?E s)"
  proof (elim disjE exE conjE)
    fix s' :: "('a, 'b) tcp_client"
    assume "ibuf s' = ibuf s" "buf_of (ibuf s) (bpool s') = buf_of (ibuf s) (bpool s)"
    then have "in_bytes s' = in_bytes s" "front_in s' = front_in s" by (rule kept_input)+
    moreover assume "client_send_to pollable self m s = Inr s'" "conn_ok others s'" "connected pollable (sockfd s) s'" "out_bytes s' = out_bytes s @ frame m"
      "cli_app s' = cli_app s"
    ultimately show ?thesis using c(2) by (auto simp: client_ok_def connected_def)
  qed simp
next
  fix s bs ms rest
  let ?E = "client_end pollable self start close env router"
  assume a: "client_ok pollable s" "bs \<noteq> []" "int (length bs) \<le> read_limit" "decode (ep_in ?E s) = ([], ep_in ?E s, False)"
    "decode (ep_in ?E s @ bs) = (ms, rest, False)" "\<forall>m \<in> set ms. snd m \<noteq> []"
    "int (length (ep_out ?E s)) + int (length (concat (map frame (fst (handle_all (ep_router ?E) ms (ep_app ?E s)))))) \<le> m8M"
  obtain others where c: "conn_ok others s" "front_in s" "connected pollable (sockfd s) s" using a(1) by (auto simp: client_ok_def)
  have "int (length (in_bytes s)) + int (length bs) \<le> m8M" using read_room [OF _ a(3), of "in_bytes s"] a(4) by simp
  from cl.cb.do_read_messages [OF c a(2) this, of ms rest router self "client_clean_conn pollable start close self env",
      folded client_call_def] a(5-7)
  show "ep_read ?E bs s = Some (Inl Exited) \<or>
      (\<exists>s'. ep_read ?E bs s = Some (Inr s') \<and> client_ok pollable s' \<and> ep_in ?E s' = rest \<and>
         ep_app ?E s' = snd (handle_all (ep_router ?E) ms (ep_app ?E s)) \<and>
         ep_out ?E s' = ep_out ?E s @ concat (map frame (fst (handle_all (ep_router ?E) ms (ep_app ?E s)))))"
    by (auto simp: handle_all_replies client_do_read_def client_ok_def connected_def)
qed (use client_writes in auto)


subsection \<open>The session\<close>

text \<open>
  One end with the history of the messages it has posted and taken; \<open>side_step\<close> is one event of it: the
  application sends, the socket takes some bytes, some bytes have arrived. The wires to it and from it are
  the second and third components.
\<close>

record 's side =
  side_conn :: 's
  posted :: "msg list"
  taken :: "msg list"

definition new_side :: "'s \<Rightarrow> 's side" where
  "new_side c = \<lparr>side_conn = c, posted = [], taken = []\<rparr>"

inductive side_step :: "('s, 'a, 'u) endpoint \<Rightarrow> 's side \<times> byte list \<times> byte list \<Rightarrow> 's side \<times> byte list \<times> byte list \<Rightarrow> bool"
  for E where
  Posts: "good_msg m \<Longrightarrow> int (length (ep_out E (side_conn a))) + int (length (frame m)) \<le> m8M \<Longrightarrow>
     ep_send E m (side_conn a) = Inr c \<Longrightarrow>
     side_step E (a, win, wout) (a\<lparr>side_conn := c, posted := posted a @ [m]\<rparr>, win, wout)"
| Writes: "\<forall>k \<in> set ks. 0 < k \<Longrightarrow> ep_write E ks (side_conn a) = Inr c \<Longrightarrow>
     side_step E (a, win, wout) (a\<lparr>side_conn := c\<rparr>, win, wout @ take (sum_list ks) (ep_out E (side_conn a)))"
| Reads: "bs \<noteq> [] \<Longrightarrow> int (length bs) \<le> read_limit \<Longrightarrow> decode (ep_in E (side_conn a) @ bs) = (ms, rest, bad) \<Longrightarrow>
     handle_all (ep_router E) ms (ep_app E (side_conn a)) = (out, u) \<Longrightarrow> \<forall>m \<in> set out. good_msg m \<Longrightarrow>
     int (length (ep_out E (side_conn a))) + int (length (concat (map frame out))) \<le> m8M \<Longrightarrow>
     ep_read E bs (side_conn a) = Some (Inr c) \<Longrightarrow>
     side_step E (a, bs @ win, wout) (a\<lparr>side_conn := c, posted := posted a @ out, taken := taken a @ ms\<rparr>, win, wout)"

inductive_cases side_stepE: "side_step E s s'"

text \<open>Both ends, with the wire from the first to the second and the one back.\<close>

inductive session_step :: "('s, 'a, 'u) endpoint \<Rightarrow> ('t, 'b, 'v) endpoint \<Rightarrow> 's side \<times> 't side \<times> byte list \<times> byte list \<Rightarrow>
    's side \<times> 't side \<times> byte list \<times> byte list \<Rightarrow> bool" for A B where
  First: "side_step A (a, down, up) (a', down', up') \<Longrightarrow> session_step A B (a, b, up, down) (a', b, up', down')"
| Second: "side_step B (b, up, down) (b', up', down') \<Longrightarrow> session_step A B (a, b, up, down) (a, b', up', down')"

subsection \<open>Two queues of messages\<close>

text \<open>The contract of a session: messages wait in one queue for each direction, and are handled one at a time.\<close>

inductive queue_step :: "(('a, 'u) handler, 'a) msg_router \<Rightarrow> (('b, 'v) handler, 'b) msg_router \<Rightarrow>
    'u \<times> 'v \<times> msg list \<times> msg list \<Rightarrow> 'u \<times> 'v \<times> msg list \<times> msg list \<Rightarrow> bool" for ra rb where
  Enqueue1: "queue_step ra rb (u, v, q, r) (u, v, q @ [m], r)"
| Enqueue2: "queue_step ra rb (u, v, q, r) (u, v, q, r @ [m])"
| Handle2: "handled rb (fst m) (snd m) v = (out, v') \<Longrightarrow> queue_step ra rb (u, v, m # q, r) (u, v', q, r @ out)"
| Handle1: "handled ra (fst m) (snd m) u = (out, u') \<Longrightarrow> queue_step ra rb (u, v, q, m # r) (u', v, q @ out, r)"

lemma handle_queue2: "rtranclp (queue_step ra rb) (u, v, ms @ q, r) (u, snd (handle_all rb ms v), q, r @ fst (handle_all rb ms v))"
proof (induction ms arbitrary: v r)
  case (Cons m ms)
  obtain out v' where h: "handled rb (fst m) (snd m) v = (out, v')" by fastforce
  from converse_rtranclp_into_rtranclp [OF Handle2 [OF h] Cons.IH [of v' "r @ out"]]
  show ?case using h by (simp add: case_prod_beta)
qed simp

lemma handle_queue1: "rtranclp (queue_step ra rb) (u, v, q, ms @ r) (snd (handle_all ra ms u), v, q @ fst (handle_all ra ms u), r)"
proof (induction ms arbitrary: u q)
  case (Cons m ms)
  obtain out u' where h: "handled ra (fst m) (snd m) u = (out, u')" by fastforce
  from converse_rtranclp_into_rtranclp [OF Handle1 [OF h] Cons.IH [of u' "q @ out"]]
  show ?case using h by (simp add: case_prod_beta)
qed simp

subsection \<open>The session refines the queues\<close>

text \<open>
  One direction: what the second end has taken is the start of what the first has posted, and the bytes it
  holds of an incomplete message, those on the wire and those the first has not written are the rest.
\<close>

definition under_way :: "('s, 'a, 'u) endpoint \<Rightarrow> ('t, 'b, 'v) endpoint \<Rightarrow> 's side \<Rightarrow> 't side \<Rightarrow> byte list \<Rightarrow> msg list \<Rightarrow> bool" where
  "under_way A B a b w later \<longleftrightarrow> posted a = taken b @ later \<and> (\<forall>m \<in> set (posted a). good_msg m) \<and>
     decode (ep_in B (side_conn b)) = ([], ep_in B (side_conn b), False) \<and>
     decode (ep_in B (side_conn b) @ w @ ep_out A (side_conn a)) = (later, [], False)"

lemma under_way_more:
  assumes "under_way A B a b w later" and "posted a' = posted a @ new" and "\<forall>m \<in> set new. good_msg m"
    and "w' @ ep_out A (side_conn a') = w @ ep_out A (side_conn a) @ concat (map frame new)"
  shows "under_way A B a' b w' (later @ new)"
proof -
  have "decode (concat (map frame new)) = (new, [], False)"
    using decode_frames [of new "[]"] assms(3) by (auto simp: good_msg_def decode_short)
  then have "decode ((ep_in B (side_conn b) @ w @ ep_out A (side_conn a)) @ concat (map frame new)) = (later @ new, [], False)"
    using assms(1) decode_append [of "ep_in B (side_conn b) @ w @ ep_out A (side_conn a)" later "[]" "concat (map frame new)"]
    by (simp add: under_way_def)
  moreover have "\<forall>m \<in> set (posted a'). good_msg m" using assms(1-3) by (auto simp: under_way_def)
  ultimately show ?thesis using assms(1,2,4) by (simp add: under_way_def)
qed

lemma nothing_under_way: "under_way A B a b [] later \<Longrightarrow> ep_out A (side_conn a) = [] \<Longrightarrow> later = []"
  unfolding under_way_def by (metis append_Nil2 prod.inject)

text \<open>An event of an end: what it posts, what it takes from the messages under way to it, and its application.\<close>

context live_end
begin

text \<open>No piece of what is on the wire can make the end that reads it fail.\<close>

lemma read_under_way:
  assumes "ok (side_conn a)" and "under_way F E b a (bs @ win) later" and "bs \<noteq> []" and "int (length bs) \<le> read_limit"
    and "\<And>ms. prefix ms later \<Longrightarrow>
      int (length (ep_out E (side_conn a))) + int (length (concat (map frame (fst (handle_all (ep_router E) ms (ep_app E (side_conn a))))))) \<le> m8M"
  shows "ep_read E bs (side_conn a) = Some (Inl Exited) \<or> (\<exists>c. ep_read E bs (side_conn a) = Some (Inr c) \<and> ok c)"
proof -
  have dec: "decode (ep_in E (side_conn a)) = ([], ep_in E (side_conn a), False)"
    "decode ((ep_in E (side_conn a) @ bs) @ win @ ep_out F (side_conn b)) = (later, [], False)" "\<forall>m \<in> set later. snd m \<noteq> []"
    using assms(2) by (auto simp: under_way_def good_msg_def)
  obtain ms rest later' where d: "decode (ep_in E (side_conn a) @ bs) = (ms, rest, False)" "later = ms @ later'"
    using decode_prefix [OF dec(2)] by metis
  then have "\<forall>m \<in> set ms. snd m \<noteq> []" using dec(3) by simp
  from read_ok [OF assms(1,3,4) dec(1) d(1) this] assms(5) d(2) show ?thesis by auto
qed

lemma side_step_ok:
  assumes "side_step E (a, win, wout) (a', win', wout')" and "ok (side_conn a)" and "under_way F E b a win later"
  shows "\<exists>new ms later'. ok (side_conn a') \<and> posted a' = posted a @ new \<and> (\<forall>m \<in> set new. good_msg m) \<and> taken a' = taken a @ ms \<and>
    later = ms @ later' \<and> under_way F E b a' win' later' \<and> wout' @ ep_out E (side_conn a') = wout @ ep_out E (side_conn a) @ concat (map frame new) \<and>
    ep_app E (side_conn a') = snd (handle_all (ep_router E) ms (ep_app E (side_conn a))) \<and>
    (ms = [] \<or> new = fst (handle_all (ep_router E) ms (ep_app E (side_conn a))))"
  using assms(1)
proof (cases rule: side_step.cases)
  case (Posts m c)
  then show ?thesis
    using send_ok [OF assms(2), of m] assms(3)
    by (intro exI [of _ "[m]"] exI [of _ "[]"] exI [of _ later]) (auto simp: under_way_def)
next
  case (Writes ks c)
  then show ?thesis
    using write_ok [OF assms(2), of ks] assms(3)
    by (intro exI [of _ "[]"] exI [of _ "[]"] exI [of _ later]) (auto simp: under_way_def)
next
  case (Reads bs ms rest bad out u c)
  have dec: "decode (ep_in E (side_conn a)) = ([], ep_in E (side_conn a), False)"
    "decode ((ep_in E (side_conn a) @ bs) @ win' @ ep_out F (side_conn b)) = (later, [], False)"
    using assms(3) Reads(1) by (simp_all add: under_way_def)
  obtain later' where d: "\<not> bad" "decode (rest @ win' @ ep_out F (side_conn b)) = (later', [], False)" "later = ms @ later'"
    using decode_prefix [OF dec(2)] Reads(6) by (metis prod.inject)
  then have "\<forall>m \<in> set ms. snd m \<noteq> []" using assms(3) by (auto simp: under_way_def good_msg_def)
  from read_ok [OF assms(2) Reads(4,5) dec(1) _ this, of rest] Reads(6-10) d(1)
  have c: "ok c" "ep_in E c = rest" "ep_app E c = u" "ep_out E c = ep_out E (side_conn a) @ concat (map frame out)" by auto
  moreover have "decode rest = ([], rest, False)" using decode_rest Reads(6) d(1) by auto
  ultimately show ?thesis
    using Reads d assms(3) by (intro exI [of _ out] exI [of _ ms] exI [of _ later']) (simp add: under_way_def)
qed

end


text \<open>
  The invariant of a session: both ends are live, both directions flow, the queues reach what is under way,
  and each end's answers to what it has taken are, in order, among its posts.
\<close>

fun session_inv :: "('s, 'a, 'u) endpoint \<Rightarrow> ('t, 'b, 'v) endpoint \<Rightarrow> ('s \<Rightarrow> bool) \<Rightarrow> ('t \<Rightarrow> bool) \<Rightarrow> 'u \<Rightarrow> 'v \<Rightarrow>
    's side \<times> 't side \<times> byte list \<times> byte list \<Rightarrow> bool" where
  "session_inv A B okA okB u v (a, b, up, down) \<longleftrightarrow> okA (side_conn a) \<and> okB (side_conn b) \<and>
     (\<exists>q r. under_way A B a b up q \<and> under_way B A b a down r \<and>
        rtranclp (queue_step (ep_router A) (ep_router B)) (u, v, [], []) (ep_app A (side_conn a), ep_app B (side_conn b), q, r)) \<and>
     ep_app A (side_conn a) = snd (handle_all (ep_router A) (taken a) u) \<and> subseq (fst (handle_all (ep_router A) (taken a) u)) (posted a) \<and>
     ep_app B (side_conn b) = snd (handle_all (ep_router B) (taken b) v) \<and> subseq (fst (handle_all (ep_router B) (taken b) v)) (posted b)"

lemma enqueue1: "rtranclp (queue_step ra rb) (u, v, q, r) (u, v, q @ ms, r)"
proof (induction ms arbitrary: q)
  case (Cons m ms)
  show ?case using converse_rtranclp_into_rtranclp [OF Enqueue1 Cons.IH [of "q @ [m]"]] by simp
qed simp

lemma enqueue2: "rtranclp (queue_step ra rb) (u, v, q, r) (u, v, q, r @ ms)"
proof (induction ms arbitrary: r)
  case (Cons m ms)
  show ?case using converse_rtranclp_into_rtranclp [OF Enqueue2 Cons.IH [of "r @ [m]"]] by simp
qed simp

lemma answers_posted:
  assumes "subseq (fst (handle_all router ts u)) ps" and "x = snd (handle_all router ts u)"
    and "ms = [] \<or> new = fst (handle_all router ms x)"
  shows "subseq (fst (handle_all router (ts @ ms) u)) (ps @ new)"
  using assms by (auto simp: handle_all_append intro: list_emb_append_mono list_emb_prefix)

locale live_session = A: live_end A okA + B: live_end B okB
  for A :: "('s, 'a, 'u) endpoint" and okA and B :: "('t, 'b, 'v) endpoint" and okB
begin

lemma session_step_inv:
  assumes "session_step A B s s'" and "session_inv A B okA okB u v s"
  shows "session_inv A B okA okB u v s'"
  using assms(1)
proof cases
  case (First a down up a' down' up' b)
  obtain q r where inv: "okA (side_conn a)" "okB (side_conn b)" "under_way A B a b up q" "under_way B A b a down r"
      "rtranclp (queue_step (ep_router A) (ep_router B)) (u, v, [], []) (ep_app A (side_conn a), ep_app B (side_conn b), q, r)"
      "ep_app A (side_conn a) = snd (handle_all (ep_router A) (taken a) u)" "subseq (fst (handle_all (ep_router A) (taken a) u)) (posted a)"
      "ep_app B (side_conn b) = snd (handle_all (ep_router B) (taken b) v)" "subseq (fst (handle_all (ep_router B) (taken b) v)) (posted b)"
    using assms(2) First by auto
  obtain new ms r' where new: "okA (side_conn a')" "posted a' = posted a @ new" "\<forall>m \<in> set new. good_msg m" "taken a' = taken a @ ms"
      "r = ms @ r'" "under_way B A b a' down' r'" "up' @ ep_out A (side_conn a') = up @ ep_out A (side_conn a) @ concat (map frame new)"
      "ep_app A (side_conn a') = snd (handle_all (ep_router A) ms (ep_app A (side_conn a)))"
      "ms = [] \<or> new = fst (handle_all (ep_router A) ms (ep_app A (side_conn a)))"
    using A.side_step_ok [OF First(3) inv(1,4)] by blast
  have "under_way A B a' b up' (q @ new)" by (rule under_way_more [OF inv(3) new(2,3,7)])
  moreover have "rtranclp (queue_step (ep_router A) (ep_router B)) (ep_app A (side_conn a), ep_app B (side_conn b), q, r)
      (ep_app A (side_conn a'), ep_app B (side_conn b), q @ new, r')"
    using new(9) handle_queue1 [of "ep_router A" "ep_router B" "ep_app A (side_conn a)" "ep_app B (side_conn b)" q ms r'] new(5,8)
      enqueue1 [of "ep_router A" "ep_router B" "ep_app A (side_conn a)" "ep_app B (side_conn b)" q r new] by auto
  moreover note answers_posted [OF inv(7,6) new(9)]
  ultimately show ?thesis
    unfolding First(2) session_inv.simps using inv new rtranclp_trans [OF inv(5)] by (simp add: handle_all_append) blast
next
  case (Second b up down b' up' down' a)
  obtain q r where inv: "okA (side_conn a)" "okB (side_conn b)" "under_way A B a b up q" "under_way B A b a down r"
      "rtranclp (queue_step (ep_router A) (ep_router B)) (u, v, [], []) (ep_app A (side_conn a), ep_app B (side_conn b), q, r)"
      "ep_app A (side_conn a) = snd (handle_all (ep_router A) (taken a) u)" "subseq (fst (handle_all (ep_router A) (taken a) u)) (posted a)"
      "ep_app B (side_conn b) = snd (handle_all (ep_router B) (taken b) v)" "subseq (fst (handle_all (ep_router B) (taken b) v)) (posted b)"
    using assms(2) Second by auto
  obtain new ms q' where new: "okB (side_conn b')" "posted b' = posted b @ new" "\<forall>m \<in> set new. good_msg m" "taken b' = taken b @ ms"
      "q = ms @ q'" "under_way A B a b' up' q'" "down' @ ep_out B (side_conn b') = down @ ep_out B (side_conn b) @ concat (map frame new)"
      "ep_app B (side_conn b') = snd (handle_all (ep_router B) ms (ep_app B (side_conn b)))"
      "ms = [] \<or> new = fst (handle_all (ep_router B) ms (ep_app B (side_conn b)))"
    using B.side_step_ok [OF Second(3) inv(2,3)] by blast
  have "under_way B A b' a down' (r @ new)" by (rule under_way_more [OF inv(4) new(2,3,7)])
  moreover have "rtranclp (queue_step (ep_router A) (ep_router B)) (ep_app A (side_conn a), ep_app B (side_conn b), q, r)
      (ep_app A (side_conn a), ep_app B (side_conn b'), q', r @ new)"
    using new(9) handle_queue2 [of "ep_router A" "ep_router B" "ep_app A (side_conn a)" "ep_app B (side_conn b)" ms q' r] new(5,8)
      enqueue2 [of "ep_router A" "ep_router B" "ep_app A (side_conn a)" "ep_app B (side_conn b)" q r new] by auto
  moreover note answers_posted [OF inv(9,8) new(9)]
  ultimately show ?thesis
    unfolding Second(2) session_inv.simps using inv new rtranclp_trans [OF inv(5)] by (simp add: handle_all_append) blast
qed

lemma session_inv_start:
  assumes "okA c" and "okB d" and "ep_in A c = []" and "ep_out A c = []" and "ep_in B d = []" and "ep_out B d = []"
  shows "session_inv A B okA okB (ep_app A c) (ep_app B d) (new_side c, new_side d, [], [])"
  using assms by (auto simp: under_way_def new_side_def decode_short intro!: exI [of _ "[]"])

lemma session_inv_reachable:
  assumes "rtranclp (session_step A B) s s'" and "session_inv A B okA okB u v s"
  shows "session_inv A B okA okB u v s'"
  using assms by (induction rule: rtranclp_induct) (auto intro: session_step_inv)

text \<open>What the invariant says of the two ends.\<close>

lemma session_refines:
  assumes "session_inv A B okA okB u v (a, b, up, down)"
  shows "rtranclp (queue_step (ep_router A) (ep_router B)) (u, v, [], [])
      (ep_app A (side_conn a), ep_app B (side_conn b), drop (length (taken b)) (posted a), drop (length (taken a)) (posted b))"
    and "prefix (taken b) (posted a)" and "prefix (taken a) (posted b)"
    and "up = [] \<Longrightarrow> ep_out A (side_conn a) = [] \<Longrightarrow> taken b = posted a"
    and "down = [] \<Longrightarrow> ep_out B (side_conn b) = [] \<Longrightarrow> taken a = posted b"
proof -
  obtain q r where qr: "under_way A B a b up q" "under_way B A b a down r"
      "rtranclp (queue_step (ep_router A) (ep_router B)) (u, v, [], []) (ep_app A (side_conn a), ep_app B (side_conn b), q, r)"
    using assms by auto
  then have eq: "posted a = taken b @ q" "posted b = taken a @ r" by (simp_all add: under_way_def)
  then show "rtranclp (queue_step (ep_router A) (ep_router B)) (u, v, [], [])
      (ep_app A (side_conn a), ep_app B (side_conn b), drop (length (taken b)) (posted a), drop (length (taken a)) (posted b))"
    using qr(3) by simp
  show "prefix (taken b) (posted a)" "prefix (taken a) (posted b)" using eq by simp_all
  show "up = [] \<Longrightarrow> ep_out A (side_conn a) = [] \<Longrightarrow> taken b = posted a"
    using nothing_under_way [of A B a b q] qr(1) eq by simp
  show "down = [] \<Longrightarrow> ep_out B (side_conn b) = [] \<Longrightarrow> taken a = posted b"
    using nothing_under_way [of B A b a r] qr(2) eq by simp
qed

end

text \<open>
  A request and its answer on an idle session: there is a run that takes both through, unless the process
  exits at the pool's limit on the way.
\<close>

fun can_exit :: "('s, 'a, 'u) endpoint \<Rightarrow> ('t, 'b, 'v) endpoint \<Rightarrow> 's side \<times> 't side \<times> byte list \<times> byte list \<Rightarrow> bool" where
  "can_exit A B (a, b, up, down) \<longleftrightarrow>
     (\<exists>m. good_msg m \<and> ep_send A m (side_conn a) = Inl Exited) \<or>
     (\<exists>bs. prefix bs down \<and> ep_read A bs (side_conn a) = Some (Inl Exited)) \<or>
     (\<exists>bs. prefix bs up \<and> ep_read B bs (side_conn b) = Some (Inl Exited))"

lemma frame_fits: "good_msg m \<Longrightarrow> int (length (frame m)) \<le> read_limit \<and> int (length (frame m)) \<le> m8M"
  by (simp add: good_msg_def read_limit_def m8M_def lars_defs)

lemma frame_decoded: "good_msg m \<Longrightarrow> decode (frame m) = ([m], [], False)"
  using decode_frame [of m "[]"] by (simp add: good_msg_def decode_short)

context live_end
begin

lemma post_idle:
  assumes "ok (side_conn a)" and "ep_out E (side_conn a) = []" and "good_msg m"
  shows "ep_send E m (side_conn a) = Inl Exited \<or>
    (\<exists>c. side_step E (a, win, wout) (a\<lparr>side_conn := c, posted := posted a @ [m]\<rparr>, win, wout) \<and> ok c \<and> ep_out E c = frame m \<and>
       ep_in E c = ep_in E (side_conn a) \<and> ep_app E c = ep_app E (side_conn a))"
proof -
  have room: "int (length (ep_out E (side_conn a))) + int (length (frame m)) \<le> m8M" using assms(2) frame_fits [OF assms(3)] by simp
  from send_ok [OF assms(1) room] show ?thesis
    using Posts [OF assms(3) room] assms(2) by fastforce
qed

lemma write_all:
  assumes "ok (side_conn a)" and "ep_out E (side_conn a) = frame m"
  shows "\<exists>c. side_step E (a, win, []) (a\<lparr>side_conn := c\<rparr>, win, frame m) \<and> ok c \<and> ep_out E c = [] \<and>
    ep_in E c = ep_in E (side_conn a) \<and> ep_app E c = ep_app E (side_conn a)"
proof -
  have ks: "\<forall>k \<in> set [length (frame m)]. 0 < k" by simp
  from write_ok [OF assms(1) ks] obtain c where c: "ep_write E [length (frame m)] (side_conn a) = Inr c" "ok c"
      "ep_out E c = []" "ep_in E c = ep_in E (side_conn a)" "ep_app E c = ep_app E (side_conn a)"
    using assms(2) by auto
  then show ?thesis using Writes [OF ks c(1), of win "[]"] assms(2) by auto
qed

lemma read_all:
  assumes "ok (side_conn a)" and "ep_in E (side_conn a) = []" and "ep_out E (side_conn a) = []" and "good_msg m"
    and "handle_all (ep_router E) [m] (ep_app E (side_conn a)) = (out, u)" and "out = [] \<or> out = [r] \<and> good_msg r"
  shows "ep_read E (frame m) (side_conn a) = Some (Inl Exited) \<or>
    (\<exists>c. side_step E (a, frame m, wout) (a\<lparr>side_conn := c, posted := posted a @ out, taken := taken a @ [m]\<rparr>, [], wout) \<and> ok c \<and>
       ep_out E c = concat (map frame out) \<and> ep_in E c = [] \<and> ep_app E c = u)"
proof -
  have dec: "decode (ep_in E (side_conn a)) = ([], ep_in E (side_conn a), False)" "decode (ep_in E (side_conn a) @ frame m) = ([m], [], False)"
    using assms(2) frame_decoded [OF assms(4)] by (simp_all add: decode_short)
  have fits: "frame m \<noteq> []" "int (length (frame m)) \<le> read_limit" "\<forall>x \<in> set [m]. snd x \<noteq> []" "\<forall>x \<in> set out. good_msg x"
    using frame_fits [OF assms(4)] assms(4,6) by (auto simp: good_msg_def)
  have room: "int (length (ep_out E (side_conn a))) + int (length (concat (map frame out))) \<le> m8M"
    using assms(3,6) frame_fits [of r] by (auto simp: m8M_def)
  from read_ok [OF assms(1) fits(1,2) dec fits(3)] room assms(5)
  have "ep_read E (frame m) (side_conn a) = Some (Inl Exited) \<or> (\<exists>c. ep_read E (frame m) (side_conn a) = Some (Inr c) \<and> ok c \<and>
      ep_in E c = [] \<and> ep_app E c = u \<and> ep_out E c = concat (map frame out))" using assms(3) by (simp del: handle_all.simps)
  then show ?thesis
  proof (elim disjE exE conjE)
    fix c
    assume c: "ep_read E (frame m) (side_conn a) = Some (Inr c)" "ok c" "ep_in E c = []" "ep_app E c = u" "ep_out E c = concat (map frame out)"
    from Reads [OF fits(1,2) dec(2) assms(5) fits(4) room c(1), of "[]" wout] c(2-5) show ?thesis by auto
  qed simp
qed

end

context live_session
begin

lemma exchange:
  assumes ok: "okA c" "okB d" and empty: "ep_in A c = []" "ep_out A c = []" "ep_in B d = []" "ep_out B d = []"
    and m: "good_msg m" "handle_all (ep_router B) [m] (ep_app B d) = ([r], v)"
    and r: "good_msg r" "handle_all (ep_router A) [r] (ep_app A c) = ([], u)"
  shows "(\<exists>s. rtranclp (session_step A B) (new_side c, new_side d, [], []) s \<and> can_exit A B s) \<or>
    (\<exists>a b. rtranclp (session_step A B) (new_side c, new_side d, [], []) (a, b, [], []) \<and> posted a = [m] \<and> posted b = [r] \<and>
       ep_out A (side_conn a) = [] \<and> ep_out B (side_conn b) = [])" (is "?exit \<or> ?done")
proof -
  let ?run = "rtranclp (session_step A B) (new_side c, new_side d, [], [])"
  have more: "?run t" if "?run s" "session_step A B s t" for s t using that by (rule rtranclp.rtrancl_into_rtrancl)
  have a0: "okA (side_conn (new_side c))" "ep_out A (side_conn (new_side c)) = []" using ok(1) empty(2) by (simp_all add: new_side_def)
  from A.post_idle [OF a0 m(1), of "[]" "[]"] show ?thesis
  proof (elim disjE exE conjE)
    assume "ep_send A m (side_conn (new_side c)) = Inl Exited"
    then have "can_exit A B (new_side c, new_side d, [], [])" using m(1) by (cases m) auto
    then show ?thesis by blast
  next
    fix c1
    let ?a1 = "new_side c\<lparr>side_conn := c1, posted := posted (new_side c) @ [m]\<rparr>"
    assume s1: "side_step A (new_side c, [], []) (?a1, [], [])" and c1: "okA c1" "ep_out A c1 = frame m"
      "ep_in A c1 = ep_in A (side_conn (new_side c))" "ep_app A c1 = ep_app A (side_conn (new_side c))"
    from c1(1,2) have a1: "okA (side_conn ?a1)" "ep_out A (side_conn ?a1) = frame m" by simp_all
    from A.write_all [OF a1, of "[]"] obtain c2 where s2: "side_step A (?a1, [], []) (?a1\<lparr>side_conn := c2\<rparr>, [], frame m)"
        and c2: "okA c2" "ep_out A c2 = []" "ep_in A c2 = []" "ep_app A c2 = ep_app A c"
      using c1(3,4) empty(1) by (auto simp: new_side_def)
    let ?a2 = "?a1\<lparr>side_conn := c2\<rparr>"
    have run2: "?run (?a2, new_side d, frame m, [])" by (intro more [OF more [OF rtranclp.rtrancl_refl]]) (rule First [OF s1], rule First [OF s2])
    have b0: "okB (side_conn (new_side d))" "ep_in B (side_conn (new_side d)) = []" "ep_out B (side_conn (new_side d)) = []"
      "handle_all (ep_router B) [m] (ep_app B (side_conn (new_side d))) = ([r], v)"
      using ok(2) empty(3,4) m(2) by (simp_all add: new_side_def)
    from B.read_all [OF b0(1-3) m(1) b0(4), of r "[]"] r(1)
    have "ep_read B (frame m) (side_conn (new_side d)) = Some (Inl Exited) \<or>
      (\<exists>d1. side_step B (new_side d, frame m, []) (new_side d\<lparr>side_conn := d1, posted := posted (new_side d) @ [r], taken := taken (new_side d) @ [m]\<rparr>, [], []) \<and>
         okB d1 \<and> ep_out B d1 = frame r)" by auto
    then show ?thesis
    proof (elim disjE exE conjE)
      assume "ep_read B (frame m) (side_conn (new_side d)) = Some (Inl Exited)"
      then have "can_exit A B (?a2, new_side d, frame m, [])" by auto
      then show ?thesis using run2 by blast
    next
      fix d1
      let ?b1 = "new_side d\<lparr>side_conn := d1, posted := posted (new_side d) @ [r], taken := taken (new_side d) @ [m]\<rparr>"
      assume s3: "side_step B (new_side d, frame m, []) (?b1, [], [])" and d1: "okB d1" "ep_out B d1 = frame r"
      from d1 have b1: "okB (side_conn ?b1)" "ep_out B (side_conn ?b1) = frame r" by simp_all
      from B.write_all [OF b1, of "[]"] obtain d2 where s4: "side_step B (?b1, [], []) (?b1\<lparr>side_conn := d2\<rparr>, [], frame r)"
          and d2: "ep_out B d2 = []" by auto
      let ?b2 = "?b1\<lparr>side_conn := d2\<rparr>"
      have run4: "?run (?a2, ?b2, [], frame r)"
        by (intro more [OF more [OF run2]]) (rule Second [OF s3], rule Second [OF s4])
      have "okA (side_conn ?a2)" "ep_in A (side_conn ?a2) = []" "ep_out A (side_conn ?a2) = []"
        "handle_all (ep_router A) [r] (ep_app A (side_conn ?a2)) = ([], u)" using c2 r(2) by simp_all
      from A.read_all [OF this(1-3) r(1) this(4) disjI1 [OF refl], of "[]"] show ?thesis
      proof (elim disjE exE conjE)
        assume "ep_read A (frame r) (side_conn ?a2) = Some (Inl Exited)"
        then have "can_exit A B (?a2, ?b2, [], frame r)" by auto
        then show ?thesis using run4 by blast
      next
        fix c3
        let ?a3 = "?a2\<lparr>side_conn := c3, posted := posted ?a2 @ [], taken := taken ?a2 @ [r]\<rparr>"
        assume s5: "side_step A (?a2, frame r, []) (?a3, [], [])" and "ep_out A c3 = concat (map frame [])"
        then have "posted ?a3 = [m]" "posted ?b2 = [r]" "ep_out A (side_conn ?a3) = []" "ep_out B (side_conn ?b2) = []"
          using d2 by (simp_all add: new_side_def)
        moreover have "?run (?a3, ?b2, [], [])" by (rule more [OF run4 First [OF s5]])
        ultimately show ?thesis by blast
      qed
    qed
  qed
qed

end

interpretation cs: live_session "client_end pollable self start close env ra" "client_ok pollable"
    "server_end pollable' self' hook rb" "server_ok pollable'" for pollable self start close env ra pollable' self' hook rb
  by unfold_locales


declare session_inv.simps [simp del]

lemma session_holds:
  assumes "conn_ok oc c" and "front_in c" and "connected pollable (sockfd c) c" and "in_bytes c = []" and "out_bytes c = []"
    and "conn_ok od d" and "front_in d" and "armed pollable' d" and "in_bytes d = []" and "out_bytes d = []"
    and "rtranclp (session_step (client_end pollable self start close env ra) (server_end pollable' self' hook rb))
      (new_side c, new_side d, [], []) s"
  shows "session_inv (client_end pollable self start close env ra) (server_end pollable' self' hook rb) (client_ok pollable)
    (server_ok pollable') (cli_app c) (app d) s"
proof -
  have "client_ok pollable c" "server_ok pollable' d" using assms(1-3,6-8) by (auto simp: client_ok_def server_ok_def)
  then have "session_inv (client_end pollable self start close env ra) (server_end pollable' self' hook rb) (client_ok pollable)
      (server_ok pollable') (cli_app c) (app d) (new_side c, new_side d, [], [])"
    using cs.session_inv_start [of pollable c pollable' d self start close env ra self' hook rb] assms(4,5,9,10) by simp
  from cs.session_inv_reachable [OF assms(11) this] show ?thesis .
qed

text \<open>
  C5: A client and a server joined by TCP are two queues of messages: whatever both applications send, however
  the sockets cut the bytes, and in whatever order the ends write and read, what each end's callbacks have
  handled is the start of what the other end has posted; the applications are in the state that handling these
  messages one after the other gives; the answers are posted in that order; the session's state is one that the
  queues reach; both ends are watched for input, and for output exactly while they have bytes to write; and when
  a wire and the buffer before it are empty, every message sent that way is handled.
\<close>

theorem session_refines_queues:
  assumes "conn_ok oc c" and "front_in c" and "connected pollable (sockfd c) c" and "in_bytes c = []" and "out_bytes c = []"
    and "conn_ok od d" and "front_in d" and "armed pollable' d" and "in_bytes d = []" and "out_bytes d = []"
    and "rtranclp (session_step (client_end pollable self start close env ra) (server_end pollable' self' hook rb))
      (new_side c, new_side d, [], []) (a, b, up, down)"
  shows "rtranclp (queue_step ra rb) (cli_app c, app d, [], [])
      (cli_app (side_conn a), app (side_conn b), drop (length (taken b)) (posted a), drop (length (taken a)) (posted b)) \<and>
    prefix (taken b) (posted a) \<and> prefix (taken a) (posted b) \<and>
    app (side_conn b) = snd (handle_all rb (taken b) (app d)) \<and> subseq (fst (handle_all rb (taken b) (app d))) (posted b) \<and>
    cli_app (side_conn a) = snd (handle_all ra (taken a) (cli_app c)) \<and> subseq (fst (handle_all ra (taken a) (cli_app c))) (posted a) \<and>
    connected pollable (sockfd (side_conn a)) (side_conn a) \<and> armed pollable' (side_conn b) \<and>
    (up = [] \<longrightarrow> out_bytes (side_conn a) = [] \<longrightarrow> taken b = posted a) \<and>
    (down = [] \<longrightarrow> out_bytes (side_conn b) = [] \<longrightarrow> taken a = posted b)"
  using cs.session_refines [OF session_holds [OF assms]] session_holds [OF assms]
  by (simp add: session_inv.simps client_ok_def server_ok_def)

text \<open>
  C37: No event of a session makes an end fail: in every state a session reaches, sending a message for which
  the largest buffer has room queues its frame behind what is there, writing what the socket takes succeeds,
  and reading any piece of the wire succeeds as long as the answers fit the largest buffer; or the process
  exits in a send or a read, because the pool has reached its limit.
\<close>

theorem session_never_faults:
  assumes "conn_ok oc c" and "front_in c" and "connected pollable (sockfd c) c" and "in_bytes c = []" and "out_bytes c = []"
    and "conn_ok od d" and "front_in d" and "armed pollable' d" and "in_bytes d = []" and "out_bytes d = []"
    and "rtranclp (session_step (client_end pollable self start close env ra) (server_end pollable' self' hook rb))
      (new_side c, new_side d, [], []) (a, b, up, down)"
    and "\<And>ms. prefix ms (drop (length (taken a)) (posted b)) \<Longrightarrow>
      int (length (out_bytes (side_conn a))) + int (length (concat (map frame (fst (handle_all ra ms (cli_app (side_conn a))))))) \<le> m8M"
    and "\<And>ms. prefix ms (drop (length (taken b)) (posted a)) \<Longrightarrow>
      int (length (out_bytes (side_conn b))) + int (length (concat (map frame (fst (handle_all rb ms (app (side_conn b))))))) \<le> m8M"
    and "bs \<noteq> []" and "int (length bs) \<le> read_limit" and "\<forall>k \<in> set ks. 0 < k"
  shows "(prefix bs up \<longrightarrow> conn_do_read pollable' hook (conn_call pollable' self' rb) (Some (int (length bs))) (Io_Bytes bs) (side_conn b)
      \<in> insert (Some (Inl Exited)) (range (Some \<circ> Inr))) \<and>
    (prefix bs down \<longrightarrow> client_do_read pollable start close self env (client_call pollable self ra) (Some (int (length bs))) (Io_Bytes bs) (side_conn a)
      \<in> insert (Some (Inl Exited)) (range (Some \<circ> Inr))) \<and>
    conn_do_write pollable' hook (kernel_writes ks (out_bytes (side_conn b))) (side_conn b) \<in> range Inr \<and>
    client_do_write pollable start close self env (kernel_writes ks (out_bytes (side_conn a))) (side_conn a) \<in> range Inr \<and>
    (int (length (out_bytes (side_conn a))) + int (length (frame (msgid, data))) \<le> m8M \<longrightarrow>
      client_send_message pollable self data msgid (side_conn a) = Inl Exited \<or>
      (\<exists>c'. client_send_message pollable self data msgid (side_conn a) = Inr (0, c') \<and>
         out_bytes c' = out_bytes (side_conn a) @ frame (msgid, data))) \<and>
    (int (length (out_bytes (side_conn b))) + int (length (frame (msgid, data))) \<le> m8M \<longrightarrow>
      conn_send_message pollable' self' data msgid (side_conn b) = Inl Exited \<or>
      (\<exists>d'. conn_send_message pollable' self' data msgid (side_conn b) = Inr (0, d') \<and>
         out_bytes d' = out_bytes (side_conn b) @ frame (msgid, data)))"
proof -
  let ?A = "client_end pollable self start close env ra" and ?B = "server_end pollable' self' hook rb"
  obtain q r where inv: "client_ok pollable (side_conn a)" "server_ok pollable' (side_conn b)" "under_way ?A ?B a b up q" "under_way ?B ?A b a down r"
    using session_holds [OF assms(1-11)] by (auto simp: session_inv.simps)
  then have qr: "drop (length (taken b)) (posted a) = q" "drop (length (taken a)) (posted b) = r" by (simp_all add: under_way_def)
  have "ep_read ?B bs (side_conn b) \<in> insert (Some (Inl Exited)) (range (Some \<circ> Inr))" if part: "prefix bs up"
  proof -
    obtain w where "up = bs @ w" using part by (auto simp: prefix_def)
    with inv(3) have "under_way ?A ?B a b (bs @ w) q" by simp
    from sv.read_under_way [OF inv(2) this assms(14,15)] assms(13) qr(1) show ?thesis by auto
  qed
  moreover have "ep_read ?A bs (side_conn a) \<in> insert (Some (Inl Exited)) (range (Some \<circ> Inr))" if part: "prefix bs down"
  proof -
    obtain w where "down = bs @ w" using part by (auto simp: prefix_def)
    with inv(4) have "under_way ?B ?A b a (bs @ w) r" by simp
    from ce.read_under_way [OF inv(1) this assms(14,15)] assms(12) qr(2) show ?thesis by auto
  qed
  moreover have "ep_write ?B ks (side_conn b) \<in> range Inr" "ep_write ?A ks (side_conn a) \<in> range Inr"
    using sv.write_ok [OF inv(2) assms(16)] ce.write_ok [OF inv(1) assms(16)] by blast+
  moreover have "client_send_message pollable self data msgid (side_conn a) = Inl Exited \<or>
      (\<exists>c'. client_send_message pollable self data msgid (side_conn a) = Inr (0, c') \<and> out_bytes c' = out_bytes (side_conn a) @ frame (msgid, data))"
    if "int (length (out_bytes (side_conn a))) + int (length (frame (msgid, data))) \<le> m8M"
    using inv(1) client_send_message_ok [OF _ that] unfolding client_ok_def by blast
  moreover have "conn_send_message pollable' self' data msgid (side_conn b) = Inl Exited \<or>
      (\<exists>d'. conn_send_message pollable' self' data msgid (side_conn b) = Inr (0, d') \<and> out_bytes d' = out_bytes (side_conn b) @ frame (msgid, data))"
    if "int (length (out_bytes (side_conn b))) + int (length (frame (msgid, data))) \<le> m8M"
    using inv(2) conn_send_message_ok [OF _ _ that] unfolding server_ok_def by blast
  ultimately show ?thesis by simp
qed


subsection \<open>A concrete session\<close>

text \<open>The client has sent one message and the socket has taken all of it.\<close>

definition ex_client_end :: "((unit, unit) tcp_client, unit, unit) endpoint" where
  "ex_client_end = client_end (\<lambda>_. True) 0 None None ex_env echo_router"

definition ex_server_end :: "((unit, unit) tcp_conn, unit, unit) endpoint" where
  "ex_server_end = server_end (\<lambda>_. True) 0 None echo_router"

lemma ex_joined_input: "in_bytes (ex_joined None (ex_pool Map.empty) u) = []" "front_in (ex_joined None (ex_pool Map.empty) u)"
  "sockfd (ex_joined None (ex_pool Map.empty) u) = 5" "cli_app (ex_joined None (ex_pool Map.empty) u) = u"
  by (simp_all add: in_bytes_def front_in_def at_front_def ex_joined_def ex_client_def rb_content_def)

lemma ex_session:
  "client_send_to (\<lambda>_. True) 0 (3, [7]) (ex_joined None (ex_pool Map.empty) ()) = Inl Exited \<or>
   (\<exists>a. rtranclp (session_step ex_client_end ex_server_end)
      (new_side (ex_joined None (ex_pool Map.empty) ()), new_side (ex_conn None (ex_pool Map.empty) ()), [], [])
      (a, new_side (ex_conn None (ex_pool Map.empty) ()), frame (3, [7]), []) \<and>
     posted a = [(3, [7])] \<and> taken a = [] \<and> out_bytes (side_conn a) = [])"
proof -
  let ?c = "ex_joined None (ex_pool Map.empty) ()" and ?d = "ex_conn None (ex_pool Map.empty) ()"
  note c = ex_client_ok [OF ex_pool_empty, of "()"] ex_joined_input [of "()"]
  have ok: "client_ok (\<lambda>_. True) ?c" using c by (auto simp: client_ok_def)
  have sel: "ep_out ex_client_end = out_bytes" "ep_send ex_client_end = client_send_to (\<lambda>_. True) 0" by (simp_all add: ex_client_end_def)
  have room: "int (length (ep_out ex_client_end ?c)) + int (length (frame (3, [7]))) \<le> m8M" using c(5) by (simp add: sel m8M_def)
  from ce.send_ok [OF ok, of 0 None None ex_env echo_router "(3, [7])", folded ex_client_end_def, OF room] show ?thesis
  proof (elim disjE exE conjE)
    fix c1
    assume c1: "ep_send ex_client_end (3, [7]) ?c = Inr c1" "client_ok (\<lambda>_. True) c1" "ep_out ex_client_end c1 = ep_out ex_client_end ?c @ frame (3, [7])"
    let ?a1 = "new_side ?c\<lparr>side_conn := c1, posted := [(3, [7])]\<rparr>"
    have one: "side_step ex_client_end (new_side ?c, [], []) (?a1, [], [])"
      using Posts [of "(3, [7])" ex_client_end "new_side ?c" c1 "[]" "[]"] c1(1) room
      by (simp add: new_side_def good_msg_def lars_defs)
    obtain c2 where c2: "ep_write ex_client_end [9] c1 = Inr c2" "ep_out ex_client_end c2 = []"
      using ce.write_ok [OF c1(2), of "[9]" 0 None None ex_env echo_router, folded ex_client_end_def] c1(3) c(5) by (auto simp: sel)
    have "side_step ex_client_end (?a1, [], []) (?a1\<lparr>side_conn := c2\<rparr>, [], frame (3, [7]))"
      using Writes [of "[9]" ex_client_end ?a1 c2 "[]" "[]"] c2(1) c1(3) c(5) by (simp add: sel)
    with one have "rtranclp (session_step ex_client_end ex_server_end) (new_side ?c, new_side ?d, [], [])
        (?a1\<lparr>side_conn := c2\<rparr>, new_side ?d, frame (3, [7]), [])"
      by (meson First converse_rtranclp_into_rtranclp r_into_rtranclp)
    then show ?thesis using c2(2) by (intro disjI2 exI [of _ "?a1\<lparr>side_conn := c2\<rparr>"]) (simp add: sel new_side_def)
  qed (simp add: sel)
qed

theorem session_refines_queues_witness:
  "client_send_to (\<lambda>_. True) 0 (3, [7]) (ex_joined None (ex_pool Map.empty) ()) = Inl Exited \<or>
   (\<exists>a. rtranclp (session_step ex_client_end ex_server_end)
      (new_side (ex_joined None (ex_pool Map.empty) ()), new_side (ex_conn None (ex_pool Map.empty) ()), [], [])
      (a, new_side (ex_conn None (ex_pool Map.empty) ()), frame (3, [7]), []) \<and>
     rtranclp (queue_step echo_router echo_router) ((), (), [], []) ((), (), [(3, [7])], []))"
  using ex_session
proof (elim disjE exE conjE)
  fix a
  assume a: "rtranclp (session_step ex_client_end ex_server_end)
      (new_side (ex_joined None (ex_pool Map.empty) ()), new_side (ex_conn None (ex_pool Map.empty) ()), [], [])
      (a, new_side (ex_conn None (ex_pool Map.empty) ()), frame (3, [7]), [])" "posted a = [(3, [7])]" "taken a = []"
  have "connected (\<lambda>_. True) (sockfd (ex_joined None (ex_pool Map.empty) ())) (ex_joined None (ex_pool Map.empty) ())"
    using ex_client_ok(4) [OF ex_pool_empty] by (simp add: ex_joined_input)
  from session_refines_queues [OF ex_client_ok(2) [OF ex_pool_empty] ex_joined_input(2) this ex_joined_input(1) ex_client_ok(5) [OF ex_pool_empty]
      ex_conn_ok a(1) [unfolded ex_client_end_def ex_server_end_def]] a
  show ?thesis by (auto simp: new_side_def)
qed simp

theorem session_never_faults_witness:
  "client_send_to (\<lambda>_. True) 0 (3, [7]) (ex_joined None (ex_pool Map.empty) ()) = Inl Exited \<or>
   conn_do_read (\<lambda>_. True) None (conn_call (\<lambda>_. True) 0 echo_router) (Some 5) (Io_Bytes (take 5 (frame (3, [7]))))
     (ex_conn None (ex_pool Map.empty) ()) \<in> insert (Some (Inl Exited)) (range (Some \<circ> Inr)) \<and>
   (conn_send_message (\<lambda>_. True) 0 [9] 4 (ex_conn None (ex_pool Map.empty) ()) = Inl Exited \<or>
    (\<exists>d'. conn_send_message (\<lambda>_. True) 0 [9] 4 (ex_conn None (ex_pool Map.empty) ()) = Inr (0, d') \<and> out_bytes d' = frame (4, [9])))"
  using ex_session
proof (elim disjE exE conjE)
  fix a
  assume a: "rtranclp (session_step ex_client_end ex_server_end)
      (new_side (ex_joined None (ex_pool Map.empty) ()), new_side (ex_conn None (ex_pool Map.empty) ()), [], [])
      (a, new_side (ex_conn None (ex_pool Map.empty) ()), frame (3, [7]), [])" "posted a = [(3, [7])]" "taken a = []" "out_bytes (side_conn a) = []"
  let ?bs = "take 5 (frame (3, [7]))"
  have conn: "connected (\<lambda>_. True) (sockfd (ex_joined None (ex_pool Map.empty) ())) (ex_joined None (ex_pool Map.empty) ())"
    using ex_client_ok(4) [OF ex_pool_empty] by (simp add: ex_joined_input)
  have "out_bytes (side_conn (new_side (ex_conn None (ex_pool Map.empty) ()))) = []" by (simp add: new_side_def ex_conn_ok)
  moreover have "ms = [] \<or> ms = [(3, [7])]" if "prefix ms [(3, [7 :: byte])]" for ms :: "msg list"
    using that by (cases ms) (auto simp: prefix_Cons)
  ultimately have rooms: "\<And>ms. prefix ms (drop (length (taken a)) (posted (new_side (ex_conn None (ex_pool Map.empty) ())))) \<Longrightarrow>
      int (length (out_bytes (side_conn a))) + int (length (concat (map frame (fst (handle_all echo_router ms (cli_app (side_conn a))))))) \<le> m8M"
    "\<And>ms. prefix ms (drop (length (taken (new_side (ex_conn None (ex_pool Map.empty) ())))) (posted a)) \<Longrightarrow>
      int (length (out_bytes (side_conn (new_side (ex_conn None (ex_pool Map.empty) ()))))) +
      int (length (concat (map frame (fst (handle_all echo_router ms (app (side_conn (new_side (ex_conn None (ex_pool Map.empty) ()))))))))) \<le> m8M"
    using a(2-4) by (fastforce simp: new_side_def handled_echo m8M_def)+
  have "?bs \<noteq> []" "int (length ?bs) \<le> read_limit" "prefix ?bs (frame (3, [7]))" "length ?bs = 5"
    by (simp_all add: read_limit_def m8M_def lars_defs take_is_prefix)
  with session_never_faults [OF ex_client_ok(2) [OF ex_pool_empty] ex_joined_input(2) conn ex_joined_input(1) ex_client_ok(5) [OF ex_pool_empty]
      ex_conn_ok a(1) [unfolded ex_client_end_def ex_server_end_def] rooms(1) rooms(2), of ?bs "[]" 4 "[9]"]
  show ?thesis by (simp add: new_side_def ex_conn_ok m8M_def)
qed simp

end
