(* ===== verification/Qps_Example.thy ===== *)
theory Qps_Example
  imports Echo_Pb Session Tcp_Server
begin

text \<open>
  The throughput example (\<open>lars_reactor/example/qps_test/server.cpp\<close>, \<open>client.cpp\<close>): the server answers an
  echo message with its contents, the client counts the answers that came back unchanged, prints the
  count when a second has passed, and asks again with the next number. What \<open>time\<close> returns at its \<open>n\<close>-th
  call is \<open>clock n\<close>; \<open>left data\<close> is the message a refused parse leaves.
\<close>

subsection \<open>The server\<close>

definition qps_callback_busi :: "pb_runtime \<Rightarrow> text_runtime \<Rightarrow> (byte list \<Rightarrow> EchoMessage_pb) \<Rightarrow> (unit, 'u) handler" where
  "qps_callback_busi rt tx left arg msgid data u =
     (let request = (case EchoMessage_ParseFromArray rt tx data EchoMessage_default of None \<Rightarrow> left data | Some m \<Rightarrow> m);
          response = EchoMessage_set_content (echo_content request) (EchoMessage_set_id (echo_id request) EchoMessage_default)
      in ([(msgid, EchoMessage_InternalSerialize rt tx response)], u))"

definition qps_server_router :: "pb_runtime \<Rightarrow> text_runtime \<Rightarrow> (byte list \<Rightarrow> EchoMessage_pb) \<Rightarrow> ((unit, 'u) handler, unit) msg_router" where
  "qps_server_router rt tx left = add_msg_router 1 (qps_callback_busi rt tx left) None new_msg_router"

subsection \<open>The client\<close>

text \<open>\<open>Qps\<close>, with what \<open>printf\<close> has shown and how often the clock was read.\<close>

record qps =
  last_time :: int
  succ_cnt :: int32
  printed :: "int32 list"
  ticks :: nat

definition new_qps :: "(nat \<Rightarrow> int) \<Rightarrow> qps" where
  "new_qps clock = \<lparr>last_time = clock 0, succ_cnt = 0, printed = [], ticks = 1\<rparr>"

definition hello :: "byte list" where
  "hello = ascii ''hello server!''"

definition qps_busi :: "pb_runtime \<Rightarrow> text_runtime \<Rightarrow> (nat \<Rightarrow> int) \<Rightarrow> (unit, qps) handler" where
  "qps_busi rt tx clock arg msgid data q =
     (case EchoMessage_ParseFromArray rt tx data EchoMessage_default of
        None \<Rightarrow> ([], q)
      | Some response \<Rightarrow>
          (let q = (if echo_content response = hello then q\<lparr>succ_cnt := succ_cnt q + 1\<rparr> else q);
               current_time = clock (ticks q); q = q\<lparr>ticks := ticks q + 1\<rparr>;
               q = (if current_time - last_time q \<ge> 1
                    then q\<lparr>printed := printed q @ [succ_cnt q], last_time := current_time, succ_cnt := 0\<rparr> else q);
               request = EchoMessage_set_content (echo_content response) (EchoMessage_set_id (echo_id response + 1) EchoMessage_default)
           in ([(msgid, EchoMessage_InternalSerialize rt tx request)], q)))"

definition qps_client_router :: "pb_runtime \<Rightarrow> text_runtime \<Rightarrow> (nat \<Rightarrow> int) \<Rightarrow> ((unit, qps) handler, unit) msg_router" where
  "qps_client_router rt tx clock = client_add_msg_router 1 (qps_busi rt tx clock) None new_msg_router"

definition qps_conn_start :: "(int32 \<Rightarrow> bool) \<Rightarrow> pb_runtime \<Rightarrow> text_runtime \<Rightarrow> addr \<Rightarrow> ('task, qps) client_hook" where
  "qps_conn_start pollable rt tx self =
     Some (\<lambda>client.
       (let request = EchoMessage_set_content hello (EchoMessage_set_id 1 EchoMessage_default)
        in res_bind (client_send_message pollable self (EchoMessage_InternalSerialize rt tx request) 1 client) (\<lambda>(_, client). Inr client)))"

subsection \<open>Client and server together\<close>

definition qps_message :: "pb_runtime \<Rightarrow> text_runtime \<Rightarrow> int32 \<Rightarrow> msg" where
  "qps_message rt tx i = (1, EchoMessage_InternalSerialize rt tx \<lparr>echo_content = hello, echo_id = i, echo_unknown = []\<rparr>)"

text \<open>A round: the server handles what the client sent, the client what the server answered.\<close>

definition qps_round :: "pb_runtime \<Rightarrow> text_runtime \<Rightarrow> (byte list \<Rightarrow> EchoMessage_pb) \<Rightarrow> (nat \<Rightarrow> int) \<Rightarrow> msg list \<times> qps \<Rightarrow> msg list \<times> qps" where
  "qps_round rt tx left clock s =
     (case s of (requests, q) \<Rightarrow>
        handle_all (qps_client_router rt tx clock) (fst (handle_all (qps_server_router rt tx left) requests ())) q)"

lemma router_handles [simp]:
  "handled (add_msg_router i h None new_msg_router) i b u = h None i b u"
  "handled (client_add_msg_router i h None new_msg_router) i b u = h None i b u"
  by (simp_all add: handled_def add_msg_router_def client_add_msg_router_def regist_msg_router_def new_msg_router_def)

lemma length_hello: "length hello < 2 ^ 31" "hello \<noteq> []"
  by (simp_all add: hello_def ascii_def)

lemma qps_parsed:
  assumes "text_format rt tx" and "VerifyUTF8 tx hello"
  shows "EchoMessage_ParseFromArray rt tx (EchoMessage_InternalSerialize rt tx \<lparr>echo_content = hello, echo_id = i, echo_unknown = []\<rparr>) m =
    Some \<lparr>echo_content = hello, echo_id = i, echo_unknown = []\<rparr>"
  using echo_parsed [OF assms(1) length_hello(1), of i m] assms(2) by simp

lemma qps_filled:
  "EchoMessage_set_content hello (EchoMessage_set_id i EchoMessage_default) = \<lparr>echo_content = hello, echo_id = i, echo_unknown = []\<rparr>"
  by (simp add: EchoMessage_set_content_def EchoMessage_set_id_def EchoMessage_default_def)

lemma server_echoes:
  assumes "text_format rt tx" and "VerifyUTF8 tx hello"
  shows "handle_all (qps_server_router rt tx left) [qps_message rt tx i] () = ([qps_message rt tx i], ())"
  by (simp add: qps_message_def qps_server_router_def qps_callback_busi_def qps_parsed [OF assms] qps_filled)

lemma client_asks_again:
  assumes "text_format rt tx" and "VerifyUTF8 tx hello"
  shows "\<exists>q'. handle_all (qps_client_router rt tx clock) [qps_message rt tx i] q = ([qps_message rt tx (i + 1)], q') \<and>
    ticks q' = Suc (ticks q) \<and> sum_list (printed q') + succ_cnt q' = sum_list (printed q) + succ_cnt q + 1 \<and>
    (printed q' = printed q \<longleftrightarrow> clock (ticks q) - last_time q < 1)"
  by (simp add: qps_message_def qps_client_router_def qps_busi_def qps_parsed [OF assms] qps_filled Let_def)

text \<open>The first request, which the hook queues when the client has connected.\<close>

lemma qps_conn_start_queues:
  assumes "conn_ok others c" and "int (length (out_bytes c)) + int (length (frame (qps_message rt tx 1))) \<le> m8M"
  shows "call_client_hook (qps_conn_start pollable rt tx self) c = Inl Exited \<or>
    (\<exists>c'. call_client_hook (qps_conn_start pollable rt tx self) c = Inr c' \<and> out_bytes c' = out_bytes c @ frame (qps_message rt tx 1) \<and>
       cli_app c' = cli_app c)"
proof -
  have "int (length (out_bytes c)) + int (length (frame (1, EchoMessage_InternalSerialize rt tx
      (EchoMessage_set_content hello (EchoMessage_set_id 1 EchoMessage_default))))) \<le> m8M"
    using assms(2) by (simp add: qps_message_def qps_filled)
  from client_send_message_ok [OF assms(1) this, of pollable self] show ?thesis
    by (auto simp: qps_conn_start_def qps_message_def qps_filled)
qed

lemma qps_round_one:
  assumes "text_format rt tx" and "VerifyUTF8 tx hello"
  shows "qps_round rt tx left clock ([qps_message rt tx i], q) = handle_all (qps_client_router rt tx clock) [qps_message rt tx i] q"
  by (simp add: qps_round_def server_echoes [OF assms] del: handle_all.simps)

text \<open>
  C35: The throughput example keeps exactly one request on its way and counts every answer once: after
  \<open>n\<close> rounds of the server's and the client's handlers the client's next request is the greeting with the
  number \<open>n + 1\<close>, the rates it has printed and the count it holds add up to \<open>n\<close>, and it has read the clock
  once more for each round.
\<close>

theorem qps_rounds:
  assumes "text_format rt tx" and "VerifyUTF8 tx hello"
  shows "\<exists>q. (qps_round rt tx left clock ^^ n) ([qps_message rt tx 1], new_qps clock) = ([qps_message rt tx (1 + word_of_nat n)], q) \<and>
    sum_list (printed q) + succ_cnt q = word_of_nat n \<and> ticks q = Suc n"
proof (induction n)
  case (Suc n)
  then obtain q where q: "(qps_round rt tx left clock ^^ n) ([qps_message rt tx 1], new_qps clock) = ([qps_message rt tx (1 + word_of_nat n)], q)"
      "sum_list (printed q) + succ_cnt q = word_of_nat n" "ticks q = Suc n"
    by blast
  obtain q' where "handle_all (qps_client_router rt tx clock) [qps_message rt tx (1 + word_of_nat n)] q =
        ([qps_message rt tx (1 + word_of_nat n + 1)], q')"
      "ticks q' = Suc (ticks q)" "sum_list (printed q') + succ_cnt q' = sum_list (printed q) + succ_cnt q + 1"
    using client_asks_again [OF assms] by blast
  then show ?case
    using q by (intro exI [of _ q']) (simp add: qps_round_one [OF assms] add.commute add.left_commute del: handle_all.simps)
qed (simp add: new_qps_def)

theorem qps_rounds_witness:
  "\<exists>q. (qps_round pb_wire text_wire (\<lambda>_. EchoMessage_default) (\<lambda>n. int n) ^^ 2) ([qps_message pb_wire text_wire 1], new_qps (\<lambda>n. int n)) =
     ([qps_message pb_wire text_wire 3], q) \<and> sum_list (printed q) + succ_cnt q = 2 \<and> ticks q = 3"
proof -
  have "VerifyUTF8 text_wire hello" by (simp add: text_wire_def hello_def ascii_def)
  from qps_rounds [OF tw.text_format_axioms this, where left = "\<lambda>_. EchoMessage_default" and clock = "\<lambda>n. int n" and n = 2] show ?thesis
    by (simp add: numeral_3_eq_3)
qed

end
