(* ===== verification/Examples.thy ===== *)
theory Examples
  imports Dns_Server Pb_Build Reporter Lars_Api Udp Qps_Example
begin

text \<open>
  The other example and test programs: the TCP and UDP examples of \<open>lars_reactor/example\<close>, the test clients
  of the DNS service and of the reporter, and the example of the client library. They are small, and they
  say what the components behind them promise in one concrete run.
\<close>

subsection \<open>The TCP example\<close>

text \<open>
  \<open>server.cpp\<close>: what \<open>print_busi\<close> is given to print is the application's state. Its \<open>printf\<close> reads the bytes
  as a string although nothing terminates them; what it shows behind them is not modelled.
\<close>

definition echo_busi :: "(unit, 'u) handler" where
  "echo_busi arg msgid data u = ([(msgid, data)], u)"

definition print_busi :: "(unit, (byte list \<times> int32 \<times> nat) list) handler" where
  "print_busi arg msgid data u = ([], u @ [(data, msgid, length data)])"

definition example_router :: "((unit, (byte list \<times> int32 \<times> nat) list) handler, unit) msg_router" where
  "example_router = add_msg_router 2 print_busi None (add_msg_router 1 echo_busi None new_msg_router)"

text \<open>
  The task greets the connections of the loop it runs on; \<open>ordf\<close> is the order of the hash set. The hook, on
  a worker's thread, welcomes the new connection and gives the task to all workers.
\<close>

definition print_lars_task :: "(int32 \<Rightarrow> bool) \<Rightarrow> (int32 set \<Rightarrow> int32 list) \<Rightarrow> nat option \<Rightarrow> ('task, 'u) reactor \<Rightarrow> ('task, 'u) reactor res" where
  "print_lars_task pollable ordf l r =
     res_fold (\<lambda>fd r.
       if sint fd < 0 \<or> int (length (conns (tab r))) \<le> sint fd then Inl Out_Of_Bounds
       else (case conns (tab r) ! nat (sint fd) of
               None \<Rightarrow> Inr r
             | Some conn \<Rightarrow> res_bind (obj_send_message pollable conn (ascii ''Hello I am a Task!'') 404 r) (\<lambda>(_, r). Inr r)))
       (ordf (get_listen_fds (loop_at l r))) r"

definition after_conn_succ :: "(int32 \<Rightarrow> bool) \<Rightarrow> 'task \<Rightarrow> addr \<Rightarrow> ('task, 'u) reactor \<Rightarrow> ('task, 'u) reactor res" where
  "after_conn_succ pollable task conn r =
     res_bind (obj_send_message pollable conn (ascii ''welcome FHY client!...'') 101 r) (\<lambda>(_, r).
       (case workers r of
          None \<Rightarrow> Inl Null_Deref
        | Some tp \<Rightarrow> res_bind (send_task task None tp) (\<lambda>tp. Inr (r\<lparr>workers := Some tp\<rparr>))))"

text \<open>\<open>client.cpp\<close>: two messages when the client has connected.\<close>

definition hello_server :: "byte list" where
  "hello_server = ascii ''hello server, I am FHY!''"

definition nice_to_meet :: "byte list" where
  "nice_to_meet = ascii ''hello server, my name is FHY! nice to meet you!''"

definition example_conn_succ :: "(int32 \<Rightarrow> bool) \<Rightarrow> addr \<Rightarrow> ('task, 'u) client_hook" where
  "example_conn_succ pollable self =
     Some (\<lambda>conn.
       res_bind (client_send_message pollable self hello_server 1 conn) (\<lambda>(_, conn).
       res_bind (client_send_message pollable self nice_to_meet 2 conn) (\<lambda>(_, conn). Inr conn)))"

text \<open>The first is echoed, the second printed.\<close>

lemma example_session:
  "handle_all example_router [(1, hello_server), (2, nice_to_meet)] out = ([(1, hello_server)], out @ [(nice_to_meet, 2, 47)])"
  by (simp add: example_router_def add_msg_router_def regist_msg_router_def new_msg_router_def handled_def echo_busi_def print_busi_def
      nice_to_meet_def)

lemma example_client_queues:
  assumes "conn_ok others c" and "out_bytes c = []"
  shows "call_client_hook (example_conn_succ pollable self) c = Inl Exited \<or>
    (\<exists>c'. call_client_hook (example_conn_succ pollable self) c = Inr c' \<and>
       out_bytes c' = frame (1, hello_server) @ frame (2, nice_to_meet))"
proof -
  have "int (length (out_bytes c)) + int (length (frame (1, hello_server))) \<le> m8M"
    using assms(2) by (simp add: hello_server_def m8M_def)
  from client_send_message_ok [OF assms(1) this, of pollable self] show ?thesis
  proof (elim disjE exE conjE)
    fix c1
    assume c1: "client_send_message pollable self hello_server 1 c = Inr (0, c1)" "conn_ok others c1"
      "out_bytes c1 = out_bytes c @ frame (1, hello_server)"
    have "int (length (out_bytes c1)) + int (length (frame (2, nice_to_meet))) \<le> m8M"
      using assms(2) c1(3) by (simp add: hello_server_def nice_to_meet_def m8M_def)
    from client_send_message_ok [OF c1(2) this, of pollable self] show ?thesis
      using c1 assms(2) by (auto simp: example_conn_succ_def)
  qed (simp add: example_conn_succ_def)
qed

text \<open>
  In the example server, when a connection is opened and its hook runs, the welcome is queued on that
  connection alone and the task waits in the queue of every worker thread.
\<close>

lemma welcome_and_task:
  assumes inv: "server_inv pollable J todo r" and a: "open_at r a ob" and tp: "workers r = Some tp" and wf: "pool_wf tp"
    and room: "int (length (out_bytes (load_conn ob r))) + int (length (frame (101, ascii ''welcome FHY client!...''))) \<le> m8M"
  shows "after_conn_succ pollable task a r = Inl Exited \<or>
    (\<exists>r' ob' tp'. after_conn_succ pollable task a r = Inr r' \<and> open_at r' a ob' \<and>
       out_bytes (load_conn ob' r') = out_bytes (load_conn ob r) @ frame (101, ascii ''welcome FHY client!...'') \<and>
       workers r' = Some tp' \<and> (\<forall>j < length (tp_queues tp). tq_queue (tp_queues tp' ! j) = tq_queue (tp_queues tp ! j) @ [NEW_TASK task None]))"
proof -
  from obj_send_ok [OF inv a room] show ?thesis
  proof (elim disjE exE conjE)
    fix r1
    assume r1: "obj_send_message pollable a (ascii ''welcome FHY client!...'') 101 r = Inr (0, r1)"
      "sent_on a ob (frame (101, ascii ''welcome FHY client!...'')) r r1"
    have "workers r1 = Some tp"
      using r1(1) tp by (auto simp: obj_send_message_def res_bind_eq_Inr split: option.splits)
    moreover obtain tp' where "send_task task None tp = Inr tp'"
        "\<forall>j < length (tp_queues tp). tq_queue (tp_queues tp' ! j) = tq_queue (tp_queues tp ! j) @ [NEW_TASK task None]"
      using send_task_ok [OF wf] by blast
    moreover obtain ob' where "open_at r1 a ob'" "out_bytes (load_conn ob' r1) = out_bytes (load_conn ob r) @ frame (101, ascii ''welcome FHY client!...'')"
      using r1(2) by (auto simp: sent_on_def)
    ultimately show ?thesis
      using r1(1)
      by (intro disjI2 exI [of _ "r1\<lparr>workers := Some tp'\<rparr>"] exI [of _ ob'] exI [of _ tp'])
        (simp add: after_conn_succ_def open_at_def out_bytes_def loop_at_def cong: option.case_cong)
  qed (simp add: after_conn_succ_def)
qed

subsection \<open>The UDP example\<close>

definition udp_callback_busi where
  "udp_callback_busi send_ok stack msgid data u =
     res_bind (udp_server_send_message send_ok (stack u) data msgid u) (\<lambda>(_, u). Inr u)"

definition udp_example_client where
  "udp_example_client pollable cb self sock connect_ok server garbage u el send_ok =
     res_bind (new_udp_client pollable cb self sock connect_ok server garbage u el) (\<lambda>(client, el).
     res_bind (udp_client_send_message send_ok hello 1 client) (\<lambda>(_, client). Inr (client, el)))"

subsection \<open>The test client of the DNS service\<close>

text \<open>\<open>dns_test.cpp\<close>. \<open>argv\<close> ends with a null pointer, which \<open>atoi\<close> must not be given; \<open>short\<close> cuts the port.\<close>

fun parse_options :: "string list \<Rightarrow> string option \<times> 16 word \<Rightarrow> (string option \<times> 16 word) res" where
  "parse_options [] opt = Inr opt"
| "parse_options (arg # args) (ip, port) =
     (if arg = ''-h'' then parse_options args (case args of [] \<Rightarrow> None | a # _ \<Rightarrow> Some a, port)
      else if arg = ''-p'' then (case args of [] \<Rightarrow> Inl Null_Deref | a # _ \<Rightarrow> parse_options args (ip, ucast (atoi a)))
      else parse_options args (ip, port))"

definition parseOption :: "string list \<Rightarrow> (string \<times> 16 word) res" where
  "parseOption argv =
     res_bind (parse_options argv (None, 0)) (\<lambda>(ip, port).
       (case ip of None \<Rightarrow> Inl Exited | Some ip \<Rightarrow> if port = 0 then Inl Exited else Inr (ip, port)))"

definition dns_test_request :: "pb_runtime \<Rightarrow> msg" where
  "dns_test_request rt =
     (ID_GetRouteRequest, GetRouteRequest_InternalSerialize rt (GetRouteRequest_set_cmdid 1 (GetRouteRequest_set_modid 1 GetRouteRequest_default)))"

definition dns_test_after_conn :: "(int32 \<Rightarrow> bool) \<Rightarrow> pb_runtime \<Rightarrow> addr \<Rightarrow> ('task, 'u) client_hook" where
  "dns_test_after_conn pollable rt self =
     Some (\<lambda>conn. res_bind (client_send_message pollable self (snd (dns_test_request rt)) (fst (dns_test_request rt)) conn) (\<lambda>(_, conn). Inr conn))"

text \<open>What \<open>deal_get_route\<close> prints.\<close>

datatype printed_route = Printed_Pair int32 int32 int | Printed_Host uint32 int32

definition deal_get_route :: "pb_runtime \<Rightarrow> (byte list \<Rightarrow> GetRouteResponse_pb) \<Rightarrow> (unit, printed_route list) handler" where
  "deal_get_route rt left arg msgid data out =
     (let rsp = (case ParseFromArray GetRouteResponse_Clear (GetRouteResponse_InternalParse rt) data GetRouteResponse_default of
                   None \<Rightarrow> left data | Some m \<Rightarrow> m)
      in ([], out @ Printed_Pair (gr_modid rsp) (gr_cmdid rsp) (int (GetRouteResponse_host_size rsp)) #
            map (\<lambda>h. Printed_Host (hinfo_ip h) (hinfo_port h)) (gr_host rsp)))"

text \<open>
  The test client of the DNS service shows the table: the service's handler answers its request with one
  message, and for that message the client prints the pair, how many hosts there are, and exactly the hosts
  the table has for the pair.
\<close>

theorem dns_test_shows_table:
  assumes "wire_format rt" and "route_get_hosts (dns_route d) = table_hosts rows" and "iterates ord"
    and "\<forall>row \<in> set rows. 0 \<le> sint (atoi (row ! 4))"
  shows "\<exists>answer d' hosts.
    handle_all (app_router (dns_app ord (\<lambda>b. the (decode_GetRouteRequest rt b)) (encode_GetRouteResponse rt)) fd) [dns_test_request rt] d =
      ([answer], d') \<and>
    handle_all (client_add_msg_router ID_GetRouteResponse (deal_get_route rt left) None new_msg_router) [answer] [] =
      ([], Printed_Pair 1 1 (int (length hosts)) # map (\<lambda>(ip, port). Printed_Host ip port) hosts) \<and>
    set hosts = {(atoi (row ! 3), atoi (row ! 4)) | row. row \<in> set rows \<and> atoi (row ! 1) = 1 \<and> atoi (row ! 2) = 1}"
proof -
  let ?req = "\<lparr>grq_modid = 1, grq_cmdid = 1\<rparr> :: GetRouteRequest"
  let ?rsp = "route_response ord (dns_route d) 1 1"
  let ?hosts = "map (\<lambda>h. (hinfo_ip h, hinfo_port h)) (grs_host ?rsp)"
  have req: "dns_test_request rt = (ID_GetRouteRequest, encode_GetRouteRequest rt ?req)"
    by (simp add: dns_test_request_def encode_GetRouteRequest_def pb_access)
  have "fst (get_request ord fd ?req d) = ?rsp" by (simp add: get_request_def Let_def split: option.split)
  then obtain d' where d': "get_request ord fd ?req d = (?rsp, d')" by (metis prod.collapse)
  have asked: "handle_all (app_router (dns_app ord (\<lambda>b. the (decode_GetRouteRequest rt b)) (encode_GetRouteResponse rt)) fd) [dns_test_request rt] d =
      ([(ID_GetRouteResponse, encode_GetRouteResponse rt ?rsp)], d')"
    by (simp add: req handled_dns get_request_cb_def wire_format.GetRouteRequest_back [OF assms(1)] d')
  obtain m where m: "ParseFromArray GetRouteResponse_Clear (GetRouteResponse_InternalParse rt) (encode_GetRouteResponse rt ?rsp) GetRouteResponse_default = Some m"
      "GetRouteResponse_msg m = ?rsp"
    using wire_format.GetRouteResponse_back [OF assms(1), of ?rsp] by (auto simp: decode_GetRouteResponse_def)
  have hosts: "grs_host ?rsp = map HostInfo_msg (gr_host m)" and pair: "gr_modid m = 1" "gr_cmdid m = 1"
    unfolding m(2) [symmetric] using m(2) by (simp_all add: GetRouteResponse_msg_def route_response_def)
  have "map (\<lambda>h. Printed_Host (hinfo_ip h) (hinfo_port h)) (gr_host m) = map (\<lambda>(ip, port). Printed_Host ip port) ?hosts"
      "length (gr_host m) = length ?hosts"
    unfolding hosts by (simp_all add: HostInfo_msg_def)
  then have "handle_all (client_add_msg_router ID_GetRouteResponse (deal_get_route rt left) None new_msg_router)
      [(ID_GetRouteResponse, encode_GetRouteResponse rt ?rsp)] [] =
      ([], Printed_Pair 1 1 (int (length ?hosts)) # map (\<lambda>(ip, port). Printed_Host ip port) ?hosts)"
    using m(1) pair by (simp add: deal_get_route_def GetRouteResponse_host_size_def)
  moreover have "set ?hosts = {(atoi (row ! 3), atoi (row ! 4)) | row. row \<in> set rows \<and> atoi (row ! 1) = 1 \<and> atoi (row ! 2) = 1}"
    unfolding set_map route_response_table [OF assms(2-4)] by (auto simp: image_def)
  ultimately show ?thesis using asked by blast
qed

theorem dns_test_shows_table_witness:
  "\<exists>d answer d'.
    handle_all (app_router (dns_app sorted_list_of_set (\<lambda>b. the (decode_GetRouteRequest pb_wire b)) (encode_GetRouteResponse pb_wire)) 5)
      [dns_test_request pb_wire] d = ([answer], d') \<and>
    handle_all (client_add_msg_router ID_GetRouteResponse (deal_get_route pb_wire left) None new_msg_router) [answer] [] \<noteq>
      ([], [Printed_Pair 1 1 0])"
proof -
  let ?rows = "[[''1'', ''1'', ''1'', ''9'', ''80'']]"
  obtain r where r: "route_get_hosts r = table_hosts ?rows"
    using load_route_data_rows [of "ex_query (Rows ?rows)" "()" ?rows "()" ex_route]
    by (auto simp: ex_query_answers fun_eq_iff)
  have "iterates (sorted_list_of_set :: uint64 set \<Rightarrow> uint64 list)" by (rule iterates_sorted)
  from dns_test_shows_table [where d = "new_dns_service r" and rows = ?rows and fd = 5 and left = left, OF pw.wire_format_axioms _ this]
  obtain answer d' hosts where
    "handle_all (app_router (dns_app sorted_list_of_set (\<lambda>b. the (decode_GetRouteRequest pb_wire b)) (encode_GetRouteResponse pb_wire)) 5)
      [dns_test_request pb_wire] (new_dns_service r) = ([answer], d')"
    "handle_all (client_add_msg_router ID_GetRouteResponse (deal_get_route pb_wire left) None new_msg_router) [answer] [] =
      ([], Printed_Pair 1 1 (int (length hosts)) # map (\<lambda>(ip, port). Printed_Host ip port) hosts)"
    "set hosts = {(atoi (row ! 3), atoi (row ! 4)) | row. row \<in> set ?rows \<and> atoi (row ! 1) = 1 \<and> atoi (row ! 2) = 1}"
    using r by (auto simp: new_dns_service_def ex_numbers)
  moreover from this(3) have "hosts \<noteq> []" by (auto simp: ex_numbers)
  ultimately show ?thesis by (intro exI [of _ "new_dns_service r"] exI [of _ answer] exI [of _ d']) simp
qed

text \<open>An option \<open>-p\<close> at the end of the command line is a null pointer for \<open>atoi\<close>.\<close>

lemma port_option_needs_value: "parseOption [''dns_test'', ''-h'', ''127.0.0.1'', ''-p''] = Inl Null_Deref"
  by (simp add: parseOption_def)

subsection \<open>The test client of the reporter\<close>

text \<open>\<open>reportClient.cpp\<close>; \<open>r\<close> is what \<open>rand\<close> returns and \<open>now\<close> what \<open>time\<close> does.\<close>

definition test_result :: "nat \<Rightarrow> HostCallResult_pb" where
  "test_result i =
     HostCallResult_set_overload True (HostCallResult_set_err 3 (HostCallResult_set_succ 100
       (HostCallResult_set_port (word_of_nat ((i + 1) * (i + 1))) (HostCallResult_set_ip (word_of_nat (i + 1)) HostCallResult_default))))"

definition report_status :: "nat \<Rightarrow> int \<Rightarrow> ReportStatusRequest_pb" where
  "report_status r now =
     (let req = ReportStatusRequest_set_ts (word_of_int now) (ReportStatusRequest_set_caller 123 (ReportStatusRequest_set_cmdid 1
            (ReportStatusRequest_set_modid (word_of_nat (r mod 3 + 1)) ReportStatusRequest_default)))
      in fold (\<lambda>i. ReportStatusRequest_add_results (HostCallResult_CopyFrom (test_result i))) [0..<3] req)"

definition report_after_conn :: "(int32 \<Rightarrow> bool) \<Rightarrow> pb_runtime \<Rightarrow> nat \<Rightarrow> int \<Rightarrow> addr \<Rightarrow> ('task, 'u) client_hook" where
  "report_after_conn pollable rt r now self =
     Some (\<lambda>conn. res_bind (client_send_message pollable self (ReportStatusRequest_InternalSerialize rt (report_status r now))
        ID_ReportStatusRequest conn) (\<lambda>(_, conn). Inr conn))"

text \<open>
  What the reporter stores for it: it reads the report back and runs one statement for each of the three
  hosts, which are 1:1, 2:4 and 3:9.
\<close>

lemma test_report_stored:
  assumes "wire_format rt"
  shows "\<exists>req. decode_ReportStatusRequest rt (ReportStatusRequest_InternalSerialize rt (report_status r now)) = Some req \<and>
    rsr_modid req = word_of_nat (r mod 3 + 1) \<and>
    store query ping garbage req db = run_statements query ping (map (\<lambda>(ip, port). insert_sql req
      \<lparr>hcr_ip = ip, hcr_port = port, hcr_succ = 100, hcr_err = 3, hcr_overload = True\<rparr>) [(1, 1), (2, 4), (3, 9)]) db"
proof -
  let ?req = "\<lparr>rsr_modid = word_of_nat (r mod 3 + 1), rsr_cmdid = 1, rsr_caller = 123,
    rsr_results = map (\<lambda>(ip, port). \<lparr>hcr_ip = ip, hcr_port = port, hcr_succ = 100, hcr_err = 3, hcr_overload = True\<rparr>) [(1, 1), (2, 4), (3, 9)],
    rsr_ts = word_of_int now\<rparr>"
  have "report_status r now = ReportStatusRequest_wire ?req"
    by (simp add: report_status_def test_result_def upt_rec HostCallResult_copy(1) pb_access)
  then have "decode_ReportStatusRequest rt (ReportStatusRequest_InternalSerialize rt (report_status r now)) = Some ?req"
    using wire_format.ReportStatusRequest_back [OF assms, of ?req] by (simp add: encode_ReportStatusRequest_def)
  then show ?thesis by (intro exI [of _ ?req]) (simp add: store_runs)
qed

subsection \<open>The example of the client library\<close>

text \<open>
  \<open>example.cpp\<close>: a host for the pair of the command line, and a report of success when there is one. The
  result is the exit code, the host printed and the datagram of the report.
\<close>

definition api_example where
  "api_example ser parse ntoa ser_report aton junk send_ok report_ok recvs buf argv api =
     (if length argv \<noteq> 3 then Some (Inr (1 :: int32, None, None))
      else
        (let modid = atoi (argv ! 1); cmdid = atoi (argv ! 2)
         in map_option (\<lambda>r. res_bind r (\<lambda>r.
              (case api_host r of
                 Some (ip, port) \<Rightarrow>
                   if api_ret r = 0 then
                     res_bind (api_report ser_report aton junk report_ok modid cmdid ip port 0 (api_client r)) (\<lambda>sent. Inr (0, Some (ip, port), sent))
                   else Inr (0, None, None)
               | None \<Rightarrow> Inr (0, None, None))))
              (api_get_host ser parse ntoa send_ok recvs buf modid cmdid api)))"

text \<open>
  With an answer for its question the program prints the host it names and reports a success for just
  that host to the agent's server it asked; called without a pair it asks nothing.
\<close>

lemma api_example_reports:
  assumes "\<And>r junk. parse (ser_rsp r @ junk) (int (length (ser_rsp r))) = Some r" and "\<And>a. aton (ntoa a) = Some a"
    and "modid = atoi (argv ! 1)" and "cmdid = atoi (argv ! 2)" and "length argv = 3"
    and "length (api_sockfd c) = 3" and "0 \<le> route_index modid cmdid"
    and "8 + length (ser \<lparr>ghq_seq = api_seqid c, ghq_modid = modid, ghq_cmdid = cmdid\<rparr>) \<le> 4096"
    and "rsp = \<lparr>ghs_seq = api_seqid c, ghs_modid = modid, ghs_cmdid = cmdid, ghs_retcode = 0, ghs_host = Some h\<rparr>"
    and "length (ser_rsp rsp) \<le> 81912"
    and "report = \<lparr>rrq_modid = modid, rrq_cmdid = cmdid, rrq_host = Some h, rrq_retcode = 0\<rparr>" and "8 + length (ser_report report) \<le> 4096"
  shows "api_example ser parse ntoa ser_report aton junk True True [Some (frame (ID_GetHostResponse, ser_rsp rsp))] buf argv c =
    Some (Inr (0, Some (ntoa (hinfo_ip h), hinfo_port h),
      Some (api_sockfd c ! nat (route_index modid cmdid), frame (ID_ReportRequest, ser_report report))))"
proof -
  have three: "route_index modid cmdid < 3" by (auto simp: route_index_def Let_def)
  then have pick: "pick_socket modid cmdid (c\<lparr>api_seqid := api_seqid c + 1\<rparr>) = Inr (api_sockfd c ! nat (route_index modid cmdid))"
    using assms(6,7) by (simp add: pick_socket_def)
  have "recv_answer parse (api_seqid c) [Some (frame (ID_GetHostResponse, ser_rsp rsp))] buf = Some (Inr rsp)"
    using recv_stale [where stale = "[]" and rest = "[]" and rsp = rsp and seq = "api_seqid c" and buf = buf, OF assms(1)] assms(9,10)
    by (simp del: recv_answer.simps)
  then have "api_get_host ser parse ntoa True [Some (frame (ID_GetHostResponse, ser_rsp rsp))] buf modid cmdid c = Some (Inr
      \<lparr>api_ret = 0, api_host = Some (ntoa (hinfo_ip h), hinfo_port h),
       api_sent = Some (api_sockfd c ! nat (route_index modid cmdid), frame (ID_GetHostRequest, ser \<lparr>ghq_seq = api_seqid c, ghq_modid = modid, ghq_cmdid = cmdid\<rparr>)),
       api_client = c\<lparr>api_seqid := api_seqid c + 1\<rparr>\<rparr>)"
    using pick assms(8,9) by (simp add: api_get_host_def api_answer_def api_datagram_def Let_def get_host_field_def)
  then show ?thesis
    unfolding api_example_def assms(3,4) [symmetric] Let_def
    using pick assms(2,5,11,12) by (cases h) (simp add: api_report_def api_datagram_def Let_def)
qed

lemma api_example_usage:
  "length argv \<noteq> 3 \<Longrightarrow> api_example ser parse ntoa ser_report aton junk send_ok report_ok recvs buf argv c = Some (Inr (1, None, None))"
  by (simp add: api_example_def)

end
