(* ===== verification/Agent_Session.thy ===== *)
theory Agent_Session
  imports Session Dns_Server Lb_Agent Lars_Pb_Laws
begin

text \<open>
  The agent's DNS client (\<open>lars_lb_agent/src/dns_client.cpp\<close>) as the application of a client connection, and
  the session it has with the DNS service: the requests of the agent's queue go out as messages, and every
  answer is merged into the agent's tables by the callback.
\<close>

text \<open>
  The application of the connection is the agent, or the fault that an answer has ended it with: a callback
  that faults leaves its fault, and nothing is handled after it.
\<close>

definition deal_recv_route_cb :: "(byte list \<Rightarrow> GetRouteResponse) \<Rightarrow> (unit, agent res) handler" where
  "deal_recv_route_cb parse arg msgid data s = ([], res_bind s (deal_recv_route (parse data)))"

definition dns_client_router :: "(byte list \<Rightarrow> GetRouteResponse) \<Rightarrow> ((unit, agent res) handler, unit) msg_router" where
  "dns_client_router parse = client_add_msg_router ID_GetRouteResponse (deal_recv_route_cb parse) None new_msg_router"

lemma handled_dns_client:
  "handled (dns_client_router parse) i b ag = (if i = ID_GetRouteResponse then deal_recv_route_cb parse None i b ag else ([], ag))"
  by (simp add: handled_def dns_client_router_def client_add_msg_router_def regist_msg_router_def new_msg_router_def)

text \<open>The two ends over the wire format \<open>rt\<close>.\<close>

abbreviation dns_client_routes :: "pb_runtime \<Rightarrow> ((unit, agent res) handler, unit) msg_router" where
  "dns_client_routes rt \<equiv> dns_client_router (\<lambda>b. the (decode_GetRouteResponse rt b))"

abbreviation dns_server_routes :: "pb_runtime \<Rightarrow> (uint64 set \<Rightarrow> uint64 list) \<Rightarrow> int32 \<Rightarrow> ((unit, dns_service) handler, unit) msg_router" where
  "dns_server_routes rt ord fd \<equiv>
     add_msg_router ID_GetRouteRequest (get_request_cb ord (\<lambda>b. the (decode_GetRouteRequest rt b)) (encode_GetRouteResponse rt) fd) None new_msg_router"

definition dns_client_end :: "pb_runtime \<Rightarrow> (int32 \<Rightarrow> bool) \<Rightarrow> addr \<Rightarrow> connect_env \<Rightarrow> (('task, agent res) tcp_client, unit, agent res) endpoint" where
  "dns_client_end rt pollable self env = client_end pollable self None None env (dns_client_routes rt)"

definition dns_server_end :: "pb_runtime \<Rightarrow> (uint64 set \<Rightarrow> uint64 list) \<Rightarrow> (int32 \<Rightarrow> bool) \<Rightarrow> addr \<Rightarrow> int32 \<Rightarrow>
    (('task, dns_service) tcp_conn, unit, dns_service) endpoint" where
  "dns_server_end rt ord pollable self fd = server_end pollable self (close_hook ord) (dns_server_routes rt ord fd)"

text \<open>One request that the service handles and one answer that the agent handles.\<close>

lemma request_handled:
  assumes "wire_format rt" and "get_request ord fd req d = (rsp, d')"
  shows "handle_all (dns_server_routes rt ord fd) [(ID_GetRouteRequest, encode_GetRouteRequest rt req)] d =
    ([(ID_GetRouteResponse, encode_GetRouteResponse rt rsp)], d')"
  using assms(2) pb_round_trips [OF assms(1)] by (simp add: handled_dns get_request_cb_def)

lemma answer_merged:
  assumes "wire_format rt" and "deal_recv_route rsp ag = Inr ag'"
  shows "handle_all (dns_client_routes rt) [(ID_GetRouteResponse, encode_GetRouteResponse rt rsp)] (Inr ag) = ([], Inr ag')"
  using assms(2) pb_round_trips [OF assms(1)] by (simp add: handled_dns_client deal_recv_route_cb_def)

text \<open>
  When a session has carried one request and nothing else was posted by the service, and nothing is under way
  any more, then the agent has merged the answer of the service's table and the service has the subscription.
\<close>

lemma lookup_session:
  assumes "wire_format rt"
    and "conn_ok oc c" and "front_in c" and "Tcp_Client.connected pollable (sockfd c) c" and "in_bytes c = []" and "out_bytes c = []"
    and "conn_ok od d" and "front_in d" and "armed pollable' d" and "in_bytes d = []" and "out_bytes d = []"
    and "rtranclp (session_step (dns_client_end rt pollable self env) (dns_server_end rt ord pollable' self' fd))
      (new_side c, new_side d, [], []) (a, b, [], [])"
    and "posted a = [(ID_GetRouteRequest, encode_GetRouteRequest rt req)]" and "length (posted b) \<le> 1"
    and "out_bytes (side_conn a) = []" and "out_bytes (side_conn b) = []"
    and "get_request ord fd req (app d) = (rsp, s)" and "cli_app c = Inr ag" and "deal_recv_route rsp ag = Inr ag'"
  shows "cli_app (side_conn a) = Inr ag'" and "app (side_conn b) = s"
proof -
  let ?ra = "dns_client_routes rt" and ?rb = "dns_server_routes rt ord fd"
  let ?answer = "(ID_GetRouteResponse, encode_GetRouteResponse rt rsp)"
  note inv = session_holds [OF assms(2-11) assms(12) [unfolded dns_client_end_def dns_server_end_def]]
  have "taken b = posted a" "taken a = posted b" "app (side_conn b) = snd (handle_all ?rb (taken b) (app d))"
    "subseq (fst (handle_all ?rb (taken b) (app d))) (posted b)" "cli_app (side_conn a) = snd (handle_all ?ra (taken a) (cli_app c))"
    using cs.session_refines(4,5) [OF inv] inv assms(15,16) by (simp_all add: session_inv.simps dns_client_end_def dns_server_end_def)
  note s = this request_handled [OF assms(1,17)] answer_merged [OF assms(1,19)] assms(18)
  then have "subseq [?answer] (posted b)" using assms(13) by simp
  then have "posted b = [?answer]" using assms(14) by (cases "posted b") (auto split: if_splits)
  then show "cli_app (side_conn a) = Inr ag'" "app (side_conn b) = s" using s assms(13) by simp_all
qed


text \<open>There is such a session, if the messages fit and the process does not exit at the pool's limit.\<close>

lemma lookup_session_runs:
  assumes "wire_format rt"
    and "conn_ok oc c" and "front_in c" and "Tcp_Client.connected pollable (sockfd c) c" and "in_bytes c = []" and "out_bytes c = []"
    and "conn_ok od d" and "front_in d" and "armed pollable' d" and "in_bytes d = []" and "out_bytes d = []"
    and "get_request ord fd req (app d) = (rsp, s)" and "cli_app c = Inr ag" and "deal_recv_route rsp ag = Inr ag'"
    and "good_msg (ID_GetRouteRequest, encode_GetRouteRequest rt req)" and "good_msg (ID_GetRouteResponse, encode_GetRouteResponse rt rsp)"
  shows "(\<exists>s. rtranclp (session_step (dns_client_end rt pollable self env) (dns_server_end rt ord pollable' self' fd)) (new_side c, new_side d, [], []) s \<and>
      can_exit (dns_client_end rt pollable self env) (dns_server_end rt ord pollable' self' fd) s) \<or>
    (\<exists>a b. rtranclp (session_step (dns_client_end rt pollable self env) (dns_server_end rt ord pollable' self' fd))
        (new_side c, new_side d, [], []) (a, b, [], []) \<and> posted a = [(ID_GetRouteRequest, encode_GetRouteRequest rt req)] \<and> length (posted b) \<le> 1 \<and>
      out_bytes (side_conn a) = [] \<and> out_bytes (side_conn b) = [])"
proof -
  have ok: "client_ok pollable c" "server_ok pollable' d" using assms(2-4,7-9) by (auto simp: client_ok_def server_ok_def)
  note run = cs.exchange [where start = None and close = None and hook = "close_hook ord" and ra = "dns_client_routes rt" and
      rb = "dns_server_routes rt ord fd" and self = self and self' = self' and env = env, OF ok, unfolded client_end_sel server_end_sel,
      folded dns_client_end_def dns_server_end_def]
  from run [OF assms(5,6,10,11,15) request_handled [OF assms(1,12)] assms(16) answer_merged [OF assms(1,14), folded assms(13)]] show ?thesis by force
qed

end
