(* ===== verification/Echo_Callbacks.thy ===== *)
theory Echo_Callbacks
  imports Tcp_Conn_Props
begin

text \<open>
  The two callbacks \<open>server_rd_callback\<close> and \<open>server_wt_callback\<close> of \<open>lars_reactor/src/tcp_server.cpp\<close>, from before
  the server had connections: what arrives is kept in one global message, whose length is a \<open>char\<close>, and written
  back. The line of \<open>do_accept\<close> that registered them is commented out.
\<close>

subsection \<open>The callbacks\<close>

datatype echo_cb = Echo_Rd | Echo_Wr

text \<open>The global \<open>msg\<close>, the pool, the loop, the closed descriptors, and what the sockets have taken. \<open>char\<close> is signed.\<close>

record 'task echo_state =
  msg_data :: "byte list"
  msg_len :: "8 word"
  echo_pool :: buf_pool
  echo_loop :: "(echo_cb, unit, 'task) event_loop"
  closed_fds :: "int32 list"
  echo_wire :: "byte list"

text \<open>
  A negative length becomes a huge one in \<open>memcpy\<close>, which \<open>rb_data\<close> and \<open>mem_read\<close> refuse. The buffer object is
  local: what is left in it returns to the pool.
\<close>

definition server_rd_callback :: "(int32 \<Rightarrow> bool) \<Rightarrow> int32 \<Rightarrow> int option \<Rightarrow> io_result \<Rightarrow> 'task echo_state \<Rightarrow> 'task echo_state res" where
  "server_rd_callback pollable fd fionread got s =
     res_bind (read_data fionread got (None, echo_pool s)) (\<lambda>(ret, rb, p).
       if ret = - 1 \<or> ret = 0 then
         res_bind (rb_clear (rb, p)) (\<lambda>(_, p).
           Inr (s\<lparr>echo_pool := p, echo_loop := del_io_event pollable fd (echo_loop s), closed_fds := closed_fds s @ [fd]\<rparr>))
       else
         res_bind (rb_length rb p) (\<lambda>n. let len = word_of_int n :: 8 word in
         res_bind (mem_write 0 [0] (msg_data s)) (\<lambda>d.
         res_bind (rb_data (sint len) rb p) (\<lambda>bs.
         res_bind (mem_write 0 bs d) (\<lambda>d.
         res_bind (rb_pop (sint len) (rb, p)) (\<lambda>rp.
         res_bind (rb_adjust rp) (\<lambda>rp.
         res_bind (rb_clear rp) (\<lambda>(_, p).
           Inr (s\<lparr>msg_data := d, msg_len := len, echo_pool := p,
             echo_loop := add_io_event pollable fd Echo_Wr EPOLLOUT (Some ()) (del_io_mask pollable fd EPOLLIN (echo_loop s))\<rparr>)))))))))"

text \<open>The loop over \<open>write2fd\<close>; \<open>None\<close> when the list of answers is used up. The first component is false after an error.\<close>

fun echo_writes :: "io_result list \<Rightarrow> byte list \<Rightarrow> reactor_buf \<times> buf_pool \<Rightarrow> (bool \<times> byte list \<times> reactor_buf \<times> buf_pool) res option" where
  "echo_writes ws out (rb, p) =
     (case rb_length rb p of
        Inl f \<Rightarrow> Some (Inl f)
      | Inr n \<Rightarrow>
          if n = 0 then Some (Inr (True, out, rb, p))
          else (case ws of
                  [] \<Rightarrow> None
                | w # ws \<Rightarrow>
                    (case res_bind (write2fd w (rb, p)) (\<lambda>(ret, rp). res_bind (rb_data (max 0 ret) rb p) (\<lambda>bs. Inr (ret, bs, rp))) of
                       Inl f \<Rightarrow> Some (Inl f)
                     | Inr (ret, bs, rp) \<Rightarrow>
                         if ret = - 1 then Some (Inr (False, out, rp))
                         else if ret = 0 then Some (Inr (True, out, rp))
                         else echo_writes ws (out @ bs) rp)))"

declare echo_writes.simps [simp del]

definition server_wt_callback :: "(int32 \<Rightarrow> bool) \<Rightarrow> int32 \<Rightarrow> io_result list \<Rightarrow> 'task echo_state \<Rightarrow> 'task echo_state res option" where
  "server_wt_callback pollable fd ws s =
     (case res_bind (mem_read 0 (sint (msg_len s)) (msg_data s)) (\<lambda>bs. send_data bs (None, echo_pool s)) of
        Inl f \<Rightarrow> Some (Inl f)
      | Inr (ret, rp) \<Rightarrow>
          map_option (\<lambda>r. res_bind r (\<lambda>(fine, out, rp). res_bind (rb_clear rp) (\<lambda>(_, p).
            let s = s\<lparr>echo_pool := p, echo_wire := echo_wire s @ out\<rparr> in
            if fine then
              Inr (s\<lparr>echo_loop := add_io_event pollable fd Echo_Rd EPOLLIN (Some ()) (del_io_mask pollable fd EPOLLOUT (echo_loop s))\<rparr>)
            else Inr s)))
            (echo_writes ws [] rp))"

subsection \<open>What they echo\<close>

lemma switch_event:
  assumes "loop_ok el" and "pollable fd" and "io_evs el fd = Some ev" and "ev_mask ev = msk" and "msk = EPOLLIN \<or> msk = EPOLLOUT"
    and "msk' = EPOLLIN \<or> msk' = EPOLLOUT"
  shows "loop_ok (add_io_event pollable fd cb msk' args (del_io_mask pollable fd msk el))"
    and "io_evs (add_io_event pollable fd cb msk' args (del_io_mask pollable fd msk el)) fd = Some (registered fd cb msk' args None)"
    and "fd' \<noteq> fd \<Longrightarrow> io_evs (add_io_event pollable fd cb msk' args (del_io_mask pollable fd msk el)) fd' = io_evs el fd'"
proof -
  let ?el = "del_io_mask pollable fd msk el"
  have ok: "loop_ok ?el" by (rule loop_ok_del_mask [where pollable = pollable, OF assms(1,2,5)])
  have none: "io_evs ?el fd = None" "\<And>x. x \<noteq> fd \<Longrightarrow> io_evs ?el x = io_evs el x"
    using assms(3,4) by (auto simp: del_io_mask_def del_io_event_def Let_def split: option.splits)
  show "loop_ok (add_io_event pollable fd cb msk' args ?el)"
    using loop_ok_add [where pollable = pollable, OF ok assms(2)] assms(6) by auto
  show "io_evs (add_io_event pollable fd cb msk' args ?el) fd = Some (registered fd cb msk' args None)"
    using none(1) by (simp add: io_evs_add)
  show "fd' \<noteq> fd \<Longrightarrow> io_evs (add_io_event pollable fd cb msk' args ?el) fd' = io_evs el fd'"
    using none(2) by (simp add: add_io_event_ok_eq [where pollable = pollable, OF ok assms(2)])
qed

lemma sint_char: "sint (of_nat n :: 8 word) = (if n mod 256 < 128 then int (n mod 256) else int (n mod 256) - 256)"
proof -
  let ?m = "int (n mod 256)"
  have "sint (of_nat n :: 8 word) = signed_take_bit 7 (int n)" by (simp add: signed_of_nat)
  also have "\<dots> = (int n + 128) mod 256 - 128" by (simp add: signed_take_bit_eq_take_bit_shift take_bit_eq_mod)
  also have "(int n + 128) mod 256 = (?m + 128) mod 256" unfolding zmod_int by (simp add: mod_add_left_eq)
  finally have sint: "sint (of_nat n :: 8 word) = (?m + 128) mod 256 - 128" .
  have m: "0 \<le> ?m" "?m < 256" by simp_all
  show ?thesis
  proof (cases "n mod 256 < 128")
    case True
    then have "(?m + 128) mod 256 = ?m + 128" by (intro mod_pos_pos_trivial) linarith+
    then show ?thesis using sint True by simp
  next
    case False
    have "(?m + 128) mod 256 = ((?m - 128) + 256) mod 256" by (simp add: add.commute)
    also have "\<dots> = ?m - 128" using m False unfolding mod_add_self2 by (intro mod_pos_pos_trivial) linarith+
    finally show ?thesis using sint False by simp
  qed
qed

lemma echo_writes_ok:
  assumes "rb_ok others rb p" and "at_front rb p" and "\<forall>k \<in> set ks. 0 < k"
  shows "\<exists>rb' p'. echo_writes (kernel_writes ks (rb_content rb p) @ [Io_Again]) out (rb, p) =
      Some (Inr (True, out @ take (sum_list ks) (rb_content rb p), rb', p')) \<and> rb_ok others rb' p'"
  using assms
proof (induction ks arbitrary: out rb p)
  case Nil
  show ?case
  proof (cases "rb_content rb p = []")
    case True
    then show ?thesis using Nil.prems rb_length_ok [OF Nil.prems(1)] by (subst echo_writes.simps) simp
  next
    case False
    then obtain a where a: "rb = Some a" using content_not_None by blast
    obtain b where "bufs p a = Some b" "buf_head b = 0"
      using rb_ok_Some [of others a p] Nil.prems(1,2) a by (auto simp: at_front_def)
    then have "write2fd Io_Again (rb, p) = Inr (0, rb, p)" by (simp add: write2fd_def deref_def a)
    then show ?thesis using Nil.prems False rb_length_ok [OF Nil.prems(1)] rb_data_ok [OF Nil.prems(1), of 0]
      by (subst echo_writes.simps) simp
  qed
next
  case (Cons k ks)
  show ?case
  proof (cases "rb_content rb p = []")
    case True
    then show ?thesis using Cons.prems rb_length_ok [OF Cons.prems(1)] by (subst echo_writes.simps) simp
  next
    case False
    define n where "n = min k (length (rb_content rb p))"
    then have n: "n \<le> length (rb_content rb p)" "0 < n" "drop k (rb_content rb p) = drop n (rb_content rb p)"
      using False Cons.prems(3) by (simp_all add: min_def)
    obtain a where a: "rb = Some a" using False content_not_None by blast
    obtain p1 where one: "write2fd (Io_Written n) (rb, p) = Inr (int n, rb, p1)" "rb_ok others rb p1" "at_front rb p1"
        "rb_content rb p1 = drop n (rb_content rb p)"
      using write2fd_ok [of others a p n] Cons.prems(1,2) a n(1) by auto
    have "rb_data (int n) rb p = Inr (take n (rb_content rb p))"
      using rb_data_ok [OF Cons.prems(1), of "int n"] n(1) by simp
    then have "echo_writes (kernel_writes (k # ks) (rb_content rb p) @ [Io_Again]) out (rb, p) =
        echo_writes (kernel_writes ks (drop n (rb_content rb p)) @ [Io_Again]) (out @ take n (rb_content rb p)) (rb, p1)"
      using rb_length_ok [OF Cons.prems(1)] False one(1) n by (subst echo_writes.simps) (simp flip: n_def)
    moreover have "take n (rb_content rb p) @ take (sum_list ks) (drop n (rb_content rb p)) = take (sum_list (k # ks)) (rb_content rb p)"
      using n(1,3) by (simp add: take_add n_def min_def)
    ultimately show ?thesis using Cons.IH [OF one(2,3), of "out @ take n (rb_content rb p)"] Cons.prems(3) one(4) by simp
  qed
qed


text \<open>
  C36: The length of the global message is a \<open>char\<close>: of \<open>bs\<close> bytes that arrive at once the first
  \<open>length bs mod 256\<close> are kept when that is below 128, and then echoed as far as the socket takes them in one go,
  what it does not take being lost; otherwise the copy gets a negative length and runs out of bounds. The
  descriptor goes from reading to writing and back.
\<close>

theorem echo_length_limit:
  assumes "pool_ok others (echo_pool s)" and "loop_ok (echo_loop s)" and "pollable fd" and "length (msg_data s) = 4096"
    and "io_evs (echo_loop s) fd = Some ev" and "ev_mask ev = EPOLLIN" and "bs \<noteq> []" and "int (length bs) \<le> m8M"
    and "\<forall>k \<in> set ks. 0 < k"
  shows "let n = length bs mod 256; rd = server_rd_callback pollable fd (Some (int (length bs))) (Io_Bytes bs) s in
    rd = Inl Exited \<or>
    (if 128 \<le> n then rd = Inl Out_Of_Bounds
     else \<exists>s1. rd = Inr s1 \<and> take n (msg_data s1) = take n bs \<and> io_evs (echo_loop s1) fd = Some (registered fd Echo_Wr EPOLLOUT (Some ()) None) \<and>
       (let wt = server_wt_callback pollable fd (kernel_writes ks (take n bs) @ [Io_Again]) s1 in
        wt = Some (Inl Exited) \<or>
        (\<exists>s2. wt = Some (Inr s2) \<and> echo_wire s2 = echo_wire s @ take (sum_list ks) (take n bs) \<and> pool_ok others (echo_pool s2) \<and>
           loop_ok (echo_loop s2) \<and> io_evs (echo_loop s2) fd = Some (registered fd Echo_Rd EPOLLIN (Some ()) None))))"
proof -
  let ?n = "length bs mod 256" and ?rd = "server_rd_callback pollable fd (Some (int (length bs))) (Io_Bytes bs) s"
  have nil: "rb_ok others None (echo_pool s)" "at_front None (echo_pool s)" "rb_content None (echo_pool s) = []"
    using assms(1) by (simp_all add: rb_ok_def at_front_def rb_content_def)
  have len: "0 < int (length bs)" "int (length (rb_content None (echo_pool s))) + int (length bs) \<le> m8M" using assms(7,8) nil(3) by simp_all
  note mem = mem_write_def [of 0 "[0]" "msg_data s"]
  from read_data_ok [OF nil(1,2) len refl] show ?thesis
  proof (elim disjE exE conjE)
    fix rb p
    assume r: "read_data (Some (int (length bs))) (Io_Bytes bs) (None, echo_pool s) = Inr (int (length bs), rb, p)"
      "rb_ok others rb p" "rb_content rb p = rb_content None (echo_pool s) @ bs"
    then have c: "rb_content rb p = bs" "rb_length rb p = Inr (int (length bs))" "rb \<noteq> None"
      using nil(3) rb_length_ok [OF r(2)] assms(7) content_not_None [of rb p] by auto
    define d where "d = 0 # drop 1 (msg_data s)"
    have d: "mem_write 0 [0] (msg_data s) = Inr d" "length d = 4096" using assms(4) by (simp_all add: mem_write_def d_def)
    show ?thesis
    proof (cases "128 \<le> ?n")
      case True
      obtain a where a: "rb = Some a" using c(3) by blast
      then obtain b where "bufs p a = Some b" using rb_ok_Some [of others a p] r(2) by auto
      then have "rb_data (int ?n - 256) rb p = Inl Out_Of_Bounds" by (simp add: a rb_data_def deref_def mem_read_def)
      then have "?rd = Inl Out_Of_Bounds"
        using r(1) c(2) d(1) True assms(7) by (simp add: server_rd_callback_def sint_char Let_def)
      then show ?thesis using True by (simp add: Let_def)
    next
      case False
      then have n: "?n < 128" "?n \<le> length bs" by simp_all
      then have sint: "sint (of_nat (length bs) :: 8 word) = int ?n" using sint_char [of "length bs"] by simp
      have data: "rb_data (int ?n) rb p = Inr (take ?n bs)" using rb_data_ok [OF r(2), of "int ?n"] c(1) n(2) by simp
      define d1 where "d1 = take ?n bs @ drop ?n d"
      have d1: "mem_write 0 (take ?n bs) d = Inr d1" "length d1 = 4096" "take ?n d1 = take ?n bs"
        using n d(2) by (simp_all add: mem_write_def d1_def min_def)
      obtain rb1 p1 where pop: "rb_pop (int ?n) (rb, p) = Inr (rb1, p1)" "rb_ok others rb1 p1"
        using rb_pop_ok [OF r(2), of "int ?n"] c(1,3) n(2) by auto
      obtain p2 where adj: "rb_adjust (rb1, p1) = Inr (rb1, p2)" "rb_ok others rb1 p2" using rb_adjust_ok [OF pop(2)] by blast
      obtain p3 where clr: "rb_clear (rb1, p2) = Inr (None, p3)" "rb_ok others None p3" using rb_clear_ok [OF adj(2)] by blast
      let ?el = "add_io_event pollable fd Echo_Wr EPOLLOUT (Some ()) (del_io_mask pollable fd EPOLLIN (echo_loop s))"
      let ?s1 = "s\<lparr>msg_data := d1, msg_len := word_of_int (int (length bs)), echo_pool := p3, echo_loop := ?el\<rparr>"
      have rd: "?rd = Inr ?s1"
        using r(1) c(2) d(1) sint data d1(1) pop(1) adj(1) clr(1) assms(7) by (simp add: server_rd_callback_def Let_def)
      note w = switch_event [where pollable = pollable and cb = Echo_Wr and args = "Some ()" and msk = EPOLLIN and msk' = EPOLLOUT, OF assms(2,3,5,6)]
      note w = w(1,2) [OF disjI1 [OF refl] disjI2 [OF refl]]
      let ?el2 = "add_io_event pollable fd Echo_Rd EPOLLIN (Some ()) (del_io_mask pollable fd EPOLLOUT ?el)"
      have mask: "ev_mask (registered fd Echo_Wr EPOLLOUT (Some ()) None) = EPOLLOUT" by (simp add: registered_def)
      note w2 = switch_event [where pollable = pollable and cb = Echo_Rd and args = "Some ()" and msk = EPOLLOUT and msk' = EPOLLIN,
          OF w(1) assms(3) w(2) mask disjI2 [OF refl] disjI1 [OF refl]]
      have nil3: "at_front None p3" "rb_content None p3 = []" by (simp_all add: at_front_def rb_content_def)
      have read: "mem_read 0 (int ?n) d1 = Inr (take ?n bs)" using n(1) d1(2,3) by (simp add: mem_read_def)
      have "int (length (rb_content None p3)) + int (length (take ?n bs)) \<le> m8M" using nil3(2) assms(8) by simp
      from send_data_ok [OF clr(2) nil3(1) this]
      have "server_wt_callback pollable fd (kernel_writes ks (take ?n bs) @ [Io_Again]) ?s1 = Some (Inl Exited) \<or>
        (\<exists>s2. server_wt_callback pollable fd (kernel_writes ks (take ?n bs) @ [Io_Again]) ?s1 = Some (Inr s2) \<and>
           echo_wire s2 = echo_wire s @ take (sum_list ks) (take ?n bs) \<and> pool_ok others (echo_pool s2) \<and> echo_loop s2 = ?el2)"
      proof (elim disjE exE conjE)
        fix rb4 p4
        assume s4: "send_data (take ?n bs) (None, p3) = Inr (0, rb4, p4)" "rb_ok others rb4 p4" "at_front rb4 p4"
          "rb_content rb4 p4 = rb_content None p3 @ take ?n bs"
        then have c4: "rb_content rb4 p4 = take ?n bs" using nil3(2) by simp
        obtain rb5 p5 where ws: "echo_writes (kernel_writes ks (take ?n bs) @ [Io_Again]) [] (rb4, p4) =
            Some (Inr (True, take (sum_list ks) (take ?n bs), rb5, p5))" "rb_ok others rb5 p5"
          using echo_writes_ok [OF s4(2,3) assms(9), of "[]"] c4 by auto
        obtain p6 where "rb_clear (rb5, p5) = Inr (None, p6)" "rb_ok others None p6" using rb_clear_ok [OF ws(2)] by blast
        then show ?thesis using s4(1) ws(1) read sint by (simp add: server_wt_callback_def Let_def rb_ok_def)
      qed (simp add: server_wt_callback_def read sint)
      then show ?thesis using rd d1(3) w(2) w2(1,2) False by (auto simp: Let_def)
    qed
  qed (simp add: server_rd_callback_def Let_def)
qed


text \<open>A message of 300 bytes: 44 of them come back. One of 200 ends the server.\<close>

definition ex_echo :: "unit echo_state" where
  "ex_echo = \<lparr>msg_data = replicate 4096 0, msg_len = 0, echo_pool = ex_pool Map.empty,
     echo_loop = add_io_event (\<lambda>_. True) 5 Echo_Rd EPOLLIN (Some ()) new_event_loop, closed_fds = [], echo_wire = []\<rparr>"

theorem echo_length_limit_witness:
  "(let rd = server_rd_callback (\<lambda>_. True) 5 (Some 300) (Io_Bytes (replicate 300 7)) ex_echo in
    rd = Inl Exited \<or>
    (\<exists>s1. rd = Inr s1 \<and>
       (let wt = server_wt_callback (\<lambda>_. True) 5 (kernel_writes [50] (replicate 44 7) @ [Io_Again]) s1 in
        wt = Some (Inl Exited) \<or> (\<exists>s2. wt = Some (Inr s2) \<and> echo_wire s2 = replicate 44 7)))) \<and>
   server_rd_callback (\<lambda>_. True) 5 (Some 200) (Io_Bytes (replicate 200 7)) ex_echo \<in> {Inl Exited, Inl Out_Of_Bounds}"
proof -
  have pool: "pool_ok {} (echo_pool ex_echo)" unfolding ex_echo_def by simp (rule ex_pool_ok, auto)
  have loop: "loop_ok (echo_loop ex_echo)"
    using loop_ok_add [where pollable = "\<lambda>_. True" and fd = 5 and msk = EPOLLIN, OF loop_ok_new] by (simp add: ex_echo_def)
  have len: "length (msg_data ex_echo) = 4096" by (simp add: ex_echo_def)
  have ev: "io_evs (echo_loop ex_echo) 5 = Some (registered 5 Echo_Rd EPOLLIN (Some ()) None)" "ev_mask (registered 5 Echo_Rd EPOLLIN (Some ()) None) = EPOLLIN"
    by (simp_all add: ex_echo_def io_evs_add new_event_loop_def registered_def)
  have wire: "echo_wire ex_echo = []" by (simp add: ex_echo_def)
  note limit = echo_length_limit [OF pool loop TrueI len ev]
  show ?thesis
    using limit [of "replicate 300 7" "[50]"] limit [of "replicate 200 7" "[]"] by (simp add: Let_def m8M_def wire) blast
qed

end
