(* ===== verification/Spec2Isabelle.thy ===== *)
theory Spec2Isabelle
  imports Dns_Server Pb_Build Load_Balance_Props Lb_Agent Reactor_Buf Tcp_Conn_Props Tcp_Client Tcp_Server Lars_Api Reporter_Server Examples Agent_Session Echo_Callbacks
begin

text \<open>
  Lars is a load-balancing system in C++ (paths below are under \<open>src/Lars/\<close>). A business program links
  the client library (\<open>api/cpp/lars_api\<close>) and asks the agent on its machine (\<open>lars_lb_agent\<close>) over UDP
  for a host that serves a pair modid/cmdid, and reports how the call went. The agent keeps one
  balancer per pair, fetches the hosts of a new pair from the DNS service (\<open>lars_dns\<close>), which keeps
  the route table loaded from MySQL and pushes changes to its subscribers, and sends call statistics
  to the reporter (\<open>lars_reporter\<close>), which stores them in MySQL. All of them run on the reactor library
  (\<open>lars_reactor\<close>): event loops over epoll, TCP and UDP endpoints that carry framed messages, buffers
  from a pool, worker threads fed by queues. Messages are protobuf (\<open>base/proto\<close>).

  \<^bold>\<open>Theories.\<close>
  \<^item> \<open>Lars_Prelude\<close>: machine integers, faults (\<open>'a res\<close> is a fault or a value; undefined behaviour of C++
    is the fault the model stops at), \<open>res_bind\<close> and \<open>res_fold\<close>, the packing of two 32-bit numbers
    into a 64-bit key, hash maps as association lists, and two interfaces: \<open>op_machine\<close> (an invariant
    kept by every operation) and \<open>dealer\<close> (work dealt to queues in turn).
  \<^item> \<open>Event_Loop\<close> (\<open>lars_reactor/src/event_loop.cpp\<close>): the table of callbacks, the kernel's set, the
    dispatch of a batch, the ready tasks. \<open>Thread_Queue\<close> (\<open>include/thread_queue.h\<close>): a queue with an
    eventfd, as the interface \<open>task_channel\<close>. \<open>Config_File\<close> (\<open>src/config_file.cpp\<close>).
  \<^item> \<open>Buf_Pool\<close> (\<open>io_buf.cpp\<close>, \<open>buf_pool.cpp\<close>): buffers at addresses, the lists of free buffers by size.
    \<open>Reactor_Buf\<close> (\<open>reactor_buf.cpp\<close>): the input and output buffer of a connection.
  \<^item> \<open>Message\<close> (\<open>include/message.h\<close>): the eight-byte head and the router; \<open>frame\<close> and \<open>decode\<close> say what a
    stream of messages is. \<open>Tcp_Conn\<close> (\<open>tcp_conn.cpp\<close>) models a connection; \<open>Tcp_Stream\<close> proves, in
    the interfaces \<open>stream_handler\<close> and \<open>stream_sender\<close>, what reading and answering a stream does;
    \<open>Tcp_Conn_Props\<close> and \<open>Tcp_Client\<close> (\<open>tcp_client.cpp\<close>) interpret them for the two ends. \<open>Session\<close> joins a
    client and a server: both are a \<open>live_end\<close>, and every interleaving of their events refines two queues of
    messages (\<open>queue_step\<close>).
  \<^item> \<open>Thread_Pool\<close> (\<open>thread_pool.cpp\<close>), \<open>Tcp_Server\<close> (\<open>tcp_server.cpp\<close>), \<open>Udp\<close> (\<open>udp_server.cpp\<close>,
    \<open>udp_client.cpp\<close>).
  \<^item> \<open>Server_Process\<close>, \<open>Server_Run\<close>: a whole server process. The callbacks of \<open>tcp_conn.cpp\<close>,
    \<open>tcp_server.cpp\<close> and \<open>thread_pool.cpp\<close> behind the dispatch of every thread's loop work on the shared
    table, objects, buffer pool and queues; \<open>server_step\<close> is one event, one message sent by the
    application, one task, or a change of the application's own state. What an application owes the server
    is the interface \<open>server_application\<close>.
  \<^item> \<open>Lars_Proto\<close>: the messages as the programs see them. \<open>Pb_Wire\<close>: what the generated code calls of the
    protobuf runtime, as the record \<open>pb_runtime\<close>, with the documented wire format as the interface
    \<open>wire_format\<close> and the varint encoding \<open>pb_wire\<close> as its interpretation. \<open>Pb_Message\<close>: the loop all
    generated classes share. \<open>Lars_Pb\<close>, \<open>Lars_Pb_Laws\<close>: the seven classes of \<open>base/proto/lars.pb.cpp\<close>.
    \<open>Lars_Pb_Access\<close>: their accessors, copies and swaps (\<open>lars.pb.h\<close>, \<open>lars.pb.cpp\<close>). \<open>Pb_Build\<close>: the messages
    as the programs fill them, call by call. \<open>Pb_Object\<close>: messages as objects on and off arenas, with
    assignment, move and swap by address. \<open>Pb_Schema\<close>: \<open>lars.proto\<close> itself, the descriptor and the tables the
    generated code keeps of it, and one serializer that reads only the schema.
  \<^item> \<open>Double_Div\<close> (the floating-point quotients of the balancer), \<open>Load_Balance\<close> and \<open>Load_Balance_Props\<close>
    (\<open>load_balance.cpp\<close>, \<open>host_info.cpp\<close>), \<open>Route_LB\<close> (\<open>route_lb.cpp\<close>), \<open>Lb_Agent\<close> (\<open>main_server.cpp\<close>,
    \<open>agent_udp_server.cpp\<close>, \<open>dns_client.cpp\<close>, \<open>report_client.cpp\<close>).
  \<^item> \<open>Dns_Route\<close> (\<open>dns_route.cpp\<close>), \<open>Subscribe\<close> (\<open>subscribe.cpp\<close>), \<open>Dns_Service\<close> (\<open>dns_service.cpp\<close>).
    \<open>Dns_Server\<close>: the service as the application of the server process, and its push on the process' objects.
    \<open>Agent_Session\<close>: the agent's DNS client and the service as the two ends of a session.
  \<^item> \<open>Reporter\<close> (\<open>reporter_service.cpp\<close>, \<open>store_report.cpp\<close>, \<open>store_thread.cpp\<close>); \<open>Reporter_Server\<close>: the reporter
    as the application of the server process. \<open>Lars_Api\<close> (\<open>api/cpp/lars_api/lars_api.cpp\<close>).
  \<^item> \<open>Echo_Pb\<close> (\<open>example/qps_test/echoMessage.pb.cc\<close>, \<open>.pb.h\<close>): a message class with a string. \<open>Qps_Example\<close> (the
    throughput example, client and server) and \<open>Examples\<close> (the other example and test programs).
    \<open>Echo_Callbacks\<close>: the two callbacks of \<open>tcp_server.cpp\<close> that nothing registers any more.
  This theory composes them: a lookup from the agent through the DNS service and back, also over a TCP session,
  a change of the
  route table from the DNS service's push to the agent's balancer, and call statistics from a balancer to
  the database.

  \<^bold>\<open>State and operations.\<close> A class is a record with its members and a definition per method, named as in
  the source (with a prefix where two classes share a name). A method takes the object and returns it
  updated, in \<open>res\<close> when it can exit, abort or reach undefined behaviour, and in \<open>option\<close> when it can
  run forever. Objects that are shared by pointers live in maps from addresses (hosts of a balancer,
  buffers of the pool, connections of a server). What the kernel, the clock, MySQL and protobuf answer
  is an argument; nothing is assumed of what MySQL makes of the bytes that the code sends behind a
  statement. An application of the server process or of a session whose callbacks can fault is in \<open>res\<close>
  too, and stays at its first fault. A mutex makes an operation atomic; where code runs outside its lock, or without one,
  the interleaving is a sequence of smaller steps (\<open>agent_step\<close>, \<open>push_mod\<close>, \<open>run_handlers\<close>). In a server
  process a step is a whole callback, of any thread: callbacks of different threads share only the pool, the
  table and the queues, which their mutexes guard, and the application's state.

  \<^bold>\<open>What the lemmas show.\<close>
  \<^item> Invariants over every sequence of operations: the lists of a balancer and its hosts
    (\<open>lb_ok\<close>), the agent (\<open>agent_ok\<close>), subscriptions and connections (\<open>dns_ok\<close>), the loop's tables and the
    kernel's set (\<open>loop_ok\<close>), the pool and the buffers in use (\<open>pool_ok\<close>), the storage queues (\<open>rep_ok\<close>), a server process
    (\<open>server_inv\<close>: table, objects, loops, buffers, queues and the count of connections agree), the DNS service
    in it (\<open>dns_inv\<close>: its subscriptions are those of the open connections).
  \<^item> Functional behaviour: choices go round the hosts, overloaded hosts are probed, reports move hosts
    exactly at the configured rates, an answer is merged, a change is pushed, requests of a stream are
    answered in order however it is cut, queued bytes reach the socket, connections and reports are
    dealt in turn.
  \<^item> Refinement and equivalence: a client, a server and the two streams between them, and two queues of messages;
    the two reading loops of the UDP endpoints and a list of datagrams; the
    inner loop of the generated parsers and the plain one; the quotients of doubles and exact ones; messages
    filled by accessors and the records that stand for them; the generated serializers and the schema-driven
    one; the registered descriptor and the protocol file.
  \<^item> Round trips: heads and frames, configuration files, 64-bit keys, datagrams, all messages.
  \<^item> Termination: every generated parser ends on every input; the string-list and read loops end.
  \<^item> Safety of a server: no event of any reachable state makes it fail, whatever the kernel answers, as long as
    the answers fit (\<open>event_fits\<close>: no more bytes than announced, descriptors that are free, complete messages with
    bodies, room in the largest buffer); and what happens on one connection leaves the others as they were.
  \<^item> Errors: where the code aborts, exits, or reads outside an array, the lemma says exactly when. These
    are the findings of the manifest.

  \<^bold>\<open>Bounds.\<close> No fuel is used: recursive definitions are structural or have a measure; the reading loop of
  a connection and the generated parsers are \<open>partial_function\<close>s, proved to return. Lists of
  kernel answers are consumed by the loops that wait for them; where such a list is used up, the result
  is \<open>None\<close>, the loop still waiting.

  \<^bold>\<open>Not modelled.\<close> The vendored MySQL headers (\<open>base/mysql-connector-c\<close>), SQL scripts, and the
  creation of threads in the \<open>main\<close> functions. Of the generated classes: the reflection interface of the runtime behind the tables, and
  what an object holds after a failed parse. \<open>ReportRequest\<close> is in \<open>lars.proto\<close> but not in the generated code, so its encoding is a
  parameter. Log output, socket options, signals and the sleeping of threads have no effect on the
  modelled state. Destructors that only free memory are left out.
\<close>

subsection \<open>Route lookup\<close>

text \<open>Hosts with ports that are not negative come out of their keys in the table as they went in.\<close>

lemma route_response_distinct:
  assumes "route_get_hosts r = table_hosts rows" and "iterates ord" and "\<forall>row \<in> set rows. 0 \<le> sint (atoi (row ! 4))"
  shows "distinct (grs_host (route_response ord r modid cmdid))"
proof -
  have "inj_on decode_host (table_hosts rows modid cmdid)"
    using assms(3) by (auto simp: inj_on_def table_hosts_def decode_host_def unpack_pack64_nonneg [simplified])
  then show ?thesis
    using iteratesD [OF assms(2) finite_table_hosts, of rows modid cmdid]
    by (simp add: route_response_def assms(1) distinct_map)
qed

text \<open>What a client thread hands to its connection: the messages in the order they are sent.\<close>

definition note_sent :: "byte list \<Rightarrow> int32 \<Rightarrow> msg list \<Rightarrow> msg list" where
  "note_sent bs msgid ms = ms @ [(msgid, bs)]"

text \<open>
  C1: A lookup through the whole system: a running agent answers a first request for a pair with
  \<open>RET_NOEXIST\<close> and its DNS client sends one encoded route request; the DNS service decodes it to the
  same pair and answers with the hosts its table has for it; the agent decodes that answer, merges it,
  and answers as many requests as there are hosts with each of them once.
\<close>

theorem route_looked_up_through_dns:
  assumes "wire_format rt" and "rtranclp agent_step new_agent ag" and "ag_pc ag = Running" and "dns_queue ag = Some q" and "tq_queue q = []"
    and "0 \<le> route_index (ghq_modid req) (ghq_cmdid req)"
    and "route_lb_at (route_index (ghq_modid req) (ghq_cmdid req)) ag = Inr rl"
    and "rl_find rl (ghq_modid req) (ghq_cmdid req) = None"
    and "route_get_hosts (dns_route d) = table_hosts rows" and "iterates ord" and "\<forall>row \<in> set rows. 0 \<le> sint (atoi (row ! 4))"
    and "row \<in> set rows" and "atoi (row ! 1) = ghq_modid req" and "atoi (row ! 2) = ghq_cmdid req"
  shows "\<exists>rsp1 ag1 ag2 bytes rsp d' ag3 answers ag4.
    get_host_cb g st (route_index (ghq_modid req) (ghq_cmdid req)) req ag = Inr (rsp1, ag1) \<and> ghs_retcode rsp1 = RET_NOEXIST \<and>
    new_dns_request (encode_GetRouteRequest rt) note_sent (ag1, []) = Inr (ag2, [(ID_GetRouteRequest, bytes)]) \<and>
    get_request ord fd (the (decode_GetRouteRequest rt bytes)) d = (rsp, d') \<and>
    deal_recv_route (the (decode_GetRouteResponse rt (encode_GetRouteResponse rt rsp))) ag2 = Inr ag3 \<and>
    ask (route_index (ghq_modid req) (ghq_cmdid req)) req (length (grs_host rsp)) ag3 = Inr (answers, ag4) \<and>
    (\<forall>a \<in> set answers. ghs_retcode a = RET_SUCC \<and> ghs_seq a = ghq_seq req) \<and> distinct (map ghs_host answers) \<and>
    ghs_host ` set answers = {Some \<lparr>hinfo_ip = atoi (row ! 3), hinfo_port = atoi (row ! 4)\<rparr> | row.
      row \<in> set rows \<and> atoi (row ! 1) = ghq_modid req \<and> atoi (row ! 2) = ghq_cmdid req}"
proof -
  let ?m = "ghq_modid req" and ?c = "ghq_cmdid req" and ?route = "\<lparr>grq_modid = ghq_modid req, grq_cmdid = ghq_cmdid req\<rparr>"
  let ?rsp = "route_response ord (dns_route d) ?m ?c" and ?q = "Some (snd (tq_recv [] (tq_send ?route q)))"
  obtain rsp d' where rsp: "get_request ord fd ?route d = (rsp, d')" by fastforce
  then have "rsp = ?rsp" by (auto simp: get_request_def Let_def split: option.splits if_splits)
  have set: "set (grs_host ?rsp) = {\<lparr>hinfo_ip = atoi (row ! 3), hinfo_port = atoi (row ! 4)\<rparr> | row.
      row \<in> set rows \<and> atoi (row ! 1) = ?m \<and> atoi (row ! 2) = ?c}"
    by (rule route_response_table [OF assms(9-11)])
  then have ne: "grs_host ?rsp \<noteq> []" using assms(12-14) by fastforce
  have dist: "distinct (grs_host ?rsp)" by (rule route_response_distinct [OF assms(9-11)])
  obtain ag1 ag3 ag4 where
    get: "get_host_cb g st (route_index ?m ?c) req ag = Inr ((empty_rsp req)\<lparr>ghs_retcode := RET_NOEXIST\<rparr>, ag1)"
    and q1: "dns_queue ag1 = Some (tq_send ?route q)"
    and upd: "deal_recv_route \<lparr>grs_modid = ?m, grs_cmdid = ?c, grs_host = grs_host ?rsp\<rparr> (ag1\<lparr>dns_queue := ?q\<rparr>) = Inr ag3"
    and more: "ask (route_index ?m ?c) req (length (grs_host ?rsp)) ag3 = Inr (map (\<lambda>h.
      (empty_rsp req)\<lparr>ghs_retcode := RET_SUCC, ghs_host := Some h\<rparr>) (grs_host ?rsp), ag4)"
    using agent_lookup [OF assms(7,8) dist ne assms(4), of g st ?q] by blast
  have "new_dns_request (encode_GetRouteRequest rt) note_sent (ag1, []) =
      Inr (ag1\<lparr>dns_queue := ?q\<rparr>, [(ID_GetRouteRequest, encode_GetRouteRequest rt ?route)])"
    using fst_tq_recv [of "[]" "tq_send ?route q"] q1 assms(5)
    by (cases "tq_recv [] (tq_send ?route q)") (simp add: new_dns_request_def note_sent_def)
  moreover have "\<lparr>grs_modid = ?m, grs_cmdid = ?c, grs_host = grs_host ?rsp\<rparr> = ?rsp" by (simp add: route_response_def)
  moreover have "decode_GetRouteResponse rt (encode_GetRouteResponse rt ?rsp) = Some ?rsp"
    "decode_GetRouteRequest rt (encode_GetRouteRequest rt ?route) = Some ?route"
    using pb_round_trips [OF assms(1)] by blast+
  moreover have "ghs_seq (empty_rsp req) = ghq_seq req" by (simp add: empty_rsp_def)
  moreover have "(Some \<circ> f) ` {g row | row. P row} = {Some (f (g row)) | row. P row}" for f g and P :: "row \<Rightarrow> bool" by auto
  ultimately show ?thesis
    using get rsp \<open>rsp = ?rsp\<close> upd more dist set
    by (intro exI conjI) (assumption | simp add: comp_def distinct_map image_image)+
qed

subsection \<open>Route changes\<close>

lemma host_keys_table:
  assumes "route_get_hosts route = table_hosts rows" and "iterates ord" and "\<forall>row \<in> set rows. 0 \<le> sint (atoi (row ! 4))"
  shows "host_key ` set (grs_host (route_response ord route modid cmdid)) = table_hosts rows modid cmdid"
proof -
  have "host_key (decode_host k) = k" if "k \<in> table_hosts rows modid cmdid" for k
    using that assms(3) by (auto simp: table_hosts_def host_key_def decode_encode)
  moreover have "set (ord (table_hosts rows modid cmdid)) = table_hosts rows modid cmdid"
    using iteratesD [OF assms(2) finite_table_hosts] by blast
  ultimately show ?thesis by (simp add: route_response_def assms(1) image_image)
qed

text \<open>A route answer the agent handles: the balancer has exactly the answer's hosts, or is gone when there are none.\<close>

lemma answer_handled:
  assumes "rtranclp agent_step new_agent ag" and "ag_pc ag = Running"
    and "route_lb_at (route_index (grs_modid rsp) (grs_cmdid rsp)) ag = Inr rl"
    and "rl_find rl (grs_modid rsp) (grs_cmdid rsp) = Some lb" and "no_stale lb"
  shows "\<exists>ag' rl'. deal_recv_route rsp ag = Inr ag' \<and> route_lb_at (route_index (grs_modid rsp) (grs_cmdid rsp)) ag' = Inr rl' \<and>
    (case rl_find rl' (grs_modid rsp) (grs_cmdid rsp) of
       None \<Rightarrow> grs_host rsp = []
     | Some lb' \<Rightarrow> grs_host rsp \<noteq> [] \<and> dom (host_of lb') = host_key ` set (grs_host rsp))"
proof -
  let ?m = "grs_modid rsp" and ?c = "grs_cmdid rsp"
  have rl: "rl_ok rl"
    using route_lb_at_ok [OF agm.inv_reachable [OF refl assms(1)] _ assms(3)] assms(2) by simp
  have lb: "lb_ok lb" using rl_ok_find [OF rl assms(4)] by simp
  have "\<exists>rl'. update_host (lb_config ag) ?m ?c rsp rl = Inr (0, rl') \<and>
      (case rl_find rl' ?m ?c of None \<Rightarrow> grs_host rsp = []
       | Some lb' \<Rightarrow> grs_host rsp \<noteq> [] \<and> dom (host_of lb') = host_key ` set (grs_host rsp))"
  proof (cases "grs_host rsp = []")
    case True
    have "hm_wf (route_lb_map rl)" using rl by (simp add: rl_ok_def)
    then show ?thesis using assms(4) True by (simp add: update_host_def rl_find_def delete_conv')
  next
    case False
    obtain lb' where "lb_update (lb_config ag) (grs_host rsp) lb = Inr lb'" "lb_ok lb'" "live_keys lb' = host_key ` set (grs_host rsp)"
      using lb_update_clean [OF lb assms(5) False] by blast
    then show ?thesis using assms(4) False dom_host_of [of lb'] by (simp add: update_host_def)
  qed
  then obtain rl' where "update_host (lb_config ag) ?m ?c rsp rl = Inr (0, rl')"
      "case rl_find rl' ?m ?c of None \<Rightarrow> grs_host rsp = []
       | Some lb' \<Rightarrow> grs_host rsp \<noteq> [] \<and> dom (host_of lb') = host_key ` set (grs_host rsp)" by blast
  then show ?thesis
    using assms(3) route_lb_at_set(1) [OF assms(3), of rl'] by (simp add: deal_recv_route_def Let_def)
qed

lemma iterates_single: "iterates ord \<Longrightarrow> ord {x} = [x]"
proof -
  assume "iterates ord"
  then have xs: "set (ord {x}) = {x}" "distinct (ord {x})" using iteratesD [of ord "{x}"] by simp_all
  then have "length (ord {x}) = 1" using distinct_card [of "ord {x}"] by simp
  then obtain y where "ord {x} = [y]" by (auto simp: length_Suc_conv)
  then show ?thesis using xs(1) by simp
qed

text \<open>
  C2: A change of the route table reaches the agents: the backend thread has loaded a table and
  published one changed pair, for which nothing was pending; the push task of a subscribed connection's
  thread queues one message on it, behind what it still had to send; and a running agent that
  gets this message and balances the pair has afterwards exactly the new table's hosts for it, or no
  balancer for it when the table has none.
\<close>

theorem change_reaches_balancer:
  assumes "wire_format rt" and "server_started pollable dns_inv (dns_app ord parse (encode_GetRouteResponse rt)) r0"
    and "rtranclp (server_step pollable dns_inv (dns_app ord parse (encode_GetRouteResponse rt))) r0 r"
    and "iterates ord" and "iterates ordf" and "route_get_hosts route = table_hosts rows" and "\<forall>row \<in> set rows. 0 \<le> sint (atoi (row ! 4))"
    and "open_at r a ob" and "obj_fd ob \<in> subscribers (dns_subs (rapp r)) (pack64 modid cmdid)" and "0 \<le> sint cmdid"
    and "\<forall>fd. pending (dns_subs (rapp r)) fd = {}" and "d' = published_to route [pack64 modid cmdid] (rapp r)"
    and "push_room (\<lambda>_. frame (ID_GetRouteResponse, encode_GetRouteResponse rt (route_response ord route modid cmdid))) r"
    and "rtranclp agent_step new_agent ag" and "ag_pc ag = Running" and "route_lb_at (route_index modid cmdid) ag = Inr rl"
    and "rl_find rl modid cmdid = Some lb" and "no_stale lb"
  shows "push_routes pollable ordf ord (encode_GetRouteResponse rt) (obj_loop ob) (r\<lparr>rapp := d'\<rparr>) = Inl Exited \<or>
    (\<exists>r' ob' bytes ag' rl'. push_routes pollable ordf ord (encode_GetRouteResponse rt) (obj_loop ob) (r\<lparr>rapp := d'\<rparr>) = Inr r' \<and>
       open_at r' a ob' \<and> out_bytes (load_conn ob' r') = out_bytes (load_conn ob r) @ frame (ID_GetRouteResponse, bytes) \<and>
       deal_recv_route (the (decode_GetRouteResponse rt bytes)) ag = Inr ag' \<and>
       route_lb_at (route_index modid cmdid) ag' = Inr rl' \<and>
       (case rl_find rl' modid cmdid of
          None \<Rightarrow> table_hosts rows modid cmdid = {}
        | Some lb' \<Rightarrow> table_hosts rows modid cmdid \<noteq> {} \<and> dom (host_of lb') = table_hosts rows modid cmdid))"
proof -
  let ?ser = "encode_GetRouteResponse rt" and ?rsp = "route_response ord route modid cmdid" and ?m = "pack64 modid cmdid"
  have halves: "hi32 ?m = modid" "lo32 ?m = cmdid" using assms(10) by (simp_all add: hi32_pack64)
  have pend: "pending (dns_subs d') fd = (if fd \<in> subscribers (dns_subs (rapp r)) ?m then {?m} else {})" for fd
    using assms(11) by (auto simp: assms(12))
  have ord: "ord {?m} = [?m]" "ord {} = []" using iterates_single [OF assms(4)] iteratesD [OF assms(4), of "{}"] by simp_all
  have "push_room (\<lambda>fd. if fd \<in> get_listen_fds (loop_at (obj_loop ob) r)
      then pushed_bytes ord ?ser route (ord (pending (dns_subs d') fd)) else []) r"
    by (rule push_room_le [OF assms(13)]) (simp add: pend ord halves)
  moreover have "\<forall>fd \<in> get_listen_fds (loop_at (obj_loop ob) r). pending (dns_subs (rapp r)) fd \<noteq> {} \<longrightarrow> fd \<in> open_fds r"
    using assms(11) by simp
  ultimately have "push_routes pollable ordf ord ?ser (obj_loop ob) (r\<lparr>rapp := d'\<rparr>) = Inl Exited \<or>
    (\<exists>r' ob'. push_routes pollable ordf ord ?ser (obj_loop ob) (r\<lparr>rapp := d'\<rparr>) = Inr r' \<and> open_at r' a ob' \<and>
       out_bytes (load_conn ob' r') = out_bytes (load_conn ob r) @ frame (ID_GetRouteResponse, ?ser ?rsp))"
    using published_queues [OF sm.inv_reachable [OF assms(2,3)] assms(4,5,12)] assms(8,9) by (fastforce simp: pend ord halves)
  moreover have "the (decode_GetRouteResponse rt (?ser ?rsp)) = ?rsp" using pb_round_trips [OF assms(1)] by simp
  moreover have "grs_modid ?rsp = modid" "grs_cmdid ?rsp = cmdid" by (simp_all add: route_response_def)
  moreover note host_keys_table [OF assms(6,4,7), of modid cmdid]
  ultimately show ?thesis
    using answer_handled [OF assms(14,15), of ?rsp rl lb] assms(16-18) by (fastforce split: option.splits)
qed

subsection \<open>Route lookup over a connection\<close>

text \<open>
  C3: A route lookup over TCP: the agent's DNS client and the DNS service are joined by a connection. However
  the bytes of the one request and of its answer are cut and interleaved with the other events of the two
  ends, once nothing is under way any more the agent runs on, its balancer of the pair has exactly the hosts of the
  service's table, or is gone when the table has none, and the service has subscribed the connection.
\<close>

theorem lookup_over_tcp:
  assumes "wire_format rt"
    and "conn_ok oc c" and "front_in c" and "Tcp_Client.connected pollable (sockfd c) c" and "in_bytes c = []" and "out_bytes c = []"
    and "conn_ok od d" and "front_in d" and "armed pollable' d" and "in_bytes d = []" and "out_bytes d = []"
    and "rtranclp (session_step (dns_client_end rt pollable self env) (dns_server_end rt ord pollable' self' fd))
      (new_side c, new_side d, [], []) (a, b, [], [])"
    and "posted a = [(ID_GetRouteRequest, encode_GetRouteRequest rt \<lparr>grq_modid = modid, grq_cmdid = cmdid\<rparr>)]" and "length (posted b) \<le> 1"
    and "out_bytes (side_conn a) = []" and "out_bytes (side_conn b) = []"
    and "route_get_hosts (dns_route (app d)) = table_hosts rows" and "iterates ord" and "\<forall>row \<in> set rows. 0 \<le> sint (atoi (row ! 4))"
    and "conn_param (app d) fd \<noteq> None" and "dns_ok (app d)"
    and "cli_app c = Inr ag" and "rtranclp agent_step new_agent ag" and "ag_pc ag = Running"
    and "route_lb_at (route_index modid cmdid) ag = Inr rl" and "rl_find rl modid cmdid = Some lb" and "no_stale lb"
  shows "\<exists>ag' rl'. cli_app (side_conn a) = Inr ag' \<and> route_lb_at (route_index modid cmdid) ag' = Inr rl' \<and>
    (case rl_find rl' modid cmdid of
       None \<Rightarrow> table_hosts rows modid cmdid = {}
     | Some lb' \<Rightarrow> table_hosts rows modid cmdid \<noteq> {} \<and> dom (host_of lb') = table_hosts rows modid cmdid) \<and>
    fd \<in> subscribers (dns_subs (app (side_conn b))) (pack64 modid cmdid)"
proof -
  let ?rsp = "route_response ord (dns_route (app d)) modid cmdid"
  obtain s where get: "get_request ord fd \<lparr>grq_modid = modid, grq_cmdid = cmdid\<rparr> (app d) = (?rsp, s)"
      "dns_ok s" "pack64 modid cmdid \<in> mods_of s fd"
    using request_subscribes [OF assms(20,21)] by blast
  have ids: "grs_modid ?rsp = modid" "grs_cmdid ?rsp = cmdid" by (simp_all add: route_response_def)
  obtain ag' rl' where ag': "deal_recv_route ?rsp ag = Inr ag'" "route_lb_at (route_index modid cmdid) ag' = Inr rl'"
      "case rl_find rl' modid cmdid of None \<Rightarrow> grs_host ?rsp = []
       | Some lb' \<Rightarrow> grs_host ?rsp \<noteq> [] \<and> dom (host_of lb') = host_key ` set (grs_host ?rsp)"
    using answer_handled [OF assms(23,24), of ?rsp rl lb] assms(25-27) ids by auto
  have "cli_app (side_conn a) = Inr ag'" "app (side_conn b) = s"
    using lookup_session [OF assms(1-16) get(1) assms(22) ag'(1)] by simp_all
  then show ?thesis
    using ag'(2,3) host_keys_table [OF assms(17-19), of modid cmdid] get(2,3)
    by (intro exI [of _ ag'] exI [of _ rl']) (auto simp: dns_ok_def split: option.splits)
qed

subsection \<open>Call statistics\<close>

text \<open>
  C4: The counters of a balancer reach the database: a commit queues one report, the agent's report
  client sends it encoded, the reporter decodes it and gives it to a storage thread, and that thread
  runs one INSERT for each host of the balancer, with the host's real counters and overload flag, the
  pair, and the agent's address.
\<close>

theorem committed_counters_stored:
  assumes "wire_format rt" and "lb_ok lb" and "\<not> lb_empty lb" and "tq_queue q = []"
    and "rep_ok r" and "tq_queue (queues r ! nat (sint (index r))) = []"
  shows "\<exists>q1 ag1 bytes r1 q2 req.
    commit cfg now lb (Some q) = Inr (Some q1) \<and>
    new_report_request (encode_ReportStatusRequest rt) note_sent (ag\<lparr>report_queue := Some q1\<rparr>, []) =
      Inr (ag1, [(ID_ReportStatusRequest, bytes)]) \<and>
    get_report_status (\<lambda>data. the (decode_ReportStatusRequest rt data)) bytes r = Inr r1 \<and>
    thread_report query ping garbage (queues r1 ! nat (sint (index r)), db) =
      (q2, run_statements query ping (map (insert_sql req) (rsr_results req)) db) \<and>
    rsr_modid req = lb_modid lb \<and> rsr_cmdid req = lb_cmdid lb \<and> rsr_caller req = local_ip cfg \<and>
    distinct (rsr_results req) \<and>
    set (rsr_results req) = {\<lparr>hcr_ip = hi_ip h, hcr_port = hi_port h, hcr_succ = rsucc h, hcr_err = rerr h,
      hcr_overload = overload h\<rparr> | h. h \<in> ran (host_of lb)}"
proof -
  let ?parse = "\<lambda>data. the (decode_ReportStatusRequest rt data)" and ?i = "nat (sint (index r))"
  obtain req where req: "commit cfg now lb (Some q) = Inr (Some (tq_send req q))"
      "rsr_modid req = lb_modid lb" "rsr_cmdid req = lb_cmdid lb" "rsr_caller req = local_ip cfg"
      "distinct (map (\<lambda>r. pack64 (hcr_ip r) (hcr_port r)) (rsr_results req))"
      "set (rsr_results req) = {\<lparr>hcr_ip = hi_ip h, hcr_port = hi_port h, hcr_succ = rsucc h,
        hcr_err = rerr h, hcr_overload = overload h\<rparr> | h. h \<in> ran (host_of lb)}"
    using commit_sends [OF assms(2,3), of cfg now q] by blast
  let ?d = "encode_ReportStatusRequest rt req"
  have parse: "?parse ?d = req" using pb_round_trips(5) [OF assms(1), of req] by simp
  have "\<exists>ag1. new_report_request (encode_ReportStatusRequest rt) note_sent (ag\<lparr>report_queue := Some (tq_send req q)\<rparr>, []) =
      Inr (ag1, [(ID_ReportStatusRequest, ?d)])"
    using fst_tq_recv [of "[]" "tq_send req q"] assms(4)
    by (cases "tq_recv [] (tq_send req q)") (simp add: new_report_request_def note_sent_def)
  moreover obtain r1 where r1: "get_report_status ?parse ?d r = Inr r1"
      "\<forall>j < length (queues r). tq_queue (queues r1 ! j) = tq_queue (queues r ! j) @ (if j = ?i then [req] else [])"
    using rd.deal_one [OF assms(5), of ?parse ?d] parse by auto
  moreover have "?i < length (queues r)" using assms(5) by (auto simp: rep_ok_def nat_less_iff)
  then have "tq_queue (queues r1 ! ?i) = [req]" using r1(2) assms(6) by simp
  then have "\<exists>q2. thread_report query ping garbage (queues r1 ! ?i, db) =
      (q2, run_statements query ping (map (insert_sql req) (rsr_results req)) db)"
    using thread_report_runs [of query ping garbage "queues r1 ! ?i" db] by (auto simp: report_statements_def)
  moreover have "distinct (rsr_results req)" using req(5) by (simp add: distinct_map)
  ultimately show ?thesis using req by blast
qed

subsection \<open>Concrete systems\<close>

theorem route_looked_up_through_dns_witness:
  "\<exists>ag d bytes ag2 ag3 answers ag4. ag_pc ag = Running \<and>
    new_dns_request (encode_GetRouteRequest pb_wire) note_sent
      (snd (projr (get_host_cb 0 NEW 0 \<lparr>ghq_seq = 9, ghq_modid = 1, ghq_cmdid = 2\<rparr> ag)), []) =
        Inr (ag2, [(ID_GetRouteRequest, bytes)]) \<and>
    deal_recv_route (the (decode_GetRouteResponse pb_wire (encode_GetRouteResponse pb_wire
      (fst (get_request sorted_list_of_set 5 (the (decode_GetRouteRequest pb_wire bytes)) d))))) ag2 = Inr ag3 \<and>
    ask 0 \<lparr>ghq_seq = 9, ghq_modid = 1, ghq_cmdid = 2\<rparr>
      (length (grs_host (fst (get_request sorted_list_of_set 5 (the (decode_GetRouteRequest pb_wire bytes)) d)))) ag3 =
        Inr (answers, ag4) \<and>
    ghs_host ` set answers = {Some \<lparr>hinfo_ip = 9, hinfo_port = 80\<rparr>}"
proof -
  let ?rows = "[[''1'', ''1'', ''2'', ''9'', ''80'']]" and ?req = "\<lparr>ghq_seq = 9, ghq_modid = 1, ghq_cmdid = 2\<rparr>"
  have i: "route_index 1 2 = 0" by (simp add: route_index_def)
  obtain ag k q where ag: "rtranclp agent_step new_agent ag" "ag_pc ag = Running" "route_lb_at 0 ag = Inr (new_route_lb k)"
      "dns_queue ag = Some q" "tq_queue q = []"
    using running_agent by fastforce
  obtain r where r: "route_get_hosts r = table_hosts ?rows"
    using load_route_data_rows [of "ex_query (Rows ?rows)" "()" ?rows "()" ex_route]
    by (auto simp: ex_query_answers fun_eq_iff)
  have "{Some \<lparr>hinfo_ip = atoi (row ! 3), hinfo_port = atoi (row ! 4)\<rparr> | row.
      row \<in> set ?rows \<and> atoi (row ! 1) = 1 \<and> atoi (row ! 2) = 2} = {Some \<lparr>hinfo_ip = 9, hinfo_port = 80\<rparr>}"
    by (simp add: ex_numbers)
  moreover have "iterates (sorted_list_of_set :: uint64 set \<Rightarrow> uint64 list)" by (rule iterates_sorted)
  ultimately obtain rsp1 ag1 ag2 bytes rsp d' ag3 answers ag4 where
    "get_host_cb 0 NEW 0 ?req ag = Inr (rsp1, ag1)"
    "new_dns_request (encode_GetRouteRequest pb_wire) note_sent (ag1, []) = Inr (ag2, [(ID_GetRouteRequest, bytes)])"
    "get_request sorted_list_of_set 5 (the (decode_GetRouteRequest pb_wire bytes)) (new_dns_service r) = (rsp, d')"
    "deal_recv_route (the (decode_GetRouteResponse pb_wire (encode_GetRouteResponse pb_wire rsp))) ag2 = Inr ag3"
    "ask 0 ?req (length (grs_host rsp)) ag3 = Inr (answers, ag4)"
    "ghs_host ` set answers = {Some \<lparr>hinfo_ip = 9, hinfo_port = 80\<rparr>}"
    using route_looked_up_through_dns [OF pw.wire_format_axioms ag(1,2,4,5), of ?req "new_route_lb k" "new_dns_service r" ?rows
        sorted_list_of_set "hd ?rows" 0 NEW 5] ag(3) r i
    by (auto simp: new_dns_service_def ex_numbers)
  then show ?thesis using ag(2) by (intro exI [of _ ag] exI [of _ "new_dns_service r"]) force
qed

theorem committed_counters_stored_witness:
  "\<exists>q1 bytes ag1 r1 q2 req. commit ex_cfg 5 (ex_lb [0] [1]) (Some (ex_queue 5)) = Inr (Some q1) \<and>
    new_report_request (encode_ReportStatusRequest pb_wire) note_sent (new_agent\<lparr>report_queue := Some q1\<rparr>, []) =
      Inr (ag1, [(ID_ReportStatusRequest, bytes)]) \<and>
    get_report_status (\<lambda>data. the (decode_ReportStatusRequest pb_wire data)) bytes (ex_reporter 0) = Inr r1 \<and>
    thread_report note_query id [] (queues r1 ! 0, []) = (q2, map (insert_sql req) (rsr_results req)) \<and>
    rsr_modid req = 1 \<and> rsr_caller req = 0"
proof -
  have "\<not> lb_empty (ex_lb [0] [1])" by (simp add: lb_empty_def ex_lb_def)
  moreover have "tq_queue (queues (ex_reporter 0) ! nat (sint (index (ex_reporter 0)))) = []"
    by (simp add: ex_reporter_def queues_def ex_queue_def)
  moreover have "tq_queue (ex_queue 5) = []" by (simp add: ex_queue_def)
  moreover have "run_statements note_query id ss [] = ss" for ss
  proof -
    have "run_statements note_query id ss db = db @ ss" for db
      by (induction ss arbitrary: db) (simp_all add: run_statements_def note_query_def)
    then show ?thesis by simp
  qed
  ultimately show ?thesis
    using committed_counters_stored [OF pw.wire_format_axioms lb_ok_ex(1), of "[0]" "[1]" "ex_queue 5" "ex_reporter 0" ex_cfg 5
        new_agent note_query id "[]" "[]"] ex_rep_ok [of 0]
    by (auto simp: ex_reporter_def) (fastforce simp: ex_lb_def ex_cfg_def)
qed

text \<open>An agent that has asked for the pair 1/2: its balancer has no hosts yet.\<close>

lemma asking_agent:
  "\<exists>ag rl lb. rtranclp agent_step new_agent ag \<and> ag_pc ag = Running \<and> route_lb_at 0 ag = Inr rl \<and> rl_find rl 1 2 = Some lb \<and> no_stale lb"
proof -
  obtain ag k q where ag: "rtranclp agent_step new_agent ag" "ag_pc ag = Running" "route_lb_at 0 ag = Inr (new_route_lb k)"
      "dns_queue ag = Some q"
    using running_agent by fastforce
  let ?req = "\<lparr>ghq_seq = 9, ghq_modid = 1, ghq_cmdid = 2\<rparr>"
  obtain rl' q' where get: "get_host (lb_config ag) 0 NEW 1 2 (empty_rsp ?req) (new_route_lb k) (dns_queue ag) =
      Inr (RET_NOEXIST, (empty_rsp ?req)\<lparr>ghs_retcode := RET_NOEXIST\<rparr>, rl', q')" and lb: "\<exists>lb. rl_find rl' 1 2 = Some lb \<and> no_stale lb"
    by (simp add: ag(4) get_host_def pull_def send_queue_def Let_def no_stale_def map_keys_def live_keys_def new_load_balance_def)
  have "get_host_cb 0 NEW 0 ?req ag =
      Inr ((empty_rsp ?req)\<lparr>ghs_retcode := RET_NOEXIST\<rparr>, (set_route_lb 0 rl' ag)\<lparr>dns_queue := q'\<rparr>)"
    by (rule get_host_cb_eq [OF ag(3)]) (simp add: get)
  then have "agent_step ag ((set_route_lb 0 rl' ag)\<lparr>dns_queue := q'\<rparr>)"
    by (rule agent_step.get [rotated -1]) (simp_all add: ag(2))
  moreover have "route_lb_at 0 ((set_route_lb 0 rl' ag)\<lparr>dns_queue := q'\<rparr>) = Inr rl'"
    using route_lb_at_set(1) [OF ag(3)] by (simp add: route_lb_at_set(2))
  ultimately show ?thesis
    using ag(1,2) lb by (intro exI [of _ "(set_route_lb 0 rl' ag)\<lparr>dns_queue := q'\<rparr>"]) (auto intro: rtranclp.rtrancl_into_rtrancl)
qed


theorem change_reaches_balancer_witness:
  "\<exists>route ag. push_routes (\<lambda>_. True) sorted_list_of_set sorted_list_of_set (encode_GetRouteResponse pb_wire) None
      ((ex_conns ex_asked [5])\<lparr>rapp := published_to route [pack64 1 2] ex_asked\<rparr>) = Inl Exited \<or>
    (\<exists>r' ob' bytes ag' rl' lb'. push_routes (\<lambda>_. True) sorted_list_of_set sorted_list_of_set (encode_GetRouteResponse pb_wire) None
        ((ex_conns ex_asked [5])\<lparr>rapp := published_to route [pack64 1 2] ex_asked\<rparr>) = Inr r' \<and>
      open_at r' 0 ob' \<and> out_bytes (load_conn ob' r') = frame (ID_GetRouteResponse, bytes) \<and>
      deal_recv_route (the (decode_GetRouteResponse pb_wire bytes)) ag = Inr ag' \<and>
      route_lb_at 0 ag' = Inr rl' \<and> rl_find rl' 1 2 = Some lb' \<and> dom (host_of lb') = {pack64 9 80})"
proof -
  let ?rows = "[[''1'', ''1'', ''2'', ''9'', ''80'']]" and ?r = "ex_conns ex_asked [5]"
  let ?ord = "sorted_list_of_set :: uint64 set \<Rightarrow> uint64 list" and ?ob = "\<lparr>obj_fd = 5, obj_loop = None, obj_ibuf = None, obj_obuf = None\<rparr>"
  obtain route where route: "route_get_hosts route = table_hosts ?rows"
    using load_route_data_rows [of "ex_query (Rows ?rows)" "()" ?rows "()" ex_route]
    by (auto simp: ex_query_answers fun_eq_iff)
  have i: "route_index 1 2 = 0" by (simp add: route_index_def)
  obtain ag rl lb where ag: "rtranclp agent_step new_agent ag" "ag_pc ag = Running" "route_lb_at (route_index 1 2) ag = Inr rl"
      "rl_find rl 1 2 = Some lb" "no_stale lb"
    using asking_agent i by auto
  have hosts: "table_hosts ?rows 1 2 = {pack64 9 80}" by (auto simp: table_hosts_def ex_numbers)
  have ports: "\<forall>row \<in> set ?rows. 0 \<le> sint (atoi (row ! 4))" by (simp add: ex_numbers)
  have rsp: "route_response ?ord route 1 2 = \<lparr>grs_modid = 1, grs_cmdid = 2, grs_host = [\<lparr>hinfo_ip = 9, hinfo_port = 80\<rparr>]\<rparr>"
    by (simp add: route_response_def route hosts decode_encode)
  have len: "length (encode_GetRouteResponse pb_wire \<lparr>grs_modid = 1, grs_cmdid = 2, grs_host = [\<lparr>hinfo_ip = 9, hinfo_port = 80\<rparr>]\<rparr>) < 100"
    by code_simp
  have only: "open_at ?r a ob \<Longrightarrow> ob = ?ob" for a ob by (auto simp: open_at_def ex_conns_def split: if_splits)
  have u: "rapp ?r = ex_asked" by (simp add: ex_conns_def ex_before_def)
  have room: "push_room (\<lambda>_. frame (ID_GetRouteResponse, encode_GetRouteResponse pb_wire (route_response ?ord route 1 2))) ?r"
    unfolding push_room_def using len by (auto dest!: only simp: rsp ex_bytes m8M_def)
  from change_reaches_balancer [OF pw.wire_format_axioms ex_dns_started ex_dns_run iterates_sorted iterates_sorted route ports
      ex_open(1) [of ex_asked "[]"] _ _ _ _ room ag(1-3) _ ag(5), of "published_to route [pack64 1 2] ex_asked"] ag(4)
  have "push_routes (\<lambda>_. True) sorted_list_of_set ?ord (encode_GetRouteResponse pb_wire) None (?r\<lparr>rapp := published_to route [pack64 1 2] ex_asked\<rparr>) = Inl Exited \<or>
    (\<exists>r' ob' bytes ag' rl'. push_routes (\<lambda>_. True) sorted_list_of_set ?ord (encode_GetRouteResponse pb_wire) None
        (?r\<lparr>rapp := published_to route [pack64 1 2] ex_asked\<rparr>) = Inr r' \<and>
       open_at r' 0 ob' \<and> out_bytes (load_conn ob' r') = out_bytes (load_conn ?ob ?r) @ frame (ID_GetRouteResponse, bytes) \<and>
       deal_recv_route (the (decode_GetRouteResponse pb_wire bytes)) ag = Inr ag' \<and>
       route_lb_at (route_index 1 2) ag' = Inr rl' \<and>
       (case rl_find rl' 1 2 of
          None \<Rightarrow> table_hosts ?rows 1 2 = {}
        | Some lb' \<Rightarrow> table_hosts ?rows 1 2 \<noteq> {} \<and> dom (host_of lb') = table_hosts ?rows 1 2))"
    by (simp add: u ex_asked_subs)
  then show ?thesis
    by (intro exI [of _ route] exI [of _ ag]) (simp add: i hosts ex_bytes split: option.splits, blast)
qed

theorem lookup_over_tcp_witness:
  "\<exists>ag d env. let A = dns_client_end pb_wire (\<lambda>_. True) 0 env; B = dns_server_end pb_wire sorted_list_of_set (\<lambda>_. True) 0 5;
      start = (new_side (ex_joined None (ex_pool Map.empty) (Inr ag)), new_side (ex_conn None (ex_pool Map.empty) d), [], []) in
    (\<exists>s. rtranclp (session_step A B) start s \<and> can_exit A B s) \<or>
    (\<exists>a b ag' rl' lb'. rtranclp (session_step A B) start (a, b, [], []) \<and> cli_app (side_conn a) = Inr ag' \<and> route_lb_at 0 ag' = Inr rl' \<and>
       rl_find rl' 1 2 = Some lb' \<and> dom (host_of lb') = {pack64 9 80})"
proof -
  let ?rows = "[[''1'', ''1'', ''2'', ''9'', ''80'']]" and ?ord = "sorted_list_of_set :: uint64 set \<Rightarrow> uint64 list"
  obtain route where route: "route_get_hosts route = table_hosts ?rows"
    using load_route_data_rows [of "ex_query (Rows ?rows)" "()" ?rows "()" ex_route]
    by (auto simp: ex_query_answers fun_eq_iff)
  have i: "route_index 1 2 = 0" by (simp add: route_index_def)
  obtain ag rl lb where ag: "rtranclp agent_step new_agent ag" "ag_pc ag = Running" "route_lb_at (route_index 1 2) ag = Inr rl"
      "rl_find rl 1 2 = Some lb" "no_stale lb"
    using asking_agent i by auto
  have hosts: "table_hosts ?rows 1 2 = {pack64 9 80}" by (auto simp: table_hosts_def ex_numbers)
  have ports: "\<forall>row \<in> set ?rows. 0 \<le> sint (atoi (row ! 4))" by (simp add: ex_numbers)
  let ?rsp = "\<lparr>grs_modid = 1, grs_cmdid = 2, grs_host = [\<lparr>hinfo_ip = 9, hinfo_port = 80\<rparr>]\<rparr>" and ?req = "\<lparr>grq_modid = 1, grq_cmdid = 2\<rparr>"
  let ?u = "create_subscribe 5 (new_dns_service route)"
  let ?c = "ex_joined None (ex_pool Map.empty) (Inr ag)" and ?d = "ex_conn None (ex_pool Map.empty) ?u"
  have d: "app ?d = ?u" by (simp add: ex_conn_def)
  have table: "route_get_hosts (dns_route (app ?d)) = table_hosts ?rows" unfolding d by (simp add: create_subscribe_def new_dns_service_def route)
  have rsp: "route_response ?ord (dns_route (app ?d)) 1 2 = ?rsp"
    unfolding route_response_def table hosts by (simp add: decode_encode)
  have "dns_ok (new_dns_service route)" by (rule dns_ok_reachable [OF rtranclp.rtrancl_refl iterates_sorted])
  then have dns: "dns_ok (app ?d)" "conn_param (app ?d) 5 \<noteq> None"
    unfolding d by (simp_all add: dns_ok_create new_dns_service_def) (simp add: create_subscribe_def)
  obtain s where get: "get_request ?ord 5 ?req (app ?d) = (?rsp, s)" using request_subscribes [OF dns(2,1), of ?ord 1 2] rsp by auto
  obtain ag' where deal: "deal_recv_route ?rsp ag = Inr ag'"
    using answer_handled [OF ag(1,2), of ?rsp rl lb] ag(3-5) by auto
  have agent: "cli_app ?c = Inr ag" by (simp add: ex_joined_input)
  have "encode_GetRouteRequest pb_wire ?req \<noteq> []" "length (encode_GetRouteRequest pb_wire ?req) < 100"
    "encode_GetRouteResponse pb_wire ?rsp \<noteq> []" "length (encode_GetRouteResponse pb_wire ?rsp) < 100"
    by code_simp+
  then have msgs: "good_msg (ID_GetRouteRequest, encode_GetRouteRequest pb_wire ?req)" "good_msg (ID_GetRouteResponse, encode_GetRouteResponse pb_wire ?rsp)"
    by (simp_all add: good_msg_def lars_defs)
  have conn: "Tcp_Client.connected (\<lambda>_. True) (sockfd ?c) ?c" using ex_client_ok(4) [OF ex_pool_empty] by (simp add: ex_joined_input)
  note ends = ex_client_ok(2) [OF ex_pool_empty] ex_joined_input(2) conn ex_joined_input(1) ex_client_ok(5) [OF ex_pool_empty] ex_conn_ok
  let ?A = "dns_client_end pb_wire (\<lambda>_. True) 0 ex_env" and ?B = "dns_server_end pb_wire ?ord (\<lambda>_. True) 0 5"
  have "(\<exists>s. rtranclp (session_step ?A ?B) (new_side ?c, new_side ?d, [], []) s \<and> can_exit ?A ?B s) \<or>
    (\<exists>a b ag' rl' lb'. rtranclp (session_step ?A ?B) (new_side ?c, new_side ?d, [], []) (a, b, [], []) \<and>
       cli_app (side_conn a) = Inr ag' \<and> route_lb_at 0 ag' = Inr rl' \<and> rl_find rl' 1 2 = Some lb' \<and> dom (host_of lb') = {pack64 9 80})"
    using lookup_session_runs [where self = 0 and self' = 0 and env = ex_env, OF pw.wire_format_axioms ends get agent deal msgs]
  proof (elim disjE exE conjE)
    fix a b
    assume run: "rtranclp (session_step ?A ?B) (new_side ?c, new_side ?d, [], []) (a, b, [], [])"
      "posted a = [(ID_GetRouteRequest, encode_GetRouteRequest pb_wire ?req)]" "length (posted b) \<le> 1"
      "out_bytes (side_conn a) = []" "out_bytes (side_conn b) = []"
    from lookup_over_tcp [OF pw.wire_format_axioms ends run table iterates_sorted ports dns(2,1) agent, of rl lb] ag
    obtain ag' rl' lb' where "cli_app (side_conn a) = Inr ag'" "route_lb_at 0 ag' = Inr rl'" "rl_find rl' 1 2 = Some lb'" "dom (host_of lb') = {pack64 9 80}"
      by (auto simp: i hosts split: option.splits)
    with run(1) show ?thesis by blast
  qed blast
  then show ?thesis unfolding Let_def by blast
qed

end
